(* ===== verification/Prelude.thy ===== *)
theory Prelude
  imports Main "HOL-Library.AList" "HOL-Library.Sublist"
begin

text \<open>
  What every component of the model shares: Go maps as association lists, instants and
  durations as integers, the string predicates of the Go standard library the code calls,
  and the generic facts about lists and maps that the component proofs rest on.
\<close>

named_theorems hub_inv_simps
named_theorems store_simps

section \<open>Time\<close>

text \<open>
  A Go \<open>time.Time\<close> is the number of nanoseconds since the zero instant (year 1), so
  \<open>IsZero\<close> is equality with 0, \<open>Equal\<close> is equality and \<open>Before\<close> / \<open>After\<close> are
  the order. A \<open>time.Duration\<close> is a 64-bit count of nanoseconds; \<open>Sub\<close> saturates.
\<close>

type_synonym timestamp = int
type_synonym duration = int

abbreviation zero_time :: timestamp where
  "zero_time \<equiv> 0"

definition millisecond :: duration where
  "millisecond = 1000000"

definition second :: duration where
  "second = 1000000000"

definition minute :: duration where
  "minute = 60 * second"

definition hour :: duration where
  "hour = 60 * minute"

text \<open>A product or sum of the code's 64-bit integers.\<close>

definition wrap64 :: "int \<Rightarrow> int" where
  "wrap64 k = (k + 2 ^ 63) mod 2 ^ 64 - 2 ^ 63"

lemma wrap64_range: "- (2 ^ 63) \<le> wrap64 k" "wrap64 k < 2 ^ 63"
proof -
  have "0 \<le> (k + 2 ^ 63) mod 2 ^ 64" "(k + 2 ^ 63) mod 2 ^ 64 < 2 ^ 64" by simp_all
  then show "- (2 ^ 63) \<le> wrap64 k" "wrap64 k < 2 ^ 63" by (simp_all add: wrap64_def)
qed

lemma wrap64_exact: "- (2 ^ 63) \<le> k \<Longrightarrow> k < 2 ^ 63 \<Longrightarrow> wrap64 k = k"
  by (simp add: wrap64_def)

definition time_sub :: "timestamp \<Rightarrow> timestamp \<Rightarrow> duration" where
  "time_sub a b = max (- (2 ^ 63)) (min (2 ^ 63 - 1) (a - b))"

lemma time_sub_exact: "\<bar>a - b\<bar> < 2 ^ 63 \<Longrightarrow> time_sub a b = a - b"
  by (simp add: time_sub_def)

lemma time_sub_mono: "a \<le> a' \<Longrightarrow> time_sub a b \<le> time_sub a' b"
  by (simp add: time_sub_def)

lemma time_sub_self [simp]: "time_sub a a = 0"
  by (simp add: time_sub_def)

lemma time_sub_gt:
  assumes "0 \<le> d" and "d < 2 ^ 63 - 1"
  shows "time_sub a b > d \<longleftrightarrow> a - b > d"
  using assms by (auto simp: time_sub_def)

section \<open>Go maps\<close>

text \<open>
  A Go map is an association list with distinct keys. The order of the list is the order one
  \<open>range\<close> loop visits the entries in; Go leaves that order open, and a statement about
  every association list is a statement about every order.
\<close>

type_synonym ('k, 'v) gomap = "('k \<times> 'v) list"

abbreviation gm_wf :: "('k, 'v) gomap \<Rightarrow> bool" where
  "gm_wf m \<equiv> distinct (map fst m)"

abbreviation gm_put :: "'k \<Rightarrow> 'v \<Rightarrow> ('k, 'v) gomap \<Rightarrow> ('k, 'v) gomap" where
  "gm_put \<equiv> AList.update"

abbreviation gm_del :: "'k \<Rightarrow> ('k, 'v) gomap \<Rightarrow> ('k, 'v) gomap" where
  "gm_del \<equiv> AList.delete"

declare update_conv' [simp] delete_conv' [simp] distinct_update [simp] distinct_delete [simp]

lemma gm_put_keys: "fst ` set (gm_put k v m) = insert k (fst ` set m)"
  by (simp add: dom_update)

lemma gm_del_keys: "fst ` set (gm_del k m) = fst ` set m - {k}"
  by (metis delete_keys list.set_map set_removeAll)

lemma set_gm_del: "set (gm_del k m) = {p \<in> set m. fst p \<noteq> k}"
  by (induction m) auto

lemma gm_get_in: "gm_wf m \<Longrightarrow> (k, v) \<in> set m \<Longrightarrow> map_of m k = Some v"
  by simp

lemma gm_get_Some_in: "map_of m k = Some v \<Longrightarrow> (k, v) \<in> set m"
  by (rule map_of_SomeD)

lemma set_gm_put: "gm_wf m \<Longrightarrow> set (gm_put k v m) = insert (k, v) {p \<in> set m. fst p \<noteq> k}"
proof (induction m)
  case Nil
  then show ?case by simp
next
  case (Cons p m)
  then show ?case by (cases p) (auto simp: image_iff)
qed

lemma fst_comp_map_value [simp]: "fst \<circ> (\<lambda>(k, v). (k, f k v)) = fst"
  by auto

lemma gm_wf_map: "gm_wf (map (\<lambda>(k, v). (k, f k v)) m) = gm_wf m"
  by simp

lemma map_of_map_values: "map_of (map (\<lambda>(k, v). (k, f k v)) m) k = map_option (f k) (map_of m k)"
  by (induction m) auto

lemma gm_wf_filter: "gm_wf m \<Longrightarrow> gm_wf (filter P m)"
  by (induction m) auto

lemma map_of_filter_key:
  "gm_wf m \<Longrightarrow> map_of (filter P m) k =
     (case map_of m k of None \<Rightarrow> None | Some v \<Rightarrow> if P (k, v) then Some v else None)"
proof (induction m)
  case Nil
  then show ?case by simp
next
  case (Cons p m)
  have "map_of (filter P m) k = None" if "map_of m k = None"
    using that Cons by simp
  with Cons show ?case
    by (cases p) (auto simp: map_of_eq_None_iff split: option.splits)
qed

text \<open>
  The interface the stores of the service and the drivers rely on: a keyed table whose lookup
  after an insertion or a deletion is what the operation says. The client facts are about
  \<^emph>\<open>moving\<close> an entry from one key to another, which every rename of the code does.
\<close>

locale keyed_table =
  fixes get :: "'m \<Rightarrow> 'k \<Rightarrow> 'v option"
    and put :: "'k \<Rightarrow> 'v \<Rightarrow> 'm \<Rightarrow> 'm"
    and del :: "'k \<Rightarrow> 'm \<Rightarrow> 'm"
    and wf :: "'m \<Rightarrow> bool"
  assumes get_put: "wf m \<Longrightarrow> get (put k v m) k' = (if k' = k then Some v else get m k')"
    and get_del: "wf m \<Longrightarrow> get (del k m) k' = (if k' = k then None else get m k')"
    and wf_put: "wf m \<Longrightarrow> wf (put k v m)"
    and wf_del: "wf m \<Longrightarrow> wf (del k m)"
begin

lemma move_to: "wf m \<Longrightarrow> get (put b v (del a m)) b = Some v"
  by (simp add: get_put wf_del)

lemma move_from: "wf m \<Longrightarrow> a \<noteq> b \<Longrightarrow> get (put b v (del a m)) a = None"
  by (simp add: get_put get_del wf_del)

lemma move_frame: "wf m \<Longrightarrow> c \<noteq> a \<Longrightarrow> c \<noteq> b \<Longrightarrow> get (put b v (del a m)) c = get m c"
  by (simp add: get_put get_del wf_del)

lemma move_wf: "wf m \<Longrightarrow> wf (put b v (del a m))"
  by (simp add: wf_put wf_del)

lemma put_frame: "wf m \<Longrightarrow> c \<noteq> a \<Longrightarrow> get (put a v m) c = get m c"
  by (simp add: get_put)

lemma del_frame: "wf m \<Longrightarrow> c \<noteq> a \<Longrightarrow> get (del a m) c = get m c"
  by (simp add: get_del)

end

interpretation gm: keyed_table map_of gm_put gm_del gm_wf
  by unfold_locales auto

text \<open>The zero value a Go map lookup gives for a missing key.\<close>

definition the_default :: "'a \<Rightarrow> 'a option \<Rightarrow> 'a" where
  "the_default d x = (case x of None \<Rightarrow> d | Some y \<Rightarrow> y)"

lemma the_default_simps [simp]: "the_default d None = d" "the_default d (Some y) = y"
  by (simp_all add: the_default_def)

section \<open>Strings\<close>

text \<open>
  A Go string is its bytes, a \<^typ>\<open>string\<close>; text is valid UTF-8, so a character outside
  ASCII is several bytes, all of them 128 or more.
\<close>

definition has_prefix :: "string \<Rightarrow> string \<Rightarrow> bool" where
  "has_prefix s p = (take (length p) s = p)"

definition has_suffix :: "string \<Rightarrow> string \<Rightarrow> bool" where
  "has_suffix s p = (length p \<le> length s \<and> drop (length s - length p) s = p)"

fun str_contains :: "string \<Rightarrow> string \<Rightarrow> bool" where
  "str_contains s p = (has_prefix s p \<or> (case s of [] \<Rightarrow> False | _ # t \<Rightarrow> str_contains t p))"

definition trim_suffix :: "string \<Rightarrow> string \<Rightarrow> string" where
  "trim_suffix s p = (if has_suffix s p then take (length s - length p) s else s)"

lemma has_prefix_iff: "has_prefix s p \<longleftrightarrow> (\<exists>t. s = p @ t)"
  unfolding has_prefix_def by (metis append_eq_conv_conj append_take_drop_id)

lemma has_prefix_append [simp]: "has_prefix (p @ t) p"
  by (simp add: has_prefix_def)

lemma has_prefix_Nil [simp]: "has_prefix s []"
  by (simp add: has_prefix_def)

lemma has_suffix_iff: "has_suffix s p \<longleftrightarrow> (\<exists>t. s = t @ p)"
proof
  assume "has_suffix s p"
  then have "s = take (length s - length p) s @ p"
    unfolding has_suffix_def by (metis append_take_drop_id)
  then show "\<exists>t. s = t @ p" ..
next
  assume "\<exists>t. s = t @ p"
  then show "has_suffix s p" by (auto simp: has_suffix_def)
qed

lemma has_suffix_append [simp]: "has_suffix (t @ p) p"
  by (auto simp: has_suffix_iff)

lemma trim_suffix_append [simp]: "trim_suffix (t @ p) p = t"
  by (simp add: trim_suffix_def)

lemma str_contains_iff: "str_contains s p \<longleftrightarrow> (\<exists>a b. s = a @ p @ b)"
proof (induction s)
  case Nil
  show ?case by (auto simp: has_prefix_iff)
next
  case (Cons c s)
  have "str_contains (c # s) p \<longleftrightarrow> (\<exists>t. c # s = p @ t) \<or> (\<exists>a b. s = a @ p @ b)"
    using Cons.IH by (simp add: has_prefix_iff)
  also have "\<dots> \<longleftrightarrow> (\<exists>a b. c # s = a @ p @ b)"
    by (metis append_Cons append_Nil list.sel(3) neq_Nil_conv)
  finally show ?case .
qed

declare str_contains.simps [simp del]

text \<open>Decimal rendering, as \<open>%d\<close> and \<open>strconv.Itoa\<close> do it.\<close>

fun show_nat :: "nat \<Rightarrow> string" where
  "show_nat n = (if n < 10 then [char_of (48 + n)] else show_nat (n div 10) @ [char_of (48 + n mod 10)])"

declare show_nat.simps [simp del]

lemma show_nat_nonempty [simp]: "show_nat n \<noteq> []"
  by (subst show_nat.simps) simp

lemma show_nat_body: "c \<in> set (show_nat n) \<Longrightarrow> c \<in> set ''0123456789''"
proof (induction n rule: show_nat.induct)
  case (1 n)
  have "list_all (\<lambda>k :: nat. (char_of (48 + k) :: char) \<in> set ''0123456789'') [0..<10]"
    by code_simp
  then have d: "char_of (48 + k) \<in> set ''0123456789''" if "k < 10" for k :: nat
    using that by (simp add: list_all_iff del: upt_rec_numeral)
  show ?case
  proof (cases "n < 10")
    case True
    with 1(2) have "c = char_of (48 + n)" by (simp add: show_nat.simps [of n])
    with d [OF True] show ?thesis by simp
  next
    case False
    with 1(2) have "c \<in> set (show_nat (n div 10)) \<or> c = char_of (48 + n mod 10)"
      by (simp add: show_nat.simps [of n]) blast
    with d [of "n mod 10"] 1(1) [OF False] show ?thesis by auto
  qed
qed

lemma show_nat_inj: "show_nat m = show_nat n \<Longrightarrow> m = n"
proof -
  define val where "val = foldl (\<lambda>a c. a * 10 + ((of_char c :: nat) - 48)) 0"
  have "val (show_nat k) = k" for k
  proof (induction k rule: show_nat.induct)
    case (1 n)
    show ?case
    proof (cases "n < 10")
      case True
      then show ?thesis by (simp add: show_nat.simps [of n] val_def)
    next
      case False
      then have "val (show_nat n) = val (show_nat (n div 10)) * 10 + n mod 10"
        by (simp add: show_nat.simps [of n] val_def)
      then show ?thesis using 1 [OF False] by simp
    qed
  qed
  then show "show_nat m = show_nat n \<Longrightarrow> m = n" by metis
qed

definition show_int :: "int \<Rightarrow> string" where
  "show_int i = (if i < 0 then CHR ''-'' # show_nat (nat (- i)) else show_nat (nat i))"

definition is_digit :: "char \<Rightarrow> bool" where
  "is_digit c = (48 \<le> (of_char c :: int) \<and> (of_char c :: int) \<le> 57)"

definition digits_value :: "string \<Rightarrow> int" where
  "digits_value s = foldl (\<lambda>acc c. acc * 10 + int (of_char c - 48)) 0 s"

text \<open>\<open>strconv.ParseInt(raw, 10, 64)\<close>: an optional sign, digits, and the 64-bit range.\<close>

definition parse_int64 :: "string \<Rightarrow> int option" where
  "parse_int64 raw =
     (let (neg, body) = (case raw of [] \<Rightarrow> (False, [])
             | c # rest \<Rightarrow> if c = CHR ''-'' then (True, rest) else if c = CHR ''+'' then (False, rest) else (False, raw))
      in if body = [] \<or> \<not> list_all is_digit body then None
         else let v = digits_value body
              in if neg then (if v \<le> 2 ^ 63 then Some (- v) else None)
                 else if v < 2 ^ 63 then Some v else None)"

end
