(* ===== verification/Fleet.thy ===== *)
theory Fleet
  imports Prelude
begin

text \<open>
  The shared vocabulary of the module's root package: references, sessions, session states,
  closed sessions, source statuses and events (\<open>session.go\<close>, \<open>state.go\<close>,
  \<open>closed.go\<close>, \<open>events.go\<close>, \<open>collection.go\<close>). Fields that no modelled
  operation reads or writes are left out of the records; a Go pointer is an option.
\<close>

section \<open>Sessions\<close>

record session_ref =
  ref_machine :: string
  ref_id :: string
  ref_name :: string

record conversation_ref =
  conv_known :: bool
  conv_id :: string
  conv_source :: string
  conv_evidence :: string

record prompt_tab =
  pt_header :: string
  pt_state :: string

record session_prompt =
  sp_question :: string
  sp_options :: "string list"
  sp_selected :: int
  sp_multi_select :: bool
  sp_free_text :: bool
  sp_tabs :: "prompt_tab list"
  sp_tab :: "nat option"
  sp_kind :: string
  sp_nonce :: string

record quota_block =
  qb_since :: timestamp
  qb_reset_hint :: string

record turn_end =
  te_outcome :: string
  te_reason :: string
  te_retryable :: bool

record warning =
  wn_kind :: string
  wn_text :: string

record control_channel =
  cc_state :: string
  cc_reason :: string

record session_state =
  st_status :: string
  st_confidence :: string
  st_evidence :: string
  st_since :: "timestamp option"
  st_prompt :: "session_prompt option"
  st_composer_digest :: string
  st_stranded_delivery :: bool
  st_waiting_on :: string
  st_control_channel :: "control_channel option"
  st_permission_mode :: string
  st_warnings :: "warning list"
  st_screen_digest :: string
  st_quota :: "quota_block option"
  st_last_turn :: "turn_end option"
  st_turns :: "int option"
  st_credential_generation :: "timestamp option"

record session =
  sess_ref :: session_ref
  sess_runtime :: string
  sess_cwd :: string
  sess_agent :: string
  sess_started_at :: "timestamp option"
  sess_conversation :: "conversation_ref option"
  sess_marker :: string
  sess_labels :: "(string, string) gomap"
  sess_state :: session_state

abbreviation sess_id :: "session \<Rightarrow> string" where
  "sess_id s \<equiv> ref_id (sess_ref s)"

abbreviation sess_name :: "session \<Rightarrow> string" where
  "sess_name s \<equiv> ref_name (sess_ref s)"

section \<open>Closed sessions\<close>

datatype closure_kind = ClosedByClose | ClosedByAbsent | ClosedByExit

record session_exit =
  ex_status :: int
  ex_at :: timestamp
  ex_screen_path :: string

record closed_session =
  cl_ref :: session_ref
  cl_runtime :: string
  cl_cwd :: string
  cl_started_at :: "timestamp option"
  cl_conversation :: "conversation_ref option"
  cl_last_seen_at :: timestamp
  cl_closed_at :: timestamp
  cl_closed_by :: closure_kind
  cl_evidence :: string
  cl_exit :: "session_exit option"

section \<open>Sources and events\<close>

datatype source_state = SourceOK | SourceUnreachable | SourceUnauthorized | SourceDegraded

record source_status =
  src_machine :: string
  src_status :: source_state
  src_error :: string
  src_observed_at :: timestamp

datatype resync_reason = ResyncEpochChanged | ResyncCursorExpired | ResyncFeedGap

datatype rename_corroboration =
  RenameAccepted | RenameCorroborated | RenameContested | RenameUnconfirmed

record session_renamed =
  rn_machine :: string
  rn_from :: string
  rn_to :: string
  rn_started_at :: "timestamp option"
  rn_corroboration :: rename_corroboration

text \<open>
  \<open>EventOther\<close> is any kind string outside the constants, which a newer peer may send. The
  payload is an untyped Go interface value: an event decoded from a peer's stream carries the
  generic JSON value (\<open>POpaque\<close>), never one of the typed payloads.
\<close>

datatype event_kind =
  EventSessionCreated | EventSessionState | EventSessionClosed | EventSessionRenamed |
  EventSessionLabels | EventSourceStatus | EventMachineQuota | EventMachineAccount |
  EventControlResync | EventOther string

datatype payload =
  PSession session
| PState session_ref session_state
| PLabels session_ref "timestamp option" "(string, string) gomap"
| PRenamed session_renamed
| PSource source_status
| PQuota string bool "quota_block option"
| PAccount string timestamp
| PResync resync_reason
| POpaque

record event_origin =
  org_cursor :: int
  org_epoch :: string

record event =
  ev_cursor :: int
  ev_epoch :: string
  ev_machine :: string
  ev_kind :: event_kind
  ev_payload :: payload
  ev_origin :: "event_origin option"

definition mk_event :: "string \<Rightarrow> event_kind \<Rightarrow> payload \<Rightarrow> event" where
  "mk_event m k p = \<lparr>ev_cursor = 0, ev_epoch = [], ev_machine = m, ev_kind = k, ev_payload = p,
     ev_origin = None\<rparr>"

lemma mk_event_sel [simp]:
  "ev_machine (mk_event m k p) = m" "ev_kind (mk_event m k p) = k"
  "ev_payload (mk_event m k p) = p" "ev_cursor (mk_event m k p) = 0"
  "ev_origin (mk_event m k p) = None"
  by (simp_all add: mk_event_def)

section \<open>Subscription filters\<close>

record sub_filter =
  sf_sessions :: "string list"
  sf_cwd_prefix :: string

abbreviation filter_all :: sub_filter where
  "filter_all \<equiv> \<lparr>sf_sessions = [], sf_cwd_prefix = []\<rparr>"

definition filter_matches :: "sub_filter \<Rightarrow> string \<Rightarrow> string \<Rightarrow> bool" where
  "filter_matches f sid cwd =
     (if sf_cwd_prefix f \<noteq> [] \<and> \<not> has_prefix cwd (sf_cwd_prefix f) then False
      else if sf_sessions f = [] then True
      else sid \<in> set (sf_sessions f))"

lemma filter_all_matches [simp]: "filter_matches filter_all sid cwd"
  by (simp add: filter_matches_def)

section \<open>States\<close>

definition ObservedState :: "string \<Rightarrow> string \<Rightarrow> timestamp option \<Rightarrow> session_state" where
  "ObservedState status evidence since =
     \<lparr>st_status = status, st_confidence = ''observed'', st_evidence = evidence, st_since = since,
      st_prompt = None, st_composer_digest = [], st_stranded_delivery = False, st_waiting_on = [],
      st_control_channel = None, st_permission_mode = [], st_warnings = [], st_screen_digest = [],
      st_quota = None, st_last_turn = None, st_turns = None, st_credential_generation = None\<rparr>"

definition InferredState :: "string \<Rightarrow> string \<Rightarrow> timestamp option \<Rightarrow> session_state" where
  "InferredState status evidence since =
     (ObservedState status evidence since)\<lparr>st_confidence := ''inferred''\<rparr>"

definition UnknownState :: "string \<Rightarrow> string \<Rightarrow> session_state" where
  "UnknownState confidence evidence = (ObservedState ''unknown'' evidence None)\<lparr>st_confidence := confidence\<rparr>"

end
