(* ===== verification/History.thy ===== *)
theory History
  imports Fleet "HOL-Library.Multiset" "HOL-Library.Char_ord" "HOL-Library.List_Lexorder" "HOL-Library.Product_Lexorder"
begin

text \<open>
  Closed-session records (\<open>internal/service/history.go\<close>): the sessions seen alive, the
  tombstones of those that ended, the rules by which a listing ends, carries or withdraws one,
  retention, and the screens of captured exits. The clock is the argument \<open>now\<close>; the state
  document is the last one written, and the file system is the list of the paths that exist.
\<close>

section \<open>State\<close>

type_synonym label_key = "string \<times> string"

record seen_record =
  sn_runtime :: string
  sn_id :: string
  sn_name :: string
  sn_cwd :: string
  sn_started_at :: "timestamp option"
  sn_conversation :: "conversation_ref option"
  sn_last_seen :: timestamp

record history_doc =
  hd_seen :: "seen_record list"
  hd_closed :: "closed_session list"

record history_store =
  hs_self :: string
  hs_seen :: "(label_key, seen_record) gomap"
  hs_closed :: "closed_session list"
  hs_retention :: duration
  hs_attached :: bool
  hs_dir :: string
  hs_doc :: "history_doc option"
  hs_saved_at :: timestamp
  hs_files :: "string list"

record captured_exit =
  ce_id :: string
  ce_exit :: session_exit

definition DefaultClosedRetention :: duration where
  "DefaultClosedRetention = 14 * 24 * hour"

definition seenFlushInterval :: duration where
  "seenFlushInterval = 5 * minute"

definition newHistoryStore :: "string \<Rightarrow> history_store" where
  "newHistoryStore self =
     \<lparr>hs_self = self, hs_seen = [], hs_closed = [], hs_retention = DefaultClosedRetention,
      hs_attached = False, hs_dir = [], hs_doc = None, hs_saved_at = zero_time, hs_files = []\<rparr>"

abbreviation key_of :: "seen_record \<Rightarrow> label_key" where
  "key_of r \<equiv> (sn_runtime r, sn_id r)"

section \<open>Exit screens\<close>

definition base_name :: "string \<Rightarrow> string" where
  "base_name path =
     (if path = [] then ''.''
      else let p = rev (dropWhile (\<lambda>c. c = CHR ''/'') (rev path))
           in if p = [] then ''/'' else rev (takeWhile (\<lambda>c. c \<noteq> CHR ''/'') (rev p)))"

definition exitScreensDirLocked :: "history_store \<Rightarrow> string" where
  "exitScreensDirLocked h = (if hs_dir h = [] then [] else hs_dir h @ ''/exit-screens'')"

definition removeExitScreenLocked :: "closed_session \<Rightarrow> history_store \<Rightarrow> history_store" where
  "removeExitScreenLocked c h =
     (case cl_exit c of
        None \<Rightarrow> h
      | Some ex \<Rightarrow> if ex_screen_path ex = [] then h
                   else h\<lparr>hs_files := removeAll (ex_screen_path ex) (hs_files h)\<rparr>)"

definition live_screens :: "closed_session list \<Rightarrow> string list" where
  "live_screens cs = concat (map (\<lambda>c. case cl_exit c of None \<Rightarrow> []
     | Some ex \<Rightarrow> if ex_screen_path ex = [] then [] else [base_name (ex_screen_path ex)]) cs)"

definition in_dir :: "string \<Rightarrow> string \<Rightarrow> bool" where
  "in_dir dir path = (has_prefix path (dir @ ''/'') \<and> CHR ''/'' \<notin> set (drop (length dir + 1) path))"

definition sweepOrphanExitScreensLocked :: "history_store \<Rightarrow> history_store" where
  "sweepOrphanExitScreensLocked h =
     (let dir = exitScreensDirLocked h in
      if dir = [] then h
      else h\<lparr>hs_files := filter (\<lambda>p. \<not> in_dir dir p \<or>
               drop (length dir + 1) p \<in> set (live_screens (hs_closed h))) (hs_files h)\<rparr>)"

section \<open>Loading, pruning and saving\<close>

definition history_load :: "string \<Rightarrow> (history_doc option) option \<Rightarrow> timestamp \<Rightarrow> history_store \<Rightarrow> history_store \<times> bool" where
  "history_load dir loaded now h =
     (let h1 = h\<lparr>hs_attached := True, hs_dir := dir\<rparr> in
      case loaded of
        None \<Rightarrow> (sweepOrphanExitScreensLocked h1, False)
      | Some None \<Rightarrow> (sweepOrphanExitScreensLocked h1, True)
      | Some (Some doc) \<Rightarrow>
          let seen = fold (\<lambda>r m. if sn_id r = [] then m else gm_put (key_of r) r m) (hd_seen doc) (hs_seen h1)
          in (sweepOrphanExitScreensLocked
                (h1\<lparr>hs_seen := seen, hs_closed := hd_closed doc, hs_saved_at := now, hs_doc := Some doc\<rparr>), True))"

definition setRetention :: "duration \<Rightarrow> history_store \<Rightarrow> history_store" where
  "setRetention d h = h\<lparr>hs_retention := (if d \<le> 0 then DefaultClosedRetention else d)\<rparr>"

definition pruneLocked :: "timestamp \<Rightarrow> history_store \<Rightarrow> history_store" where
  "pruneLocked now h =
     (let cut = now - hs_retention h;
          h1 = fold (\<lambda>c g. if cl_closed_at c < cut then removeExitScreenLocked c g else g) (hs_closed h) h
      in h1\<lparr>hs_closed := filter (\<lambda>c. \<not> cl_closed_at c < cut) (hs_closed h),
            hs_seen := filter (\<lambda>p. \<not> sn_last_seen (snd p) < cut) (hs_seen h)\<rparr>)"

definition saveLocked :: "timestamp \<Rightarrow> history_store \<Rightarrow> history_store" where
  "saveLocked now h =
     (let h1 = (pruneLocked now h)\<lparr>hs_saved_at := now\<rparr> in
      if \<not> hs_attached h1 then h1
      else h1\<lparr>hs_doc := Some \<lparr>hd_seen = sort_key key_of (map snd (hs_seen h1)), hd_closed = hs_closed h1\<rparr>\<rparr>)"

section \<open>Sightings and tombstones\<close>

definition knownConversation :: "conversation_ref option \<Rightarrow> conversation_ref option" where
  "knownConversation c = (case c of None \<Rightarrow> None | Some r \<Rightarrow> if conv_known r then Some r else None)"

definition sight_record :: "session \<Rightarrow> timestamp \<Rightarrow> seen_record \<Rightarrow> seen_record \<times> bool" where
  "sight_record s at r =
     (let conv = knownConversation (sess_conversation s);
          name = (sess_name s \<noteq> [] \<and> sess_name s \<noteq> sn_name r);
          cwd = (sess_cwd s \<noteq> [] \<and> sess_cwd s \<noteq> sn_cwd r);
          started = (sess_started_at s \<noteq> None \<and> sn_started_at r \<noteq> sess_started_at s);
          cv = (case conv of None \<Rightarrow> False | Some c \<Rightarrow>
                  (case sn_conversation r of None \<Rightarrow> True | Some c' \<Rightarrow> conv_id c' \<noteq> conv_id c))
      in (r\<lparr>sn_name := (if name then sess_name s else sn_name r),
            sn_cwd := (if cwd then sess_cwd s else sn_cwd r),
            sn_started_at := (if started then sess_started_at s else sn_started_at r),
            sn_conversation := (if cv then conv else sn_conversation r),
            sn_last_seen := (if at > sn_last_seen r then at else sn_last_seen r)\<rparr>,
          name \<or> cwd \<or> started \<or> cv))"

definition sightLocked :: "string \<Rightarrow> session \<Rightarrow> timestamp \<Rightarrow> history_store \<Rightarrow> history_store \<times> bool" where
  "sightLocked rt s at h =
     (let k = (rt, sess_id s) in
      case map_of (hs_seen h) k of
        None \<Rightarrow> (h\<lparr>hs_seen := gm_put k
            \<lparr>sn_runtime = rt, sn_id = sess_id s, sn_name = sess_name s, sn_cwd = sess_cwd s,
             sn_started_at = sess_started_at s, sn_conversation = knownConversation (sess_conversation s),
             sn_last_seen = at\<rparr> (hs_seen h)\<rparr>, True)
      | Some r \<Rightarrow> (let (r', changed) = sight_record s at r
                   in (h\<lparr>hs_seen := gm_put k r' (hs_seen h)\<rparr>, changed)))"

definition tombstone_of ::
  "string \<Rightarrow> seen_record \<Rightarrow> timestamp \<Rightarrow> closure_kind \<Rightarrow> string \<Rightarrow> session_exit option \<Rightarrow> closed_session" where
  "tombstone_of self r at kind evidence ex =
     \<lparr>cl_ref = \<lparr>ref_machine = self, ref_id = sn_id r,
                ref_name = (if sn_name r = [] then sn_id r else sn_name r)\<rparr>,
      cl_runtime = sn_runtime r, cl_cwd = sn_cwd r, cl_started_at = sn_started_at r,
      cl_conversation = sn_conversation r, cl_last_seen_at = sn_last_seen r, cl_closed_at = at,
      cl_closed_by = kind, cl_evidence = evidence, cl_exit = ex\<rparr>"

definition tombstoneLocked ::
  "seen_record \<Rightarrow> timestamp \<Rightarrow> closure_kind \<Rightarrow> string \<Rightarrow> history_store \<Rightarrow> history_store" where
  "tombstoneLocked r at kind evidence h =
     h\<lparr>hs_closed := hs_closed h @ [tombstone_of (hs_self h) r at kind evidence None]\<rparr>"

definition tombstoneExitLocked :: "seen_record \<Rightarrow> captured_exit \<Rightarrow> history_store \<Rightarrow> history_store" where
  "tombstoneExitLocked r e h =
     h\<lparr>hs_closed := hs_closed h @
        [tombstone_of (hs_self h) r (ex_at (ce_exit e)) ClosedByExit
           (''captured its own exit status ('' @ show_int (ex_status (ce_exit e)) @ '') before removing the session'')
           (Some (ce_exit e))]\<rparr>"

definition unseen :: "string \<Rightarrow> string \<Rightarrow> seen_record" where
  "unseen rt i = \<lparr>sn_runtime = rt, sn_id = i, sn_name = [], sn_cwd = [], sn_started_at = None,
     sn_conversation = None, sn_last_seen = zero_time\<rparr>"

section \<open>What the service reports\<close>

definition created :: "string \<Rightarrow> session \<Rightarrow> timestamp \<Rightarrow> history_store \<Rightarrow> history_store" where
  "created rt s now h =
     (if sess_id s = [] then h else saveLocked now (fst (sightLocked rt s now h)))"

definition renamed :: "string \<Rightarrow> string \<Rightarrow> string \<Rightarrow> timestamp \<Rightarrow> history_store \<Rightarrow> history_store" where
  "renamed rt from to now h =
     (case map_of (hs_seen h) (rt, from) of
        None \<Rightarrow> h
      | Some r \<Rightarrow>
          if from = to then h
          else saveLocked now
            (h\<lparr>hs_seen := gm_put (rt, to) (r\<lparr>sn_id := to, sn_name := to\<rparr>) (gm_del (rt, from) (hs_seen h))\<rparr>))"

definition closedByRequest :: "string \<Rightarrow> string \<Rightarrow> timestamp \<Rightarrow> history_store \<Rightarrow> history_store" where
  "closedByRequest rt i now h =
     (let k = (rt, i);
          r = (case map_of (hs_seen h) k of Some r \<Rightarrow> r | None \<Rightarrow> unseen rt i)
      in saveLocked now
           (tombstoneLocked r now ClosedByClose ''closed through this service''
              (h\<lparr>hs_seen := gm_del k (hs_seen h)\<rparr>)))"

section \<open>A listing\<close>

fun carry_from :: "nat \<Rightarrow> timestamp \<Rightarrow> session list \<Rightarrow> nat option \<Rightarrow> nat option" where
  "carry_from i t [] found = found"
| "carry_from i t (s # ss) found =
     (if sess_started_at s = Some t
      then (case found of Some _ \<Rightarrow> None | None \<Rightarrow> carry_from (Suc i) t ss (Some i))
      else carry_from (Suc i) t ss found)"

definition carryIndex :: "seen_record \<Rightarrow> session list \<Rightarrow> nat option" where
  "carryIndex r fresh = (case sn_started_at r of None \<Rightarrow> None | Some t \<Rightarrow> carry_from 0 t fresh None)"

definition withdrawable :: "string \<Rightarrow> session \<Rightarrow> closed_session \<Rightarrow> bool" where
  "withdrawable rt s c =
     (cl_closed_by c = ClosedByClose \<and> cl_runtime c = rt \<and> ref_id (cl_ref c) = sess_id s \<and>
      cl_started_at c \<noteq> None \<and> cl_started_at c = sess_started_at s)"

fun remove_first :: "('a \<Rightarrow> bool) \<Rightarrow> 'a list \<Rightarrow> 'a list" where
  "remove_first P [] = []"
| "remove_first P (x # xs) = (if P x then xs else x # remove_first P xs)"

definition withdrawLocked :: "string \<Rightarrow> session \<Rightarrow> history_store \<Rightarrow> history_store \<times> bool" where
  "withdrawLocked rt s h =
     (if sess_started_at s = None then (h, False)
      else if \<exists>c \<in> set (hs_closed h). withdrawable rt s c
      then (h\<lparr>hs_closed := rev (remove_first (withdrawable rt s) (rev (hs_closed h)))\<rparr>, True)
      else (h, False))"

definition recycled :: "seen_record \<Rightarrow> session \<Rightarrow> bool" where
  "recycled r s = (sn_started_at r \<noteq> None \<and> sess_started_at s \<noteq> None \<and> sn_started_at r \<noteq> sess_started_at s)"

type_synonym pass_state = "history_store \<times> session list \<times> bool"

definition observe_exit :: "string \<Rightarrow> captured_exit \<Rightarrow> pass_state \<Rightarrow> pass_state" where
  "observe_exit rt e st =
     (let (h, fresh, changed) = st; k = (rt, ce_id e)
      in case map_of (hs_seen h) k of
           None \<Rightarrow> (tombstoneExitLocked (unseen rt (ce_id e)) e h, fresh, True)
         | Some r \<Rightarrow> (tombstoneExitLocked r e (h\<lparr>hs_seen := gm_del k (hs_seen h)\<rparr>), fresh, True))"

definition observe_item :: "string \<Rightarrow> timestamp \<Rightarrow> session \<Rightarrow> pass_state \<Rightarrow> pass_state" where
  "observe_item rt now s st =
     (let (h, fresh, changed) = st; (h1, withdrew) = withdrawLocked rt s h; k = (rt, sess_id s)
      in case map_of (hs_seen h1) k of
           None \<Rightarrow> (h1, fresh @ [s], changed \<or> withdrew)
         | Some r \<Rightarrow>
             (let h2 = (if recycled r s
                        then (tombstoneLocked r now ClosedByAbsent
                                ''id is now held by a session that started at a different time'' h1)
                               \<lparr>hs_seen := gm_del k (hs_seen h1)\<rparr>
                        else h1);
                  (h3, sighted) = sightLocked rt s now h2
              in (h3, fresh, changed \<or> withdrew \<or> recycled r s \<or> sighted)))"

definition observe_absent ::
  "string \<Rightarrow> string list \<Rightarrow> timestamp \<Rightarrow> timestamp \<Rightarrow> label_key \<times> seen_record \<Rightarrow> pass_state \<Rightarrow> pass_state" where
  "observe_absent rt present listedAt now entry st =
     (let (k, r) = entry; (h, fresh, changed) = st
      in if fst k \<noteq> rt \<or> snd k \<in> set present \<or> \<not> sn_last_seen r < listedAt then st
         else case carryIndex r fresh of
           Some i \<Rightarrow>
             (let r' = r\<lparr>sn_id := sess_id (fresh ! i), sn_name := sess_name (fresh ! i)\<rparr>
              in (h\<lparr>hs_seen := gm_put (rt, sn_id r') r' (gm_del k (hs_seen h))\<rparr>,
                  take i fresh @ drop (Suc i) fresh, True))
         | None \<Rightarrow>
             ((tombstoneLocked r now ClosedByAbsent
                 ''absent from a complete listing of its runtime; it ended after lastSeenAt'' h)
                \<lparr>hs_seen := gm_del k (hs_seen h)\<rparr>, fresh, True))"

definition observe_fresh :: "string \<Rightarrow> timestamp \<Rightarrow> session \<Rightarrow> history_store \<Rightarrow> history_store" where
  "observe_fresh rt now s h = fst (sightLocked rt s now h)"

definition observe_pass ::
  "string \<Rightarrow> session list \<Rightarrow> bool \<Rightarrow> timestamp \<Rightarrow> captured_exit list \<Rightarrow> timestamp \<Rightarrow> history_store \<Rightarrow> history_store \<times> bool" where
  "observe_pass rt items complete listedAt exits now h =
     (let st1 = fold (observe_exit rt) exits (h, [], False);
          st2 = fold (observe_item rt now) items st1;
          st3 = (if complete
                 then fold (observe_absent rt (map sess_id items) listedAt now) (hs_seen (fst st2)) st2
                 else st2)
      in case st3 of (h3, fresh, changed) \<Rightarrow> (fold (observe_fresh rt now) fresh h3, changed \<or> fresh \<noteq> []))"

definition observe ::
  "string \<Rightarrow> session list \<Rightarrow> bool \<Rightarrow> timestamp \<Rightarrow> captured_exit list \<Rightarrow> timestamp \<Rightarrow> history_store \<Rightarrow> history_store" where
  "observe rt items complete listedAt exits now h =
     (let (h', changed) = observe_pass rt items complete listedAt exits now h
      in if changed \<or> time_sub now (hs_saved_at h') \<ge> seenFlushInterval then saveLocked now h' else h')"

section \<open>Answering\<close>

definition sortClosed :: "closed_session list \<Rightarrow> closed_session list" where
  "sortClosed = sort_key (\<lambda>c. - cl_closed_at c)"

definition list_closed :: "timestamp \<Rightarrow> timestamp \<Rightarrow> history_store \<Rightarrow> closed_session list" where
  "list_closed since now h =
     sortClosed (filter (\<lambda>c. \<not> (cl_closed_at c < now - hs_retention h \<or> cl_closed_at c < since)) (hs_closed h))"

section \<open>Well-formed stores\<close>

declare map_of_eq_Some_iff [simp del] map_of_eq_None_iff [simp del]

definition hist_wf :: "history_store \<Rightarrow> bool" where
  "hist_wf h = (gm_wf (hs_seen h) \<and> (\<forall>k r. map_of (hs_seen h) k = Some r \<longrightarrow> k = key_of r))"

lemma hist_wf_gm: "hist_wf h \<Longrightarrow> gm_wf (hs_seen h)"
  by (simp add: hist_wf_def)

lemma hist_wf_key: "hist_wf h \<Longrightarrow> map_of (hs_seen h) k = Some r \<Longrightarrow> k = key_of r"
  unfolding hist_wf_def by blast

lemma hist_wfI: "gm_wf (hs_seen h) \<Longrightarrow> (\<And>k r. map_of (hs_seen h) k = Some r \<Longrightarrow> k = key_of r) \<Longrightarrow> hist_wf h"
  unfolding hist_wf_def by blast

lemma hist_wf_put: "hist_wf h \<Longrightarrow> k = key_of r \<Longrightarrow> hist_wf (h\<lparr>hs_seen := gm_put k r (hs_seen h)\<rparr>)"
  by (auto simp: hist_wf_def split: if_splits)

lemma hist_wf_del: "hist_wf h \<Longrightarrow> hist_wf (h\<lparr>hs_seen := gm_del k (hs_seen h)\<rparr>)"
  by (auto simp: hist_wf_def restrict_map_def split: if_splits)

lemma hist_wf_seen: "hs_seen g = hs_seen h \<Longrightarrow> hist_wf g = hist_wf h"
  by (simp add: hist_wf_def)

lemma map_of_del: "gm_wf m \<Longrightarrow> map_of (gm_del k m) k' = (if k' = k then None else map_of m k')"
  by simp

lemma map_of_put: "map_of (gm_put k v m) k' = (if k' = k then Some v else map_of m k')"
  by simp

lemma tombstone_sel [simp]:
  "hs_seen (tombstoneLocked r at kd ev h) = hs_seen h"
  "hs_closed (tombstoneLocked r at kd ev h) = hs_closed h @ [tombstone_of (hs_self h) r at kd ev None]"
  "hs_seen (tombstoneExitLocked r e h) = hs_seen h"
  by (simp_all add: tombstoneLocked_def tombstoneExitLocked_def)

lemma hist_wf_tombstone [simp]:
  "hist_wf (tombstoneLocked r at kd ev h) = hist_wf h" "hist_wf (tombstoneExitLocked r e h) = hist_wf h"
  "hist_wf ((tombstoneLocked r at kd ev h)\<lparr>hs_seen := m\<rparr>) = hist_wf (h\<lparr>hs_seen := m\<rparr>)"
  by (simp_all add: hist_wf_def)

lemma tombstone_of_sel [simp]:
  "cl_runtime (tombstone_of self r at kd ev ex) = sn_runtime r"
  "ref_id (cl_ref (tombstone_of self r at kd ev ex)) = sn_id r"
  "cl_started_at (tombstone_of self r at kd ev ex) = sn_started_at r"
  "cl_closed_by (tombstone_of self r at kd ev ex) = kd"
  "cl_closed_at (tombstone_of self r at kd ev ex) = at"
  "cl_last_seen_at (tombstone_of self r at kd ev ex) = sn_last_seen r"
  by (simp_all add: tombstone_of_def)

lemma sight_record_sel [simp]:
  "sn_runtime (fst (sight_record s at r)) = sn_runtime r" "sn_id (fst (sight_record s at r)) = sn_id r"
  by (simp_all add: sight_record_def Let_def)

lemma sight_record_started:
  "sn_started_at (fst (sight_record s at r)) = (if sess_started_at s = None then sn_started_at r else sess_started_at s)"
  by (simp add: sight_record_def Let_def)

lemma sightLocked_closed [simp]: "hs_closed (fst (sightLocked rt s at h)) = hs_closed h"
  by (simp add: sightLocked_def Let_def split_beta split: option.split)

lemma sightLocked_seen:
  "hs_seen (fst (sightLocked rt s at h)) = gm_put (rt, sess_id s)
     (case map_of (hs_seen h) (rt, sess_id s) of
        None \<Rightarrow> \<lparr>sn_runtime = rt, sn_id = sess_id s, sn_name = sess_name s, sn_cwd = sess_cwd s,
             sn_started_at = sess_started_at s, sn_conversation = knownConversation (sess_conversation s),
             sn_last_seen = at\<rparr>
      | Some r \<Rightarrow> fst (sight_record s at r)) (hs_seen h)"
  by (simp add: sightLocked_def Let_def split_beta split: option.split)

lemma hist_wf_sight:
  assumes "hist_wf h"
  shows "hist_wf (fst (sightLocked rt s at h))"
proof -
  have "hist_wf (h\<lparr>hs_seen := hs_seen (fst (sightLocked rt s at h))\<rparr>)"
    unfolding sightLocked_seen
    using assms by (intro hist_wf_put) (auto dest: hist_wf_key split: option.split)
  then show ?thesis by (simp add: hist_wf_def)
qed

lemma withdrawLocked_sel [simp]: "hs_seen (fst (withdrawLocked rt s h)) = hs_seen h"
  "hs_self (fst (withdrawLocked rt s h)) = hs_self h"
  by (simp_all add: withdrawLocked_def)

lemma set_remove_first: "set (remove_first P xs) \<subseteq> set xs"
  by (induction xs) auto

lemma remove_first_keeps: "x \<in> set xs \<Longrightarrow> \<not> P x \<Longrightarrow> x \<in> set (remove_first P xs)"
  by (induction xs) auto

lemma withdraw_keeps:
  "c \<in> set (hs_closed h) \<Longrightarrow> cl_closed_by c \<noteq> ClosedByClose \<Longrightarrow> c \<in> set (hs_closed (fst (withdrawLocked rt s h)))"
  by (auto simp: withdrawLocked_def withdrawable_def intro: remove_first_keeps)

lemma withdraw_subset: "set (hs_closed (fst (withdrawLocked rt s h))) \<subseteq> set (hs_closed h)"
  using set_remove_first [of "withdrawable rt s" "rev (hs_closed h)"] by (auto simp: withdrawLocked_def)

section \<open>A listing accounts for every session it knew\<close>

text \<open>
  The identity of a run: its runtime, its id and its start time. It continues under another id
  only when a listed session with that id has its start time, and an unknown start time may
  become known.
\<close>

definition same_run ::
  "session list \<Rightarrow> string \<times> string \<times> timestamp option \<Rightarrow> string \<times> string \<times> timestamp option \<Rightarrow> bool" where
  "same_run items a b =
     (case a of (rt, i, t) \<Rightarrow> case b of (rt', i', t') \<Rightarrow>
        rt' = rt \<and> (t = None \<or> t' = t) \<and>
        (i' = i \<or> (\<exists>s \<in> set items. sess_id s = i' \<and> sess_started_at s \<noteq> None \<and> sess_started_at s = t')))"

abbreviation run_of :: "seen_record \<Rightarrow> string \<times> string \<times> timestamp option" where
  "run_of r \<equiv> (sn_runtime r, sn_id r, sn_started_at r)"

abbreviation closed_run :: "closed_session \<Rightarrow> string \<times> string \<times> timestamp option" where
  "closed_run c \<equiv> (cl_runtime c, ref_id (cl_ref c), cl_started_at c)"

definition accounted :: "session list \<Rightarrow> seen_record \<Rightarrow> history_store \<Rightarrow> bool" where
  "accounted items r h =
     ((\<exists>k r'. map_of (hs_seen h) k = Some r' \<and> same_run items (run_of r) (run_of r')) \<or>
      (\<exists>c \<in> set (hs_closed h). cl_closed_by c \<noteq> ClosedByClose \<and> same_run items (run_of r) (closed_run c)))"

definition evolves :: "session list \<Rightarrow> history_store \<Rightarrow> history_store \<Rightarrow> bool" where
  "evolves items h g =
     ((\<forall>c \<in> set (hs_closed h). cl_closed_by c \<noteq> ClosedByClose \<longrightarrow> c \<in> set (hs_closed g)) \<and>
      (\<forall>k r. map_of (hs_seen h) k = Some r \<longrightarrow> accounted items r g))"

lemma same_run_refl [simp]: "same_run items a a"
  by (auto simp: same_run_def split: prod.split)

lemma same_run_trans: "same_run items a b \<Longrightarrow> same_run items b c \<Longrightarrow> same_run items a c"
  unfolding same_run_def by (auto split: prod.splits)

lemma accounted_seen:
  "map_of (hs_seen h) k = Some r' \<Longrightarrow> same_run items (run_of r) (run_of r') \<Longrightarrow> accounted items r h"
  unfolding accounted_def by blast

lemma accounted_closed:
  "c \<in> set (hs_closed h) \<Longrightarrow> cl_closed_by c \<noteq> ClosedByClose \<Longrightarrow>
     same_run items (run_of r) (closed_run c) \<Longrightarrow> accounted items r h"
  unfolding accounted_def by blast

lemma evolvesI:
  assumes "\<And>c. c \<in> set (hs_closed h) \<Longrightarrow> cl_closed_by c \<noteq> ClosedByClose \<Longrightarrow> c \<in> set (hs_closed g)"
    and "\<And>k r. map_of (hs_seen h) k = Some r \<Longrightarrow> accounted items r g"
  shows "evolves items h g"
  using assms unfolding evolves_def by blast

lemma evolves_refl [simp]: "evolves items h h"
  by (rule evolvesI) (auto intro: accounted_seen)

lemma evolves_trans:
  assumes "evolves items h g" and "evolves items g f"
  shows "evolves items h f"
proof (rule evolvesI)
  show "c \<in> set (hs_closed f)" if "c \<in> set (hs_closed h)" "cl_closed_by c \<noteq> ClosedByClose" for c
    using assms that unfolding evolves_def by blast
next
  fix k r assume "map_of (hs_seen h) k = Some r"
  with assms(1) have "accounted items r g" unfolding evolves_def by blast
  then consider k' r' where "map_of (hs_seen g) k' = Some r'" "same_run items (run_of r) (run_of r')"
    | c where "c \<in> set (hs_closed g)" "cl_closed_by c \<noteq> ClosedByClose" "same_run items (run_of r) (closed_run c)"
    unfolding accounted_def by blast
  then show "accounted items r f"
  proof cases
    case 1
    with assms(2) have "accounted items r' f" unfolding evolves_def by blast
    then show ?thesis
      unfolding accounted_def using same_run_trans [OF 1(2)] by blast
  next
    case 2
    with assms(2) have "c \<in> set (hs_closed f)" unfolding evolves_def by blast
    with 2 show ?thesis by (auto intro: accounted_closed)
  qed
qed

text \<open>The three moves every step is made of.\<close>

lemma evolves_put:
  assumes "gm_wf (hs_seen h)" and "hs_closed g = hs_closed h" and "hs_seen g = gm_put k r' (hs_seen h)"
    and "\<And>r. map_of (hs_seen h) k = Some r \<Longrightarrow> same_run items (run_of r) (run_of r')"
  shows "evolves items h g"
proof (rule evolvesI)
  fix k0 r assume r: "map_of (hs_seen h) k0 = Some r"
  show "accounted items r g"
  proof (cases "k0 = k")
    case True
    with r assms(3,4) show ?thesis by (auto intro!: accounted_seen [of g k r'])
  next
    case False
    with r assms(3) show ?thesis by (auto intro!: accounted_seen [of g k0 r])
  qed
qed (simp add: assms(2))

lemma evolves_end:
  assumes wf: "gm_wf (hs_seen h)" and "hs_closed g = hs_closed h @ [c]" and "hs_seen g = gm_del k (hs_seen h)"
    and "cl_closed_by c \<noteq> ClosedByClose"
    and "\<And>r. map_of (hs_seen h) k = Some r \<Longrightarrow> same_run items (run_of r) (closed_run c)"
  shows "evolves items h g"
proof (rule evolvesI)
  fix k0 r assume r: "map_of (hs_seen h) k0 = Some r"
  show "accounted items r g"
  proof (cases "k0 = k")
    case True
    with r assms show ?thesis by (auto intro!: accounted_closed [of c])
  next
    case False
    with r assms(3) wf show ?thesis
      by (auto intro!: accounted_seen [of g k0 r] simp: map_of_del)
  qed
qed (simp add: assms(2))

lemma evolves_move:
  assumes wf: "gm_wf (hs_seen h)" and "hs_closed g = hs_closed h"
    and g: "hs_seen g = gm_put k' r' (gm_del k (hs_seen h))" and free: "map_of (hs_seen h) k' = None"
    and "\<And>r. map_of (hs_seen h) k = Some r \<Longrightarrow> same_run items (run_of r) (run_of r')"
  shows "evolves items h g"
proof (rule evolvesI)
  fix k0 r assume r: "map_of (hs_seen h) k0 = Some r"
  show "accounted items r g"
  proof (cases "k0 = k")
    case True
    with r assms(5) show ?thesis
      unfolding accounted_def g by (metis map_of_put)
  next
    case False
    with r free have "map_of (hs_seen g) k0 = Some r"
      unfolding g map_of_put map_of_del [OF wf] by auto
    then show ?thesis by (auto intro: accounted_seen)
  qed
qed (simp add: assms(2))

text \<open>Exits.\<close>

lemma observe_exit_step:
  assumes "hist_wf (fst st)"
  shows "hist_wf (fst (observe_exit rt e st)) \<and> evolves items (fst st) (fst (observe_exit rt e st))"
proof -
  obtain h fresh ch where st: "st = (h, fresh, ch)" by (cases st)
  show ?thesis
  proof (cases "map_of (hs_seen h) (rt, ce_id e)")
    case None
    then have "evolves items h (tombstoneExitLocked (unseen rt (ce_id e)) e h)"
      by (intro evolvesI) (auto simp: tombstoneExitLocked_def intro: accounted_seen)
    moreover have "hist_wf (tombstoneExitLocked (unseen rt (ce_id e)) e h)"
      using assms by (simp add: st)
    ultimately show ?thesis using assms None by (simp add: st observe_exit_def)
  next
    case (Some r)
    then have "evolves items h (tombstoneExitLocked r e (h\<lparr>hs_seen := gm_del (rt, ce_id e) (hs_seen h)\<rparr>))"
      using assms by (intro evolves_end) (auto simp: tombstoneExitLocked_def st hist_wf_gm)
    moreover have "hist_wf (tombstoneExitLocked r e (h\<lparr>hs_seen := gm_del (rt, ce_id e) (hs_seen h)\<rparr>))"
      using hist_wf_del [of h "(rt, ce_id e)"] assms by (simp add: st)
    ultimately show ?thesis using Some by (simp add: st observe_exit_def)
  qed
qed

text \<open>Listed items.\<close>

definition item_store :: "string \<Rightarrow> timestamp \<Rightarrow> session \<Rightarrow> history_store \<Rightarrow> history_store" where
  "item_store rt now s h = fst (observe_item rt now s (h, [], False))"

lemma item_store_fst: "fst (observe_item rt now s st) = item_store rt now s (fst st)"
  by (simp add: item_store_def observe_item_def Let_def split_beta split: option.split)

definition recycle :: "string \<Rightarrow> timestamp \<Rightarrow> session \<Rightarrow> seen_record \<Rightarrow> history_store \<Rightarrow> history_store" where
  "recycle rt now s r h =
     (if recycled r s
      then (tombstoneLocked r now ClosedByAbsent
              ''id is now held by a session that started at a different time'' h)
             \<lparr>hs_seen := gm_del (rt, sess_id s) (hs_seen h)\<rparr>
      else h)"

lemma item_store_unfold:
  "item_store rt now s h =
     (let h1 = fst (withdrawLocked rt s h) in
      case map_of (hs_seen h) (rt, sess_id s) of
        None \<Rightarrow> h1
      | Some r \<Rightarrow> fst (sightLocked rt s now (recycle rt now s r h1)))"
  by (simp add: item_store_def observe_item_def recycle_def Let_def split_beta split: option.split)

lemma hist_wf_recycle: "hist_wf h \<Longrightarrow> hist_wf (recycle rt now s r h)"
  using hist_wf_del [of h "(rt, sess_id s)"] by (simp add: recycle_def)

lemma hist_wf_withdraw: "hist_wf h \<Longrightarrow> hist_wf (fst (withdrawLocked rt s h))"
  using hist_wf_seen [of "fst (withdrawLocked rt s h)" h] by simp

lemma evolves_withdraw: "evolves items h (fst (withdrawLocked rt s h))"
  by (intro evolvesI) (auto intro: accounted_seen withdraw_keeps)

lemma evolves_recycle:
  assumes "hist_wf h" and "map_of (hs_seen h) (rt, sess_id s) = Some r"
  shows "evolves items h (recycle rt now s r h)"
  using assms by (auto simp: recycle_def hist_wf_gm intro!: evolves_end)

lemma evolves_sight:
  assumes wf: "hist_wf h"
    and same: "\<And>r. map_of (hs_seen h) (rt, sess_id s) = Some r \<Longrightarrow> \<not> recycled r s"
  shows "evolves items h (fst (sightLocked rt s at h))"
proof (rule evolves_put [OF hist_wf_gm [OF wf] _ sightLocked_seen])
  fix r assume r: "map_of (hs_seen h) (rt, sess_id s) = Some r"
  with same have "sn_started_at r = None \<or> sess_started_at s = None \<or> sess_started_at s = sn_started_at r"
    unfolding recycled_def by fastforce
  then show "same_run items (run_of r)
      (run_of (case map_of (hs_seen h) (rt, sess_id s) of
        None \<Rightarrow> \<lparr>sn_runtime = rt, sn_id = sess_id s, sn_name = sess_name s, sn_cwd = sess_cwd s,
             sn_started_at = sess_started_at s, sn_conversation = knownConversation (sess_conversation s),
             sn_last_seen = at\<rparr>
      | Some r \<Rightarrow> fst (sight_record s at r)))"
    unfolding r by (auto simp: same_run_def sight_record_started)
qed simp

lemma recycle_seen:
  "gm_wf (hs_seen h) \<Longrightarrow> map_of (hs_seen h) (rt, sess_id s) = Some r \<Longrightarrow>
   map_of (hs_seen (recycle rt now s r h)) (rt, sess_id s) = Some r' \<Longrightarrow> \<not> recycled r' s"
  by (auto simp: recycle_def map_of_del split: if_splits)

lemma item_store_step:
  assumes wf: "hist_wf h"
  shows "hist_wf (item_store rt now s h) \<and> evolves items h (item_store rt now s h)"
proof (cases "map_of (hs_seen h) (rt, sess_id s)")
  case None
  then show ?thesis by (simp add: item_store_unfold Let_def hist_wf_withdraw wf evolves_withdraw)
next
  case (Some r)
  let ?h1 = "fst (withdrawLocked rt s h)" let ?h2 = "recycle rt now s r ?h1"
  have wf1: "hist_wf ?h1" using wf by (rule hist_wf_withdraw)
  have r1: "map_of (hs_seen ?h1) (rt, sess_id s) = Some r" using Some by simp
  have wf2: "hist_wf ?h2" using wf1 by (rule hist_wf_recycle)
  have "evolves items h ?h2" by (rule evolves_trans [OF evolves_withdraw evolves_recycle [OF wf1 r1]])
  moreover have "evolves items ?h2 (fst (sightLocked rt s now ?h2))"
    using recycle_seen [OF hist_wf_gm [OF wf1] r1] by (rule evolves_sight [OF wf2])
  ultimately show ?thesis
    using Some wf2 by (auto simp: item_store_unfold Let_def hist_wf_sight intro: evolves_trans)
qed

lemma item_store_dom:
  assumes "hist_wf h"
  shows "map_of (hs_seen (item_store rt now s h)) k = None \<longleftrightarrow> map_of (hs_seen h) k = None"
proof (cases "map_of (hs_seen h) (rt, sess_id s)")
  case None
  then show ?thesis by (simp add: item_store_unfold)
next
  case (Some r)
  have "gm_wf (hs_seen h)" using assms by (rule hist_wf_gm)
  with Some show ?thesis
    by (auto simp: item_store_unfold Let_def sightLocked_seen recycle_def map_of_del)
qed

lemma observe_item_fresh:
  "fst (snd (observe_item rt now s st)) =
     fst (snd st) @ (if map_of (hs_seen (fst st)) (rt, sess_id s) = None then [s] else [])"
  by (cases st) (auto simp: observe_item_def Let_def split_beta split: option.split)

lemma observe_items:
  assumes "hist_wf (fst st)"
  shows "hist_wf (fst (fold (observe_item rt now) xs st)) \<and>
     evolves items (fst st) (fst (fold (observe_item rt now) xs st)) \<and>
     (\<forall>k. map_of (hs_seen (fst (fold (observe_item rt now) xs st))) k = None \<longleftrightarrow> map_of (hs_seen (fst st)) k = None) \<and>
     fst (snd (fold (observe_item rt now) xs st)) =
       fst (snd st) @ filter (\<lambda>s. map_of (hs_seen (fst st)) (rt, sess_id s) = None) xs"
  using assms
proof (induction xs arbitrary: st)
  case Nil
  then show ?case by simp
next
  case (Cons x xs)
  let ?st = "observe_item rt now x st"
  have h: "fst ?st = item_store rt now x (fst st)" by (rule item_store_fst)
  have step: "hist_wf (fst ?st)" "evolves items (fst st) (fst ?st)"
    unfolding h using item_store_step [OF Cons.prems] by auto
  have dom: "map_of (hs_seen (fst ?st)) k = None \<longleftrightarrow> map_of (hs_seen (fst st)) k = None" for k
    unfolding h by (rule item_store_dom [OF Cons.prems])
  show ?case
    using Cons.IH [OF step(1)] evolves_trans [OF step(2)] dom observe_item_fresh [of rt now x st]
    by simp
qed

text \<open>Absent sessions of a complete listing.\<close>

lemma carry_from_Some:
  "carry_from i t ss found = Some j \<Longrightarrow>
     found = Some j \<or> (i \<le> j \<and> j < i + length ss \<and> sess_started_at (ss ! (j - i)) = Some t)"
proof (induction i t ss found rule: carry_from.induct)
  case (2 i t s ss found)
  show ?case
  proof (cases "sess_started_at s = Some t")
    case True
    with "2.prems" have found: "found = None" and next_: "carry_from (Suc i) t ss (Some i) = Some j"
      by (auto split: option.splits)
    from "2.IH"(1) [OF True found next_] True show ?thesis
      by (auto simp: nth_Cons' Suc_diff_Suc)
  next
    case False
    with "2.prems" have next_: "carry_from (Suc i) t ss found = Some j" by simp
    from "2.IH"(2) [OF False next_] show ?thesis
      by (auto simp: nth_Cons')
  qed
qed auto

lemma carryIndex_Some:
  assumes "carryIndex r fresh = Some i"
  shows "i < length fresh" "sn_started_at r \<noteq> None" "sess_started_at (fresh ! i) = sn_started_at r"
  using assms carry_from_Some [of 0 _ fresh None i] by (auto simp: carryIndex_def split: option.splits)

definition fresh_ok :: "string \<Rightarrow> session list \<Rightarrow> history_store \<Rightarrow> session list \<Rightarrow> bool" where
  "fresh_ok rt items h fresh =
     (distinct (map sess_id fresh) \<and> set fresh \<subseteq> set items \<and>
      (\<forall>s \<in> set fresh. map_of (hs_seen h) (rt, sess_id s) = None))"

lemma fresh_drop:
  assumes "fresh_ok rt items h fresh" and "i < length fresh"
  shows "distinct (map sess_id (take i fresh @ drop (Suc i) fresh))"
    and "set (take i fresh @ drop (Suc i) fresh) \<subseteq> set fresh"
    and "\<forall>s \<in> set (take i fresh @ drop (Suc i) fresh). sess_id s \<noteq> sess_id (fresh ! i)"
proof -
  have split: "fresh = take i fresh @ fresh ! i # drop (Suc i) fresh"
    using assms(2) by (rule id_take_nth_drop)
  have d: "distinct (map sess_id fresh)" using assms(1) by (simp add: fresh_ok_def)
  then have "distinct (map sess_id (take i fresh @ fresh ! i # drop (Suc i) fresh))" using split by simp
  then show "distinct (map sess_id (take i fresh @ drop (Suc i) fresh))"
    "\<forall>s \<in> set (take i fresh @ drop (Suc i) fresh). sess_id s \<noteq> sess_id (fresh ! i)"
    by (auto simp: image_iff)
  show "set (take i fresh @ drop (Suc i) fresh) \<subseteq> set fresh"
    by (auto dest: in_set_takeD in_set_dropD)
qed

definition pending_ok :: "(label_key \<times> seen_record) list \<Rightarrow> history_store \<Rightarrow> bool" where
  "pending_ok ms h = (distinct (map fst ms) \<and> (\<forall>p \<in> set ms. map_of (hs_seen h) (fst p) = Some (snd p)))"

definition settled :: "string \<Rightarrow> string list \<Rightarrow> timestamp \<Rightarrow> (label_key \<times> seen_record) list \<Rightarrow> history_store \<Rightarrow> bool" where
  "settled rt present listedAt ms h =
     (\<forall>k r. map_of (hs_seen h) k = Some r \<longrightarrow> k \<notin> fst ` set ms \<longrightarrow> fst k = rt \<longrightarrow>
        snd k \<in> set present \<or> \<not> sn_last_seen r < listedAt)"

definition kept_items :: "string \<Rightarrow> session list \<Rightarrow> history_store \<Rightarrow> session list \<Rightarrow> bool" where
  "kept_items rt items h fresh =
     (\<forall>s \<in> set items. s \<in> set fresh \<or> map_of (hs_seen h) (rt, sess_id s) \<noteq> None)"

definition absent_inv ::
  "string \<Rightarrow> session list \<Rightarrow> timestamp \<Rightarrow> (label_key \<times> seen_record) list \<Rightarrow> pass_state \<Rightarrow> bool" where
  "absent_inv rt items listedAt ms st =
     (hist_wf (fst st) \<and> pending_ok ms (fst st) \<and> fresh_ok rt items (fst st) (fst (snd st)) \<and>
      settled rt (map sess_id items) listedAt ms (fst st) \<and> kept_items rt items (fst st) (fst (snd st)))"

lemma absent_step:
  assumes inv: "absent_inv rt items listedAt ((k, r) # ms) st"
  shows "absent_inv rt items listedAt ms (observe_absent rt (map sess_id items) listedAt now (k, r) st) \<and>
     evolves items (fst st) (fst (observe_absent rt (map sess_id items) listedAt now (k, r) st))"
proof -
  obtain h fresh ch where st: "st = (h, fresh, ch)" by (cases st)
  have wf: "hist_wf h" and pend: "pending_ok ((k, r) # ms) h" and fr: "fresh_ok rt items h fresh"
    and set_: "settled rt (map sess_id items) listedAt ((k, r) # ms) h" and kept: "kept_items rt items h fresh"
    using inv by (simp_all add: absent_inv_def st)
  have gm: "gm_wf (hs_seen h)" using wf by (rule hist_wf_gm)
  have kr: "map_of (hs_seen h) k = Some r" and ms: "pending_ok ms h" and k_ms: "k \<notin> fst ` set ms"
    using pend by (auto simp: pending_ok_def)
  have key: "k = key_of r" using wf kr by (rule hist_wf_key)
  show ?thesis
  proof (cases "fst k \<noteq> rt \<or> snd k \<in> set (map sess_id items) \<or> \<not> sn_last_seen r < listedAt")
    case True
    then have eq: "observe_absent rt (map sess_id items) listedAt now (k, r) st = st"
      by (simp add: observe_absent_def st)
    have "settled rt (map sess_id items) listedAt ms h"
      unfolding settled_def
    proof (intro allI impI)
      fix k' r' assume r': "map_of (hs_seen h) k' = Some r'" and n: "k' \<notin> fst ` set ms" "fst k' = rt"
      show "snd k' \<in> set (map sess_id items) \<or> \<not> sn_last_seen r' < listedAt"
      proof (cases "k' = k")
        case eq: True
        with r' kr have "r' = r" by simp
        with True eq n show ?thesis by blast
      next
        case False
        then have "k' \<notin> fst ` set ((k, r) # ms)" using n(1) by simp
        with set_ r' n(2) show ?thesis unfolding settled_def by blast
      qed
    qed
    then show ?thesis using wf ms fr kept unfolding eq by (simp add: absent_inv_def st)
  next
    case False
    then have rt: "fst k = rt" and absent: "snd k \<notin> set (map sess_id items)" by auto
    have krt: "k = (rt, sn_id r)" and rtr: "sn_runtime r = rt" using key rt by auto
    show ?thesis
    proof (cases "carryIndex r fresh")
      case None
      let ?g = "(tombstoneLocked r now ClosedByAbsent
                 ''absent from a complete listing of its runtime; it ended after lastSeenAt'' h)
                \<lparr>hs_seen := gm_del k (hs_seen h)\<rparr>"
      have eq: "observe_absent rt (map sess_id items) listedAt now (k, r) st = (?g, fresh, True)"
        using False None by (auto simp: observe_absent_def st)
      have seen: "map_of (hs_seen ?g) k' = (if k' = k then None else map_of (hs_seen h) k')" for k'
        using gm by (simp add: map_of_del)
      have "evolves items h ?g" using kr by (intro evolves_end [OF gm]) auto
      moreover have "hist_wf ?g" using hist_wf_del [OF wf] by simp
      moreover have "pending_ok ms ?g" using ms k_ms unfolding pending_ok_def seen by (auto simp: image_iff)
      moreover have "fresh_ok rt items ?g fresh" using fr unfolding fresh_ok_def seen by auto
      moreover have "settled rt (map sess_id items) listedAt ms ?g"
        using set_ unfolding settled_def seen by auto
      moreover have "kept_items rt items ?g fresh" using kept absent krt unfolding kept_items_def seen by (auto simp: image_iff)
      ultimately show ?thesis unfolding eq by (simp add: absent_inv_def st)
    next
      case (Some i)
      let ?s = "fresh ! i"
      let ?r = "r\<lparr>sn_id := sess_id ?s, sn_name := sess_name ?s\<rparr>"
      let ?g = "h\<lparr>hs_seen := gm_put (rt, sess_id ?s) ?r (gm_del k (hs_seen h))\<rparr>"
      let ?f = "take i fresh @ drop (Suc i) fresh"
      have eq: "observe_absent rt (map sess_id items) listedAt now (k, r) st = (?g, ?f, True)"
        using False Some by (auto simp: observe_absent_def st)
      have i: "i < length fresh" and st0: "sn_started_at r \<noteq> None" "sess_started_at ?s = sn_started_at r"
        using carryIndex_Some [OF Some] by auto
      then have s_in: "?s \<in> set fresh" and s_it: "?s \<in> set items" using fr by (auto simp: fresh_ok_def)
      have free: "map_of (hs_seen h) (rt, sess_id ?s) = None" using fr s_in by (auto simp: fresh_ok_def)
      have seen: "map_of (hs_seen ?g) k' =
          (if k' = (rt, sess_id ?s) then Some ?r else if k' = k then None else map_of (hs_seen h) k')" for k'
        using gm by (simp add: map_of_del)
      have "evolves items h ?g"
        by (rule evolves_move [OF gm _ _ free])
          (use kr s_it st0 rtr in \<open>auto simp: same_run_def\<close>)
      moreover have "hist_wf ?g"
        using hist_wf_put [OF hist_wf_del [OF wf], of "(rt, sess_id ?s)" ?r k] rtr by simp
      moreover have "pending_ok ms ?g"
        using ms k_ms free unfolding pending_ok_def seen by (auto simp: image_iff)
      moreover have "fresh_ok rt items ?g ?f"
        using fr fresh_drop [OF fr i] unfolding fresh_ok_def seen by auto
      moreover have "settled rt (map sess_id items) listedAt ms ?g"
        using set_ s_it unfolding settled_def seen by auto
      moreover have "kept_items rt items ?g ?f"
        unfolding kept_items_def seen
      proof
        fix s assume s: "s \<in> set items"
        have split: "set fresh = insert ?s (set ?f)"
          using id_take_nth_drop [OF i] by (metis Un_insert_right list.simps(15) set_append)
        from kept s consider "s \<in> set fresh" | "map_of (hs_seen h) (rt, sess_id s) \<noteq> None"
          by (auto simp: kept_items_def)
        then show "s \<in> set ?f \<or> (if (rt, sess_id s) = (rt, sess_id ?s) then Some ?r
            else if (rt, sess_id s) = k then None else map_of (hs_seen h) (rt, sess_id s)) \<noteq> None"
        proof cases
          case 1
          then show ?thesis unfolding split by auto
        next
          case 2
          moreover have "(rt, sess_id s) \<noteq> k" using absent krt s by (auto simp: image_iff)
          ultimately show ?thesis by auto
        qed
      qed
      ultimately show ?thesis unfolding eq by (simp add: absent_inv_def st)
    qed
  qed
qed

lemma absent_fold:
  assumes "absent_inv rt items listedAt ms st"
  shows "absent_inv rt items listedAt [] (fold (observe_absent rt (map sess_id items) listedAt now) ms st) \<and>
     evolves items (fst st) (fst (fold (observe_absent rt (map sess_id items) listedAt now) ms st))"
  using assms
proof (induction ms arbitrary: st)
  case Nil
  then show ?case by simp
next
  case (Cons p ms)
  obtain k r where p: "p = (k, r)" by (cases p)
  have inv: "absent_inv rt items listedAt ms (observe_absent rt (map sess_id items) listedAt now p st)"
    and ev: "evolves items (fst st) (fst (observe_absent rt (map sess_id items) listedAt now p st))"
    using absent_step [of rt items listedAt k r ms st now] Cons.prems by (auto simp: p)
  from Cons.IH [OF inv] evolves_trans [OF ev] show ?case by simp
qed

text \<open>Sessions seen for the first time.\<close>

lemma fresh_fold:
  assumes "hist_wf h" and "distinct (map sess_id fresh)"
    and "\<forall>s \<in> set fresh. map_of (hs_seen h) (rt, sess_id s) = None"
  shows "hist_wf (fold (observe_fresh rt now) fresh h) \<and> evolves items h (fold (observe_fresh rt now) fresh h) \<and>
     (\<forall>k. map_of (hs_seen (fold (observe_fresh rt now) fresh h)) k \<noteq> None \<longleftrightarrow>
        map_of (hs_seen h) k \<noteq> None \<or> (\<exists>s \<in> set fresh. k = (rt, sess_id s))) \<and>
     (\<forall>k r. map_of (hs_seen (fold (observe_fresh rt now) fresh h)) k = Some r \<longrightarrow>
        map_of (hs_seen h) k = Some r \<or> (\<exists>s \<in> set fresh. k = (rt, sess_id s)))"
  using assms
proof (induction fresh arbitrary: h)
  case Nil
  then show ?case by simp
next
  case (Cons s fresh)
  let ?g = "observe_fresh rt now s h"
  have seen: "map_of (hs_seen ?g) k \<noteq> None \<longleftrightarrow> map_of (hs_seen h) k \<noteq> None \<or> k = (rt, sess_id s)" for k
    by (simp add: observe_fresh_def sightLocked_seen)
  have other: "k \<noteq> (rt, sess_id s) \<Longrightarrow> map_of (hs_seen ?g) k = map_of (hs_seen h) k" for k
    by (simp add: observe_fresh_def sightLocked_seen)
  have wf: "hist_wf ?g" using hist_wf_sight [OF Cons.prems(1)] by (simp add: observe_fresh_def)
  have ev: "evolves items h ?g"
    unfolding observe_fresh_def using Cons.prems by (intro evolves_sight) auto
  have "\<forall>t \<in> set fresh. map_of (hs_seen ?g) (rt, sess_id t) = None"
    using Cons.prems(2,3) other by (auto simp: image_iff)
  then have IH: "hist_wf (fold (observe_fresh rt now) fresh ?g)"
    "evolves items ?g (fold (observe_fresh rt now) fresh ?g)"
    "\<And>k. map_of (hs_seen (fold (observe_fresh rt now) fresh ?g)) k \<noteq> None \<longleftrightarrow>
        map_of (hs_seen ?g) k \<noteq> None \<or> (\<exists>s \<in> set fresh. k = (rt, sess_id s))"
    "\<And>k r. map_of (hs_seen (fold (observe_fresh rt now) fresh ?g)) k = Some r \<Longrightarrow>
        map_of (hs_seen ?g) k = Some r \<or> (\<exists>s \<in> set fresh. k = (rt, sess_id s))"
    using Cons.IH [OF wf] Cons.prems(2) unfolding distinct.simps list.map by blast+
  have "map_of (hs_seen h) k = Some r \<or> (\<exists>t \<in> set (s # fresh). k = (rt, sess_id t))"
    if "map_of (hs_seen (fold (observe_fresh rt now) (s # fresh) h)) k = Some r" for k r
    using IH(4) [of k r] that other by (cases "k = (rt, sess_id s)") auto
  moreover have "map_of (hs_seen (fold (observe_fresh rt now) (s # fresh) h)) k \<noteq> None \<longleftrightarrow>
        map_of (hs_seen h) k \<noteq> None \<or> (\<exists>t \<in> set (s # fresh). k = (rt, sess_id t))" for k
    using IH(3) [of k] seen [of k] by auto
  ultimately show ?case
    using IH(1) evolves_trans [OF ev IH(2)] by simp
qed

lemma exits_fold:
  assumes "hist_wf (fst st)" and "fst (snd st) = []"
  shows "hist_wf (fst (fold (observe_exit rt) es st)) \<and> evolves items (fst st) (fst (fold (observe_exit rt) es st)) \<and>
     fst (snd (fold (observe_exit rt) es st)) = []"
  using assms
proof (induction es arbitrary: st)
  case Nil
  then show ?case by simp
next
  case (Cons e es)
  have step: "hist_wf (fst (observe_exit rt e st))" "evolves items (fst st) (fst (observe_exit rt e st))"
    using observe_exit_step [OF Cons.prems(1)] by auto
  have "fst (snd (observe_exit rt e st)) = []"
    using Cons.prems(2) by (cases st) (simp add: observe_exit_def Let_def split: option.split)
  from Cons.IH [OF step(1) this] evolves_trans [OF step(2)] show ?case by simp
qed

lemma observe_pass_facts:
  assumes wf: "hist_wf h" and items: "distinct (map sess_id items)"
    and pass: "observe_pass rt items complete listedAt exits now h = (g, changed)"
  shows "hist_wf g" and "evolves items h g"
    and "s \<in> set items \<Longrightarrow> map_of (hs_seen g) (rt, sess_id s) \<noteq> None"
    and "complete \<Longrightarrow> map_of (hs_seen g) k = Some r \<Longrightarrow> fst k = rt \<Longrightarrow>
           snd k \<in> sess_id ` set items \<or> \<not> sn_last_seen r < listedAt"
proof -
  define st1 where "st1 = fold (observe_exit rt) exits (h, [], False)"
  define st2 where "st2 = fold (observe_item rt now) items st1"
  define st3 where "st3 = (if complete
     then fold (observe_absent rt (map sess_id items) listedAt now) (hs_seen (fst st2)) st2 else st2)"
  have g: "g = fold (observe_fresh rt now) (fst (snd st3)) (fst st3)"
    using pass unfolding observe_pass_def Let_def st1_def [symmetric] st2_def [symmetric] st3_def [symmetric]
    by (simp add: split_beta)
  have 1: "hist_wf (fst st1)" "evolves items h (fst st1)" "fst (snd st1) = []"
    using exits_fold [of "(h, [], False)" rt exits items] wf by (auto simp: st1_def)
  have 2: "hist_wf (fst st2)" "evolves items (fst st1) (fst st2)"
    "\<And>k. map_of (hs_seen (fst st2)) k = None \<longleftrightarrow> map_of (hs_seen (fst st1)) k = None"
    "fst (snd st2) = filter (\<lambda>s. map_of (hs_seen (fst st1)) (rt, sess_id s) = None) items"
    using observe_items [OF 1(1), of rt now items] 1(3) by (auto simp: st2_def)
  have fresh2: "fresh_ok rt items (fst st2) (fst (snd st2))"
    using items unfolding fresh_ok_def 2(3,4) by (auto simp: distinct_map_filter)
  have kept2: "kept_items rt items (fst st2) (fst (snd st2))"
    unfolding kept_items_def 2(3,4) by auto
  have pend2: "pending_ok (hs_seen (fst st2)) (fst st2)"
    using hist_wf_gm [OF 2(1)] by (auto simp: pending_ok_def)
  have "settled rt (map sess_id items) listedAt (hs_seen (fst st2)) (fst st2)"
    by (auto simp: settled_def dest!: map_of_SomeD intro: rev_image_eqI)
  with 2(1) pend2 fresh2 kept2 have "absent_inv rt items listedAt (hs_seen (fst st2)) st2"
    by (simp add: absent_inv_def)
  from absent_fold [OF this, of now]
  have 3: "hist_wf (fst st3)" "evolves items (fst st2) (fst st3)" "fresh_ok rt items (fst st3) (fst (snd st3))"
      "kept_items rt items (fst st3) (fst (snd st3))"
    and settled: "complete \<Longrightarrow> settled rt (map sess_id items) listedAt [] (fst st3)"
    using 2(1) fresh2 kept2 by (auto simp: st3_def absent_inv_def)
  have 4: "hist_wf g" "evolves items (fst st3) g"
    "\<And>k. map_of (hs_seen g) k \<noteq> None \<longleftrightarrow>
        map_of (hs_seen (fst st3)) k \<noteq> None \<or> (\<exists>s \<in> set (fst (snd st3)). k = (rt, sess_id s))"
    "\<And>k r. map_of (hs_seen g) k = Some r \<Longrightarrow>
        map_of (hs_seen (fst st3)) k = Some r \<or> (\<exists>s \<in> set (fst (snd st3)). k = (rt, sess_id s))"
    using fresh_fold [OF 3(1), of "fst (snd st3)" rt now items] 3(3) unfolding g fresh_ok_def by blast+
  show "hist_wf g" by (rule 4(1))
  show "evolves items h g"
    by (rule evolves_trans [OF 1(2) evolves_trans [OF 2(2) evolves_trans [OF 3(2) 4(2)]]])
  show "s \<in> set items \<Longrightarrow> map_of (hs_seen g) (rt, sess_id s) \<noteq> None"
    using 3(4) unfolding 4(3) kept_items_def by blast
  show "snd k \<in> sess_id ` set items \<or> \<not> sn_last_seen r < listedAt"
    if "complete" "map_of (hs_seen g) k = Some r" "fst k = rt"
    using 4(4) [OF that(2)] settled [OF that(1)] that(3) 3(3)
    by (cases k) (fastforce simp: settled_def fresh_ok_def)
qed

section \<open>Every new tombstone has its reason\<close>

definition justified ::
  "string \<Rightarrow> session list \<Rightarrow> bool \<Rightarrow> timestamp \<Rightarrow> captured_exit list \<Rightarrow> closed_session \<Rightarrow> bool" where
  "justified rt items complete listedAt exits c =
     (cl_runtime c = rt \<and>
      (cl_closed_by c = ClosedByExit \<and>
         (\<exists>e \<in> set exits. ce_id e = ref_id (cl_ref c) \<and> cl_exit c = Some (ce_exit e)) \<or>
       cl_closed_by c = ClosedByAbsent \<and> complete \<and> ref_id (cl_ref c) \<notin> sess_id ` set items \<and>
         cl_last_seen_at c < listedAt \<or>
       cl_closed_by c = ClosedByAbsent \<and>
         (\<exists>s \<in> set items. sess_id s = ref_id (cl_ref c) \<and> sess_started_at s \<noteq> None \<and>
            cl_started_at c \<noteq> None \<and> sess_started_at s \<noteq> cl_started_at c)))"

definition closed_from :: "(closed_session \<Rightarrow> bool) \<Rightarrow> history_store \<Rightarrow> history_store \<Rightarrow> bool" where
  "closed_from J h g = (\<forall>c \<in> set (hs_closed g). c \<in> set (hs_closed h) \<or> J c)"

lemma closed_from_refl [simp]: "closed_from J h h"
  by (simp add: closed_from_def)

lemma closed_from_trans: "closed_from J h g \<Longrightarrow> closed_from J g f \<Longrightarrow> closed_from J h f"
  unfolding closed_from_def by blast

lemma closed_from_fold:
  assumes "\<And>x st. x \<in> set xs \<Longrightarrow> P (h_of st) \<Longrightarrow> P (h_of (f x st)) \<and> closed_from J (h_of st) (h_of (f x st))"
    and "P (h_of st)"
  shows "closed_from J (h_of st) (h_of (fold f xs st))"
  using assms
proof (induction xs arbitrary: st)
  case Nil
  then show ?case by simp
next
  case (Cons x xs)
  have "P (h_of (f x st))" "closed_from J (h_of st) (h_of (f x st))" using Cons.prems by auto
  with Cons.IH [of "f x st"] Cons.prems(1) show ?case by (auto intro: closed_from_trans)
qed

lemma exit_justified:
  "e \<in> set exits \<Longrightarrow> hist_wf (fst st) \<Longrightarrow>
     closed_from (justified rt items complete listedAt exits) (fst st) (fst (observe_exit rt e st))"
  by (cases st) (force simp: observe_exit_def closed_from_def tombstoneExitLocked_def justified_def Let_def
      unseen_def tombstone_of_def split: option.split dest: hist_wf_key)

lemma item_justified:
  assumes s: "s \<in> set items" and wf: "hist_wf (fst st)"
  shows "closed_from (justified rt items complete listedAt exits) (fst st) (fst (observe_item rt now s st))"
proof (cases "map_of (hs_seen (fst st)) (rt, sess_id s)")
  case None
  then show ?thesis
    using withdraw_subset [of rt s "fst st"] by (auto simp: item_store_fst item_store_unfold closed_from_def)
next
  case (Some r)
  have k: "(rt, sess_id s) = key_of r" using wf Some by (rule hist_wf_key)
  let ?c = "tombstone_of (hs_self (fst st)) r now ClosedByAbsent
      ''id is now held by a session that started at a different time'' None"
  have closed: "set (hs_closed (fst (observe_item rt now s st))) \<subseteq>
      insert ?c (set (hs_closed (fst st)))" if "recycled r s"
    using Some withdraw_subset [of rt s "fst st"] that
    by (auto simp: item_store_fst item_store_unfold recycle_def Let_def)
  moreover have "set (hs_closed (fst (observe_item rt now s st))) \<subseteq> set (hs_closed (fst st))"
    if "\<not> recycled r s"
    using Some withdraw_subset [of rt s "fst st"] that
    by (auto simp: item_store_fst item_store_unfold recycle_def Let_def)
  moreover have "justified rt items complete listedAt exits ?c" if "recycled r s"
    using s k that by (auto simp: justified_def recycled_def)
  ultimately show ?thesis unfolding closed_from_def by blast
qed

lemma absent_justified:
  assumes "k = key_of r"
  shows "closed_from (justified rt items True listedAt exits) (fst st)
           (fst (observe_absent rt (map sess_id items) listedAt now (k, r) st))"
  using assms by (cases st) (auto simp: observe_absent_def closed_from_def justified_def Let_def split: option.split)

lemma fresh_closed [simp]: "hs_closed (fold (observe_fresh rt now) fresh h) = hs_closed h"
  by (induction fresh arbitrary: h) (simp_all add: observe_fresh_def)

lemma observe_pass_justified:
  assumes wf: "hist_wf h"
    and pass: "observe_pass rt items complete listedAt exits now h = (g, changed)"
  shows "closed_from (justified rt items complete listedAt exits) h g"
proof -
  let ?J = "justified rt items complete listedAt exits"
  define st1 where "st1 = fold (observe_exit rt) exits (h, [], False)"
  define st2 where "st2 = fold (observe_item rt now) items st1"
  define st3 where "st3 = (if complete
     then fold (observe_absent rt (map sess_id items) listedAt now) (hs_seen (fst st2)) st2 else st2)"
  have g: "g = fold (observe_fresh rt now) (fst (snd st3)) (fst st3)"
    using pass unfolding observe_pass_def Let_def st1_def [symmetric] st2_def [symmetric] st3_def [symmetric]
    by (simp add: split_beta)
  have wf1: "hist_wf (fst st1)"
    using exits_fold [of "(h, [], False)" rt exits items] wf by (simp add: st1_def)
  have wf2: "hist_wf (fst st2)" using observe_items [OF wf1, of rt now items] by (simp add: st2_def)
  have "closed_from ?J (fst (h, [] :: session list, False)) (fst st1)"
    unfolding st1_def
    by (rule closed_from_fold [where P = hist_wf and h_of = fst])
      (use exit_justified observe_exit_step wf in auto)
  moreover have "closed_from ?J (fst st1) (fst st2)"
    unfolding st2_def
    by (rule closed_from_fold [where P = hist_wf and h_of = fst])
      (use item_justified wf1 item_store_step in \<open>auto simp: item_store_fst\<close>)
  moreover have "closed_from ?J (fst st2) (fst st3)"
  proof (cases complete)
    case True
    have "closed_from ?J (fst st2) (fst (fold (observe_absent rt (map sess_id items) listedAt now) (hs_seen (fst st2)) st2))"
    proof (rule closed_from_fold [where P = "\<lambda>_. True" and h_of = fst], intro conjI TrueI)
      fix x :: "label_key \<times> seen_record" and st
      assume x: "x \<in> set (hs_seen (fst st2))"
      obtain k r where kr: "x = (k, r)" by (cases x)
      have "map_of (hs_seen (fst st2)) k = Some r"
        using x kr hist_wf_gm [OF wf2] by (simp add: map_of_eq_Some_iff)
      then have "k = key_of r" by (rule hist_wf_key [OF wf2])
      from absent_justified [OF this] True kr
      show "closed_from ?J (fst st) (fst (observe_absent rt (map sess_id items) listedAt now x st))" by simp
    qed simp
    with True show ?thesis by (simp add: st3_def)
  next
    case False
    then show ?thesis by (simp add: st3_def)
  qed
  ultimately show ?thesis unfolding g by (auto simp: closed_from_def)
qed

section \<open>Saving and loading\<close>

lemma pruneLocked_sel [simp]:
  "hs_closed (pruneLocked now h) = filter (\<lambda>c. \<not> cl_closed_at c < now - hs_retention h) (hs_closed h)"
  "hs_seen (pruneLocked now h) = filter (\<lambda>p. \<not> sn_last_seen (snd p) < now - hs_retention h) (hs_seen h)"
  by (simp_all add: pruneLocked_def Let_def)

lemma removeExitScreen_sel [simp]:
  "hs_attached (removeExitScreenLocked c h) = hs_attached h" "hs_retention (removeExitScreenLocked c h) = hs_retention h"
  "hs_seen (removeExitScreenLocked c h) = hs_seen h" "hs_closed (removeExitScreenLocked c h) = hs_closed h"
  by (simp_all add: removeExitScreenLocked_def split: option.split)

lemma prune_fold_sel:
  "hs_attached (fold (\<lambda>c g. if P c then removeExitScreenLocked c g else g) cs h) = hs_attached h"
  "hs_retention (fold (\<lambda>c g. if P c then removeExitScreenLocked c g else g) cs h) = hs_retention h"
  by (induction cs arbitrary: h) simp_all

lemma saveLocked_sel [simp]:
  "hs_closed (saveLocked now h) = hs_closed (pruneLocked now h)"
  "hs_seen (saveLocked now h) = hs_seen (pruneLocked now h)"
  "hs_retention (saveLocked now h) = hs_retention h"
  by (simp_all add: saveLocked_def Let_def pruneLocked_def prune_fold_sel)

lemma saveLocked_doc:
  "hs_attached h \<Longrightarrow> hs_doc (saveLocked now h) =
     Some \<lparr>hd_seen = sort_key key_of (map snd (hs_seen (saveLocked now h))), hd_closed = hs_closed (saveLocked now h)\<rparr>"
  by (simp add: saveLocked_def Let_def pruneLocked_def prune_fold_sel)

lemma hist_wf_save: "hist_wf h \<Longrightarrow> hist_wf (saveLocked now h)"
  by (intro hist_wfI) (auto simp: gm_wf_filter hist_wf_gm map_of_filter_key split: option.splits if_splits
      dest: hist_wf_key)

lemma load_fold:
  assumes "distinct (map key_of rs)" and "\<forall>r \<in> set rs. sn_id r \<noteq> []"
  shows "map_of (fold (\<lambda>r m. if sn_id r = [] then m else gm_put (key_of r) r m) rs m) k =
     (case map_of (map (\<lambda>r. (key_of r, r)) rs) k of Some r \<Rightarrow> Some r | None \<Rightarrow> map_of m k)"
  using assms
proof (induction rs arbitrary: m)
  case Nil
  then show ?case by simp
next
  case (Cons r rs)
  then have "map_of (map (\<lambda>r. (key_of r, r)) rs) (key_of r) = None"
    by (auto simp: map_of_eq_None_iff image_iff)
  with Cons show ?case by (auto split: option.split)
qed

lemma keys_of_values:
  assumes "hist_wf h"
  shows "map (\<lambda>p. key_of (snd p)) (hs_seen h) = map fst (hs_seen h)"
    and "map (\<lambda>p. (key_of (snd p), snd p)) (hs_seen h) = hs_seen h"
proof -
  have "key_of r = k" if "(k, r) \<in> set (hs_seen h)" for k r
    using hist_wf_key [OF assms] map_of_is_SomeI [OF hist_wf_gm [OF assms] that] by metis
  then show "map (\<lambda>p. key_of (snd p)) (hs_seen h) = map fst (hs_seen h)"
    "map (\<lambda>p. (key_of (snd p), snd p)) (hs_seen h) = hs_seen h"
    by (auto intro!: map_idI)
qed

lemma distinct_map_sort: "distinct (map f (sort_key g xs)) = distinct (map f xs)"
  by (simp add: distinct_map)

lemma map_of_sort:
  assumes "distinct (map f xs)"
  shows "map_of (map (\<lambda>r. (f r, r)) (sort_key g xs)) = map_of (map (\<lambda>r. (f r, r)) xs)"
  by (rule map_of_inject_set [THEN iffD2])
    (use assms distinct_map_sort [of f g xs] in \<open>simp_all add: comp_def\<close>)

lemma load_saved:
  assumes wf: "hist_wf h" and at: "hs_attached h" and ids: "\<forall>p \<in> set (hs_seen h). sn_id (snd p) \<noteq> []"
    and load: "history_load dir (Some (hs_doc (saveLocked now h))) now' (newHistoryStore self) = (g, True)"
  shows "hs_closed g = hs_closed (saveLocked now h)"
    and "map_of (hs_seen g) = map_of (hs_seen (saveLocked now h))"
proof -
  let ?s = "saveLocked now h" let ?rs = "sort_key key_of (map snd (hs_seen ?s))"
  have wfs: "hist_wf ?s" using wf by (rule hist_wf_save)
  have keys: "map key_of (map snd (hs_seen ?s)) = map fst (hs_seen ?s)"
    using keys_of_values(1) [OF wfs] by (simp add: comp_def)
  have dist: "distinct (map key_of (map snd (hs_seen ?s)))"
    unfolding keys using hist_wf_gm [OF wfs] .
  have "distinct (map key_of ?rs)"
    using dist by (simp only: distinct_map_sort)
  moreover have "\<forall>r \<in> set ?rs. sn_id r \<noteq> []"
  proof
    fix r assume "r \<in> set ?rs"
    then obtain k where "(k, r) \<in> set (hs_seen h)" by auto
    with ids show "sn_id r \<noteq> []" by fastforce
  qed
  ultimately have fold: "map_of (fold (\<lambda>r m. if sn_id r = [] then m else gm_put (key_of r) r m) ?rs []) k =
      map_of (map (\<lambda>r. (key_of r, r)) ?rs) k" for k
    by (simp add: load_fold split: option.split)
  have "map_of (map (\<lambda>r. (key_of r, r)) ?rs) = map_of (map (\<lambda>r. (key_of r, r)) (map snd (hs_seen ?s)))"
    by (rule map_of_sort [OF dist])
  also have "\<dots> = map_of (hs_seen ?s)" using keys_of_values(2) [OF wfs] by (simp add: comp_def)
  finally have same: "map_of (map (\<lambda>r. (key_of r, r)) ?rs) = map_of (hs_seen ?s)" .
  have g: "hs_closed g = hs_closed ?s \<and>
      hs_seen g = fold (\<lambda>r m. if sn_id r = [] then m else gm_put (key_of r) r m) ?rs []"
    using load saveLocked_doc [OF at, of now]
    by (auto simp: history_load_def newHistoryStore_def sweepOrphanExitScreensLocked_def Let_def)
  then show "hs_closed g = hs_closed ?s" by simp
  show "map_of (hs_seen g) = map_of (hs_seen ?s)" using g fold same by (auto simp: fun_eq_iff)
qed

section \<open>Runs of the store\<close>

datatype history_op =
  OCreated string session timestamp
| ORenamed string string string timestamp
| OClosed string string timestamp
| OObserve string "session list" bool timestamp "captured_exit list" timestamp
| ORetention duration
| OLoad string "history_doc option" timestamp

fun history_step :: "history_op \<Rightarrow> history_store \<Rightarrow> history_store" where
  "history_step (OCreated rt s now) h = created rt s now h"
| "history_step (ORenamed rt a b now) h = renamed rt a b now h"
| "history_step (OClosed rt i now) h = closedByRequest rt i now h"
| "history_step (OObserve rt items complete listedAt exits now) h = observe rt items complete listedAt exits now h"
| "history_step (ORetention d) h = setRetention d h"
| "history_step (OLoad dir doc now) h = fst (history_load dir (Some doc) now h)"

lemma hist_wf_load_fold:
  "hist_wf (h\<lparr>hs_seen := m\<rparr>) \<Longrightarrow>
     hist_wf (h\<lparr>hs_seen := fold (\<lambda>r m. if sn_id r = [] then m else gm_put (key_of r) r m) rs m\<rparr>)"
proof (induction rs arbitrary: m)
  case Nil
  then show ?case by simp
next
  case (Cons r rs)
  have "hist_wf (h\<lparr>hs_seen := (if sn_id r = [] then m else gm_put (key_of r) r m)\<rparr>)"
    using Cons.prems hist_wf_put [OF Cons.prems, of "key_of r" r] by simp
  from Cons.IH [OF this] show ?case by simp
qed

lemma hist_wf_load:
  assumes "hist_wf h"
  shows "hist_wf (fst (history_load dir loaded now h))"
proof -
  have sweep: "hist_wf (sweepOrphanExitScreensLocked g) = hist_wf g" for g
    by (rule hist_wf_seen) (simp add: sweepOrphanExitScreensLocked_def Let_def)
  have "hist_wf (h\<lparr>hs_seen := hs_seen h\<rparr>)" using assms by simp
  from hist_wf_load_fold [OF this]
  have "hist_wf g" if "hs_seen g = fold (\<lambda>r m. if sn_id r = [] then m else gm_put (key_of r) r m) rs (hs_seen h)" for g rs
    using hist_wf_seen [of g "h\<lparr>hs_seen := fold (\<lambda>r m. if sn_id r = [] then m else gm_put (key_of r) r m) rs (hs_seen h)\<rparr>"] that
    by simp
  moreover have "hist_wf g" if "hs_seen g = hs_seen h" for g
    using hist_wf_seen [OF that] assms by simp
  ultimately show ?thesis
    by (auto simp: history_load_def sweep Let_def split: option.split)
qed

lemma hist_wf_observe:
  assumes "hist_wf h"
  shows "hist_wf (observe rt items complete listedAt exits now h)"
proof -
  have step: "hist_wf (fst (fold (observe_exit rt) exits (h, [], False)))"
    using exits_fold [of "(h, [], False)" rt exits] assms by simp
  then have items: "hist_wf (fst (fold (observe_item rt now) items (fold (observe_exit rt) exits (h, [], False))))"
    using observe_items by blast
  have absent: "hist_wf (fst (fold (observe_absent rt ids listedAt now) ms st))"
    if "hist_wf (fst st)" "\<forall>p \<in> set ms. fst p = key_of (snd p)" for ms st ids
    using that
  proof (induction ms arbitrary: st)
    case Nil
    then show ?case by simp
  next
    case (Cons p ms)
    obtain k r where p: "p = (k, r)" by (cases p)
    obtain h fresh ch where st: "st = (h, fresh, ch)" by (cases st)
    have "hist_wf (fst (observe_absent rt ids listedAt now p st))"
      using Cons.prems hist_wf_del [of h k]
        hist_wf_put [OF hist_wf_del [of h k], of "(rt, sess_id (fresh ! i))"
          "r\<lparr>sn_id := sess_id (fresh ! i), sn_name := sess_name (fresh ! i)\<rparr>" for i]
      by (auto simp: observe_absent_def p st split: option.split)
    with Cons show ?case by simp
  qed
  have fresh: "hist_wf (fold (observe_fresh rt now) fs g)" if "hist_wf g" for fs g
    using that by (induction fs arbitrary: g) (simp_all add: observe_fresh_def hist_wf_sight)
  have keys: "\<forall>p \<in> set (hs_seen g). fst p = key_of (snd p)" if "hist_wf g" for g
    using hist_wf_key [OF that] map_of_is_SomeI [OF hist_wf_gm [OF that]] by (metis prod.collapse)
  have "hist_wf (fst (observe_pass rt items complete listedAt exits now h))"
    unfolding observe_pass_def Let_def split_beta using items absent [OF items keys [OF items]]
    by (auto intro!: fresh)
  then show ?thesis by (auto simp: observe_def Let_def split_beta hist_wf_save)
qed

lemma hist_wf_step: "hist_wf h \<Longrightarrow> hist_wf (history_step op h)"
proof (cases op)
  case (OCreated rt s now)
  then show "hist_wf h \<Longrightarrow> ?thesis" by (simp add: created_def hist_wf_save hist_wf_sight)
next
  case (ORenamed rt a b now)
  assume wf: "hist_wf h"
  have "hist_wf (h\<lparr>hs_seen := gm_put (rt, b) (r\<lparr>sn_id := b, sn_name := b\<rparr>) (gm_del (rt, a) (hs_seen h))\<rparr>)"
    if "map_of (hs_seen h) (rt, a) = Some r" for r
    using hist_wf_put [OF hist_wf_del [OF wf], of "(rt, b)" "r\<lparr>sn_id := b, sn_name := b\<rparr>" "(rt, a)"]
      hist_wf_key [OF wf that] by simp
  with wf show ?thesis by (auto simp: ORenamed renamed_def hist_wf_save split: option.split)
next
  case (OClosed rt i now)
  then show "hist_wf h \<Longrightarrow> ?thesis"
    using hist_wf_del [of h "(rt, i)"] by (simp add: closedByRequest_def Let_def hist_wf_save)
next
  case (OObserve rt items complete listedAt exits now)
  then show "hist_wf h \<Longrightarrow> ?thesis" by (simp add: hist_wf_observe)
next
  case (ORetention d)
  then show "hist_wf h \<Longrightarrow> ?thesis" by (simp add: setRetention_def hist_wf_seen [of "h\<lparr>hs_retention := _\<rparr>" h])
next
  case (OLoad dir doc now)
  then show "hist_wf h \<Longrightarrow> ?thesis" by (simp add: hist_wf_load)
qed

lemma hist_wf_new: "hist_wf (newHistoryStore self)"
  by (rule hist_wfI) (simp_all add: newHistoryStore_def)

lemma hist_wf_run: "hist_wf h \<Longrightarrow> hist_wf (fold history_step ops h)"
  by (induction ops arbitrary: h) (simp_all add: hist_wf_step)

section \<open>Properties\<close>

text \<open>
  Whatever a service does to its history (creations, renames, closes, listings, a changed
  retention, a document loaded from disk), each seen record stays filed under its own runtime and
  id, once.
\<close>

theorem history_always_well_formed:
  "hist_wf (fold history_step ops (newHistoryStore self))"
  by (rule hist_wf_run [OF hist_wf_new])

text \<open>
  C13: No session is forgotten by a listing but for its age. When a listing of one runtime, with distinct
  ids, is taken in, every session the store had seen (of any runtime) is, once the listing has been
  gone through, either still seen as the same run, which a complete listing may have moved to the new
  id a rename gave it, or has a tombstone; whatever the listing contains, however partial it is and
  whatever exits came with it. Of these, the save and prune that end the operation take away only a
  sighting and a tombstone older than the retention.
\<close>

theorem listing_accounts_for_all:
  assumes "hist_wf h" and "distinct (map sess_id items)"
    and "observe_pass rt items complete listedAt exits now h = (g, changed)"
    and "map_of (hs_seen h) k = Some r"
  defines "h' \<equiv> observe rt items complete listedAt exits now h" and "oldest \<equiv> now - hs_retention g"
  shows "(\<exists>k' r'. map_of (hs_seen g) k' = Some r' \<and> same_run items (run_of r) (run_of r') \<and>
      (map_of (hs_seen h') k' = Some r' \<or> sn_last_seen r' < oldest)) \<or>
    (\<exists>c \<in> set (hs_closed g). cl_closed_by c \<noteq> ClosedByClose \<and> same_run items (run_of r) (closed_run c) \<and>
      (c \<in> set (hs_closed h') \<or> cl_closed_at c < oldest))"
proof -
  note facts = observe_pass_facts [OF assms(1-3)]
  have h': "h' = g \<or> h' = saveLocked now g" using assms(3) by (simp add: h'_def observe_def)
  have seen: "map_of (hs_seen h') k' = Some r' \<or> sn_last_seen r' < oldest" if "map_of (hs_seen g) k' = Some r'" for k' r'
    using h' that hist_wf_gm [OF facts(1)] by (auto simp: oldest_def map_of_filter_key)
  have closed: "c \<in> set (hs_closed h') \<or> cl_closed_at c < oldest" if "c \<in> set (hs_closed g)" for c
    using h' that by (auto simp: oldest_def)
  have "accounted items r g" using facts(2) assms(4) unfolding evolves_def by blast
  with seen closed show ?thesis unfolding accounted_def by blast
qed
definition demo_session :: "string \<Rightarrow> timestamp \<Rightarrow> session" where
  "demo_session i t = \<lparr>sess_ref = \<lparr>ref_machine = ''m'', ref_id = i, ref_name = i\<rparr>, sess_runtime = ''tmux'',
     sess_cwd = ''/w'', sess_agent = [], sess_started_at = Some t, sess_conversation = None,
     sess_marker = [], sess_labels = [], sess_state = ObservedState ''idle'' [] None\<rparr>"

definition demo_store :: history_store where
  "demo_store = created ''tmux'' (demo_session ''b'' 20) 200
     (created ''tmux'' (demo_session ''a'' 10) 100 (newHistoryStore ''m''))"

lemma demo_store_wf: "hist_wf demo_store"
proof (rule hist_wfI)
  show "gm_wf (hs_seen demo_store)" by code_simp
  have "\<forall>p \<in> set (hs_seen demo_store). fst p = key_of (snd p)" by code_simp
  then show "k = key_of r" if "map_of (hs_seen demo_store) k = Some r" for k r
    using map_of_SomeD [OF that] by fastforce
qed

lemma listing_accounts_for_all_witness:
  "\<exists>c \<in> set (hs_closed (observe ''tmux'' [demo_session ''c'' 30] True 300 [] 400 demo_store)).
     same_run [demo_session ''c'' 30] (''tmux'', ''a'', Some 10) (closed_run c)"
proof -
  let ?s = "[demo_session ''c'' 30]" and ?r = "the (map_of (hs_seen demo_store) (''tmux'', ''a''))"
  let ?p = "observe_pass ''tmux'' ?s True 300 [] 400 demo_store"
  have p: "?p = (fst ?p, snd ?p)" by simp
  have r: "map_of (hs_seen demo_store) (''tmux'', ''a'') = Some ?r" "run_of ?r = (''tmux'', ''a'', Some 10)" by code_simp+
  have d: "distinct (map sess_id ?s)" by simp
  have unseen: "list_all (\<lambda>q. \<not> same_run ?s (''tmux'', ''a'', Some 10) (run_of (snd q))) (hs_seen (fst ?p))" by code_simp
  have recent: "list_all (\<lambda>c. \<not> cl_closed_at c < 400 - hs_retention (fst ?p)) (hs_closed (fst ?p))" by code_simp
  from listing_accounts_for_all [OF demo_store_wf d p r(1)] unseen recent show ?thesis
    unfolding r(2) by (auto simp: list_all_iff dest!: map_of_SomeD)
qed

text \<open>
  A listing decides who is open. After a listing is taken in, every listed session is seen;
  after a complete one, every seen session of the runtime is listed or was sighted after the
  listing began.
\<close>

theorem listing_decides_open:
  assumes "hist_wf h" and "distinct (map sess_id items)"
    and "observe_pass rt items complete listedAt exits now h = (g, changed)"
  shows "(\<forall>s \<in> set items. map_of (hs_seen g) (rt, sess_id s) \<noteq> None) \<and>
    (complete \<longrightarrow> (\<forall>i r. map_of (hs_seen g) (rt, i) = Some r \<longrightarrow>
       i \<in> sess_id ` set items \<or> listedAt \<le> sn_last_seen r))"
  using observe_pass_facts(3,4) [OF assms] by fastforce

lemma listing_decides_open_witness:
  "map_of (hs_seen (fst (observe_pass ''tmux'' [demo_session ''c'' 10] True 300 [] 400 demo_store))) (''tmux'', ''c'') \<noteq> None"
proof -
  let ?p = "observe_pass ''tmux'' [demo_session ''c'' 10] True 300 [] 400 demo_store"
  have p: "?p = (fst ?p, snd ?p)" by simp
  have d: "distinct (map sess_id [demo_session ''c'' 10])" by simp
  from listing_decides_open [OF demo_store_wf d p] show ?thesis by (simp add: demo_session_def)
qed

text \<open>
  C29: A tombstone is never written without its reason. Every closed record a listing adds is of
  the listed runtime, and either is an exit the driver captured, or names a session that a
  complete listing lacks and that was not sighted since the listing began, or one whose id the
  listing gives to a session with another start time; so a partial listing without exits ends no
  session it does not see recycled.
\<close>

theorem tombstones_are_justified:
  assumes "hist_wf h" and "observe_pass rt items complete listedAt exits now h = (g, changed)"
    and "c \<in> set (hs_closed g)" and "c \<notin> set (hs_closed h)"
  shows "justified rt items complete listedAt exits c"
  using observe_pass_justified [OF assms(1,2)] assms(3,4) unfolding closed_from_def by blast

lemma tombstones_are_justified_witness:
  "justified ''tmux'' [demo_session ''c'' 10] True 300 []
     (hd (hs_closed (fst (observe_pass ''tmux'' [demo_session ''c'' 10] True 300 [] 400 demo_store))))"
proof -
  let ?p = "observe_pass ''tmux'' [demo_session ''c'' 10] True 300 [] 400 demo_store"
  have p: "?p = (fst ?p, snd ?p)" by simp
  have "hs_closed (fst ?p) \<noteq> []" "hs_closed demo_store = []" by code_simp+
  then show ?thesis by (intro tombstones_are_justified [OF demo_store_wf p]) simp_all
qed

text \<open>
  The answer to a closed-session query is exactly the closed records inside both the
  retention window and the asked period, the newest first.
\<close>

theorem closed_listing_exact:
  "mset (list_closed since now h) =
     filter_mset (\<lambda>c. now - hs_retention h \<le> cl_closed_at c \<and> since \<le> cl_closed_at c) (mset (hs_closed h)) \<and>
   sorted_wrt (\<lambda>c d. cl_closed_at d \<le> cl_closed_at c) (list_closed since now h)"
proof
  show "mset (list_closed since now h) =
     filter_mset (\<lambda>c. now - hs_retention h \<le> cl_closed_at c \<and> since \<le> cl_closed_at c) (mset (hs_closed h))"
    by (simp add: list_closed_def sortClosed_def not_less)
  have "sorted (map (\<lambda>c. - cl_closed_at c) (list_closed since now h))"
    by (simp add: list_closed_def sortClosed_def)
  then show "sorted_wrt (\<lambda>c d. cl_closed_at d \<le> cl_closed_at c) (list_closed since now h)"
    by (simp add: sorted_wrt_map)
qed

text \<open>
  What a service saves is what a restarted one has: loading the document the last write
  produced gives the same closed records, in order, and the same seen sessions.
\<close>

theorem history_survives_restart:
  assumes "hist_wf h" and "hs_attached h" and "\<forall>p \<in> set (hs_seen h). sn_id (snd p) \<noteq> []"
    and "history_load dir (Some (hs_doc (saveLocked now h))) now' (newHistoryStore self) = (g, True)"
  shows "hs_closed g = hs_closed (saveLocked now h) \<and> map_of (hs_seen g) = map_of (hs_seen (saveLocked now h))"
  using load_saved [OF assms] by blast

lemma history_survives_restart_witness:
  "hs_closed (fst (history_load ''/s'' (Some (hs_doc (saveLocked 300 (demo_store\<lparr>hs_attached := True\<rparr>)))) 400 (newHistoryStore ''m''))) =
     hs_closed (saveLocked 300 (demo_store\<lparr>hs_attached := True\<rparr>)) \<and>
   map_of (hs_seen (fst (history_load ''/s'' (Some (hs_doc (saveLocked 300 (demo_store\<lparr>hs_attached := True\<rparr>)))) 400 (newHistoryStore ''m'')))) =
     map_of (hs_seen (saveLocked 300 (demo_store\<lparr>hs_attached := True\<rparr>)))"
proof (rule history_survives_restart)
  show "hist_wf (demo_store\<lparr>hs_attached := True\<rparr>)" using demo_store_wf by (simp add: hist_wf_def)
  show "hs_attached (demo_store\<lparr>hs_attached := True\<rparr>)" by simp
  show "\<forall>p \<in> set (hs_seen (demo_store\<lparr>hs_attached := True\<rparr>)). sn_id (snd p) \<noteq> []" by code_simp
  show "history_load ''/s'' (Some (hs_doc (saveLocked 300 (demo_store\<lparr>hs_attached := True\<rparr>)))) 400 (newHistoryStore ''m'') =
    (fst (history_load ''/s'' (Some (hs_doc (saveLocked 300 (demo_store\<lparr>hs_attached := True\<rparr>)))) 400 (newHistoryStore ''m'')), True)"
    by (simp add: prod_eq_iff history_load_def Let_def split: option.split)
qed

section \<open>Where an end is lost\<close>

text \<open>
  A rename onto an id the store still holds as seen overwrites that record: the session that
  held the id before, which has ended, gets no tombstone and is not seen any more.
\<close>

lemma rename_forgets_previous_holder:
  "sn_started_at (the (map_of (hs_seen demo_store) (''tmux'', ''b''))) = Some 20 \<and>
   map (sn_started_at \<circ> snd) (hs_seen (renamed ''tmux'' ''a'' ''b'' 300 demo_store)) = [Some 10] \<and>
   hs_closed (renamed ''tmux'' ''a'' ''b'' 300 demo_store) = []"
  by code_simp

text \<open>
  When the saved document cannot be read the sweep runs on an empty list of records, so every
  captured screen is deleted although the document that names it is left in place.
\<close>

lemma unreadable_document_deletes_screens:
  "hs_files (fst (history_load ''/s'' None 400
     ((newHistoryStore ''m'')\<lparr>hs_files := [''/s/exit-screens/one.txt'', ''/s/session-history.json'']\<rparr>))) =
     [''/s/session-history.json'']"
  by code_simp

end
