(* ===== verification/LabelStore.thy ===== *)
theory LabelStore
  imports History
begin

text \<open>
  Session labels: the limits of the root package (\<open>labels.go\<close>) and the service's store of
  them (\<open>internal/service/labels.go\<close>), keyed by runtime and id and guarded by the start
  time. A label map is a Go map; the error of a validation names what was wrong.
\<close>

section \<open>Limits\<close>

definition MaxLabels :: nat where "MaxLabels = 16"
definition MaxLabelKeyBytes :: nat where "MaxLabelKeyBytes = 128"
definition MaxLabelValueBytes :: nat where "MaxLabelValueBytes = 128"
definition LabelSeparator :: string where "LabelSeparator = '':''"

type_synonym labels = "(string, string) gomap"

datatype label_error =
  LabelKeyEmpty | LabelKeyTooLong string | LabelKeySeparator string |
  TooManyLabels nat | LabelValueTooLong string

definition ValidateLabelKey :: "string \<Rightarrow> label_error option" where
  "ValidateLabelKey k =
     (if k = [] then Some LabelKeyEmpty
      else if MaxLabelKeyBytes < length k then Some (LabelKeyTooLong k)
      else if str_contains k LabelSeparator then Some (LabelKeySeparator k)
      else None)"

fun validate_loop :: "labels \<Rightarrow> string list \<Rightarrow> label_error option" where
  "validate_loop m [] = None"
| "validate_loop m (k # ks) =
     (case ValidateLabelKey k of
        Some e \<Rightarrow> Some e
      | None \<Rightarrow> if MaxLabelValueBytes < length (the_default [] (map_of m k)) then Some (LabelValueTooLong k)
                else validate_loop m ks)"

definition ValidateLabels :: "labels \<Rightarrow> label_error option" where
  "ValidateLabels m =
     (if MaxLabels < length m then Some (TooManyLabels (length m))
      else validate_loop m (sort (map fst m)))"

definition MatchesLabels :: "labels \<Rightarrow> labels \<Rightarrow> bool" where
  "MatchesLabels got want = (\<forall>p \<in> set want. map_of got (fst p) = Some (snd p))"

section \<open>The store\<close>

record label_record =
  lr_runtime :: string
  lr_id :: string
  lr_started_at :: "timestamp option"
  lr_labels :: labels
  lr_updated_at :: timestamp

record label_store =
  ls_recs :: "(label_key, label_record) gomap"
  ls_attached :: bool
  ls_doc :: "label_record list option"

definition newLabelStore :: label_store where
  "newLabelStore = \<lparr>ls_recs = [], ls_attached = False, ls_doc = None\<rparr>"

definition labels_load :: "label_record list option \<Rightarrow> label_store \<Rightarrow> label_store" where
  "labels_load doc ls =
     (let ls1 = ls\<lparr>ls_attached := True\<rparr> in
      case doc of None \<Rightarrow> ls1
      | Some recs \<Rightarrow> ls1\<lparr>ls_doc := doc, ls_recs := fold (\<lambda>r m. if lr_id r = [] \<or> lr_labels r = [] then m
          else gm_put (lr_runtime r, lr_id r) r m) recs (ls_recs ls1)\<rparr>)"

definition labels_save :: "label_store \<Rightarrow> label_store" where
  "labels_save ls =
     (if \<not> ls_attached ls then ls
      else ls\<lparr>ls_doc := Some (sort_key (\<lambda>r. (lr_runtime r, lr_id r)) (map snd (ls_recs ls)))\<rparr>)"

definition set_recs :: "(label_key, label_record) gomap \<Rightarrow> label_store \<Rightarrow> label_store" where
  "set_recs m ls = ls\<lparr>ls_recs := m\<rparr>"

definition starts_differ :: "timestamp option \<Rightarrow> timestamp option \<Rightarrow> bool" where
  "starts_differ a b = (a \<noteq> None \<and> b \<noteq> None \<and> a \<noteq> b)"

definition locate :: "string \<Rightarrow> string \<Rightarrow> label_store \<Rightarrow> (label_key \<times> label_record) option" where
  "locate rt i ls =
     (case map_of (ls_recs ls) (rt, i) of
        Some r \<Rightarrow> Some ((rt, i), r)
      | None \<Rightarrow> if rt = [] then find (\<lambda>p. snd (fst p) = i) (ls_recs ls) else None)"

definition findLocked ::
  "string \<Rightarrow> string \<Rightarrow> timestamp option \<Rightarrow> label_store \<Rightarrow> label_store \<times> label_key \<times> label_record option" where
  "findLocked rt i started ls =
     (case locate rt i ls of
        None \<Rightarrow> (ls, (rt, i), None)
      | Some (k, r) \<Rightarrow>
          if starts_differ (lr_started_at r) started
          then (labels_save (set_recs (gm_del k (ls_recs ls)) ls), k, None)
          else (ls, k, Some r))"

definition labels_get :: "string \<Rightarrow> string \<Rightarrow> timestamp option \<Rightarrow> label_store \<Rightarrow> label_store \<times> labels" where
  "labels_get rt i started ls =
     (case findLocked rt i started ls of
        (ls', k, None) \<Rightarrow> (ls', [])
      | (ls', k, Some r) \<Rightarrow> (ls', lr_labels r))"

definition setIfAbsent ::
  "string \<Rightarrow> string \<Rightarrow> timestamp option \<Rightarrow> labels \<Rightarrow> timestamp \<Rightarrow> label_store \<Rightarrow> label_store \<times> labels \<times> bool" where
  "setIfAbsent rt i started labels now ls =
     (case findLocked rt i started ls of
        (ls', k, Some r) \<Rightarrow> (ls', lr_labels r, False)
      | (ls', k, None) \<Rightarrow>
          if labels = [] then (ls', [], False)
          else (labels_save (set_recs (gm_put (rt, i)
                  \<lparr>lr_runtime = rt, lr_id = i, lr_started_at = started, lr_labels = labels,
                   lr_updated_at = now\<rparr> (ls_recs ls')) ls'), labels, True))"

definition apply_patch :: "(string \<times> string option) list \<Rightarrow> labels \<Rightarrow> labels" where
  "apply_patch patch m =
     fold (\<lambda>(key, v) n. case v of None \<Rightarrow> gm_del key n | Some x \<Rightarrow> gm_put key x n) patch m"

definition merge_labels ::
  "string \<Rightarrow> string \<Rightarrow> timestamp option \<Rightarrow> (string \<times> string option) list \<Rightarrow> timestamp \<Rightarrow> label_store \<Rightarrow>
     label_store \<times> (label_error + labels)" where
  "merge_labels rt i started patch now ls =
     (let (ls', k, found) = findLocked rt i started ls;
          base = (case found of None \<Rightarrow> [] | Some r \<Rightarrow> lr_labels r);
          merged = apply_patch patch base
      in case ValidateLabels merged of
           Some e \<Rightarrow> (ls', Inl e)
         | None \<Rightarrow>
             (labels_save
               (if merged = [] then set_recs (gm_del k (ls_recs ls')) ls'
                else case found of
                  Some r \<Rightarrow> set_recs (gm_put k (r\<lparr>lr_labels := merged, lr_updated_at := now,
                      lr_started_at := (if lr_started_at r = None then started else lr_started_at r)\<rparr>)
                      (ls_recs ls')) ls'
                | None \<Rightarrow> set_recs (gm_put (rt, i)
                    \<lparr>lr_runtime = rt, lr_id = i, lr_started_at = started, lr_labels = merged,
                     lr_updated_at = now\<rparr> (ls_recs ls')) ls'),
              Inr merged))"

definition rekey :: "string \<Rightarrow> string \<Rightarrow> string \<Rightarrow> timestamp \<Rightarrow> label_store \<Rightarrow> label_store" where
  "rekey rt from to now ls =
     (case findLocked rt from None ls of
        (ls', k, None) \<Rightarrow> ls'
      | (ls', k, Some r) \<Rightarrow>
          if from = to then ls'
          else labels_save (set_recs (gm_put (fst k, to) (r\<lparr>lr_id := to, lr_updated_at := now\<rparr>)
                 (gm_del k (ls_recs ls'))) ls'))"

definition remove_labels :: "string \<Rightarrow> string \<Rightarrow> label_store \<Rightarrow> label_store" where
  "remove_labels rt i ls =
     (case findLocked rt i None ls of
        (ls', k, None) \<Rightarrow> ls'
      | (ls', k, Some r) \<Rightarrow> labels_save (set_recs (gm_del k (ls_recs ls')) ls'))"

section \<open>A complete listing\<close>

definition orphaned :: "string \<Rightarrow> string list \<Rightarrow> timestamp \<Rightarrow> label_key \<times> label_record \<Rightarrow> bool" where
  "orphaned rt ids listedAt p =
     (fst (fst p) = rt \<and> \<not> (snd (fst p) \<in> set ids \<or> lr_updated_at (snd p) > listedAt))"

fun adopt :: "string \<Rightarrow> label_record \<Rightarrow> session list \<Rightarrow> (label_key, label_record) gomap \<Rightarrow> (label_key, label_record) gomap" where
  "adopt rt r [] m = m"
| "adopt rt r (s # ss) m =
     (if sess_started_at s = None \<or> sess_started_at s \<noteq> lr_started_at r then adopt rt r ss m
      else if map_of m (rt, sess_id s) \<noteq> None then m
      else gm_put (rt, sess_id s) (r\<lparr>lr_id := sess_id s\<rparr>) m)"

definition retain :: "string \<Rightarrow> session list \<Rightarrow> timestamp \<Rightarrow> label_store \<Rightarrow> label_store" where
  "retain rt live listedAt ls =
     (let gone = filter (orphaned rt (map sess_id live) listedAt) (ls_recs ls);
          kept = filter (\<lambda>p. \<not> orphaned rt (map sess_id live) listedAt p) (ls_recs ls);
          m = fold (\<lambda>p m. if lr_started_at (snd p) = None then m else adopt rt (snd p) live m) gone kept
      in if gone = [] then set_recs m ls else labels_save (set_recs m ls))"

section \<open>Validation\<close>

definition label_fits :: "string \<Rightarrow> string \<Rightarrow> bool" where
  "label_fits k v = (k \<noteq> [] \<and> length k \<le> MaxLabelKeyBytes \<and> CHR '':'' \<notin> set k \<and> length v \<le> MaxLabelValueBytes)"

lemma str_contains_char: "str_contains k [c] \<longleftrightarrow> c \<in> set k"
  by (auto simp: str_contains_iff in_set_conv_decomp)

lemma ValidateLabelKey_None:
  "ValidateLabelKey k = None \<longleftrightarrow> k \<noteq> [] \<and> length k \<le> MaxLabelKeyBytes \<and> CHR '':'' \<notin> set k"
  by (auto simp: ValidateLabelKey_def LabelSeparator_def str_contains_char)

lemma validate_loop_None:
  "validate_loop m ks = None \<longleftrightarrow> (\<forall>k \<in> set ks. label_fits k (the_default [] (map_of m k)))"
proof (induction ks)
  case Nil
  then show ?case by simp
next
  case (Cons k ks)
  show ?case
  proof (cases "ValidateLabelKey k")
    case None
    with Cons.IH show ?thesis using ValidateLabelKey_None [of k] by (simp add: label_fits_def not_less)
  next
    case (Some e)
    then have "\<not> label_fits k (the_default [] (map_of m k))"
      using ValidateLabelKey_None [of k] by (auto simp: label_fits_def)
    with Some show ?thesis by simp
  qed
qed

lemma ValidateLabels_None:
  assumes "gm_wf m"
  shows "ValidateLabels m = None \<longleftrightarrow> length m \<le> MaxLabels \<and> (\<forall>(k, v) \<in> set m. label_fits k v)"
proof -
  have "label_fits (fst p) (the_default [] (map_of m (fst p))) = label_fits (fst p) (snd p)" if "p \<in> set m" for p
    using map_of_is_SomeI [OF assms, of "fst p" "snd p"] that by simp
  then have "(\<forall>k \<in> set (sort (map fst m)). label_fits k (the_default [] (map_of m k))) \<longleftrightarrow>
      (\<forall>p \<in> set m. label_fits (fst p) (snd p))" by simp
  then show ?thesis by (simp add: ValidateLabels_def validate_loop_None not_less split_beta)
qed

lemma gm_wf_patch: "gm_wf m \<Longrightarrow> gm_wf (apply_patch patch m)"
  unfolding apply_patch_def by (induction patch arbitrary: m) (auto split: option.split)

section \<open>Well-formed stores\<close>

definition rec_ok :: "label_key \<Rightarrow> label_record \<Rightarrow> bool" where
  "rec_ok k r = (k = (lr_runtime r, lr_id r) \<and> lr_labels r \<noteq> [] \<and> gm_wf (lr_labels r) \<and>
     ValidateLabels (lr_labels r) = None)"

definition recs_wf :: "(label_key, label_record) gomap \<Rightarrow> bool" where
  "recs_wf m = (gm_wf m \<and> (\<forall>k r. map_of m k = Some r \<longrightarrow> rec_ok k r))"

abbreviation labels_wf :: "label_store \<Rightarrow> bool" where
  "labels_wf ls \<equiv> recs_wf (ls_recs ls)"

lemma recs_wf_gm: "recs_wf m \<Longrightarrow> gm_wf m"
  by (simp add: recs_wf_def)

lemma recs_wf_ok: "recs_wf m \<Longrightarrow> map_of m k = Some r \<Longrightarrow> rec_ok k r"
  unfolding recs_wf_def by blast

lemma recs_wfI: "gm_wf m \<Longrightarrow> (\<And>k r. map_of m k = Some r \<Longrightarrow> rec_ok k r) \<Longrightarrow> recs_wf m"
  unfolding recs_wf_def by blast

lemma recs_wf_put: "recs_wf m \<Longrightarrow> rec_ok k r \<Longrightarrow> recs_wf (gm_put k r m)"
  by (rule recs_wfI) (auto simp: map_of_put recs_wf_gm dest: recs_wf_ok split: if_splits)

lemma recs_wf_del: "recs_wf m \<Longrightarrow> recs_wf (gm_del k m)"
  by (rule recs_wfI) (auto simp: restrict_map_def recs_wf_gm dest: recs_wf_ok split: if_splits)

lemma recs_wf_filter: "recs_wf m \<Longrightarrow> recs_wf (filter P m)"
  by (rule recs_wfI) (auto simp: gm_wf_filter recs_wf_gm map_of_filter_key dest: recs_wf_ok
      split: option.splits if_splits)

lemma set_recs_sel [simp]: "ls_recs (set_recs m ls) = m"
  by (simp add: set_recs_def)

lemma labels_save_sel [simp]: "ls_recs (labels_save ls) = ls_recs ls"
  by (simp add: labels_save_def)

lemma locate_Some:
  assumes "recs_wf (ls_recs ls)" and "locate rt i ls = Some (k, r)"
  shows "map_of (ls_recs ls) k = Some r" and "snd k = i" and "rt \<noteq> [] \<Longrightarrow> k = (rt, i)"
proof -
  have "map_of (ls_recs ls) k = Some r \<and> snd k = i \<and> (rt \<noteq> [] \<longrightarrow> k = (rt, i))"
  proof (cases "map_of (ls_recs ls) (rt, i)")
    case None
    with assms(2) have "rt = []" "find (\<lambda>p. snd (fst p) = i) (ls_recs ls) = Some (k, r)"
      by (auto simp: locate_def split: if_splits)
    moreover from this(2) have "(k, r) \<in> set (ls_recs ls)" by (auto simp: find_Some_iff)
    moreover have "snd k = i" using calculation(2) by (fastforce simp: find_Some_iff dest: sym)
    ultimately have "rt = []" "(k, r) \<in> set (ls_recs ls)" "snd k = i" by blast+
    with \<open>rt = []\<close> map_of_is_SomeI [OF recs_wf_gm [OF assms(1)]] show ?thesis by blast
  next
    case (Some r')
    with assms(2) show ?thesis by (auto simp: locate_def)
  qed
  then show "map_of (ls_recs ls) k = Some r" "snd k = i" "rt \<noteq> [] \<Longrightarrow> k = (rt, i)" by auto
qed

lemma locate_named: "rt \<noteq> [] \<Longrightarrow> locate rt i ls = map_option (Pair (rt, i)) (map_of (ls_recs ls) (rt, i))"
  by (auto simp: locate_def split: option.split)

lemma findLocked_wf:
  assumes "recs_wf (ls_recs ls)"
  shows "recs_wf (ls_recs (fst (findLocked rt i st ls)))"
  using assms by (auto simp: findLocked_def recs_wf_del split: option.split)

lemma findLocked_Some:
  assumes "recs_wf (ls_recs ls)" and "findLocked rt i st ls = (ls', k, Some r)"
  shows "ls' = ls" and "map_of (ls_recs ls) k = Some r" and "snd k = i" and "rt \<noteq> [] \<Longrightarrow> k = (rt, i)"
    and "\<not> starts_differ (lr_started_at r) st"
  using assms(2) locate_Some [OF assms(1), of rt i] by (auto simp: findLocked_def split: option.splits if_splits)

lemma findLocked_None:
  assumes "recs_wf (ls_recs ls)" and "findLocked rt i st ls = (ls', k, None)" and "rt \<noteq> []"
  shows "k = (rt, i)" and "map_of (ls_recs ls') (rt, i) = None"
    and "c \<noteq> (rt, i) \<Longrightarrow> map_of (ls_recs ls') c = map_of (ls_recs ls) c"
  using assms(2) map_of_del [OF recs_wf_gm [OF assms(1)]]
  by (auto simp: findLocked_def locate_named [OF assms(3)] split: option.splits if_splits)

lemma merge_wf:
  assumes wf: "labels_wf ls"
  shows "labels_wf (fst (merge_labels rt i st patch now ls))"
proof -
  obtain ls' k found where f: "findLocked rt i st ls = (ls', k, found)" by (cases "findLocked rt i st ls")
  let ?base = "case found of None \<Rightarrow> [] | Some r \<Rightarrow> lr_labels r"
  let ?n = "apply_patch patch ?base"
  have wf': "recs_wf (ls_recs ls')" using findLocked_wf [OF wf, of rt i st] f by simp
  have found: "rec_ok k r" "ls' = ls" if "found = Some r" for r
    using findLocked_Some(1,2) [OF wf f [unfolded that]] recs_wf_ok [OF wf] by auto
  have n: "gm_wf ?n" using found by (intro gm_wf_patch) (auto simp: rec_ok_def split: option.split)
  show ?thesis
  proof (cases "ValidateLabels ?n")
    case (Some e)
    with wf' show ?thesis by (simp add: merge_labels_def f Let_def)
  next
    case None
    with wf' n found show ?thesis
      by (auto simp: merge_labels_def f Let_def rec_ok_def recs_wf_del intro!: recs_wf_put split: option.split)
  qed
qed

lemma setIfAbsent_wf:
  assumes "labels_wf ls" and "gm_wf m" and "ValidateLabels m = None"
  shows "labels_wf (fst (setIfAbsent rt i st m now ls))"
  using findLocked_wf [OF assms(1), of rt i st] assms(2,3)
  by (auto simp: setIfAbsent_def rec_ok_def intro!: recs_wf_put split: prod.splits option.splits)

lemma rekey_wf:
  assumes wf: "labels_wf ls"
  shows "labels_wf (rekey rt a b now ls)"
proof -
  obtain ls' k found where f: "findLocked rt a None ls = (ls', k, found)" by (cases "findLocked rt a None ls")
  show ?thesis
  proof (cases found)
    case None
    with f findLocked_wf [OF wf, of rt a None] show ?thesis by (simp add: rekey_def)
  next
    case (Some r)
    have "rec_ok k r" "ls' = ls" using findLocked_Some(1,2) [OF wf f [unfolded Some]] recs_wf_ok [OF wf] by auto
    with f Some wf show ?thesis
      by (auto simp: rekey_def rec_ok_def intro!: recs_wf_put recs_wf_del)
  qed
qed

lemma remove_wf: "labels_wf ls \<Longrightarrow> labels_wf (remove_labels rt i ls)"
  using findLocked_wf [of ls rt i None] by (auto simp: remove_labels_def recs_wf_del split: prod.splits option.splits)

lemma get_wf: "labels_wf ls \<Longrightarrow> labels_wf (fst (labels_get rt i st ls))"
  using findLocked_wf [of ls rt i st] by (auto simp: labels_get_def split: prod.splits option.splits)

text \<open>Adoption of an orphan by the live session with its start time.\<close>

lemma adopt_effect:
  "adopt rt r ss m = m \<or>
     (\<exists>s \<in> set ss. sess_started_at s \<noteq> None \<and> sess_started_at s = lr_started_at r \<and>
        map_of m (rt, sess_id s) = None \<and> adopt rt r ss m = gm_put (rt, sess_id s) (r\<lparr>lr_id := sess_id s\<rparr>) m)"
  by (induction ss) auto

lemma adopt_kept: "map_of m k = Some q \<Longrightarrow> map_of (adopt rt r ss m) k = Some q"
  using adopt_effect [of rt r ss m] by auto

lemma adopt_wf:
  assumes "recs_wf m" and "rec_ok (rt, i) r"
  shows "recs_wf (adopt rt r ss m)"
  using adopt_effect [of rt r ss m]
proof
  assume "\<exists>s \<in> set ss. sess_started_at s \<noteq> None \<and> sess_started_at s = lr_started_at r \<and>
        map_of m (rt, sess_id s) = None \<and> adopt rt r ss m = gm_put (rt, sess_id s) (r\<lparr>lr_id := sess_id s\<rparr>) m"
  then show ?thesis using assms by (auto simp: rec_ok_def intro!: recs_wf_put)
qed (use assms in simp)

definition adopt_all :: "string \<Rightarrow> session list \<Rightarrow> (label_key \<times> label_record) list \<Rightarrow>
    (label_key, label_record) gomap \<Rightarrow> (label_key, label_record) gomap" where
  "adopt_all rt live gone m =
     fold (\<lambda>p m. if lr_started_at (snd p) = None then m else adopt rt (snd p) live m) gone m"

lemma adopt_all_kept: "map_of m k = Some q \<Longrightarrow> map_of (adopt_all rt live gone m) k = Some q"
  unfolding adopt_all_def by (induction gone arbitrary: m) (auto simp: adopt_kept)

lemma adopt_all_wf:
  "recs_wf m \<Longrightarrow> \<forall>p \<in> set gone. fst (fst p) = rt \<and> rec_ok (fst p) (snd p) \<Longrightarrow> recs_wf (adopt_all rt live gone m)"
  unfolding adopt_all_def
proof (induction gone arbitrary: m)
  case (Cons p gone)
  have "rec_ok (rt, snd (fst p)) (snd p)" using Cons.prems(2) by (metis list.set_intros(1) prod.collapse)
  with Cons.prems(1) have "recs_wf (adopt rt (snd p) live m)" by (rule adopt_wf)
  with Cons show ?case by simp
qed simp

lemma adopt_all_new:
  assumes "map_of (adopt_all rt live gone m) k = Some q" and "map_of m k = None"
  shows "\<exists>p \<in> set gone. \<exists>s \<in> set live. k = (rt, sess_id s) \<and> q = (snd p)\<lparr>lr_id := sess_id s\<rparr> \<and>
     sess_started_at s \<noteq> None \<and> sess_started_at s = lr_started_at (snd p)"
  using assms unfolding adopt_all_def
proof (induction gone arbitrary: m)
  case Nil
  then show ?case by simp
next
  case (Cons p gone)
  let ?m = "if lr_started_at (snd p) = None then m else adopt rt (snd p) live m"
  show ?case
  proof (cases "map_of ?m k")
    case None
    with Cons.IH [of ?m] Cons.prems show ?thesis by auto
  next
    case (Some q')
    then have "map_of (adopt_all rt live gone ?m) k = Some q'" by (rule adopt_all_kept)
    with Cons.prems have "q' = q" by (simp add: adopt_all_def)
    with Some Cons.prems(2) adopt_effect [of rt "snd p" live m] show ?thesis
      by (auto split: if_splits)
  qed
qed

lemma retain_recs:
  "ls_recs (retain rt live listedAt ls) =
     adopt_all rt live (filter (orphaned rt (map sess_id live) listedAt) (ls_recs ls))
       (filter (\<lambda>p. \<not> orphaned rt (map sess_id live) listedAt p) (ls_recs ls))"
  by (simp add: retain_def adopt_all_def Let_def)

lemma retain_wf:
  assumes "labels_wf ls"
  shows "labels_wf (retain rt live listedAt ls)"
  unfolding retain_recs
proof (rule adopt_all_wf)
  show "recs_wf (filter (\<lambda>p. \<not> orphaned rt (map sess_id live) listedAt p) (ls_recs ls))"
    using assms by (rule recs_wf_filter)
  show "\<forall>p \<in> set (filter (orphaned rt (map sess_id live) listedAt) (ls_recs ls)). fst (fst p) = rt \<and> rec_ok (fst p) (snd p)"
    using recs_wf_ok [OF assms] map_of_is_SomeI [OF recs_wf_gm [OF assms]] by (auto simp: orphaned_def)
qed

section \<open>Runs of the store\<close>

datatype label_op =
  LGet string string "timestamp option"
| LSet string string "timestamp option" labels timestamp
| LMerge string string "timestamp option" "(string \<times> string option) list" timestamp
| LRekey string string string timestamp
| LRemove string string
| LRetain string "session list" timestamp

fun label_step :: "label_op \<Rightarrow> label_store \<Rightarrow> label_store" where
  "label_step (LGet rt i st) ls = fst (labels_get rt i st ls)"
| "label_step (LSet rt i st m now) ls = fst (setIfAbsent rt i st m now ls)"
| "label_step (LMerge rt i st patch now) ls = fst (merge_labels rt i st patch now ls)"
| "label_step (LRekey rt a b now) ls = rekey rt a b now ls"
| "label_step (LRemove rt i) ls = remove_labels rt i ls"
| "label_step (LRetain rt live at) ls = retain rt live at ls"

text \<open>The handler of a creation validates the labels it passes on; nothing else is required.\<close>

definition op_valid :: "label_op \<Rightarrow> bool" where
  "op_valid op = (case op of LSet rt i st m now \<Rightarrow> gm_wf m \<and> ValidateLabels m = None | _ \<Rightarrow> True)"

lemma labels_wf_step: "labels_wf ls \<Longrightarrow> op_valid op \<Longrightarrow> labels_wf (label_step op ls)"
  by (cases op) (simp_all add: op_valid_def get_wf setIfAbsent_wf merge_wf rekey_wf remove_wf retain_wf)

lemma labels_wf_run: "labels_wf ls \<Longrightarrow> list_all op_valid ops \<Longrightarrow> labels_wf (fold label_step ops ls)"
  by (induction ops arbitrary: ls) (simp_all add: labels_wf_step)

lemma labels_wf_new: "labels_wf newLabelStore"
  by (simp add: newLabelStore_def recs_wf_def)

section \<open>Properties\<close>

text \<open>
  Over any life of the label store, every stored label map obeys the limits (at most 16
  labels, keys of 1 to 128 bytes without a colon, values of at most 128 bytes), whatever patches
  callers send: a merge that would break them is refused and changes no record.
\<close>

theorem stored_labels_within_limits:
  assumes "list_all op_valid ops" and "map_of (ls_recs (fold label_step ops newLabelStore)) k = Some r"
  shows "lr_labels r \<noteq> [] \<and> length (lr_labels r) \<le> MaxLabels \<and>
    (\<forall>(key, v) \<in> set (lr_labels r). label_fits key v)"
proof -
  have "rec_ok k r" using recs_wf_ok [OF labels_wf_run [OF labels_wf_new assms(1)] assms(2)] .
  then show ?thesis using ValidateLabels_None [of "lr_labels r"] by (auto simp: rec_ok_def)
qed

definition demo_labels :: label_store where
  "demo_labels = fold label_step
     [LMerge ''tmux'' ''a'' (Some 10) [(''team'', Some ''core''), (''x'', None)] 100,
      LMerge ''tmux'' ''a'' (Some 10) [('':'', Some ''bad'')] 110] newLabelStore"

lemma stored_labels_within_limits_witness:
  "lr_labels (the (map_of (ls_recs demo_labels) (''tmux'', ''a''))) \<noteq> [] \<and>
   length (lr_labels (the (map_of (ls_recs demo_labels) (''tmux'', ''a'')))) \<le> MaxLabels"
proof -
  let ?ops = "[LMerge ''tmux'' ''a'' (Some 10) [(''team'', Some ''core''), (''x'', None)] 100,
      LMerge ''tmux'' ''a'' (Some 10) [('':'', Some ''bad'')] 110]"
  have v: "list_all op_valid ?ops" by (simp add: op_valid_def)
  have "map_of (ls_recs demo_labels) (''tmux'', ''a'') = Some (the (map_of (ls_recs demo_labels) (''tmux'', ''a'')))"
    by code_simp
  then have m: "map_of (ls_recs (fold label_step ?ops newLabelStore)) (''tmux'', ''a'') =
      Some (the (map_of (ls_recs demo_labels) (''tmux'', ''a'')))"
    unfolding demo_labels_def .
  from stored_labels_within_limits [OF v m] show ?thesis by blast
qed

text \<open>
  C27: Labels fit the start they are asked with: if a lookup with a known start time answers with labels,
  they are those of a record under that id whose own start time is the same or was never known, and
  with a runtime given, of that runtime. So the labels of a run that is known to have started at
  another time are never handed out; those of a run whose start was never known may be.
\<close>

theorem labels_fit_the_start:
  assumes "labels_wf ls" and "labels_get rt i (Some t) ls = (ls', m)" and "m \<noteq> []"
  shows "\<exists>k r. map_of (ls_recs ls) k = Some r \<and> lr_labels r = m \<and> snd k = i \<and>
    (rt \<noteq> [] \<longrightarrow> fst k = rt) \<and> (lr_started_at r = None \<or> lr_started_at r = Some t)"
proof -
  obtain k r where f: "findLocked rt i (Some t) ls = (ls', k, Some r)" "lr_labels r = m"
    using assms(2,3) by (auto simp: labels_get_def split: prod.splits option.splits)
  show ?thesis
    using findLocked_Some [OF assms(1) f(1)] f(2)
    by (intro exI [of _ k] exI [of _ r]) (auto simp: starts_differ_def)
qed

lemma demo_labels_wf: "labels_wf demo_labels"
  unfolding demo_labels_def by (rule labels_wf_run [OF labels_wf_new]) (simp add: op_valid_def)

lemma labels_fit_the_start_witness:
  "\<exists>k r. map_of (ls_recs demo_labels) k = Some r \<and> lr_labels r = [(''team'', ''core'')] \<and> snd k = ''a'' \<and>
    (lr_started_at r = None \<or> lr_started_at r = Some 10)"
proof -
  have "snd (labels_get ''tmux'' ''a'' (Some 10) demo_labels) = [(''team'', ''core'')]" by code_simp
  then have "labels_get ''tmux'' ''a'' (Some 10) demo_labels =
      (fst (labels_get ''tmux'' ''a'' (Some 10) demo_labels), [(''team'', ''core'')])"
    by (simp add: prod_eq_iff)
  from labels_fit_the_start [OF demo_labels_wf this] show ?thesis by auto
qed

lemma labels_get_named:
  "rt \<noteq> [] \<Longrightarrow> snd (labels_get rt i st ls) =
     (case map_of (ls_recs ls) (rt, i) of None \<Rightarrow> []
      | Some r \<Rightarrow> if starts_differ (lr_started_at r) st then [] else lr_labels r)"
  by (simp add: labels_get_def findLocked_def locate_named split: option.split)

lemma merge_named:
  assumes wf: "labels_wf ls" and rt: "rt \<noteq> []" and m: "merge_labels rt i st patch now ls = (ls', Inr m)"
  shows "m = apply_patch patch (snd (labels_get rt i st ls)) \<and> snd (labels_get rt i st ls') = m \<and>
    (\<forall>c. c \<noteq> (rt, i) \<longrightarrow> map_of (ls_recs ls') c = map_of (ls_recs ls) c)"
proof -
  obtain l1 k found where f: "findLocked rt i st ls = (l1, k, found)" by (cases "findLocked rt i st ls")
  show ?thesis
  proof (cases found)
    case None
    note fn = findLocked_None [OF wf f [unfolded None] rt]
    have gm: "gm_wf (ls_recs l1)" using findLocked_wf [OF wf, of rt i st] f by (simp add: recs_wf_gm)
    have m_eq: "m = apply_patch patch []"
      using m by (simp add: merge_labels_def f None Let_def split: option.splits)
    have ls': "ls_recs ls' = (if m = [] then gm_del k (ls_recs l1) else gm_put (rt, i)
        \<lparr>lr_runtime = rt, lr_id = i, lr_started_at = st, lr_labels = m, lr_updated_at = now\<rparr> (ls_recs l1))"
      using m by (auto simp: merge_labels_def f None Let_def split: option.splits)
    have "snd (labels_get rt i st ls) = []" by (simp add: labels_get_def f None)
    moreover have "snd (labels_get rt i st ls') = m"
      using fn(1) gm by (simp add: labels_get_named [OF rt] ls' starts_differ_def)
    moreover have "\<forall>c. c \<noteq> (rt, i) \<longrightarrow> map_of (ls_recs ls') c = map_of (ls_recs ls) c"
      using fn(1,3) gm by (simp add: ls')
    ultimately show ?thesis by (simp only: m_eq simp_thms)
  next
    case (Some r)
    note fs = findLocked_Some [OF wf f [unfolded Some]]
    have k: "k = (rt, i)" and l1: "l1 = ls" using fs(1,4) rt by auto
    have gm: "gm_wf (ls_recs ls)" using wf by (rule recs_wf_gm)
    have m_eq: "m = apply_patch patch (lr_labels r)"
      using m by (simp add: merge_labels_def f Some Let_def split: option.splits)
    have started: "r\<lparr>lr_labels := a, lr_updated_at := now, lr_started_at := Some y\<rparr> =
        r\<lparr>lr_labels := a, lr_updated_at := now\<rparr>" if "lr_started_at r = Some y" for a y
      by (rule label_record.equality) (simp_all add: that)
    have ls': "ls_recs ls' = (if m = [] then gm_del k (ls_recs ls) else gm_put k
        (r\<lparr>lr_labels := m, lr_updated_at := now,
           lr_started_at := (if lr_started_at r = None then st else lr_started_at r)\<rparr>) (ls_recs ls))"
      using m by (auto simp: merge_labels_def f Some l1 Let_def started split: option.splits)
    have "snd (labels_get rt i st ls) = lr_labels r" by (simp add: labels_get_def f Some)
    moreover have "snd (labels_get rt i st ls') = m"
      using fs(5) gm by (auto simp: labels_get_named [OF rt] ls' k starts_differ_def)
    moreover have "\<forall>c. c \<noteq> (rt, i) \<longrightarrow> map_of (ls_recs ls') c = map_of (ls_recs ls) c"
      using gm by (simp add: ls' k)
    ultimately show ?thesis by (simp only: m_eq simp_thms)
  qed
qed

text \<open>
  A label write is read back: after a successful merge, the lookup of the same session
  answers exactly the patched map, which is the old labels with the patch applied, and every other
  session's record is untouched.
\<close>

theorem label_write_read_back:
  assumes "labels_wf ls" and "rt \<noteq> []" and "merge_labels rt i st patch now ls = (ls', Inr m)"
  shows "m = apply_patch patch (snd (labels_get rt i st ls)) \<and> snd (labels_get rt i st ls') = m \<and>
    (\<forall>c. c \<noteq> (rt, i) \<longrightarrow> map_of (ls_recs ls') c = map_of (ls_recs ls) c)"
  by (rule merge_named [OF assms])

lemma label_write_read_back_witness:
  "snd (labels_get ''tmux'' ''a'' None (fst (merge_labels ''tmux'' ''a'' None [(''y'', Some ''1'')] 120 demo_labels))) =
     [(''team'', ''core''), (''y'', ''1'')]"
proof -
  have "snd (merge_labels ''tmux'' ''a'' None [(''y'', Some ''1'')] 120 demo_labels) = Inr [(''team'', ''core''), (''y'', ''1'')]"
    by code_simp
  then have "merge_labels ''tmux'' ''a'' None [(''y'', Some ''1'')] 120 demo_labels =
      (fst (merge_labels ''tmux'' ''a'' None [(''y'', Some ''1'')] 120 demo_labels), Inr [(''team'', ''core''), (''y'', ''1'')])"
    by (simp add: prod_eq_iff)
  from label_write_read_back [OF demo_labels_wf _ this] show ?thesis by simp
qed

text \<open>
  A rename carries the labels: after it the new id answers the labels the old id had, the old
  id has none, and every other session's record is untouched.
\<close>

theorem rename_carries_labels:
  assumes wf: "labels_wf ls" and rt: "rt \<noteq> []" and ab: "a \<noteq> b" and had: "snd (labels_get rt a None ls) \<noteq> []"
  shows "snd (labels_get rt b None (rekey rt a b now ls)) = snd (labels_get rt a None ls) \<and>
    map_of (ls_recs (rekey rt a b now ls)) (rt, a) = None \<and>
    (\<forall>c. c \<noteq> (rt, a) \<longrightarrow> c \<noteq> (rt, b) \<longrightarrow> map_of (ls_recs (rekey rt a b now ls)) c = map_of (ls_recs ls) c)"
proof -
  obtain ls' k r where f: "findLocked rt a None ls = (ls', k, Some r)"
    using had by (auto simp: labels_get_def split: prod.splits option.splits)
  note fs = findLocked_Some [OF wf f]
  have k: "k = (rt, a)" and l: "ls' = ls" using fs(1,4) rt by auto
  have gm: "gm_wf (ls_recs ls)" using wf by (rule recs_wf_gm)
  let ?r = "r\<lparr>lr_id := b, lr_updated_at := now\<rparr>"
  have recs: "ls_recs (rekey rt a b now ls) = gm_put (rt, b) ?r (gm_del (rt, a) (ls_recs ls))"
    using ab by (simp add: rekey_def f k l)
  have "map_of (ls_recs (rekey rt a b now ls)) (rt, b) = Some ?r"
    unfolding recs by (rule gm.move_to [OF gm])
  then have "snd (labels_get rt b None (rekey rt a b now ls)) = lr_labels r"
    by (simp add: labels_get_named [OF rt] starts_differ_def)
  moreover have "snd (labels_get rt a None ls) = lr_labels r" by (simp add: labels_get_def f)
  moreover have "map_of (ls_recs (rekey rt a b now ls)) (rt, a) = None"
    unfolding recs using ab by (intro gm.move_from [OF gm]) simp
  moreover have "\<forall>c. c \<noteq> (rt, a) \<longrightarrow> c \<noteq> (rt, b) \<longrightarrow> map_of (ls_recs (rekey rt a b now ls)) c = map_of (ls_recs ls) c"
    unfolding recs by (intro allI impI gm.move_frame [OF gm])
  ultimately show ?thesis by simp
qed

lemma rename_carries_labels_witness:
  "snd (labels_get ''tmux'' ''b'' None (rekey ''tmux'' ''a'' ''b'' 200 demo_labels)) =
     snd (labels_get ''tmux'' ''a'' None demo_labels)"
proof -
  have "snd (labels_get ''tmux'' ''a'' None demo_labels) \<noteq> []" by code_simp
  from rename_carries_labels [OF demo_labels_wf _ _ this, of "''b''" 200] show ?thesis by simp
qed

text \<open>
  What a complete listing does to the labels: a record of another runtime, of a listed id or
  written after the listing began stays exactly as it is; a record that appears under a new id holds
  the labels of a record that lost its own session, on the listed session with its start time.
\<close>

theorem retain_keeps_and_reattaches:
  assumes wf: "labels_wf ls"
  shows "(\<forall>k r. map_of (ls_recs ls) k = Some r \<longrightarrow> \<not> orphaned rt (map sess_id live) listedAt (k, r) \<longrightarrow>
       map_of (ls_recs (retain rt live listedAt ls)) k = Some r) \<and>
    (\<forall>k q. map_of (ls_recs (retain rt live listedAt ls)) k = Some q \<longrightarrow> map_of (ls_recs ls) k \<noteq> Some q \<longrightarrow>
       (\<exists>k' r. \<exists>s \<in> set live. map_of (ls_recs ls) k' = Some r \<and> orphaned rt (map sess_id live) listedAt (k', r) \<and>
          k = (rt, sess_id s) \<and> lr_labels q = lr_labels r \<and> lr_started_at r \<noteq> None \<and>
          sess_started_at s = lr_started_at r))"
proof (intro conjI allI impI)
  let ?o = "orphaned rt (map sess_id live) listedAt"
  have gm: "gm_wf (ls_recs ls)" using wf by (rule recs_wf_gm)
  fix k r assume "map_of (ls_recs ls) k = Some r" "\<not> ?o (k, r)"
  then have "map_of (filter (\<lambda>p. \<not> ?o p) (ls_recs ls)) k = Some r" by (simp add: map_of_filter_key [OF gm])
  then show "map_of (ls_recs (retain rt live listedAt ls)) k = Some r"
    unfolding retain_recs by (rule adopt_all_kept)
next
  let ?o = "orphaned rt (map sess_id live) listedAt"
  have gm: "gm_wf (ls_recs ls)" using wf by (rule recs_wf_gm)
  fix k q assume q: "map_of (ls_recs (retain rt live listedAt ls)) k = Some q" and new: "map_of (ls_recs ls) k \<noteq> Some q"
  have "map_of (filter (\<lambda>p. \<not> ?o p) (ls_recs ls)) k = None"
  proof (rule ccontr)
    assume "map_of (filter (\<lambda>p. \<not> ?o p) (ls_recs ls)) k \<noteq> None"
    then obtain r where r: "map_of (filter (\<lambda>p. \<not> ?o p) (ls_recs ls)) k = Some r" by auto
    from adopt_all_kept [OF r] q have "r = q" unfolding retain_recs by simp
    with r new show False by (auto simp: map_of_filter_key [OF gm] split: option.splits if_splits)
  qed
  from adopt_all_new [OF q [unfolded retain_recs] this] obtain p s where
    p: "p \<in> set (filter ?o (ls_recs ls))" and s: "s \<in> set live" "k = (rt, sess_id s)"
    "q = (snd p)\<lparr>lr_id := sess_id s\<rparr>" "sess_started_at s \<noteq> None" "sess_started_at s = lr_started_at (snd p)"
    by blast
  have "map_of (ls_recs ls) (fst p) = Some (snd p)" "?o (fst p, snd p)"
    using p map_of_is_SomeI [OF gm, of "fst p" "snd p"] by auto
  with s show "\<exists>k' r. \<exists>s \<in> set live. map_of (ls_recs ls) k' = Some r \<and> ?o (k', r) \<and>
          k = (rt, sess_id s) \<and> lr_labels q = lr_labels r \<and> lr_started_at r \<noteq> None \<and>
          sess_started_at s = lr_started_at r"
    by (intro exI [of _ "fst p"] exI [of _ "snd p"] bexI [of _ s]) auto
qed

lemma retain_keeps_and_reattaches_witness:
  "map_of (ls_recs (retain ''tmux'' [demo_session ''a'' 10] 300 demo_labels)) (''tmux'', ''a'') =
     map_of (ls_recs demo_labels) (''tmux'', ''a'')"
proof -
  have m: "map_of (ls_recs demo_labels) (''tmux'', ''a'') = Some (the (map_of (ls_recs demo_labels) (''tmux'', ''a'')))"
    by code_simp
  have o: "\<not> orphaned ''tmux'' (map sess_id [demo_session ''a'' 10]) 300
      ((''tmux'', ''a''), the (map_of (ls_recs demo_labels) (''tmux'', ''a'')))" by code_simp
  from retain_keeps_and_reattaches [OF demo_labels_wf, of "''tmux''" "[demo_session ''a'' 10]" 300] m o
  show ?thesis by metis
qed

text \<open>
  The lookup the event stream makes names no runtime; when the session's id also names a record of
  some runtime with another start time, that record, of a session that may be alive, is deleted.
\<close>

lemma unnamed_lookup_deletes_other_runtime:
  "map_of (ls_recs (fst (labels_get [] ''a'' (Some 99) demo_labels))) (''tmux'', ''a'') = None"
  by code_simp

end
