(* ===== verification/RenamePlane.thy ===== *)
theory RenamePlane
  imports Fleet
begin

text \<open>
  Rename corroboration (\<open>internal/service/rename_corroboration.go\<close>): every rename a
  driver accepted is watched for a window, and the first thing that settles it (the new id
  closing, or the window's timer) publishes one verdict. The plane's map and the two ways a
  watch is resolved are modelled as functions on the map; the timers as a flag per watch.
\<close>

section \<open>State\<close>

type_synonym rename_key = "string \<times> string"

record pending_rename =
  pr_from :: string
  pr_started_at :: "timestamp option"
  pr_saw_from_recreated :: bool
  pr_gap_observed :: bool
  pr_resolved :: bool
  pr_timer :: bool

type_synonym rename_plane = "(rename_key, pending_rename) gomap"

definition newRenamePlane :: rename_plane where
  "newRenamePlane = []"

section \<open>Operations\<close>

definition startedAtMatches :: "timestamp option \<Rightarrow> timestamp option \<Rightarrow> bool" where
  "startedAtMatches want got = (case want of None \<Rightarrow> False | Some w \<Rightarrow>
     (case got of None \<Rightarrow> False | Some g \<Rightarrow> w = g))"

definition watchRename ::
  "string \<Rightarrow> string \<Rightarrow> string \<Rightarrow> timestamp option \<Rightarrow> rename_plane \<Rightarrow> rename_plane" where
  "watchRename machine from to started rp =
     (if from = [] \<or> to = [] \<or> from = to then rp
      else gm_put (machine, to)
        \<lparr>pr_from = from, pr_started_at = started, pr_saw_from_recreated = False,
         pr_gap_observed = False, pr_resolved = False, pr_timer = True\<rparr> rp)"

definition finalize_event :: "rename_key \<Rightarrow> pending_rename \<Rightarrow> rename_corroboration \<Rightarrow> event" where
  "finalize_event key p verdict =
     mk_event (fst key) EventSessionRenamed
       (PRenamed \<lparr>rn_machine = fst key, rn_from = pr_from p, rn_to = snd key,
          rn_started_at = pr_started_at p, rn_corroboration = verdict\<rparr>)"

definition finalizeRenameLocked ::
  "rename_key \<Rightarrow> pending_rename \<Rightarrow> rename_corroboration \<Rightarrow> rename_plane \<Rightarrow> rename_plane \<times> event" where
  "finalizeRenameLocked key p verdict rp =
     (gm_put key (p\<lparr>pr_resolved := True, pr_timer := False\<rparr>) rp, finalize_event key p verdict)"

definition resolveRenameWindow :: "rename_key \<Rightarrow> rename_plane \<Rightarrow> rename_plane \<times> event option" where
  "resolveRenameWindow key rp =
     (case map_of rp key of
        None \<Rightarrow> (rp, None)
      | Some p \<Rightarrow>
          if pr_resolved p then (rp, None)
          else
            let verdict = (if pr_gap_observed p then RenameUnconfirmed else RenameCorroborated);
                (rp', ev) = finalizeRenameLocked key p verdict rp
            in (rp', Some ev))"

definition markRenameGap :: "string \<Rightarrow> rename_plane \<Rightarrow> rename_plane" where
  "markRenameGap machine rp =
     map (\<lambda>(key, p). (key,
       if fst key = machine \<and> \<not> pr_resolved p then p\<lparr>pr_gap_observed := True\<rparr> else p)) rp"

definition note_recreated :: "string \<Rightarrow> session \<Rightarrow> rename_key \<Rightarrow> pending_rename \<Rightarrow> pending_rename" where
  "note_recreated machine sess key p =
     (if fst key \<noteq> machine \<or> pr_resolved p \<or> pr_saw_from_recreated p then p
      else if sess_id sess = pr_from p \<and> startedAtMatches (pr_started_at p) (sess_started_at sess)
      then p\<lparr>pr_saw_from_recreated := True\<rparr> else p)"

definition observeRenameCorroboration :: "event \<Rightarrow> rename_plane \<Rightarrow> rename_plane \<times> event list" where
  "observeRenameCorroboration ev rp =
     (case ev_kind ev of
        EventSessionCreated \<Rightarrow>
          (case ev_payload ev of
             PSession sess \<Rightarrow> (map (\<lambda>(key, p). (key, note_recreated (ev_machine ev) sess key p)) rp, [])
           | _ \<Rightarrow> (rp, []))
      | EventSessionClosed \<Rightarrow>
          (case ev_payload ev of
             PState ref st \<Rightarrow>
               (let key = (ev_machine ev, ref_id ref) in
                case map_of rp key of
                  None \<Rightarrow> (rp, [])
                | Some p \<Rightarrow>
                    if pr_resolved p then (rp, [])
                    else
                      let verdict = (if pr_saw_from_recreated p then RenameContested
                                     else RenameUnconfirmed);
                          (rp', fu) = finalizeRenameLocked key p verdict rp
                      in (rp', [fu]))
           | _ \<Rightarrow> (rp, []))
      | EventSourceStatus \<Rightarrow>
          (case ev_payload ev of
             PSource status \<Rightarrow>
               (if src_status status \<noteq> SourceDegraded then (rp, [])
                else (markRenameGap (ev_machine ev) rp, []))
           | _ \<Rightarrow> (rp, []))
      | EventControlResync \<Rightarrow> (markRenameGap (ev_machine ev) rp, [])
      | _ \<Rightarrow> (rp, []))"

section \<open>Facts about one operation\<close>

lemmas observe_splits = event_kind.splits payload.splits option.splits if_splits

lemma observe_followups_renamed:
  "fu \<in> set (snd (observeRenameCorroboration ev rp)) \<Longrightarrow> ev_kind fu = EventSessionRenamed"
  by (auto simp: observeRenameCorroboration_def finalizeRenameLocked_def finalize_event_def Let_def
      split: observe_splits)

lemma observe_renamed_none [simp]:
  "ev_kind ev = EventSessionRenamed \<Longrightarrow> observeRenameCorroboration ev rp = (rp, [])"
  by (simp add: observeRenameCorroboration_def)

lemma observe_followups_le1: "length (snd (observeRenameCorroboration ev rp)) \<le> 1"
  by (auto simp: observeRenameCorroboration_def finalizeRenameLocked_def Let_def
      split: observe_splits)

lemma gm_wf_markRenameGap [simp]: "gm_wf (markRenameGap m rp) = gm_wf rp"
  unfolding markRenameGap_def by (rule gm_wf_map)

lemma gm_wf_observe: "gm_wf rp \<Longrightarrow> gm_wf (fst (observeRenameCorroboration ev rp))"
  by (auto simp: observeRenameCorroboration_def finalizeRenameLocked_def Let_def gm_wf_map
      split: observe_splits)

lemma gm_wf_resolve: "gm_wf rp \<Longrightarrow> gm_wf (fst (resolveRenameWindow key rp))"
  by (auto simp: resolveRenameWindow_def finalizeRenameLocked_def Let_def split: option.splits)

lemma gm_wf_watch: "gm_wf rp \<Longrightarrow> gm_wf (watchRename m f t s rp)"
  by (simp add: watchRename_def)

lemma map_of_markRenameGap:
  "map_of (markRenameGap machine rp) key =
     map_option (\<lambda>p. if fst key = machine \<and> \<not> pr_resolved p then p\<lparr>pr_gap_observed := True\<rparr> else p)
       (map_of rp key)"
  unfolding markRenameGap_def by (rule map_of_map_values)

lemma map_of_note_recreated:
  "map_of (map (\<lambda>(key, p). (key, note_recreated m sess key p)) rp) key =
     map_option (note_recreated m sess key) (map_of rp key)"
  by (rule map_of_map_values)

section \<open>Runs of the plane\<close>

text \<open>
  What can happen to the plane: a rename starts a watch, the hub passes an event through, a
  watch's timer callback takes the lock. A callback may come late, after its watch was replaced
  or resolved, so nothing restricts when \<open>RTimer\<close> happens.
\<close>

datatype rp_action =
  RWatch string string string "timestamp option"
| RObserve event
| RTimer rename_key

fun rp_step :: "rp_action \<Rightarrow> rename_plane \<Rightarrow> rename_plane \<times> event list" where
  "rp_step (RWatch m f t s) rp = (watchRename m f t s rp, [])"
| "rp_step (RObserve ev) rp = observeRenameCorroboration ev rp"
| "rp_step (RTimer key) rp =
     (case resolveRenameWindow key rp of (rp', None) \<Rightarrow> (rp', []) | (rp', Some ev) \<Rightarrow> (rp', [ev]))"

fun rp_run :: "rp_action list \<Rightarrow> rename_plane \<Rightarrow> rename_plane \<times> event list" where
  "rp_run [] rp = (rp, [])"
| "rp_run (a # as) rp =
     (let (rp', evs) = rp_step a rp; (rp'', evs') = rp_run as rp' in (rp'', evs @ evs'))"

definition verdict_for :: "rename_key \<Rightarrow> event \<Rightarrow> bool" where
  "verdict_for key ev = (case ev_payload ev of
     PRenamed r \<Rightarrow> (rn_machine r, rn_to r) = key \<and> rn_corroboration r \<noteq> RenameAccepted
   | _ \<Rightarrow> False)"

fun watches_of :: "rename_key \<Rightarrow> rp_action list \<Rightarrow> nat" where
  "watches_of key [] = 0"
| "watches_of key (RWatch m f t s # as) =
     (if (m, t) = key \<and> f \<noteq> [] \<and> t \<noteq> [] \<and> f \<noteq> t then 1 else 0) + watches_of key as"
| "watches_of key (a # as) = watches_of key as"

definition open_watch :: "rename_key \<Rightarrow> rename_plane \<Rightarrow> nat" where
  "open_watch key rp = (case map_of rp key of None \<Rightarrow> 0 | Some p \<Rightarrow> if pr_resolved p then 0 else 1)"

lemma verdict_for_finalize [simp]:
  "v \<noteq> RenameAccepted \<Longrightarrow> verdict_for key (finalize_event key' p v) = (key' = key)"
  by (cases key') (auto simp: verdict_for_def finalize_event_def)

lemma note_recreated_resolved [simp]: "pr_resolved (note_recreated m s k p) = pr_resolved p"
  by (simp add: note_recreated_def)

lemma open_watch_observe:
  "open_watch key (fst (observeRenameCorroboration ev rp)) +
     length (filter (verdict_for key) (snd (observeRenameCorroboration ev rp))) = open_watch key rp"
  by (auto simp: observeRenameCorroboration_def finalizeRenameLocked_def Let_def open_watch_def
      map_of_markRenameGap map_of_note_recreated split: observe_splits)

lemma open_watch_timer:
  "open_watch key (fst (rp_step (RTimer k) rp)) +
     length (filter (verdict_for key) (snd (rp_step (RTimer k) rp))) = open_watch key rp"
  by (auto simp: resolveRenameWindow_def finalizeRenameLocked_def Let_def open_watch_def
      split: option.splits)

lemma open_watch_watch:
  "open_watch key (watchRename m f t s rp) \<le>
     open_watch key rp + watches_of key [RWatch m f t s]"
  by (auto simp: watchRename_def open_watch_def split: option.splits)

lemma watches_of_Cons: "watches_of key (a # as) = watches_of key [a] + watches_of key as"
  by (cases a) auto

lemma rp_step_count:
  "open_watch key (fst (rp_step a rp)) + length (filter (verdict_for key) (snd (rp_step a rp)))
     \<le> open_watch key rp + watches_of key [a]"
proof (cases a)
  case (RWatch m f t s)
  then show ?thesis using open_watch_watch [of key m f t s rp] by simp
next
  case (RObserve ev)
  then show ?thesis using open_watch_observe [of key ev rp] by simp
next
  case (RTimer k)
  have "watches_of key [RTimer k] = 0" by simp
  then show ?thesis unfolding RTimer open_watch_timer by simp
qed

lemma rp_run_count:
  "open_watch key (fst (rp_run as rp)) + length (filter (verdict_for key) (snd (rp_run as rp)))
     \<le> open_watch key rp + watches_of key as"
proof (induction as arbitrary: rp)
  case Nil
  show ?case by simp
next
  case (Cons a as)
  obtain rp' evs where step: "rp_step a rp = (rp', evs)" by fastforce
  obtain rp'' evs' where run: "rp_run as rp' = (rp'', evs')" by fastforce
  have "open_watch key rp' + length (filter (verdict_for key) evs) \<le> open_watch key rp + watches_of key [a]"
    using rp_step_count [of key a rp] step by simp
  moreover have "open_watch key rp'' + length (filter (verdict_for key) evs') \<le> open_watch key rp' + watches_of key as"
    using Cons.IH [of rp'] run by simp
  ultimately show ?case
    using step run watches_of_Cons [of key a as] by simp
qed

section \<open>What a contested verdict rests on\<close>

definition recreates :: "string \<Rightarrow> string \<Rightarrow> timestamp option \<Rightarrow> event \<Rightarrow> bool" where
  "recreates machine from started ev =
     (ev_kind ev = EventSessionCreated \<and> ev_machine ev = machine \<and>
      (case ev_payload ev of PSession s \<Rightarrow>
         sess_id s = from \<and> startedAtMatches started (sess_started_at s) | _ \<Rightarrow> False))"

definition closes :: "string \<Rightarrow> string \<Rightarrow> event \<Rightarrow> bool" where
  "closes machine to ev =
     (ev_kind ev = EventSessionClosed \<and> ev_machine ev = machine \<and>
      (case ev_payload ev of PState ref st \<Rightarrow> ref_id ref = to | _ \<Rightarrow> False))"

definition contested_ok :: "event set \<Rightarrow> event \<Rightarrow> bool" where
  "contested_ok E fu = (case ev_payload fu of
     PRenamed r \<Rightarrow> rn_corroboration r = RenameContested \<longrightarrow>
       (\<exists>ev \<in> E. recreates (rn_machine r) (rn_from r) (rn_started_at r) ev) \<and>
       (\<exists>ev \<in> E. closes (rn_machine r) (rn_to r) ev)
   | _ \<Rightarrow> True)"

definition saw_ok :: "event set \<Rightarrow> rename_plane \<Rightarrow> bool" where
  "saw_ok E rp = (\<forall>key p. map_of rp key = Some p \<longrightarrow> pr_saw_from_recreated p \<longrightarrow>
     (\<exists>ev \<in> E. recreates (fst key) (pr_from p) (pr_started_at p) ev))"

lemma saw_okD:
  "saw_ok E rp \<Longrightarrow> map_of rp key = Some p \<Longrightarrow> pr_saw_from_recreated p \<Longrightarrow>
     \<exists>ev \<in> E. recreates (fst key) (pr_from p) (pr_started_at p) ev"
  unfolding saw_ok_def by blast

lemma saw_ok_empty: "saw_ok E newRenamePlane"
  by (simp add: saw_ok_def newRenamePlane_def)

lemma saw_ok_mono: "saw_ok E rp \<Longrightarrow> E \<subseteq> F \<Longrightarrow> saw_ok F rp"
  unfolding saw_ok_def by blast

lemma contested_ok_mono: "contested_ok E fu \<Longrightarrow> E \<subseteq> F \<Longrightarrow> contested_ok F fu"
  unfolding contested_ok_def by (fastforce split: payload.splits)

lemma saw_ok_put:
  assumes "saw_ok E rp"
    and "pr_saw_from_recreated p \<Longrightarrow> \<exists>ev \<in> E. recreates (fst key) (pr_from p) (pr_started_at p) ev"
  shows "saw_ok E (gm_put key p rp)"
  using assms unfolding saw_ok_def by auto

lemma saw_ok_watch: "saw_ok E rp \<Longrightarrow> saw_ok E (watchRename m f t s rp)"
  by (auto simp: watchRename_def intro: saw_ok_put)

lemma saw_ok_finalize:
  "saw_ok E rp \<Longrightarrow> map_of rp key = Some p \<Longrightarrow> saw_ok E (fst (finalizeRenameLocked key p v rp))"
  by (auto simp: finalizeRenameLocked_def intro!: saw_ok_put dest: saw_okD)

lemma saw_ok_gap: "saw_ok E rp \<Longrightarrow> saw_ok E (markRenameGap m rp)"
  by (auto simp: saw_ok_def map_of_markRenameGap split: if_splits)

lemma saw_ok_note:
  assumes "saw_ok E rp" and "ev_kind ev = EventSessionCreated" and "ev_payload ev = PSession s"
  shows "saw_ok (insert ev E) (map (\<lambda>(key, p). (key, note_recreated (ev_machine ev) s key p)) rp)"
  unfolding saw_ok_def map_of_note_recreated
proof (intro allI impI)
  fix key p
  assume "map_option (note_recreated (ev_machine ev) s key) (map_of rp key) = Some p"
    and saw: "pr_saw_from_recreated p"
  then obtain q where q: "map_of rp key = Some q" and p: "p = note_recreated (ev_machine ev) s key q"
    by auto
  show "\<exists>e \<in> insert ev E. recreates (fst key) (pr_from p) (pr_started_at p) e"
  proof (cases "pr_saw_from_recreated q")
    case True
    with assms(1) q obtain e where "e \<in> E" "recreates (fst key) (pr_from q) (pr_started_at q) e"
      by (blast dest: saw_okD)
    moreover have "pr_from p = pr_from q" "pr_started_at p = pr_started_at q"
      by (simp_all add: p note_recreated_def)
    ultimately show ?thesis by auto
  next
    case False
    with saw p assms(2,3) show ?thesis
      by (auto simp: note_recreated_def recreates_def split: if_splits)
  qed
qed

lemma saw_ok_observe:
  assumes "saw_ok E rp"
  shows "saw_ok (insert ev E) (fst (observeRenameCorroboration ev rp))"
proof -
  have ins: "saw_ok (insert ev E) rp" using assms by (auto intro: saw_ok_mono)
  show ?thesis
    using ins saw_ok_note [OF assms] saw_ok_gap [OF ins] saw_ok_finalize [OF ins]
    by (auto simp: observeRenameCorroboration_def Let_def split_beta split: observe_splits)
qed

lemma contested_ok_observe:
  assumes "saw_ok E rp" and "fu \<in> set (snd (observeRenameCorroboration ev rp))"
  shows "contested_ok (insert ev E) fu"
  using assms
  by (auto simp: observeRenameCorroboration_def finalizeRenameLocked_def finalize_event_def Let_def
      contested_ok_def closes_def dest!: saw_okD split: observe_splits)

lemma saw_ok_resolve: "saw_ok E rp \<Longrightarrow> saw_ok E (fst (resolveRenameWindow key rp))"
  by (auto simp: resolveRenameWindow_def Let_def split_beta intro: saw_ok_finalize split: option.splits)

lemma contested_ok_resolve:
  "resolveRenameWindow key rp = (rp', Some fu) \<Longrightarrow> contested_ok E fu"
  by (auto simp: resolveRenameWindow_def finalizeRenameLocked_def finalize_event_def contested_ok_def
      Let_def split: option.splits if_splits)

fun observed :: "rp_action list \<Rightarrow> event list" where
  "observed [] = []"
| "observed (RObserve ev # as) = ev # observed as"
| "observed (a # as) = observed as"

lemma rp_step_saw_ok: "saw_ok E rp \<Longrightarrow> saw_ok (E \<union> set (observed [a])) (fst (rp_step a rp))"
proof (cases a)
  case (RTimer key)
  assume "saw_ok E rp"
  then have "saw_ok E (fst (resolveRenameWindow key rp))" by (rule saw_ok_resolve)
  then show ?thesis unfolding RTimer by (auto split: prod.split option.split)
qed (simp_all add: saw_ok_watch saw_ok_observe)

lemma rp_step_contested_ok:
  assumes "saw_ok E rp" and "fu \<in> set (snd (rp_step a rp))"
  shows "contested_ok (E \<union> set (observed [a])) fu"
proof (cases a)
  case (RTimer key)
  with assms(2) have "snd (resolveRenameWindow key rp) = Some fu"
    by (simp split: prod.splits option.splits)
  then show ?thesis using contested_ok_resolve [of key rp _ fu] by (metis prod.collapse)
next
  case (RObserve ev)
  with assms show ?thesis by (simp add: contested_ok_observe)
next
  case (RWatch m f t s)
  with assms show ?thesis by simp
qed

lemma rp_run_ok:
  "saw_ok E rp \<Longrightarrow> fu \<in> set (snd (rp_run as rp)) \<Longrightarrow> contested_ok (E \<union> set (observed as)) fu"
proof (induction as arbitrary: rp E)
  case Nil
  then show ?case by simp
next
  case (Cons a as)
  obtain rp' evs where step: "rp_step a rp = (rp', evs)" by fastforce
  obtain rp'' evs' where run: "rp_run as rp' = (rp'', evs')" by fastforce
  have obs: "E \<union> set (observed [a]) \<union> set (observed as) = E \<union> set (observed (a # as))"
    by (cases a) auto
  from Cons.prems step run consider "fu \<in> set evs" | "fu \<in> set evs'" by auto
  then show ?case
  proof cases
    case 1
    then have "contested_ok (E \<union> set (observed [a])) fu"
      using rp_step_contested_ok [OF Cons.prems(1), of fu a] step by simp
    then show ?thesis by (rule contested_ok_mono) (use obs in blast)
  next
    case 2
    have "saw_ok (E \<union> set (observed [a])) rp'"
      using rp_step_saw_ok [OF Cons.prems(1), of a] step by simp
    from Cons.IH [OF this] 2 run have "contested_ok (E \<union> set (observed [a]) \<union> set (observed as)) fu"
      by simp
    then show ?thesis by (simp only: obs)
  qed
qed

section \<open>Properties\<close>

text \<open>
  A rename is judged at most once. Over any run of the plane, whatever events, timer
  callbacks and further renames it interleaves, the number of verdicts published for a pair of
  machine and new id is at most the number of watches started for it.
\<close>

theorem one_verdict_per_watch:
  "length (filter (verdict_for key) (snd (rp_run as newRenamePlane))) \<le> watches_of key as"
  using rp_run_count [of key as newRenamePlane] by (simp add: open_watch_def newRenamePlane_def)

text \<open>
  A rename is called contested only on evidence: whenever a run publishes that verdict, the
  run observed a session of the same machine created under the old id with the old start time,
  and the closing of the session under the new id.
\<close>

theorem contested_needs_evidence:
  assumes "fu \<in> set (snd (rp_run as newRenamePlane))" and "ev_payload fu = PRenamed r"
    and "rn_corroboration r = RenameContested"
  shows "(\<exists>ev \<in> set (observed as). recreates (rn_machine r) (rn_from r) (rn_started_at r) ev) \<and>
         (\<exists>ev \<in> set (observed as). closes (rn_machine r) (rn_to r) ev)"
  using rp_run_ok [OF saw_ok_empty assms(1), of "{}"] assms(2,3) by (auto simp: contested_ok_def)

definition demo_rename_run :: "rp_action list" where
  "demo_rename_run =
    [RWatch ''m'' ''a'' ''b'' (Some 5),
     RObserve (mk_event ''m'' EventSessionCreated (PSession
       \<lparr>sess_ref = \<lparr>ref_machine = ''m'', ref_id = ''a'', ref_name = ''a''\<rparr>, sess_runtime = ''tmux'',
        sess_cwd = [], sess_agent = [], sess_started_at = Some 5, sess_conversation = None,
        sess_marker = [], sess_labels = [], sess_state = ObservedState ''idle'' [] None\<rparr>)),
     RObserve (mk_event ''m'' EventSessionClosed (PState
       \<lparr>ref_machine = ''m'', ref_id = ''b'', ref_name = ''b''\<rparr> (ObservedState ''gone'' [] None)))]"

definition demo_contested :: session_renamed where
  "demo_contested = \<lparr>rn_machine = ''m'', rn_from = ''a'', rn_to = ''b'', rn_started_at = Some 5,
     rn_corroboration = RenameContested\<rparr>"

lemma contested_needs_evidence_witness:
  "(\<exists>ev \<in> set (observed demo_rename_run). recreates ''m'' ''a'' (Some 5) ev) \<and>
   (\<exists>ev \<in> set (observed demo_rename_run). closes ''m'' ''b'' ev)"
proof -
  have "snd (rp_run demo_rename_run newRenamePlane) =
      [mk_event ''m'' EventSessionRenamed (PRenamed demo_contested)]"
    by code_simp
  from contested_needs_evidence [of "mk_event ''m'' EventSessionRenamed (PRenamed demo_contested)"
      demo_rename_run demo_contested] this
  show ?thesis by (simp add: demo_contested_def)
qed

text \<open>
  An event decoded from a peer's stream carries no typed payload, so a rename on a peer can be
  watched but no event of that peer can contest it: the plane never changes at all on one.
\<close>

lemma opaque_events_never_contest:
  "ev_payload ev = POpaque \<Longrightarrow> ev_kind ev \<noteq> EventControlResync \<Longrightarrow>
     observeRenameCorroboration ev rp = (rp, [])"
  by (simp add: observeRenameCorroboration_def split: event_kind.split)

end
