(* ===== verification/EventHub.thy ===== *)
theory EventHub
  imports RenamePlane
begin

text \<open>
  The event hub of the service (\<open>internal/service/events.go\<close>, with the persistence of
  \<open>NewWithState\<close> in \<open>internal/service/service.go\<close>): stamping, the retained ring,
  fan-out to bounded subscriber channels, resumption from a cursor, and the lifetime of the one
  driver-side stream. A buffered channel is the list of events in it; the 64-bit cursor is an
  unbounded integer, since it counts events one by one.
\<close>

section \<open>State\<close>

datatype scope = ScopeLocal | ScopeFleet

record subscriber =
  sub_ch :: "event list"
  sub_filter :: sub_filter
  sub_scope :: scope
  sub_dropped :: bool

record hub =
  h_epoch :: string
  h_self :: string
  h_retention :: nat
  h_cursor :: int
  h_ring :: "event list"
  h_subs :: "(int, subscriber) gomap"
  h_next_id :: int
  h_persist :: "int option"
  h_stream_on :: bool
  h_stream_filter :: sub_filter
  h_stream_peers :: bool
  h_linger :: duration
  h_linger_timer :: bool
  h_rename :: rename_plane

text \<open>
  \<open>h_persist\<close> is \<open>None\<close> when the hook is nil, otherwise the cursor the saved document
  holds.
  \<open>h_stream_peers\<close> records whether the running stream was started with pumps for the
  peers (the goroutines \<open>ensureStream\<close> started, which the hub itself does not record).
\<close>

definition defaultRetention :: nat where
  "defaultRetention = 512"

definition defaultLinger :: duration where
  "defaultLinger = 60 * second"

definition channel_capacity :: nat where
  "channel_capacity = 64"

definition newHub :: "string \<Rightarrow> string \<Rightarrow> hub" where
  "newHub self epoch =
     \<lparr>h_epoch = epoch, h_self = self, h_retention = defaultRetention, h_cursor = 0, h_ring = [],
      h_subs = [], h_next_id = 0, h_persist = None, h_stream_on = False,
      h_stream_filter = filter_all, h_stream_peers = False, h_linger = defaultLinger,
      h_linger_timer = False, h_rename = newRenamePlane\<rparr>"

text \<open>
  \<open>NewWithState\<close>: with a saved sequence whose epoch is not empty the hub continues it,
  otherwise it saves the fresh one. \<open>saved\<close> is the loaded document, \<open>fresh\<close> the
  epoch derived from the start time.
\<close>

definition newHubWithState :: "string \<Rightarrow> string \<Rightarrow> (string \<times> int) option \<Rightarrow> hub" where
  "newHubWithState self fresh saved =
     (case saved of
        Some (epoch, cursor) \<Rightarrow>
          if epoch \<noteq> [] then (newHub self epoch)\<lparr>h_cursor := cursor, h_persist := Some cursor\<rparr>
          else (newHub self fresh)\<lparr>h_persist := Some 0\<rparr>
      | None \<Rightarrow> (newHub self fresh)\<lparr>h_persist := Some 0\<rparr>)"

section \<open>Filtering\<close>

definition eventTarget :: "event \<Rightarrow> string \<times> string" where
  "eventTarget ev =
     (case ev_payload ev of
        PSession s \<Rightarrow> (sess_id s, sess_cwd s)
      | PState ref st \<Rightarrow> (ref_id ref, [])
      | PLabels ref sa ls \<Rightarrow> (ref_id ref, [])
      | _ \<Rightarrow> ([], []))"

definition matchesEvent :: "sub_filter \<Rightarrow> event \<Rightarrow> bool" where
  "matchesEvent f ev =
     (if ev_kind ev = EventControlResync \<or> ev_kind ev = EventSourceStatus then True
      else let (sid, cwd) = eventTarget ev in
        if sid = [] then True else filter_matches f sid cwd)"

section \<open>Publishing\<close>

definition scope_allows :: "string \<Rightarrow> scope \<Rightarrow> event \<Rightarrow> bool" where
  "scope_allows self sc ev = (\<not> (sc = ScopeLocal \<and> ev_machine ev \<noteq> [] \<and> ev_machine ev \<noteq> self))"

definition offer :: "string \<Rightarrow> event \<Rightarrow> subscriber \<Rightarrow> subscriber" where
  "offer self ev s =
     (if \<not> scope_allows self (sub_scope s) ev then s
      else if \<not> matchesEvent (sub_filter s) ev then s
      else if length (sub_ch s) < channel_capacity then s\<lparr>sub_ch := sub_ch s @ [ev]\<rparr>
      else s\<lparr>sub_dropped := True\<rparr>)"

definition stamp :: "hub \<Rightarrow> event \<Rightarrow> event" where
  "stamp h ev = ev\<lparr>ev_cursor := h_cursor h + 1, ev_epoch := h_epoch h\<rparr>"

definition trim_ring :: "nat \<Rightarrow> event list \<Rightarrow> event list" where
  "trim_ring n ring = (if length ring > n then drop (length ring - n) ring else ring)"

definition publish_locked :: "event \<Rightarrow> hub \<Rightarrow> hub" where
  "publish_locked ev h =
     (let ev' = stamp h ev in
      h\<lparr>h_cursor := h_cursor h + 1,
        h_persist := map_option (\<lambda>_. h_cursor h + 1) (h_persist h),
        h_ring := trim_ring (h_retention h) (h_ring h @ [ev']),
        h_subs := map (\<lambda>(i, s). (i, offer (h_self h) ev' s)) (h_subs h)\<rparr>)"

function publish :: "event \<Rightarrow> hub \<Rightarrow> hub" where
  "publish ev h =
     (let h1 = publish_locked ev h;
          (rp, followUps) = observeRenameCorroboration (stamp h ev) (h_rename h1)
      in fold publish followUps (h1\<lparr>h_rename := rp\<rparr>))"
  by pat_completeness auto
termination
proof (relation "measure (\<lambda>(ev, h). if ev_kind ev = EventSessionRenamed then 0 else 1)")
  show "wf (measure (\<lambda>(ev, h). if ev_kind ev = EventSessionRenamed then (0::nat) else 1))"
    by simp
next
  fix ev :: event and h h1 :: hub and p rp fus and fu :: event and h2 :: hub
  assume "h1 = publish_locked ev h"
    and p: "p = observeRenameCorroboration (stamp h ev) (h_rename h1)" "(rp, fus) = p"
    and fu: "fu \<in> set fus"
  have "fu \<in> set (snd (observeRenameCorroboration (stamp h ev) (h_rename h1)))"
    using p fu by (metis snd_conv)
  then have "ev_kind fu = EventSessionRenamed"
    and "ev_kind (stamp h ev) \<noteq> EventSessionRenamed"
    using observe_followups_renamed by (auto simp: observe_renamed_none)
  then show "((fu, h2), (ev, h)) \<in>
      measure (\<lambda>(ev, h). if ev_kind ev = EventSessionRenamed then (0::nat) else 1)"
    by (simp add: stamp_def)
qed

declare publish.simps [simp del]

text \<open>
  A follow-up is always a \<open>session.renamed\<close> event, which starts no follow-up of its own, so
  the recursion is one level deep.
\<close>

lemma publish_renamed: "ev_kind ev = EventSessionRenamed \<Longrightarrow> publish ev h = publish_locked ev h"
  by (simp add: publish.simps [of ev h] publish_locked_def Let_def stamp_def)

lemma fold_publish_renamed:
  "\<forall>ev \<in> set evs. ev_kind ev = EventSessionRenamed \<Longrightarrow> fold publish evs h = fold publish_locked evs h"
  by (induction evs arbitrary: h) (simp_all add: publish_renamed)

lemma publish_unfold:
  "publish ev h =
     (let h1 = publish_locked ev h;
          (rp, followUps) = observeRenameCorroboration (stamp h ev) (h_rename h)
      in fold publish_locked followUps (h1\<lparr>h_rename := rp\<rparr>))"
proof -
  obtain rp fus where obs: "observeRenameCorroboration (stamp h ev) (h_rename h) = (rp, fus)"
    by fastforce
  have same: "h_rename (publish_locked ev h) = h_rename h"
    by (simp add: publish_locked_def Let_def)
  have "\<forall>fu \<in> set fus. ev_kind fu = EventSessionRenamed"
    using observe_followups_renamed [of _ "stamp h ev" "h_rename h"] obs by auto
  then show ?thesis
    by (simp add: publish.simps [of ev h] Let_def same obs fold_publish_renamed)
qed

section \<open>Subscribing\<close>

definition hub_add ::
  "scope \<Rightarrow> sub_filter \<Rightarrow> int \<Rightarrow> string \<Rightarrow> hub \<Rightarrow> hub \<times> int \<times> event list \<times> bool" where
  "hub_add sc flt fromCursor fromEpoch h =
     (let i = h_next_id h;
          s = \<lparr>sub_ch = [], sub_filter = flt, sub_scope = sc, sub_dropped = False\<rparr>;
          h' = h\<lparr>h_next_id := i + 1, h_subs := gm_put i s (h_subs h)\<rparr>
      in if fromCursor = 0 \<and> fromEpoch = [] then (h', i, [], False)
         else if fromEpoch \<noteq> h_epoch h then (h', i, [], True)
         else if fromCursor > h_cursor h then (h', i, [], True)
         else
           let oldest = (case h_ring h of [] \<Rightarrow> 0 | ev # _ \<Rightarrow> ev_cursor ev)
           in if fromCursor < oldest - 1 then (h', i, [], True)
              else (h', i, filter (\<lambda>ev. ev_cursor ev > fromCursor \<and> matchesEvent flt ev) (h_ring h), False))"

definition hub_remove :: "int \<Rightarrow> hub \<Rightarrow> hub" where
  "hub_remove i h = h\<lparr>h_subs := gm_del i (h_subs h)\<rparr>"

definition currentCursor :: "hub \<Rightarrow> int" where
  "currentCursor h = h_cursor h"

definition subscriberCount :: "hub \<Rightarrow> nat" where
  "subscriberCount h = length (h_subs h)"

definition streamLive :: "hub \<Rightarrow> bool" where
  "streamLive h = h_stream_on h"

text \<open>A subscriber's reader takes the oldest event out of its channel.\<close>

definition hub_receive :: "int \<Rightarrow> hub \<Rightarrow> hub \<times> event option" where
  "hub_receive i h =
     (case map_of (h_subs h) i of
        Some s \<Rightarrow> (case sub_ch s of
            [] \<Rightarrow> (h, None)
          | ev # rest \<Rightarrow> (h\<lparr>h_subs := gm_put i (s\<lparr>sub_ch := rest\<rparr>) (h_subs h)\<rparr>, Some ev))
      | None \<Rightarrow> (h, None))"

section \<open>The driver-side stream\<close>

definition armLinger :: "hub \<Rightarrow> hub" where
  "armLinger h =
     (if h_linger h > 0 then h\<lparr>h_linger_timer := True\<rparr>
      else h\<lparr>h_stream_on := False, h_stream_peers := False\<rparr>)"

definition lingerExpired :: "hub \<Rightarrow> hub" where
  "lingerExpired h =
     (let h' = h\<lparr>h_linger_timer := False\<rparr>
      in if h_subs h \<noteq> [] then h' else h'\<lparr>h_stream_on := False, h_stream_peers := False\<rparr>)"

definition disarmLinger :: "hub \<Rightarrow> hub" where
  "disarmLinger h = h\<lparr>h_linger_timer := False\<rparr>"

definition wantsPeers :: "hub \<Rightarrow> bool" where
  "wantsPeers h = (\<exists>p \<in> set (h_subs h). sub_scope (snd p) = ScopeFleet)"

definition add_unseen :: "string \<Rightarrow> string list \<Rightarrow> string list" where
  "add_unseen x acc = (if x \<in> set acc then acc else acc @ [x])"

fun union_loop :: "subscriber list \<Rightarrow> string list \<Rightarrow> sub_filter" where
  "union_loop [] ids = \<lparr>sf_sessions = ids, sf_cwd_prefix = []\<rparr>"
| "union_loop (s # ss) ids =
     (if sf_sessions (sub_filter s) = [] then filter_all
      else union_loop ss (fold add_unseen (sf_sessions (sub_filter s)) ids))"

definition unionFilter :: "hub \<Rightarrow> sub_filter" where
  "unionFilter h = union_loop (map snd (h_subs h)) []"

definition sameFilter :: "sub_filter \<Rightarrow> sub_filter \<Rightarrow> bool" where
  "sameFilter a b =
     (if sf_cwd_prefix a \<noteq> sf_cwd_prefix b \<or> length (sf_sessions a) \<noteq> length (sf_sessions b) then False
      else \<forall>y \<in> set (sf_sessions b). y \<in> set (sf_sessions a))"

definition ensureStream :: "hub \<Rightarrow> hub" where
  "ensureStream h =
     (let want = unionFilter h
      in if subscriberCount h = 0 \<and> h_stream_on h then armLinger h
         else if subscriberCount h = 0 then h
         else let h' = disarmLinger h
              in if h_stream_on h' \<and> sameFilter (h_stream_filter h') want then h'
                 else h'\<lparr>h_stream_on := True, h_stream_filter := want, h_stream_peers := wantsPeers h'\<rparr>)"

text \<open>\<open>Service.Events\<close>: subscribe, then make the stream fit; leaving is the reverse.\<close>

definition service_Events ::
  "scope \<Rightarrow> sub_filter \<Rightarrow> int \<Rightarrow> string \<Rightarrow> hub \<Rightarrow> hub \<times> int \<times> event list \<times> bool" where
  "service_Events sc flt c e h =
     (let (h', i, backlog, resync) = hub_add sc flt c e h in (ensureStream h', i, backlog, resync))"

definition service_leave :: "int \<Rightarrow> hub \<Rightarrow> hub" where
  "service_leave i h = ensureStream (hub_remove i h)"

definition FeedPosition :: "hub \<Rightarrow> int \<times> string \<times> bool" where
  "FeedPosition h = (currentCursor h, h_epoch h, streamLive h)"

definition pumpBackoffMin :: duration where
  "pumpBackoffMin = 500 * millisecond"

definition pumpBackoffMax :: duration where
  "pumpBackoffMax = 30 * second"

definition nextBackoff :: "duration \<Rightarrow> duration" where
  "nextBackoff d = (let d' = d * 2 in if d' > pumpBackoffMax then pumpBackoffMax else d')"

end
