(* ===== verification/EventFeed.thy ===== *)
theory EventFeed
  imports EventHub
begin

text \<open>
  What the event hub promises, stated against an abstract feed that forgets nothing: the hub's
  ring is a window on the feed, resumption replays exactly the events the caller has not seen
  or says that it cannot, and live delivery loses an event only by marking the subscriber.
\<close>

section \<open>The abstract feed\<close>

record feed =
  fd_epoch :: string
  fd_start :: int
  fd_log :: "event list"

definition feed_append :: "event \<Rightarrow> feed \<Rightarrow> feed" where
  "feed_append ev f =
     f\<lparr>fd_log := fd_log f @
        [ev\<lparr>ev_cursor := fd_start f + int (length (fd_log f)) + 1, ev_epoch := fd_epoch f\<rparr>]\<rparr>"

definition feed_after :: "int \<Rightarrow> feed \<Rightarrow> event list" where
  "feed_after c f = filter (\<lambda>ev. c < ev_cursor ev) (fd_log f)"

definition feed_ok :: "feed \<Rightarrow> bool" where
  "feed_ok f = (map ev_cursor (fd_log f) = map (\<lambda>i. fd_start f + int i + 1) [0..<length (fd_log f)])"

definition feed_rel :: "hub \<Rightarrow> feed \<Rightarrow> bool" where
  "feed_rel h f =
     (feed_ok f \<and> 0 < h_retention h \<and> h_epoch h = fd_epoch f \<and>
      h_cursor h = fd_start f + int (length (fd_log f)) \<and>
      h_ring h = drop (length (fd_log f) - h_retention h) (fd_log f))"

lemma feed_ok_nth: "feed_ok f \<Longrightarrow> i < length (fd_log f) \<Longrightarrow> ev_cursor (fd_log f ! i) = fd_start f + int i + 1"
  unfolding feed_ok_def by (metis (no_types, lifting) add_0 diff_zero length_map length_upt nth_map nth_upt)

lemma feed_ok_append: "feed_ok f \<Longrightarrow> feed_ok (feed_append ev f)"
  by (simp add: feed_ok_def feed_append_def)

lemma feed_ok_sorted: "feed_ok f \<Longrightarrow> sorted_wrt (\<lambda>x y. ev_cursor x < ev_cursor y) (fd_log f)"
  by (simp add: sorted_wrt_iff_nth_less feed_ok_nth)

lemma feed_append_sel [simp]:
  "fd_epoch (feed_append ev f) = fd_epoch f" "fd_start (feed_append ev f) = fd_start f"
  "length (fd_log (feed_append ev f)) = Suc (length (fd_log f))"
  by (simp_all add: feed_append_def)

text \<open>Publishing refines appending to the feed.\<close>

lemma trim_ring_window:
  assumes "0 < n"
  shows "trim_ring n (drop (length xs - n) xs @ [x]) = drop (Suc (length xs) - n) (xs @ [x])"
proof (cases "length xs < n")
  case True
  then show ?thesis by (simp add: trim_ring_def)
next
  case False
  with assms have "drop 1 (drop (length xs - n) xs @ [x]) = drop (Suc (length xs) - n) xs @ [x]"
    by (simp add: Suc_diff_le)
  with False show ?thesis by (simp add: trim_ring_def)
qed

lemma feed_rel_publish_locked:
  assumes "feed_rel h f"
  shows "feed_rel (publish_locked ev h) (feed_append ev f)"
proof -
  have n: "0 < h_retention h" using assms by (simp add: feed_rel_def)
  have st: "stamp h ev = ev\<lparr>ev_cursor := fd_start f + int (length (fd_log f)) + 1, ev_epoch := fd_epoch f\<rparr>"
    using assms by (simp add: feed_rel_def stamp_def)
  have "h_ring (publish_locked ev h) =
      trim_ring (h_retention h) (drop (length (fd_log f) - h_retention h) (fd_log f) @ [stamp h ev])"
    using assms by (simp add: publish_locked_def Let_def feed_rel_def)
  then have ring: "h_ring (publish_locked ev h) =
      drop (length (fd_log (feed_append ev f)) - h_retention h) (fd_log (feed_append ev f))"
    using trim_ring_window [OF n] st by (simp add: feed_append_def)
  show ?thesis
    unfolding feed_rel_def
    using assms ring by (simp add: feed_rel_def feed_ok_append publish_locked_def Let_def)
qed

lemma feed_rel_rename [simp]: "feed_rel (h\<lparr>h_rename := rp\<rparr>) f = feed_rel h f"
  by (simp add: feed_rel_def)

lemma feed_rel_fold:
  "feed_rel h f \<Longrightarrow> feed_rel (fold publish_locked evs h) (fold feed_append evs f)"
  by (induction evs arbitrary: h f) (simp_all add: feed_rel_publish_locked)

definition published :: "event \<Rightarrow> hub \<Rightarrow> event list" where
  "published ev h = ev # snd (observeRenameCorroboration (stamp h ev) (h_rename h))"

lemma feed_rel_publish:
  assumes "feed_rel h f"
  shows "feed_rel (publish ev h) (fold feed_append (published ev h) f)"
proof -
  have "feed_rel (fold publish_locked (snd (observeRenameCorroboration (stamp h ev) (h_rename h)))
      ((publish_locked ev h)\<lparr>h_rename := fst (observeRenameCorroboration (stamp h ev) (h_rename h))\<rparr>))
      (fold feed_append (snd (observeRenameCorroboration (stamp h ev) (h_rename h))) (feed_append ev f))"
    by (rule feed_rel_fold) (simp add: feed_rel_publish_locked assms)
  then show ?thesis
    by (simp add: publish_unfold Let_def split_beta published_def publish_locked_def)
qed

text \<open>Every other operation leaves the feed alone.\<close>

lemma feed_rel_add: "feed_rel h f \<Longrightarrow> hub_add sc flt c e h = (h', r) \<Longrightarrow> feed_rel h' f"
  by (auto simp: hub_add_def feed_rel_def Let_def split: if_splits)

lemma feed_rel_remove [simp]: "feed_rel (hub_remove i h) f = feed_rel h f"
  by (simp add: feed_rel_def hub_remove_def)

lemma feed_rel_receive: "feed_rel (fst (hub_receive i h)) f = feed_rel h f"
  by (simp add: feed_rel_def hub_receive_def split: option.split list.split)

lemma feed_rel_ensureStream [simp]: "feed_rel (ensureStream h) f = feed_rel h f"
  by (simp add: feed_rel_def ensureStream_def armLinger_def disarmLinger_def Let_def)

lemma feed_rel_lingerExpired [simp]: "feed_rel (lingerExpired h) f = feed_rel h f"
  by (simp add: feed_rel_def lingerExpired_def Let_def)

lemma feed_rel_new:
  "feed_rel (newHub self e) \<lparr>fd_epoch = e, fd_start = 0, fd_log = []\<rparr>"
  by (simp add: feed_rel_def feed_ok_def newHub_def defaultRetention_def)

lemma feed_rel_newWithState:
  "feed_rel (newHubWithState self fresh saved)
     \<lparr>fd_epoch = h_epoch (newHubWithState self fresh saved),
      fd_start = h_cursor (newHubWithState self fresh saved), fd_log = []\<rparr>"
  by (auto simp: feed_rel_def feed_ok_def newHubWithState_def newHub_def defaultRetention_def
      split: option.split)

text \<open>What the window still holds of the feed.\<close>

lemma ring_oldest:
  assumes "feed_rel h f" and "fd_log f \<noteq> []"
  shows "h_ring h \<noteq> []"
    and "ev_cursor (hd (h_ring h)) = fd_start f + int (length (fd_log f) - h_retention h) + 1"
proof -
  have len: "length (fd_log f) - h_retention h < length (fd_log f)"
    using assms by (cases "fd_log f") (auto simp: feed_rel_def)
  then show "h_ring h \<noteq> []" using assms(1) unfolding feed_rel_def by (metis drop_eq_Nil leD)
  have "hd (h_ring h) = fd_log f ! (length (fd_log f) - h_retention h)"
    using assms len by (simp add: feed_rel_def hd_drop_conv_nth)
  then show "ev_cursor (hd (h_ring h)) = fd_start f + int (length (fd_log f) - h_retention h) + 1"
    using assms len by (simp add: feed_rel_def feed_ok_nth)
qed

lemma ring_empty: "feed_rel h f \<Longrightarrow> fd_log f = [] \<Longrightarrow> h_ring h = []"
  by (simp add: feed_rel_def)

lemma replay_window:
  assumes rel: "feed_rel h f" and old: "fd_start f + int (length (fd_log f) - h_retention h) \<le> c"
  shows "filter (\<lambda>ev. c < ev_cursor ev) (h_ring h) = feed_after c f"
proof -
  let ?k = "length (fd_log f) - h_retention h"
  have ok: "feed_ok f" and ring: "h_ring h = drop ?k (fd_log f)"
    using rel by (simp_all add: feed_rel_def)
  have "filter (\<lambda>ev. c < ev_cursor ev) (take ?k (fd_log f)) = []"
    using old ok by (auto simp: filter_empty_conv in_set_conv_nth feed_ok_nth)
  moreover have "feed_after c f = filter (\<lambda>ev. c < ev_cursor ev) (take ?k (fd_log f)) @
      filter (\<lambda>ev. c < ev_cursor ev) (drop ?k (fd_log f))"
    unfolding feed_after_def by (metis append_take_drop_id filter_append)
  ultimately show ?thesis by (simp add: ring)
qed

section \<open>Resumption\<close>

definition fresh_request :: "int \<Rightarrow> string \<Rightarrow> bool" where
  "fresh_request c e = (c = 0 \<and> e = [])"

lemma resume_replay:
  assumes rel: "feed_rel h f" and add: "hub_add sc flt c e h = (h', i, backlog, False)"
    and claim: "\<not> fresh_request c e"
    and start: "fd_log f \<noteq> [] \<or> fd_start f \<le> c"
  shows "e = fd_epoch f \<and> backlog = filter (matchesEvent flt) (feed_after c f)"
proof -
  have e: "e = h_epoch h" and le: "c \<le> h_cursor h"
    and backlog: "backlog = filter (\<lambda>ev. c < ev_cursor ev \<and> matchesEvent flt ev) (h_ring h)"
    and old: "h_ring h \<noteq> [] \<Longrightarrow> ev_cursor (hd (h_ring h)) - 1 \<le> c"
    using add claim by (auto simp: hub_add_def fresh_request_def Let_def split: if_splits list.splits)
  have "fd_start f + int (length (fd_log f) - h_retention h) \<le> c"
  proof (cases "fd_log f = []")
    case True
    with start show ?thesis by simp
  next
    case False
    from old [OF ring_oldest(1) [OF rel False]] show ?thesis
      unfolding ring_oldest(2) [OF rel False] by simp
  qed
  from replay_window [OF rel this]
  have "filter (matchesEvent flt) (filter (\<lambda>ev. c < ev_cursor ev) (h_ring h)) =
      filter (matchesEvent flt) (feed_after c f)" by simp
  with backlog e rel show ?thesis by (simp add: feed_rel_def conj_commute)
qed

lemma resync_lost:
  assumes rel: "feed_rel h f" and add: "hub_add sc flt c e h = (h', i, backlog, resync)"
    and claim: "\<not> fresh_request c e" and start0: "0 \<le> fd_start f" and start: "fd_start f \<le> c"
  shows "resync \<longleftrightarrow> e \<noteq> fd_epoch f \<or> fd_start f + int (length (fd_log f)) < c \<or>
     (\<exists>ev \<in> set (feed_after c f). ev \<notin> set (h_ring h))"
proof -
  let ?k = "length (fd_log f) - h_retention h"
  have ok: "feed_ok f" and ring: "h_ring h = drop ?k (fd_log f)"
    using rel by (simp_all add: feed_rel_def)
  have lost: "(\<exists>ev \<in> set (feed_after c f). ev \<notin> set (h_ring h)) \<longleftrightarrow> c < fd_start f + int ?k"
  proof
    assume "\<exists>ev \<in> set (feed_after c f). ev \<notin> set (h_ring h)"
    moreover have "set (feed_after c f) \<subseteq> set (h_ring h)" if "fd_start f + int ?k \<le> c"
      using replay_window [OF rel that] by (metis filter_is_subset)
    ultimately show "c < fd_start f + int ?k" by force
  next
    assume c: "c < fd_start f + int ?k"
    then have k: "0 < ?k" using start by simp
    let ?ev = "fd_log f ! (?k - 1)"
    have "ev_cursor ?ev = fd_start f + int ?k" using ok k by (simp add: feed_ok_nth of_nat_diff)
    then have "?ev \<in> set (feed_after c f)" using c k by (simp add: feed_after_def)
    moreover have "?ev \<notin> set (h_ring h)"
    proof
      assume "?ev \<in> set (h_ring h)"
      then obtain j where "j < length (drop ?k (fd_log f))" "drop ?k (fd_log f) ! j = ?ev"
        unfolding ring in_set_conv_nth by blast
      then have "?k + j < length (fd_log f)" "fd_log f ! (?k + j) = ?ev" by auto
      then have "fd_start f + int (?k + j) + 1 = fd_start f + int ?k"
        using feed_ok_nth [OF ok, of "?k + j"] \<open>ev_cursor ?ev = fd_start f + int ?k\<close> by simp
      then show False by simp
    qed
    ultimately show "\<exists>ev \<in> set (feed_after c f). ev \<notin> set (h_ring h)" by blast
  qed
  have res: "resync \<longleftrightarrow> e \<noteq> h_epoch h \<or> h_cursor h < c \<or>
      c < (case h_ring h of [] \<Rightarrow> 0 | ev # _ \<Rightarrow> ev_cursor ev) - 1"
    using add claim by (auto simp: hub_add_def fresh_request_def Let_def split: if_splits)
  have oldest: "h_cursor h < c \<or> (c < (case h_ring h of [] \<Rightarrow> 0 | ev # _ \<Rightarrow> ev_cursor ev) - 1 \<longleftrightarrow>
      c < fd_start f + int ?k)"
  proof (cases "fd_log f = []")
    case True
    with rel start start0 show ?thesis by (simp add: feed_rel_def)
  next
    case False
    with ring_oldest [OF rel False] show ?thesis by (auto split: list.splits)
  qed
  show ?thesis using res oldest lost rel by (auto simp: feed_rel_def)
qed

end
