(* ===== verification/HubRun.thy ===== *)
theory HubRun
  imports EventFeed
begin

text \<open>
  Runs of the event hub: every operation the service performs on it, in any order, against the
  abstract feed and the events each subscriber has taken from its channel. The operations of
  \<open>internal/service/events.go\<close> each take the hub's lock; \<open>Service.Events\<close> and its
  leave function are taken as one step with the stream update that follows them.
\<close>

section \<open>Operations and steps\<close>

definition publishRename ::
  "string \<Rightarrow> string \<Rightarrow> string \<Rightarrow> timestamp option \<Rightarrow> hub \<Rightarrow> hub" where
  "publishRename machine from to started h =
     (let h1 = publish (mk_event machine EventSessionRenamed
                 (PRenamed \<lparr>rn_machine = machine, rn_from = from, rn_to = to,
                    rn_started_at = started, rn_corroboration = RenameAccepted\<rparr>)) h
      in h1\<lparr>h_rename := watchRename machine from to started (h_rename h1)\<rparr>)"

datatype hub_op =
  HPublish event
| HRename string string string "timestamp option"
| HRenameTimer rename_key
| HSubscribe scope sub_filter int string
| HLeave int
| HReceive int
| HLinger

record world =
  w_hub :: hub
  w_feed :: feed
  w_taken :: "(int \<times> event) list"

definition w_publish :: "event \<Rightarrow> world \<Rightarrow> world" where
  "w_publish ev w = w\<lparr>w_hub := publish ev (w_hub w),
     w_feed := fold feed_append (published ev (w_hub w)) (w_feed w)\<rparr>"

fun hub_step :: "hub_op \<Rightarrow> world \<Rightarrow> world" where
  "hub_step (HPublish ev) w = w_publish ev w"
| "hub_step (HRename m a b st) w =
     w\<lparr>w_hub := publishRename m a b st (w_hub w),
       w_feed := feed_append (mk_event m EventSessionRenamed
         (PRenamed \<lparr>rn_machine = m, rn_from = a, rn_to = b, rn_started_at = st,
            rn_corroboration = RenameAccepted\<rparr>)) (w_feed w)\<rparr>"
| "hub_step (HRenameTimer key) w =
     (case resolveRenameWindow key (h_rename (w_hub w)) of
        (rp, None) \<Rightarrow> w
      | (rp, Some ev) \<Rightarrow> w_publish ev (w\<lparr>w_hub := (w_hub w)\<lparr>h_rename := rp\<rparr>\<rparr>))"
| "hub_step (HSubscribe sc flt c e) w = w\<lparr>w_hub := fst (service_Events sc flt c e (w_hub w))\<rparr>"
| "hub_step (HLeave i) w = w\<lparr>w_hub := service_leave i (w_hub w)\<rparr>"
| "hub_step (HReceive i) w =
     (case hub_receive i (w_hub w) of
        (h, None) \<Rightarrow> w
      | (h, Some ev) \<Rightarrow> w\<lparr>w_hub := h, w_taken := w_taken w @ [(i, ev)]\<rparr>)"
| "hub_step HLinger w = w\<lparr>w_hub := lingerExpired (w_hub w)\<rparr>"

definition hub_run :: "hub_op list \<Rightarrow> world \<Rightarrow> world" where
  "hub_run ops w = fold hub_step ops w"

definition world0 :: "hub \<Rightarrow> world" where
  "world0 h = \<lparr>w_hub = h, w_feed = \<lparr>fd_epoch = h_epoch h, fd_start = h_cursor h, fd_log = []\<rparr>,
     w_taken = []\<rparr>"

section \<open>The subscriber table\<close>

definition subs_ok :: "hub \<Rightarrow> bool" where
  "subs_ok h = (gm_wf (h_subs h) \<and> (\<forall>i s. map_of (h_subs h) i = Some s \<longrightarrow> i < h_next_id h))"

lemma subs_okD: "subs_ok h \<Longrightarrow> map_of (h_subs h) i = Some s \<Longrightarrow> i < h_next_id h"
  unfolding subs_ok_def by blast

lemma publish_locked_sel [simp]:
  "h_next_id (publish_locked ev h) = h_next_id h"
  "h_self (publish_locked ev h) = h_self h" "h_epoch (publish_locked ev h) = h_epoch h"
  "h_stream_on (publish_locked ev h) = h_stream_on h"
  "h_stream_filter (publish_locked ev h) = h_stream_filter h"
  "h_linger_timer (publish_locked ev h) = h_linger_timer h"
  "map fst (h_subs (publish_locked ev h)) = map fst (h_subs h)"
  "h_cursor (publish_locked ev h) = h_cursor h + 1"
  "h_rename (publish_locked ev h) = h_rename h"
  by (simp_all add: publish_locked_def Let_def)

lemma offer_sel [simp]:
  "sub_filter (offer self ev s) = sub_filter s" "sub_scope (offer self ev s) = sub_scope s"
  by (simp_all add: offer_def)

text \<open>A publication is a sequence of locked publications and an update of the rename plane.\<close>

lemma publish_lift:
  assumes locked: "\<And>ev h. P h \<Longrightarrow> P (publish_locked ev h)"
    and rename: "\<And>rp h. P h \<Longrightarrow> P (h\<lparr>h_rename := rp\<rparr>)"
    and start: "P h"
  shows "P (publish ev h)"
proof -
  have "P (fold publish_locked evs g)" if "P g" for evs g
    using that by (induction evs arbitrary: g) (simp_all add: locked)
  then show ?thesis
    by (simp add: publish_unfold Let_def split_beta locked rename start)
qed

lemma publishRename_lift:
  assumes "\<And>ev h. P h \<Longrightarrow> P (publish_locked ev h)"
    and rename: "\<And>rp h. P h \<Longrightarrow> P (h\<lparr>h_rename := rp\<rparr>)" and "P h"
  shows "P (publishRename m a b st h)"
  unfolding publishRename_def Let_def by (rule rename, rule publish_lift) (use assms in auto)

lemma publish_locked_subs:
  "map_of (h_subs (publish_locked ev h)) i =
     map_option (offer (h_self h) (stamp h ev)) (map_of (h_subs h) i)"
  unfolding publish_locked_def Let_def by (simp add: map_of_map_values [where f = "\<lambda>_. offer (h_self h) (stamp h ev)"])

lemma subs_ok_publish_locked: "subs_ok h \<Longrightarrow> subs_ok (publish_locked ev h)"
  by (auto simp: subs_ok_def publish_locked_subs simp del: map_of_eq_Some_iff)

lemma subs_ok_rename [simp]: "subs_ok (h\<lparr>h_rename := rp\<rparr>) = subs_ok h"
  by (simp add: subs_ok_def)

lemma subs_ok_add: "subs_ok h \<Longrightarrow> subs_ok (fst (hub_add sc flt c e h))"
  by (fastforce simp: subs_ok_def hub_add_def Let_def split: if_splits simp del: map_of_eq_Some_iff)

lemma subs_ok_remove: "subs_ok h \<Longrightarrow> subs_ok (hub_remove i h)"
  by (auto simp: subs_ok_def hub_remove_def restrict_map_def split: if_splits simp del: map_of_eq_Some_iff)

lemma subs_ok_receive: "subs_ok h \<Longrightarrow> subs_ok (fst (hub_receive i h))"
  by (auto simp: subs_ok_def hub_receive_def split: option.split list.split if_splits simp del: map_of_eq_Some_iff)

lemma ensureStream_sel [simp]:
  "h_subs (ensureStream h) = h_subs h" "h_next_id (ensureStream h) = h_next_id h"
  "h_rename (ensureStream h) = h_rename h" "h_self (ensureStream h) = h_self h"
  by (simp_all add: ensureStream_def armLinger_def disarmLinger_def Let_def)

lemma lingerExpired_sel [simp]:
  "h_subs (lingerExpired h) = h_subs h" "h_next_id (lingerExpired h) = h_next_id h"
  "h_rename (lingerExpired h) = h_rename h" "h_self (lingerExpired h) = h_self h"
  by (simp_all add: lingerExpired_def Let_def)

lemma subs_ok_stream [simp]: "subs_ok (ensureStream h) = subs_ok h"
  "subs_ok (lingerExpired h) = subs_ok h"
  by (simp_all add: subs_ok_def)

lemma service_Events_fst: "fst (service_Events sc flt c e h) = ensureStream (fst (hub_add sc flt c e h))"
  by (simp add: service_Events_def split_beta)

section \<open>The stream fits its listeners\<close>

definition covers :: "sub_filter \<Rightarrow> subscriber \<Rightarrow> bool" where
  "covers g s = (sf_cwd_prefix g = [] \<and>
     (sf_sessions g = [] \<or> sf_sessions (sub_filter s) \<noteq> [] \<and>
        set (sf_sessions (sub_filter s)) \<subseteq> set (sf_sessions g)))"

lemma covers_matches: "covers g s \<Longrightarrow> filter_matches (sub_filter s) sid cwd \<Longrightarrow> filter_matches g sid cwd"
  by (auto simp: covers_def filter_matches_def split: if_splits)

lemma set_fold_add_unseen [simp]: "set (fold add_unseen xs acc) = set xs \<union> set acc"
  by (induction xs arbitrary: acc) (auto simp: add_unseen_def)

lemma distinct_fold_add_unseen: "distinct acc \<Longrightarrow> distinct (fold add_unseen xs acc)"
  by (induction xs arbitrary: acc) (auto simp: add_unseen_def)

lemma union_loop_distinct: "distinct acc \<Longrightarrow> distinct (sf_sessions (union_loop ss acc))"
  by (induction ss acc rule: union_loop.induct) (auto simp: distinct_fold_add_unseen)

lemma union_loop_ids:
  "sf_sessions (union_loop ss acc) = [] \<or> set acc \<subseteq> set (sf_sessions (union_loop ss acc))"
  by (induction ss acc rule: union_loop.induct) (auto split: if_splits)

lemma union_loop_cwd [simp]: "sf_cwd_prefix (union_loop ss acc) = []"
  by (induction ss acc rule: union_loop.induct) auto

lemma union_loop_covers: "s \<in> set ss \<Longrightarrow> covers (union_loop ss acc) s"
proof (induction ss acc rule: union_loop.induct)
  case (2 t ss ids)
  show ?case
  proof (cases "sf_sessions (sub_filter t) = []")
    case True
    then show ?thesis by (simp add: covers_def)
  next
    case False
    let ?acc = "fold add_unseen (sf_sessions (sub_filter t)) ids"
    have "covers (union_loop ss ?acc) t"
      using union_loop_ids [of ss ?acc] False by (auto simp: covers_def)
    with 2 False show ?thesis by auto
  qed
qed simp

lemma unionFilter_covers: "(i, s) \<in> set (h_subs h) \<Longrightarrow> covers (unionFilter h) s"
  unfolding unionFilter_def by (rule union_loop_covers) force

lemma unionFilter_distinct: "distinct (sf_sessions (unionFilter h))"
  unfolding unionFilter_def by (rule union_loop_distinct) simp

lemma sameFilter_covers:
  assumes "sameFilter g want" and "distinct (sf_sessions g)" and "distinct (sf_sessions want)"
    and "covers want s"
  shows "covers g s"
proof -
  have len: "length (sf_sessions g) = length (sf_sessions want)"
    and sub: "set (sf_sessions want) \<subseteq> set (sf_sessions g)"
    and cwd: "sf_cwd_prefix g = sf_cwd_prefix want"
    using assms(1) by (auto simp: sameFilter_def split: if_splits)
  have "card (set (sf_sessions want)) = card (set (sf_sessions g))"
    using len assms(2,3) by (simp add: distinct_card)
  with sub have eq: "set (sf_sessions g) = set (sf_sessions want)"
    by (metis List.finite_set card_subset_eq)
  moreover have "sf_sessions g = [] \<longleftrightarrow> sf_sessions want = []"
    using len by (metis length_0_conv)
  ultimately show ?thesis using assms(4) unfolding covers_def eq cwd by blast
qed

definition stream_ok :: "hub \<Rightarrow> bool" where
  "stream_ok h = (distinct (sf_sessions (h_stream_filter h)) \<and>
     (\<forall>p \<in> set (h_subs h). h_stream_on h \<and> covers (h_stream_filter h) (snd p)))"

lemma stream_ok_ensure:
  assumes "distinct (sf_sessions (h_stream_filter h))"
  shows "stream_ok (ensureStream h)"
proof (cases "h_subs h = []")
  case True
  with assms show ?thesis
    by (simp add: stream_ok_def ensureStream_def armLinger_def subscriberCount_def Let_def)
next
  case False
  then have "ensureStream h =
      (if h_stream_on h \<and> sameFilter (h_stream_filter h) (unionFilter h) then disarmLinger h
       else (disarmLinger h)\<lparr>h_stream_on := True, h_stream_filter := unionFilter h,
              h_stream_peers := wantsPeers (disarmLinger h)\<rparr>)"
    by (simp add: ensureStream_def subscriberCount_def disarmLinger_def Let_def)
  moreover have "covers (unionFilter h) s" if "(i, s) \<in> set (h_subs h)" for i s
    using that by (rule unionFilter_covers)
  moreover have "covers (h_stream_filter h) s"
    if "(i, s) \<in> set (h_subs h)" "sameFilter (h_stream_filter h) (unionFilter h)" for i s
    using sameFilter_covers [OF that(2) assms unionFilter_distinct] unionFilter_covers [OF that(1)] by blast
  ultimately show ?thesis
    using assms unionFilter_distinct [of h] by (auto simp: stream_ok_def disarmLinger_def)
qed

lemma stream_ok_distinct: "stream_ok h \<Longrightarrow> distinct (sf_sessions (h_stream_filter h))"
  by (simp add: stream_ok_def)

lemma stream_ok_linger: "stream_ok h \<Longrightarrow> stream_ok (lingerExpired h)"
  by (auto simp: stream_ok_def lingerExpired_def Let_def split: if_splits)

lemma covers_offer [simp]: "covers g (offer self ev s) = covers g s"
  by (simp add: covers_def)

lemma stream_ok_publish_locked: "stream_ok h \<Longrightarrow> stream_ok (publish_locked ev h)"
  by (auto simp: stream_ok_def publish_locked_def Let_def)

lemma stream_ok_rename [simp]: "stream_ok (h\<lparr>h_rename := rp\<rparr>) = stream_ok h"
  by (simp add: stream_ok_def)

lemma stream_ok_receive:
  assumes "stream_ok h" and "gm_wf (h_subs h)"
  shows "stream_ok (fst (hub_receive i h))"
proof (cases "map_of (h_subs h) i")
  case None
  with assms show ?thesis by (simp add: hub_receive_def)
next
  case (Some s)
  then have "(i, s) \<in> set (h_subs h)" by (rule map_of_SomeD)
  then have "h_stream_on h" "covers (h_stream_filter h) s" using assms(1) by (auto simp: stream_ok_def)
  moreover have "covers g (s\<lparr>sub_ch := r\<rparr>) = covers g s" for g r by (simp add: covers_def)
  ultimately show ?thesis
    using assms Some by (simp add: hub_receive_def stream_ok_def set_gm_put split: list.split)
qed

lemma stream_filter_sel [simp]:
  "h_stream_filter (fst (hub_add sc flt c e h)) = h_stream_filter h"
  "h_stream_filter (hub_remove i h) = h_stream_filter h"
  by (simp_all add: hub_add_def hub_remove_def Let_def)

section \<open>The invariant of runs\<close>

definition world_ok :: "world \<Rightarrow> bool" where
  "world_ok w = (feed_rel (w_hub w) (w_feed w) \<and> subs_ok (w_hub w) \<and> stream_ok (w_hub w))"

lemma world_ok_w_publish: "world_ok w \<Longrightarrow> world_ok (w_publish ev w)"
  unfolding world_ok_def w_publish_def
  using feed_rel_publish
    publish_lift [of subs_ok "w_hub w" ev] publish_lift [of stream_ok "w_hub w" ev]
  by (simp add: subs_ok_publish_locked stream_ok_publish_locked)

lemma feed_rel_publishRename:
  "feed_rel h f \<Longrightarrow> feed_rel (publishRename m a b st h)
     (feed_append (mk_event m EventSessionRenamed
       (PRenamed \<lparr>rn_machine = m, rn_from = a, rn_to = b, rn_started_at = st,
          rn_corroboration = RenameAccepted\<rparr>)) f)"
  by (simp add: publishRename_def Let_def publish_renamed feed_rel_publish_locked)

lemma world_ok_step: "world_ok w \<Longrightarrow> world_ok (hub_step op w)"
proof (cases op)
  case (HPublish ev)
  then show "world_ok w \<Longrightarrow> ?thesis" by (simp add: world_ok_w_publish)
next
  case (HRename m a b st)
  assume "world_ok w"
  then show ?thesis
    using publishRename_lift [of subs_ok "w_hub w"] publishRename_lift [of stream_ok "w_hub w"]
    by (simp add: HRename world_ok_def feed_rel_publishRename subs_ok_publish_locked stream_ok_publish_locked)
next
  case (HRenameTimer key)
  assume ok: "world_ok w"
  then have "world_ok (w\<lparr>w_hub := (w_hub w)\<lparr>h_rename := rp\<rparr>\<rparr>)" for rp
    by (simp add: world_ok_def)
  with ok show ?thesis
    by (auto simp: HRenameTimer world_ok_w_publish split: prod.split option.split)
next
  case (HSubscribe sc flt c e)
  assume "world_ok w"
  then show ?thesis
    using feed_rel_add [of "w_hub w" "w_feed w" sc flt c e "fst (hub_add sc flt c e (w_hub w))"]
    by (simp add: HSubscribe world_ok_def service_Events_fst subs_ok_add stream_ok_ensure
        stream_ok_distinct prod_eq_iff)
next
  case (HLeave i)
  then show "world_ok w \<Longrightarrow> ?thesis"
    by (simp add: world_ok_def service_leave_def subs_ok_remove stream_ok_ensure stream_ok_distinct)
next
  case (HReceive i)
  assume ok: "world_ok w"
  then have "gm_wf (h_subs (w_hub w))" by (simp add: world_ok_def subs_ok_def)
  with ok have "world_ok (w\<lparr>w_hub := fst (hub_receive i (w_hub w)), w_taken := t\<rparr>)" for t
    by (simp add: world_ok_def subs_ok_receive stream_ok_receive feed_rel_receive)
  with ok show ?thesis
    by (simp add: HReceive split: prod.split option.split) (metis fst_conv)
next
  case HLinger
  then show "world_ok w \<Longrightarrow> ?thesis" by (simp add: world_ok_def stream_ok_linger)
qed

lemma world_ok_run: "world_ok w \<Longrightarrow> world_ok (hub_run ops w)"
  unfolding hub_run_def by (induction ops arbitrary: w) (simp_all add: world_ok_step)

lemma world_ok_new: "world_ok (world0 (newHub self e))"
  using feed_rel_new [of self e]
  by (simp add: world_ok_def world0_def subs_ok_def stream_ok_def newHub_def)

lemma newHubWithState_sel [simp]:
  "h_subs (newHubWithState self fresh saved) = []"
  "sf_sessions (h_stream_filter (newHubWithState self fresh saved)) = []"
  by (auto simp: newHubWithState_def newHub_def split: option.split)

lemma world_ok_newWithState: "world_ok (world0 (newHubWithState self fresh saved))"
  using feed_rel_newWithState [of self fresh saved]
  by (simp add: world_ok_def world0_def subs_ok_def stream_ok_def)

section \<open>What reaches a subscriber\<close>

definition sees :: "string \<Rightarrow> subscriber \<Rightarrow> event \<Rightarrow> bool" where
  "sees self s ev = (scope_allows self (sub_scope s) ev \<and> matchesEvent (sub_filter s) ev)"

definition taken :: "int \<Rightarrow> world \<Rightarrow> event list" where
  "taken i w = map snd (filter (\<lambda>p. fst p = i) (w_taken w))"

text \<open>
  \<open>flows i w v\<close>: between two worlds, a subscriber that is still there and was never marked
  as having lost an event has taken or still queues exactly what it had, followed by the events
  of the feed it is meant to see.
\<close>

definition flows :: "int \<Rightarrow> world \<Rightarrow> world \<Rightarrow> bool" where
  "flows i w v = (h_self (w_hub v) = h_self (w_hub w) \<and> h_next_id (w_hub w) \<le> h_next_id (w_hub v) \<and>
     (\<forall>t. map_of (h_subs (w_hub v)) i = Some t \<and> \<not> sub_dropped t \<longrightarrow>
       (\<exists>s new. map_of (h_subs (w_hub w)) i = Some s \<and> \<not> sub_dropped s \<and>
          sub_filter t = sub_filter s \<and> sub_scope t = sub_scope s \<and>
          fd_log (w_feed v) = fd_log (w_feed w) @ new \<and>
          taken i v @ sub_ch t = taken i w @ sub_ch s @ filter (sees (h_self (w_hub w)) s) new)))"

lemma flowsD:
  assumes "flows i w v" and "map_of (h_subs (w_hub v)) i = Some t" and "\<not> sub_dropped t"
  obtains s new where "map_of (h_subs (w_hub w)) i = Some s" "\<not> sub_dropped s"
    "sub_filter t = sub_filter s" "sub_scope t = sub_scope s"
    "fd_log (w_feed v) = fd_log (w_feed w) @ new"
    "taken i v @ sub_ch t = taken i w @ sub_ch s @ filter (sees (h_self (w_hub w)) s) new"
  using assms unfolding flows_def by blast

lemma flowsI:
  assumes "h_self (w_hub v) = h_self (w_hub w)" and "h_next_id (w_hub w) \<le> h_next_id (w_hub v)"
    and "\<And>t. map_of (h_subs (w_hub v)) i = Some t \<Longrightarrow> \<not> sub_dropped t \<Longrightarrow>
       \<exists>s new. map_of (h_subs (w_hub w)) i = Some s \<and> \<not> sub_dropped s \<and>
          sub_filter t = sub_filter s \<and> sub_scope t = sub_scope s \<and>
          fd_log (w_feed v) = fd_log (w_feed w) @ new \<and>
          taken i v @ sub_ch t = taken i w @ sub_ch s @ filter (sees (h_self (w_hub w)) s) new"
  shows "flows i w v"
  using assms unfolding flows_def by blast

lemma flows_same:
  assumes "h_self (w_hub v) = h_self (w_hub w)" and "h_next_id (w_hub w) \<le> h_next_id (w_hub v)"
    and "map_of (h_subs (w_hub v)) i = map_of (h_subs (w_hub w)) i \<or> map_of (h_subs (w_hub v)) i = None"
    and "w_feed v = w_feed w" and "taken i v = taken i w"
  shows "flows i w v"
  using assms unfolding flows_def by auto

lemma flows_refl: "flows i w w"
  by (rule flows_same) auto

lemma flows_trans:
  assumes "flows i u v" and "flows i v w"
  shows "flows i u w"
proof (rule flowsI)
  show "h_self (w_hub w) = h_self (w_hub u)" "h_next_id (w_hub u) \<le> h_next_id (w_hub w)"
    using assms by (auto simp: flows_def)
next
  fix t assume "map_of (h_subs (w_hub w)) i = Some t" "\<not> sub_dropped t"
  from flowsD [OF assms(2) this] obtain s n1 where s: "map_of (h_subs (w_hub v)) i = Some s"
    "\<not> sub_dropped s" and st: "sub_filter t = sub_filter s" "sub_scope t = sub_scope s"
    and l1: "fd_log (w_feed w) = fd_log (w_feed v) @ n1"
    and t1: "taken i w @ sub_ch t = taken i v @ sub_ch s @ filter (sees (h_self (w_hub v)) s) n1" .
  from flowsD [OF assms(1) s] obtain r n2 where r: "map_of (h_subs (w_hub u)) i = Some r"
    "\<not> sub_dropped r" and sr: "sub_filter s = sub_filter r" "sub_scope s = sub_scope r"
    and l2: "fd_log (w_feed v) = fd_log (w_feed u) @ n2"
    and t2: "taken i v @ sub_ch s = taken i u @ sub_ch r @ filter (sees (h_self (w_hub u)) r) n2" .
  have same: "sees (h_self (w_hub v)) s = sees (h_self (w_hub u)) r"
    using sr assms(1) by (auto simp: sees_def flows_def fun_eq_iff)
  have "taken i w @ sub_ch t = taken i u @ sub_ch r @ filter (sees (h_self (w_hub u)) r) (n2 @ n1)"
    using t1 t2 same by (metis append.assoc filter_append)
  with r st sr l1 l2 show "\<exists>s new. map_of (h_subs (w_hub u)) i = Some s \<and> \<not> sub_dropped s \<and>
          sub_filter t = sub_filter s \<and> sub_scope t = sub_scope s \<and>
          fd_log (w_feed w) = fd_log (w_feed u) @ new \<and>
          taken i w @ sub_ch t = taken i u @ sub_ch s @ filter (sees (h_self (w_hub u)) s) new"
    by (metis append.assoc)
qed

lemma offer_flow:
  "\<not> sub_dropped (offer self ev s) \<Longrightarrow> \<not> sub_dropped s \<and>
     sub_ch (offer self ev s) = sub_ch s @ filter (sees self s) [ev]"
  by (auto simp: offer_def sees_def split: if_splits)

lemma stamp_feed:
  "feed_rel h f \<Longrightarrow> fd_log (feed_append ev f) = fd_log f @ [stamp h ev]"
  by (simp add: feed_rel_def feed_append_def stamp_def)

lemma flows_publish_locked:
  assumes "feed_rel (w_hub w) (w_feed w)"
  shows "flows i w (w\<lparr>w_hub := publish_locked ev (w_hub w), w_feed := feed_append ev (w_feed w)\<rparr>)"
    (is "flows i w ?v")
proof (rule flowsI)
  fix t assume "map_of (h_subs (w_hub ?v)) i = Some t" "\<not> sub_dropped t"
  then obtain s where s: "map_of (h_subs (w_hub w)) i = Some s"
    and t: "t = offer (h_self (w_hub w)) (stamp (w_hub w) ev) s"
    by (auto simp: publish_locked_subs simp del: map_of_eq_Some_iff)
  have "taken i ?v @ sub_ch t = taken i w @ sub_ch s @ filter (sees (h_self (w_hub w)) s) [stamp (w_hub w) ev]"
    using offer_flow \<open>\<not> sub_dropped t\<close> t by (simp add: taken_def)
  moreover have "\<not> sub_dropped s" using offer_flow \<open>\<not> sub_dropped t\<close> t by blast
  moreover have "fd_log (w_feed ?v) = fd_log (w_feed w) @ [stamp (w_hub w) ev]"
    using stamp_feed [OF assms] by simp
  moreover have "sub_filter t = sub_filter s" "sub_scope t = sub_scope s" by (simp_all add: t)
  ultimately show "\<exists>s new. map_of (h_subs (w_hub w)) i = Some s \<and> \<not> sub_dropped s \<and>
          sub_filter t = sub_filter s \<and> sub_scope t = sub_scope s \<and>
          fd_log (w_feed ?v) = fd_log (w_feed w) @ new \<and>
          taken i ?v @ sub_ch t = taken i w @ sub_ch s @ filter (sees (h_self (w_hub w)) s) new"
    using s by blast
qed simp_all

lemma flows_rename: "flows i w (w\<lparr>w_hub := (w_hub w)\<lparr>h_rename := rp\<rparr>\<rparr>)"
  by (rule flows_same) (auto simp: taken_def)

lemma flows_fold:
  "feed_rel (w_hub w) (w_feed w) \<Longrightarrow>
     flows i w (w\<lparr>w_hub := fold publish_locked evs (w_hub w), w_feed := fold feed_append evs (w_feed w)\<rparr>)"
proof (induction evs arbitrary: w)
  case Nil
  then show ?case by (simp add: flows_refl)
next
  case (Cons ev evs)
  let ?v = "w\<lparr>w_hub := publish_locked ev (w_hub w), w_feed := feed_append ev (w_feed w)\<rparr>"
  have "feed_rel (w_hub ?v) (w_feed ?v)" using Cons.prems by (simp add: feed_rel_publish_locked)
  from flows_trans [OF flows_publish_locked [OF Cons.prems] Cons.IH [OF this]]
  show ?case by simp
qed

lemma flows_w_publish:
  assumes rel: "feed_rel (w_hub w) (w_feed w)"
  shows "flows i w (w_publish ev w)"
proof -
  let ?r = "observeRenameCorroboration (stamp (w_hub w) ev) (h_rename (w_hub w))"
  let ?u = "w\<lparr>w_hub := publish_locked ev (w_hub w), w_feed := feed_append ev (w_feed w)\<rparr>"
  let ?v = "?u\<lparr>w_hub := (w_hub ?u)\<lparr>h_rename := fst ?r\<rparr>\<rparr>"
  have rel_v: "feed_rel (w_hub ?v) (w_feed ?v)" using rel by (simp add: feed_rel_publish_locked)
  have "flows i w ?v" by (rule flows_trans [OF flows_publish_locked [OF rel] flows_rename])
  from flows_trans [OF this flows_fold [OF rel_v, of i "snd ?r"]]
  show ?thesis
    by (simp add: w_publish_def publish_unfold published_def Let_def split_beta)
qed

lemma hub_add_other:
  "j \<noteq> h_next_id h \<Longrightarrow> map_of (h_subs (fst (hub_add sc flt c e h))) j = map_of (h_subs h) j"
  by (simp add: hub_add_def Let_def)

lemma hub_add_sel [simp]:
  "h_self (fst (hub_add sc flt c e h)) = h_self h"
  "h_next_id (fst (hub_add sc flt c e h)) = h_next_id h + 1"
  by (simp_all add: hub_add_def Let_def)

lemma flows_receive:
  assumes "gm_wf (h_subs (w_hub w))" and "hub_receive j (w_hub w) = (h, Some ev)"
  shows "flows i w (w\<lparr>w_hub := h, w_taken := w_taken w @ [(j, ev)]\<rparr>)"
proof -
  from assms(2) obtain s rest where s: "map_of (h_subs (w_hub w)) j = Some s" "sub_ch s = ev # rest"
    and h: "h = (w_hub w)\<lparr>h_subs := gm_put j (s\<lparr>sub_ch := rest\<rparr>) (h_subs (w_hub w))\<rparr>"
    by (auto simp: hub_receive_def simp del: map_of_eq_Some_iff split: option.splits list.splits)
  show ?thesis
  proof (cases "j = i")
    case True
    with s show ?thesis
      by (auto simp: flows_def h taken_def assms(1) simp del: map_of_eq_Some_iff intro!: exI [of _ "[]"])
  next
    case False
    then show ?thesis by (intro flows_same) (auto simp: h taken_def assms(1) simp del: map_of_eq_Some_iff)
  qed
qed

lemma flows_step:
  assumes ok: "world_ok w" and i: "i < h_next_id (w_hub w)"
  shows "flows i w (hub_step op w)"
proof (cases op)
  case (HPublish ev)
  with ok show ?thesis by (simp add: world_ok_def flows_w_publish)
next
  case (HRename m a b st)
  let ?ev = "mk_event m EventSessionRenamed (PRenamed \<lparr>rn_machine = m, rn_from = a, rn_to = b,
        rn_started_at = st, rn_corroboration = RenameAccepted\<rparr>)"
  let ?v = "w\<lparr>w_hub := publish_locked ?ev (w_hub w), w_feed := feed_append ?ev (w_feed w)\<rparr>"
  have "flows i w ?v" using ok by (simp add: world_ok_def flows_publish_locked)
  moreover have "hub_step op w =
      ?v\<lparr>w_hub := (w_hub ?v)\<lparr>h_rename := watchRename m a b st (h_rename (w_hub w))\<rparr>\<rparr>"
    by (rule world.equality) (simp_all add: HRename publishRename_def Let_def publish_renamed)
  ultimately show ?thesis using flows_trans [OF _ flows_rename] by metis
next
  case (HRenameTimer key)
  have rel: "feed_rel (w_hub w) (w_feed w)" using ok by (simp add: world_ok_def)
  have "flows i w (w_publish ev (w\<lparr>w_hub := (w_hub w)\<lparr>h_rename := rp\<rparr>\<rparr>))" for ev rp
    by (rule flows_trans [OF flows_rename flows_w_publish]) (simp add: rel)
  then show ?thesis by (simp add: HRenameTimer flows_refl split: prod.split option.split)
next
  case (HSubscribe sc flt c e)
  with i show ?thesis
    by (intro flows_same) (auto simp: service_Events_fst hub_add_other taken_def simp del: map_of_eq_Some_iff)
next
  case (HLeave j)
  then show ?thesis
    by (intro flows_same) (auto simp: service_leave_def hub_remove_def taken_def simp del: map_of_eq_Some_iff)
next
  case (HReceive j)
  have "gm_wf (h_subs (w_hub w))" using ok by (simp add: world_ok_def subs_ok_def)
  from flows_receive [OF this] show ?thesis
    by (simp add: HReceive flows_refl split: prod.split option.split)
next
  case HLinger
  then show ?thesis by (intro flows_same) (auto simp: taken_def)
qed

lemma flows_run:
  "world_ok w \<Longrightarrow> i < h_next_id (w_hub w) \<Longrightarrow> flows i w (hub_run ops w)"
proof (induction ops arbitrary: w)
  case Nil
  then show ?case by (simp add: hub_run_def flows_refl)
next
  case (Cons op ops)
  have step: "flows i w (hub_step op w)" by (rule flows_step [OF Cons.prems])
  moreover have "i < h_next_id (w_hub (hub_step op w))"
    using step Cons.prems(2) by (auto simp: flows_def)
  ultimately show ?case
    using flows_trans Cons.IH [OF world_ok_step [OF Cons.prems(1)]] by (auto simp: hub_run_def)
qed

section \<open>Properties of the hub\<close>

definition some_session_event :: "string \<Rightarrow> event" where
  "some_session_event machine =
     mk_event machine EventSessionState
       (PState \<lparr>ref_machine = machine, ref_id = ''a'', ref_name = ''a''\<rparr>
         (ObservedState ''idle'' ''screen'' None))"

text \<open>
  C5: Live delivery loses nothing silently. Between any two moments of any run of a service's
  hub, a subscriber that is still registered and was never marked as having dropped an event
  has taken, or still queues, exactly what it had followed by every event published since that
  its scope and filter let through, in publication order and without a duplicate.
\<close>

theorem no_silent_loss:
  assumes w: "w = hub_run before (world0 (newHubWithState self fresh saved))"
    and v: "v = hub_run after w"
    and s: "map_of (h_subs (w_hub w)) i = Some s"
    and t: "map_of (h_subs (w_hub v)) i = Some t" "\<not> sub_dropped t"
  shows "\<exists>new. fd_log (w_feed v) = fd_log (w_feed w) @ new \<and>
    taken i v @ sub_ch t = taken i w @ sub_ch s @ filter (sees (h_self (w_hub w)) s) new"
proof -
  have ok: "world_ok w" unfolding w by (rule world_ok_run [OF world_ok_newWithState])
  then have "i < h_next_id (w_hub w)" using s subs_okD by (simp add: world_ok_def del: map_of_eq_Some_iff)
  from flows_run [OF ok this] have "flows i w v" by (simp add: v)
  from flowsD [OF this t] s show ?thesis by (metis option.inject)
qed

definition demo_before :: world where
  "demo_before = hub_run [HSubscribe ScopeLocal filter_all 0 []] (world0 (newHubWithState ''m'' ''e'' None))"

definition demo_after :: world where
  "demo_after = hub_run [HPublish (some_session_event ''m''), HReceive 0,
     HPublish (some_session_event ''peer''), HPublish (some_session_event ''m'')] demo_before"

lemma no_silent_loss_witness:
  "\<exists>new. fd_log (w_feed demo_after) = fd_log (w_feed demo_before) @ new \<and>
     taken 0 demo_after @ sub_ch (the (map_of (h_subs (w_hub demo_after)) 0)) =
     taken 0 demo_before @ sub_ch (the (map_of (h_subs (w_hub demo_before)) 0)) @
       filter (sees (h_self (w_hub demo_before)) (the (map_of (h_subs (w_hub demo_before)) 0))) new"
proof -
  have b: "map_of (h_subs (w_hub demo_before)) 0 = Some (the (map_of (h_subs (w_hub demo_before)) 0))"
    by code_simp
  have a: "map_of (h_subs (w_hub demo_after)) 0 = Some (the (map_of (h_subs (w_hub demo_after)) 0))"
    by code_simp
  have d: "\<not> sub_dropped (the (map_of (h_subs (w_hub demo_after)) 0))"
    by code_simp
  show ?thesis by (rule no_silent_loss [OF demo_before_def demo_after_def b a d])
qed

text \<open>
  Whenever the hub of a service has a subscriber, its one driver-side stream runs, and the
  stream's filter lets through everything that subscriber's own filter asks for; this holds
  after any sequence of publications, arrivals, departures and linger timers.
\<close>

theorem stream_serves_listeners:
  assumes w: "w = hub_run ops (world0 (newHubWithState self fresh saved))"
    and s: "map_of (h_subs (w_hub w)) i = Some s"
  shows "h_stream_on (w_hub w) \<and>
    (\<forall>sid cwd. filter_matches (sub_filter s) sid cwd \<longrightarrow> filter_matches (h_stream_filter (w_hub w)) sid cwd)"
proof -
  have "stream_ok (w_hub w)"
    using world_ok_run [OF world_ok_newWithState] by (simp add: w world_ok_def)
  then have "h_stream_on (w_hub w) \<and> covers (h_stream_filter (w_hub w)) s"
    using map_of_SomeD [OF s] by (auto simp: stream_ok_def)
  then show ?thesis by (auto intro: covers_matches)
qed

lemma stream_serves_listeners_witness:
  "h_stream_on (w_hub demo_before) \<and> filter_matches (h_stream_filter (w_hub demo_before)) ''a'' ''/home''"
proof -
  have b: "map_of (h_subs (w_hub demo_before)) 0 = Some (the (map_of (h_subs (w_hub demo_before)) 0))"
    by code_simp
  have f: "filter_matches (sub_filter (the (map_of (h_subs (w_hub demo_before)) 0))) ''a'' ''/home''"
    by code_simp
  from stream_serves_listeners [OF demo_before_def b] f show ?thesis by blast
qed

section \<open>Resumption and restarts\<close>

lemma run_feed_rel:
  "w = hub_run ops (world0 (newHubWithState self fresh saved)) \<Longrightarrow> feed_rel (w_hub w) (w_feed w)"
  using world_ok_run [OF world_ok_newWithState] by (simp add: world_ok_def)

lemma fold_feed_append_start [simp]:
  "fd_start (fold feed_append evs f) = fd_start f" "fd_epoch (fold feed_append evs f) = fd_epoch f"
  by (induction evs arbitrary: f) simp_all

lemma step_start:
  "fd_start (w_feed (hub_step op w)) = fd_start (w_feed w)"
  "fd_epoch (w_feed (hub_step op w)) = fd_epoch (w_feed w)"
  by (cases op; simp add: w_publish_def split: prod.split option.split)+

lemma run_start [simp]:
  "fd_start (w_feed (hub_run ops w)) = fd_start (w_feed w)"
  "fd_epoch (w_feed (hub_run ops w)) = fd_epoch (w_feed w)"
  unfolding hub_run_def by (induction ops arbitrary: w) (simp_all add: step_start)



text \<open>
  C34: A hub asks a subscriber that resumes with a cursor not older than the one the process started with to
  resync exactly when the subscriber holds another epoch, claims a cursor this epoch has not reached,
  or some event after its cursor has already left the retained window; so an announced gap is a
  real one and no gap within the process's own events goes unannounced.
\<close>

theorem resync_iff_lost:
  assumes w: "w = hub_run ops (world0 (newHubWithState self fresh saved))"
    and add: "hub_add sc flt c e (w_hub w) = (h, i, backlog, resync)"
    and claim: "\<not> fresh_request c e"
    and start: "0 \<le> h_cursor (newHubWithState self fresh saved)"
      "h_cursor (newHubWithState self fresh saved) \<le> c"
  shows "resync \<longleftrightarrow> e \<noteq> h_epoch (w_hub w) \<or> h_cursor (w_hub w) < c \<or>
     (\<exists>ev \<in> set (feed_after c (w_feed w)). ev \<notin> set (h_ring (w_hub w)))"
proof -
  have rel: "feed_rel (w_hub w) (w_feed w)" by (rule run_feed_rel [OF w])
  have "0 \<le> fd_start (w_feed w)" "fd_start (w_feed w) \<le> c" using start by (simp_all add: w world0_def)
  from resync_lost [OF rel add claim this] rel show ?thesis by (simp add: feed_rel_def)
qed

lemma resync_iff_lost_witness:
  "snd (snd (snd (hub_add ScopeLocal filter_all 9 ''e'' (w_hub demo_before)))) \<longleftrightarrow>
     ''e'' \<noteq> h_epoch (w_hub demo_before) \<or> h_cursor (w_hub demo_before) < 9 \<or>
     (\<exists>ev \<in> set (feed_after 9 (w_feed demo_before)). ev \<notin> set (h_ring (w_hub demo_before)))"
proof -
  let ?r = "hub_add ScopeLocal filter_all 9 ''e'' (w_hub demo_before)"
  have r: "?r = (fst ?r, fst (snd ?r), fst (snd (snd ?r)), snd (snd (snd ?r)))" by simp
  have "\<not> fresh_request 9 ''e''" "0 \<le> h_cursor (newHubWithState ''m'' ''e'' None)"
    "h_cursor (newHubWithState ''m'' ''e'' None) \<le> 9" by code_simp+
  from resync_iff_lost [OF demo_before_def r this] show ?thesis .
qed

text \<open>
  The gap the restart leaves. A service that restarts with a saved epoch and cursor has an
  empty ring, and a subscriber that resumes with the same epoch and an older cursor is neither
  told to resync nor handed any of the events between its cursor and the saved one.
\<close>

theorem restart_gap_unannounced:
  assumes "epoch \<noteq> []" and "0 \<le> c" and "c < saved"
  shows "\<exists>h. hub_add sc flt c epoch (newHubWithState self fresh (Some (epoch, saved))) = (h, 0, [], False)"
  using assms by (simp add: hub_add_def newHubWithState_def newHub_def Let_def)

lemma restart_gap_unannounced_witness:
  "\<exists>h. hub_add ScopeFleet filter_all 3 ''e'' (newHubWithState ''m'' ''f'' (Some (''e'', 7))) = (h, 0, [], False)"
  by (rule restart_gap_unannounced) simp_all

text \<open>The saved cursor is the current one after every step.\<close>

definition persist_ok :: "hub \<Rightarrow> bool" where
  "persist_ok h = (h_persist h = Some (h_cursor h))"

lemma persist_ok_publish_locked: "persist_ok h \<Longrightarrow> persist_ok (publish_locked ev h)"
  by (simp add: persist_ok_def publish_locked_def Let_def)

lemma persist_ok_frame [simp]:
  "persist_ok (h\<lparr>h_rename := rp\<rparr>) = persist_ok h"
  "persist_ok (ensureStream h) = persist_ok h" "persist_ok (lingerExpired h) = persist_ok h"
  "persist_ok (hub_remove i h) = persist_ok h" "persist_ok (fst (hub_add sc flt c e h)) = persist_ok h"
  "persist_ok (fst (hub_receive i h)) = persist_ok h"
  by (simp_all add: persist_ok_def ensureStream_def armLinger_def disarmLinger_def lingerExpired_def
      hub_remove_def hub_add_def hub_receive_def Let_def split: option.split list.split)

lemma persist_ok_step:
  assumes "persist_ok (w_hub w)"
  shows "persist_ok (w_hub (hub_step op w))"
proof (cases op)
  case (HReceive i)
  have "persist_ok h" if "hub_receive i (w_hub w) = (h, r)" for h r
    using assms persist_ok_frame(6) [of i "w_hub w"] that by simp
  with assms HReceive show ?thesis by (auto split: prod.split option.split)
qed (use assms in \<open>auto simp: w_publish_def service_Events_fst service_leave_def
       intro!: publish_lift [of persist_ok] publishRename_lift [of persist_ok] persist_ok_publish_locked
       split: prod.split option.split\<close>)

lemma persist_ok_run: "persist_ok (w_hub w) \<Longrightarrow> persist_ok (w_hub (hub_run ops w))"
  unfolding hub_run_def by (induction ops arbitrary: w) (simp_all add: persist_ok_step)

lemma persist_ok_new: "persist_ok (newHubWithState self fresh saved)"
  by (auto simp: persist_ok_def newHubWithState_def newHub_def split: option.split)

lemma feed_cursor_bounds:
  "feed_rel h f \<Longrightarrow> ev \<in> set (fd_log f) \<Longrightarrow> fd_start f < ev_cursor ev \<and> ev_cursor ev \<le> h_cursor h"
  by (auto simp: feed_rel_def in_set_conv_nth feed_ok_nth)

text \<open>
  A restart continues the sequence. When a service that ran any operations is restarted from
  the document its last publication saved, every event of the new process keeps the epoch and
  has a cursor greater than every event the old process ever stamped, so no cursor names two
  events.
\<close>

theorem restart_cursors_fresh:
  assumes w: "w = hub_run ops (world0 (newHubWithState self fresh saved))"
    and p: "h_persist (w_hub w) = Some c" and e: "h_epoch (w_hub w) \<noteq> []"
    and v: "v = hub_run ops' (world0 (newHubWithState self fresh' (Some (h_epoch (w_hub w), c))))"
    and old: "a \<in> set (fd_log (w_feed w))" and new: "b \<in> set (fd_log (w_feed v))"
  shows "ev_cursor a < ev_cursor b \<and> h_epoch (w_hub v) = h_epoch (w_hub w)"
proof -
  have c: "c = h_cursor (w_hub w)"
    using persist_ok_run [of "world0 (newHubWithState self fresh saved)" ops] p
    by (simp add: w world0_def persist_ok_def persist_ok_new [unfolded persist_ok_def])
  have "ev_cursor a \<le> c" using feed_cursor_bounds [OF run_feed_rel [OF w] old] c by simp
  moreover have "fd_start (w_feed v) = c" using e by (simp add: v world0_def newHubWithState_def)
  moreover have "h_epoch (w_hub v) = h_epoch (w_hub w)"
    using run_feed_rel [OF v] e by (simp add: feed_rel_def v world0_def newHubWithState_def newHub_def)
  ultimately show ?thesis using feed_cursor_bounds [OF run_feed_rel [OF v] new] by simp
qed

lemma restart_cursors_fresh_witness:
  "ev_cursor (hd (fd_log (w_feed demo_after))) <
     ev_cursor (hd (fd_log (w_feed (hub_run [HPublish (some_session_event ''m'')]
       (world0 (newHubWithState ''m'' ''f'' (Some (h_epoch (w_hub demo_after), 3)))))))) \<and>
   h_epoch (w_hub (hub_run [HPublish (some_session_event ''m'')]
       (world0 (newHubWithState ''m'' ''f'' (Some (h_epoch (w_hub demo_after), 3)))))) = h_epoch (w_hub demo_after)"
proof -
  have w: "demo_after = hub_run [HSubscribe ScopeLocal filter_all 0 [], HPublish (some_session_event ''m''), HReceive 0,
     HPublish (some_session_event ''peer''), HPublish (some_session_event ''m'')]
       (world0 (newHubWithState ''m'' ''e'' None))"
    by (simp add: demo_after_def demo_before_def hub_run_def)
  have p: "h_persist (w_hub demo_after) = Some 3" by code_simp
  have e: "h_epoch (w_hub demo_after) \<noteq> []" by code_simp
  show ?thesis
    by (rule restart_cursors_fresh [OF w p e refl]) code_simp+
qed

section \<open>Where delivery departs from what the comments promise\<close>

text \<open>
  A directory-prefix subscription never sees a state change, a closure or a label change: those
  payloads carry no directory, and the filter tests the prefix against the empty one.
\<close>

lemma cwd_subscription_misses_state:
  assumes "sf_cwd_prefix f \<noteq> []" and "ref_id ref \<noteq> []" and "ev_payload ev = PState ref st"
    and "ev_kind ev = EventSessionState \<or> ev_kind ev = EventSessionClosed"
  shows "\<not> matchesEvent f ev"
  using assms by (auto simp: matchesEvent_def eventTarget_def filter_matches_def has_prefix_def)

text \<open>A local-scope subscriber that resumes is handed other machines' events from the ring.\<close>

lemma backlog_ignores_scope:
  "\<not> scope_allows ''m'' ScopeLocal (some_session_event ''peer'') \<and>
   map ev_machine (fst (snd (snd (hub_add ScopeLocal filter_all 1 ''e'' (w_hub demo_after))))) = [''peer'', ''m'']"
  by code_simp

text \<open>
  A fleet-scope subscriber that joins while a stream with the same filter runs for a local one
  gets no pump for any peer.
\<close>

lemma fleet_subscriber_without_peers:
  "wantsPeers (w_hub (hub_step (HSubscribe ScopeFleet filter_all 0 []) demo_before)) \<and>
   \<not> h_stream_peers (w_hub (hub_step (HSubscribe ScopeFleet filter_all 0 []) demo_before))"
  by code_simp

end
