(* ===== verification/Limits.thy ===== *)
theory Limits
  imports HubRun
begin

text \<open>
  Numbers that come from a caller (\<open>internal/service/http.go\<close>): the deadline header, the
  length of a long poll, the cursor a poll answers with, the size of an input; and how they combine
  with a driver's own deadline (\<open>effectiveDeadline\<close> in \<open>service.go\<close>). A
  \<open>time.Duration\<close> is 64 bits wide and its multiplication wraps; the wrap is written out.
\<close>

section \<open>Deadlines\<close>

definition parseDeadline :: "string \<Rightarrow> duration" where
  "parseDeadline raw =
     (if raw = [] then 0
      else case parse_int64 raw of
        None \<Rightarrow> 0
      | Some ms \<Rightarrow> if ms \<le> 0 then 0 else wrap64 (ms * millisecond))"

definition effectiveDeadline :: "int \<Rightarrow> duration \<Rightarrow> duration" where
  "effectiveDeadline driverMs req =
     (let d = wrap64 (driverMs * millisecond) in if req > 0 \<and> req < d then req else d)"

definition watchDefaultWait :: duration where
  "watchDefaultWait = 25 * second"

definition watchMaxWait :: duration where
  "watchMaxWait = 60 * second"

definition watchWait :: "string \<Rightarrow> string \<Rightarrow> duration" where
  "watchWait raw deadline =
     (let asked = (if raw = [] then watchDefaultWait
                   else case parse_int64 raw of
                     None \<Rightarrow> watchDefaultWait
                   | Some ms \<Rightarrow> if ms \<ge> 0 then wrap64 (ms * millisecond) else watchDefaultWait);
          capped = (if asked > watchMaxWait then watchMaxWait else asked);
          d = parseDeadline deadline
      in if d > 0 \<and> d < capped then d else capped)"

section \<open>Input size and cursors\<close>

definition defaultMaxInputBytes :: nat where
  "defaultMaxInputBytes = 1024"

definition rejectOverLength :: "string \<Rightarrow> nat \<Rightarrow> bool" where
  "rejectOverLength txt limit = (\<not> length txt \<le> limit)"

fun resumeCursor_rev :: "int \<Rightarrow> event list \<Rightarrow> int" where
  "resumeCursor_rev since [] = since"
| "resumeCursor_rev since (ev # evs) = (if ev_cursor ev > 0 then ev_cursor ev else resumeCursor_rev since evs)"

definition resumeCursor :: "int \<Rightarrow> event list \<Rightarrow> int" where
  "resumeCursor since events = resumeCursor_rev since (rev events)"

section \<open>A long poll\<close>

text \<open>
  One poll, given what the hub answered: the backlog, and when that is empty the event that arrived
  within the wait (if any) with what was ready behind it.
\<close>

definition resync_event :: "string \<Rightarrow> string \<Rightarrow> resync_reason \<Rightarrow> event" where
  "resync_event self epoch reason =
     (mk_event self EventControlResync (PResync reason))\<lparr>ev_epoch := epoch\<rparr>"

definition watch_poll ::
  "hub \<Rightarrow> int \<Rightarrow> string \<Rightarrow> event list \<Rightarrow> bool \<Rightarrow> event list \<Rightarrow> int \<times> string \<times> event list" where
  "watch_poll h since fromEpoch backlog needResync arrived =
     (if needResync
      then (since, h_epoch h,
            [resync_event (h_self h) (h_epoch h)
               (if fromEpoch \<noteq> h_epoch h then ResyncEpochChanged else ResyncCursorExpired)])
      else let events = (if backlog = [] then arrived else backlog)
           in (resumeCursor since events, h_epoch h, events))"

text \<open>A cursor a poll answers with never goes back, and is the last one of what it delivered.\<close>

lemma resumeCursor_append: "resumeCursor since (evs @ [ev]) = (if ev_cursor ev > 0 then ev_cursor ev else resumeCursor since evs)"
  by (simp add: resumeCursor_def)

lemma resumeCursor_max:
  assumes "sorted_wrt (\<lambda>a b. ev_cursor a < ev_cursor b) evs" and "\<forall>ev \<in> set evs. since < ev_cursor ev" and "0 \<le> since"
  shows "(\<forall>ev \<in> set evs. ev_cursor ev \<le> resumeCursor since evs) \<and> since \<le> resumeCursor since evs \<and>
    (evs \<noteq> [] \<longrightarrow> resumeCursor since evs = ev_cursor (last evs))"
  using assms by (induction evs rule: rev_induct)
    (auto simp: resumeCursor_append sorted_wrt_append resumeCursor_def)

lemma filter_after_split:
  assumes sorted: "sorted_wrt (\<lambda>a b. ev_cursor a < ev_cursor b) (xs @ ys)" and xs: "xs \<noteq> []"
  shows "filter (\<lambda>ev. ev_cursor (last xs) < ev_cursor ev) (xs @ ys) = ys"
proof -
  have last: "xs = butlast xs @ [last xs]" using xs by simp
  have "\<not> ev_cursor (last xs) < ev_cursor ev" if "ev \<in> set xs" for ev
  proof (cases "ev = last xs")
    case False
    then have "ev \<in> set (butlast xs)" using that last by (metis in_set_conv_decomp Un_iff set_append set_ConsD empty_iff empty_set)
    then show ?thesis using sorted last by (metis append.assoc less_asym list.set_intros(1) sorted_wrt_append append_Cons append_Nil Un_iff set_append)
  qed simp
  moreover have "ev_cursor (last xs) < ev_cursor ev" if "ev \<in> set ys" for ev
    using sorted xs that by (simp add: sorted_wrt_append)
  ultimately show ?thesis by (simp add: filter_empty_conv)
qed

section \<open>Properties\<close>

lemma watchWait_capped:
  "watchWait raw deadline \<le> watchMaxWait"
  by (auto simp: watchWait_def Let_def)

text \<open>
  A caller may shorten a wait, never extend it: whatever the header and the query say, wrapped
  multiplications included, a driver call's deadline is at most the driver's own and a long poll
  waits at most the maximum.
\<close>

theorem callers_only_shorten:
  "effectiveDeadline driverMs (parseDeadline raw) \<le> wrap64 (driverMs * millisecond) \<and>
   watchWait wait raw \<le> watchMaxWait"
  using watchWait_capped by (auto simp: effectiveDeadline_def Let_def)



text \<open>
  Long polls compose without loss or repeat. When a caller has been handed some beginning of the
  events its filter lets through after its cursor (the backlog, what arrived while it waited, or
  nothing) and polls again from the cursor it was answered, with the same epoch, then unless it is told
  to resync it is handed exactly the rest.
\<close>

theorem polls_compose:
  assumes v: "v = hub_run ops (world0 (newHubWithState self fresh saved))"
    and got: "filter (matchesEvent flt) (feed_after since (w_feed v)) = got @ rest"
    and add: "hub_add sc flt (resumeCursor since got) e (w_hub v) = (h, i, backlog, False)"
    and claim: "\<not> fresh_request (resumeCursor since got) e"
    and start: "0 \<le> since" "h_cursor (newHubWithState self fresh saved) \<le> since"
  shows "backlog = rest"
proof -
  have rel: "feed_rel (w_hub v) (w_feed v)" by (rule run_feed_rel [OF v])
  have "sorted_wrt (\<lambda>a b. ev_cursor a < ev_cursor b) (fd_log (w_feed v))"
    using rel feed_ok_sorted by (simp add: feed_rel_def)
  then have "sorted_wrt (\<lambda>a b. ev_cursor a < ev_cursor b) (filter (matchesEvent flt) (feed_after since (w_feed v)))"
    unfolding feed_after_def by (intro sorted_wrt_filter)
  then have sorted: "sorted_wrt (\<lambda>a b. ev_cursor a < ev_cursor b) (got @ rest)"
    unfolding got .
  have "set (got @ rest) \<subseteq> set (feed_after since (w_feed v))"
    using got by (metis filter_is_subset)
  then have above: "\<forall>ev \<in> set (got @ rest). since < ev_cursor ev" by (auto simp: feed_after_def)
  let ?c = "resumeCursor since got"
  have c: "since \<le> ?c" "got \<noteq> [] \<Longrightarrow> ?c = ev_cursor (last got)"
    using resumeCursor_max [of got since] sorted above start(1) by (auto simp: sorted_wrt_append)
  have "fd_start (w_feed v) \<le> ?c" using start(2) c(1) by (simp add: v world0_def)
  with resume_replay [OF rel add claim] have backlog: "backlog = filter (matchesEvent flt) (feed_after ?c (w_feed v))"
    by blast
  also have "\<dots> = filter (\<lambda>ev. ?c < ev_cursor ev) (filter (matchesEvent flt) (feed_after since (w_feed v)))"
    unfolding feed_after_def filter_filter using c(1) by (intro filter_cong) auto
  also have "\<dots> = filter (\<lambda>ev. ?c < ev_cursor ev) (got @ rest)" by (simp only: got)
  also have "\<dots> = rest"
  proof (cases "got = []")
    case True
    then show ?thesis using above by (simp add: resumeCursor_def filter_id_conv)
  next
    case False
    from filter_after_split [OF sorted this] show ?thesis by (simp only: c(2) [OF False])
  qed
  finally show ?thesis .
qed

lemma polls_compose_witness:
  "fst (snd (snd (hub_add ScopeFleet filter_all 1 ''e'' (w_hub demo_after)))) = tl (fd_log (w_feed demo_after))"
proof -
  let ?f = "filter (matchesEvent filter_all) (feed_after 0 (w_feed demo_after))"
  let ?r = "hub_add ScopeFleet filter_all 1 ''e'' (w_hub demo_after)"
  have w: "demo_after = hub_run [HSubscribe ScopeLocal filter_all 0 [], HPublish (some_session_event ''m''), HReceive 0,
     HPublish (some_session_event ''peer''), HPublish (some_session_event ''m'')]
       (world0 (newHubWithState ''m'' ''e'' None))"
    by (simp add: demo_after_def demo_before_def hub_run_def)
  have g: "?f = [hd (fd_log (w_feed demo_after))] @ tl (fd_log (w_feed demo_after))"
    and c: "resumeCursor 0 [hd (fd_log (w_feed demo_after))] = 1"
    and n: "\<not> snd (snd (snd ?r))" and fr: "\<not> fresh_request 1 ''e''"
    and st: "h_cursor (newHubWithState ''m'' ''e'' None) \<le> 0"
    by code_simp+
  have r: "?r = (fst ?r, fst (snd ?r), fst (snd (snd ?r)), False)" using n by (simp add: prod_eq_iff)
  show ?thesis using polls_compose [OF w g, unfolded c, OF r fr order_refl st] .
qed

end
