(* ===== verification/Listing.thy ===== *)
theory Listing
  imports LabelStore Limits
begin

text \<open>
  Which driver answers, and what a listing of all of them does: routing by existence
  (\<open>resolveSessionDriver\<close>, \<open>probeHolders\<close>), a driver's answer turned into items and
  sources (\<open>callList\<close>), collections (\<open>collection.go\<close>) and \<open>ListSessions\<close>, which feeds
  the label store and the history (\<open>internal/service/service.go\<close>). A driver is what it
  answers: its deadline, its answer to \<open>List\<close>, to \<open>State\<close> for the id in question, and the
  exits it drained are the arguments of the model.
\<close>

section \<open>Errors\<close>

datatype error_kind =
  ErrorInvalid | ErrorUnauthorized | ErrorNotFound | ErrorConflict | ErrorUnsupported | ErrorUnreachable | ErrorKindOther string

fun DefaultHTTPStatus :: "error_kind \<Rightarrow> int" where
  "DefaultHTTPStatus ErrorInvalid = 400"
| "DefaultHTTPStatus ErrorUnauthorized = 401"
| "DefaultHTTPStatus ErrorNotFound = 404"
| "DefaultHTTPStatus ErrorConflict = 409"
| "DefaultHTTPStatus ErrorUnsupported = 501"
| "DefaultHTTPStatus ErrorUnreachable = 504"
| "DefaultHTTPStatus (ErrorKindOther k) = 500"

datatype route_error =
  UnknownMachine | UnknownRuntime | NoLocalDrivers | HeldBySeveral "string list" | Inconclusive "string list" |
  DefaultNotRegistered | AmbiguousSession

fun route_error_kind :: "route_error \<Rightarrow> error_kind" where
  "route_error_kind UnknownMachine = ErrorNotFound"
| "route_error_kind UnknownRuntime = ErrorNotFound"
| "route_error_kind NoLocalDrivers = ErrorNotFound"
| "route_error_kind (HeldBySeveral rts) = ErrorInvalid"
| "route_error_kind (Inconclusive rts) = ErrorInvalid"
| "route_error_kind DefaultNotRegistered = ErrorNotFound"
| "route_error_kind AmbiguousSession = ErrorInvalid"

section \<open>Routing\<close>

datatype probe_answer = ProbeHeld | ProbeNoSuchSession | ProbeUnsupported | ProbeFailed

datatype runtime_resolution = ResolvedExplicit | ResolvedSole | ResolvedExistence | ResolvedDefault | ResolvedPeer

datatype target = Local string | Peer string

definition probeHolders :: "(string \<Rightarrow> probe_answer) \<Rightarrow> string list \<Rightarrow> string list \<times> string list" where
  "probeHolders probe local =
     (filter (\<lambda>rt. probe rt = ProbeHeld) local, filter (\<lambda>rt. probe rt = ProbeFailed) local)"

definition resolveSessionDriver ::
  "string \<Rightarrow> string list \<Rightarrow> string list \<Rightarrow> string \<Rightarrow> (string \<Rightarrow> probe_answer) \<Rightarrow> string \<Rightarrow> string \<Rightarrow> string \<Rightarrow>
     route_error + target \<times> string \<times> runtime_resolution" where
  "resolveSessionDriver self peers local defaultRuntime probe machine sid hint =
     (if machine \<noteq> self \<and> machine \<noteq> [] then
        (if machine \<in> set peers then Inr (Peer machine, [], ResolvedPeer) else Inl UnknownMachine)
      else if hint \<noteq> [] then
        (if hint \<in> set local then Inr (Local hint, hint, ResolvedExplicit) else Inl UnknownRuntime)
      else if local = [] then Inl NoLocalDrivers
      else if length local = 1 then Inr (Local (hd local), hd local, ResolvedSole)
      else
        let fallback =
              (if defaultRuntime \<noteq> [] then
                 (if defaultRuntime \<in> set local then Inr (Local defaultRuntime, defaultRuntime, ResolvedDefault)
                  else Inl DefaultNotRegistered)
               else Inl AmbiguousSession)
        in if sid = [] then fallback
           else let (holders, inconclusive) = probeHolders probe local
                in if length holders = 1 then Inr (Local (hd holders), hd holders, ResolvedExistence)
                   else if length holders > 1 then Inl (HeldBySeveral (sort holders))
                   else if inconclusive \<noteq> [] then Inl (Inconclusive (sort inconclusive))
                   else fallback)"

section \<open>Collections\<close>

record 'a collection =
  col_items :: "'a list"
  col_sources :: "source_status list"
  col_complete :: bool

definition allSourcesOK :: "source_status list \<Rightarrow> bool" where
  "allSourcesOK srcs = (srcs \<noteq> [] \<and> (\<forall>s \<in> set srcs. src_status s = SourceOK))"

definition NewCollection :: "'a list \<Rightarrow> source_status list \<Rightarrow> 'a collection option" where
  "NewCollection items sources =
     (if sources = [] then None
      else Some \<lparr>col_items = items, col_sources = sources,
             col_complete = (\<forall>s \<in> set sources. src_status s = SourceOK)\<rparr>)"

section \<open>Listing one driver\<close>

datatype list_answer =
  ListOk "session list" "source_status list" | ListDeadline | ListError string

definition source :: "string \<Rightarrow> source_state \<Rightarrow> string \<Rightarrow> timestamp \<Rightarrow> source_status" where
  "source machine status err at =
     \<lparr>src_machine = machine, src_status = status, src_error = err, src_observed_at = at\<rparr>"

definition callList :: "string \<Rightarrow> list_answer \<Rightarrow> string \<Rightarrow> timestamp \<Rightarrow> session list \<times> source_status list" where
  "callList machine answer deadline_text now =
     (case answer of
        ListOk items srcs \<Rightarrow> (items, if srcs \<noteq> [] then srcs else [source machine SourceOK [] now])
      | ListDeadline \<Rightarrow> ([], [source machine SourceUnreachable (''no answer within '' @ deadline_text) now])
      | ListError e \<Rightarrow> ([], [source machine SourceDegraded e now]))"

record local_listing =
  ll_runtime :: string
  ll_answer :: list_answer
  ll_deadline_text :: string
  ll_listed_at :: timestamp
  ll_now :: timestamp
  ll_exits :: "captured_exit list"

record peer_listing =
  pl_machine :: string
  pl_answer :: list_answer
  pl_deadline_text :: string
  pl_now :: timestamp

record stores =
  so_labels :: label_store
  so_history :: history_store

fun attach_labels :: "string \<Rightarrow> session list \<Rightarrow> label_store \<Rightarrow> label_store \<times> session list" where
  "attach_labels rt [] ls = (ls, [])"
| "attach_labels rt (s # ss) ls =
     (let (ls1, m) = labels_get rt (sess_id s) (sess_started_at s) ls;
          (ls2, ss') = attach_labels rt ss ls1
      in (ls2, s\<lparr>sess_labels := m\<rparr> # ss'))"

definition list_local ::
  "string \<Rightarrow> bool \<Rightarrow> local_listing \<Rightarrow> stores \<Rightarrow> stores \<times> session list \<times> source_status list" where
  "list_local self filterIsZero l st =
     (let (its, srcs) = callList self (ll_answer l) (ll_deadline_text l) (ll_now l);
          complete = (filterIsZero \<and> allSourcesOK srcs);
          labels1 = (if complete then retain (ll_runtime l) its (ll_listed_at l) (so_labels st) else so_labels st);
          history1 = observe (ll_runtime l) its complete (ll_listed_at l) (ll_exits l) (ll_now l) (so_history st);
          (labels2, its') = attach_labels (ll_runtime l) its labels1
      in (\<lparr>so_labels = labels2, so_history = history1\<rparr>, its', srcs))"

fun list_locals ::
  "string \<Rightarrow> bool \<Rightarrow> local_listing list \<Rightarrow> stores \<Rightarrow> stores \<times> session list \<times> source_status list" where
  "list_locals self z [] st = (st, [], [])"
| "list_locals self z (l # ls) st =
     (let (st1, its, srcs) = list_local self z l st;
          (st2, its', srcs') = list_locals self z ls st1
      in (st2, its @ its', srcs @ srcs'))"

fun list_peers :: "peer_listing list \<Rightarrow> session list \<times> source_status list" where
  "list_peers [] = ([], [])"
| "list_peers (p # ps) =
     (let (its, srcs) = callList (pl_machine p) (pl_answer p) (pl_deadline_text p) (pl_now p);
          (its', srcs') = list_peers ps
      in (its @ its', srcs @ srcs'))"

definition ListSessions ::
  "string \<Rightarrow> scope \<Rightarrow> bool \<Rightarrow> labels \<Rightarrow> local_listing list \<Rightarrow> peer_listing list \<Rightarrow> timestamp \<Rightarrow> stores \<Rightarrow>
     stores \<times> session collection option" where
  "ListSessions self sc narrow want locals peers now st =
     (let zero = (\<not> narrow \<and> want = []);
          (st1, its, srcs) = list_locals self zero locals st;
          (pits, psrcs) = (if sc = ScopeFleet then list_peers peers else ([], []));
          items = its @ pits;
          items' = (if want \<noteq> [] then filter (\<lambda>s. MatchesLabels (sess_labels s) want) items else items);
          sources = srcs @ psrcs;
          sources' = (if sources = [] then [source self SourceOK [] now] else sources)
      in (st1, NewCollection items' sources'))"

section \<open>Facts\<close>

lemma attach_labels_wf: "labels_wf ls \<Longrightarrow> labels_wf (fst (attach_labels rt ss ls))"
proof (induction ss arbitrary: ls)
  case (Cons s ss)
  have "labels_wf (fst (labels_get rt (sess_id s) (sess_started_at s) ls))" using Cons.prems by (rule get_wf)
  with Cons.IH show ?case by (simp add: Let_def split_beta)
qed simp

lemma list_local_wf:
  assumes "labels_wf (so_labels st)" and "hist_wf (so_history st)"
  shows "labels_wf (so_labels (fst (list_local self z l st))) \<and> hist_wf (so_history (fst (list_local self z l st)))"
  using assms by (simp add: list_local_def Let_def split_beta attach_labels_wf retain_wf hist_wf_observe)

lemma list_locals_wf:
  "labels_wf (so_labels st) \<Longrightarrow> hist_wf (so_history st) \<Longrightarrow>
     labels_wf (so_labels (fst (list_locals self z ls st))) \<and> hist_wf (so_history (fst (list_locals self z ls st)))"
proof (induction ls arbitrary: st)
  case (Cons l ls)
  from list_local_wf [OF Cons.prems, of self z l] Cons.IH show ?case by (simp add: Let_def split_beta)
qed simp

definition answered :: "list_answer \<Rightarrow> bool" where
  "answered a = (case a of ListOk items srcs \<Rightarrow> \<forall>s \<in> set srcs. src_status s = SourceOK | _ \<Rightarrow> False)"

lemma callList_answered:
  "(\<forall>s \<in> set (snd (callList m a d now)). src_status s = SourceOK) \<longleftrightarrow> answered a"
  by (auto simp: callList_def answered_def source_def split: list_answer.split)

lemma callList_sources: "snd (callList m a d now) \<noteq> []"
  by (simp add: callList_def split: list_answer.split)

lemma list_locals_answered:
  "(\<forall>s \<in> set (snd (snd (list_locals self z ls st))). src_status s = SourceOK) \<longleftrightarrow> (\<forall>l \<in> set ls. answered (ll_answer l))"
proof (induction ls arbitrary: st)
  case (Cons l ls)
  have "snd (snd (list_local self z l st)) = snd (callList self (ll_answer l) (ll_deadline_text l) (ll_now l))"
    by (simp add: list_local_def Let_def split_beta)
  with Cons callList_answered [of self "ll_answer l" "ll_deadline_text l" "ll_now l"] show ?case
    by (simp add: Let_def split_beta ball_Un)
qed simp

lemma list_peers_answered:
  "(\<forall>s \<in> set (snd (list_peers ps)). src_status s = SourceOK) \<longleftrightarrow> (\<forall>p \<in> set ps. answered (pl_answer p))"
  by (induction ps) (simp_all add: Let_def split_beta ball_Un callList_answered)

lemma observe_nothing:
  "observe rt [] False listedAt [] now h =
     (if time_sub now (hs_saved_at h) \<ge> seenFlushInterval then saveLocked now h else h)"
  by (simp add: observe_def observe_pass_def Let_def)

lemma filter_single: "distinct xs \<Longrightarrow> x \<in> set xs \<Longrightarrow> filter (\<lambda>y. y = x) xs = [x]"
proof (induction xs)
  case (Cons y ys)
  then show ?case by (cases "y = x") (auto simp: filter_empty_conv)
qed simp

abbreviation held_by :: "(string \<Rightarrow> probe_answer) \<Rightarrow> string list \<Rightarrow> string list" where
  "held_by probe local \<equiv> filter (\<lambda>rt. probe rt = ProbeHeld) local"

abbreviation failed_by :: "(string \<Rightarrow> probe_answer) \<Rightarrow> string list \<Rightarrow> string list" where
  "failed_by probe local \<equiv> filter (\<lambda>rt. probe rt = ProbeFailed) local"

lemma resolve_cases:
  assumes "resolveSessionDriver self peers local dflt probe machine sid hint = Inr (t, rt, via)"
  obtains (peer) "t = Peer machine" "via = ResolvedPeer" "machine \<in> set peers" "machine \<noteq> self"
    | (explicit) "t = Local hint" "rt = hint" "via = ResolvedExplicit" "hint \<in> set local" "machine = self \<or> machine = []"
    | (sole) "t = Local (hd local)" "rt = hd local" "via = ResolvedSole" "local \<noteq> []" "machine = self \<or> machine = []"
    | (existence) "t = Local (hd (held_by probe local))" "rt = hd (held_by probe local)" "via = ResolvedExistence"
        "length (held_by probe local) = 1" "machine = self \<or> machine = []"
    | (dflt) "t = Local dflt" "rt = dflt" "via = ResolvedDefault" "dflt \<in> set local" "machine = self \<or> machine = []"
        "sid = [] \<or> held_by probe local = [] \<and> failed_by probe local = []"
proof -
  let ?held = "held_by probe local" let ?failed = "failed_by probe local"
  let ?fallback = "if dflt \<noteq> [] then
       (if dflt \<in> set local then Inr (Local dflt, dflt, ResolvedDefault) else Inl DefaultNotRegistered)
     else Inl AmbiguousSession"
  have unfold: "resolveSessionDriver self peers local dflt probe machine sid hint =
     (if machine \<noteq> self \<and> machine \<noteq> [] then
        (if machine \<in> set peers then Inr (Peer machine, [], ResolvedPeer) else Inl UnknownMachine)
      else if hint \<noteq> [] then
        (if hint \<in> set local then Inr (Local hint, hint, ResolvedExplicit) else Inl UnknownRuntime)
      else if local = [] then Inl NoLocalDrivers
      else if length local = 1 then Inr (Local (hd local), hd local, ResolvedSole)
      else if sid = [] then ?fallback
      else if length ?held = 1 then Inr (Local (hd ?held), hd ?held, ResolvedExistence)
      else if length ?held > 1 then Inl (HeldBySeveral (sort ?held))
      else if ?failed \<noteq> [] then Inl (Inconclusive (sort ?failed))
      else ?fallback)"
    by (simp only: resolveSessionDriver_def probeHolders_def Let_def prod.case)
  note res = assms [unfolded unfold]
  show thesis
  proof (cases "machine \<noteq> self \<and> machine \<noteq> []")
    case True
    with res show ?thesis by (intro peer) (simp_all split: if_split_asm)
  next
    case False
    then have here: "machine = self \<or> machine = []" by blast
    note res1 = res [unfolded if_not_P [OF False]]
    show ?thesis
    proof (cases "hint \<noteq> []")
      case True
      with res1 here show ?thesis by (intro explicit) (auto split: if_split_asm)
    next
      case False
      note res2 = res1 [unfolded if_not_P [OF False]]
      have ne: "local \<noteq> []" using res2 by (rule contrapos_pn) simp
      note res3 = res2 [unfolded if_not_P [OF ne]]
      show ?thesis
      proof (cases "length local = 1")
        case True
        with res3 here ne show ?thesis by (intro sole) auto
      next
        case False
        note res4 = res3 [unfolded if_not_P [OF False]]
        have fb: thesis if "?fallback = Inr (t, rt, via)" "sid = [] \<or> ?held = [] \<and> ?failed = []"
          using that here by (intro dflt) (auto split: if_split_asm)
        show ?thesis
        proof (cases "sid = []")
          case True
          with res4 fb show ?thesis by simp
        next
          case False
          note res5 = res4 [unfolded if_not_P [OF False]]
          show ?thesis
          proof (cases "length ?held = 1")
            case True
            with res5 here show ?thesis by (intro existence) auto
          next
            case one: False
            note res6 = res5 [unfolded if_not_P [OF one]]
            have "\<not> length ?held > 1" using res6 by (rule contrapos_pn) (simp only: if_True, simp)
            note res7 = res6 [unfolded if_not_P [OF this]]
            have fl: "?failed = []" using res7 by (rule contrapos_pp) simp
            have "?held = []" using one \<open>\<not> length ?held > 1\<close> by (cases ?held) auto
            with fb res7 fl show ?thesis by simp
          qed
        qed
      qed
    qed
  qed
qed

lemma unheld:
  "held_by probe local = [] \<Longrightarrow> failed_by probe local = [] \<Longrightarrow> x \<in> set local \<Longrightarrow>
     probe x = ProbeNoSuchSession \<or> probe x = ProbeUnsupported"
  by (cases "probe x") (auto simp: filter_empty_conv)

lemma held_by_one:
  assumes "length (held_by probe local) = 1"
  shows "hd (held_by probe local) \<in> set local"
    and "x \<in> set local \<Longrightarrow> probe x = ProbeHeld \<longleftrightarrow> x = hd (held_by probe local)"
proof -
  obtain rt where "held_by probe local = [rt]"
    using assms by (cases "held_by probe local") auto
  then have "set (held_by probe local) = {rt}" "hd (held_by probe local) = rt" by simp_all
  then show "hd (held_by probe local) \<in> set local"
    "x \<in> set local \<Longrightarrow> probe x = ProbeHeld \<longleftrightarrow> x = hd (held_by probe local)" by auto
qed

section \<open>Properties\<close>

text \<open>
  C33: A session is routed by who holds it. When a bare id on this machine is resolved among several
  runtimes, a driver chosen for existence is the only one that affirms the session; the configured
  default is chosen only when every driver affirmed it never had the id (or cannot tell at all);
  and a peer is chosen only when the request names it.
\<close>

theorem routing_is_justified:
  assumes "resolveSessionDriver self peers local dflt probe machine sid hint = Inr (t, rt, via)"
  shows "(via = ResolvedExistence \<longrightarrow> rt \<in> set local \<and> (\<forall>rt' \<in> set local. probe rt' = ProbeHeld \<longleftrightarrow> rt' = rt)) \<and>
    (via = ResolvedDefault \<and> sid \<noteq> [] \<longrightarrow>
       (\<forall>rt' \<in> set local. probe rt' = ProbeNoSuchSession \<or> probe rt' = ProbeUnsupported)) \<and>
    (case t of Peer m \<Rightarrow> m = machine \<and> m \<in> set peers \<and> m \<noteq> self
     | Local r \<Rightarrow> r = rt \<and> r \<in> set local \<and> (machine = self \<or> machine = []))"
  using assms
proof (cases rule: resolve_cases)
  case existence
  have "rt \<in> set local" using held_by_one(1) [OF existence(4)] existence(2) by simp
  moreover have "\<forall>x \<in> set local. (probe x = ProbeHeld) = (x = rt)"
    using held_by_one(2) [OF existence(4)] unfolding existence(2) [symmetric] by blast
  moreover have "t = Local rt" using existence(1,2) by simp
  ultimately show ?thesis using existence(3,5)
    by (simp only: target.case runtime_resolution.distinct simp_thms)
next
  case dflt
  then show ?thesis using unheld [of probe local] by auto
qed auto

lemma routing_is_justified_witness:
  "''tmux'' \<in> set [''tmux'', ''open''] \<and> (if ''open'' = ''tmux'' then ProbeHeld else ProbeFailed) \<noteq> ProbeHeld"
proof -
  have "resolveSessionDriver ''m'' [] [''tmux'', ''open''] ''open'' (\<lambda>rt. if rt = ''tmux'' then ProbeHeld else ProbeFailed) ''m'' ''a'' [] =
      Inr (Local ''tmux'', ''tmux'', ResolvedExistence)"
    by (simp add: resolveSessionDriver_def probeHolders_def)
  from routing_is_justified [OF this] show ?thesis by auto
qed

text \<open>
  A session that exactly one registered runtime affirms is always found, whatever default is
  configured and whether or not other drivers could answer.
\<close>

theorem held_session_is_found:
  assumes "distinct local" and "rt \<in> set local" and "machine = self \<or> machine = []" and "sid \<noteq> []"
    and "\<forall>x \<in> set local. probe x = ProbeHeld \<longleftrightarrow> x = rt"
  shows "\<exists>via. resolveSessionDriver self peers local dflt probe machine sid [] = Inr (Local rt, rt, via)"
proof -
  have "filter (\<lambda>x. probe x = ProbeHeld) local = filter (\<lambda>x. x = rt) local"
    using assms(5) by (intro filter_cong) auto
  also have "\<dots> = [rt]" using assms(1,2) by (rule filter_single)
  finally have "filter (\<lambda>x. probe x = ProbeHeld) local = [rt]" .
  moreover have "hd local = rt" if "length local = Suc 0"
    using that assms(2) by (cases local) auto
  ultimately show ?thesis
    using assms(2-4) by (auto simp: resolveSessionDriver_def probeHolders_def Let_def)
qed

lemma held_session_is_found_witness:
  "\<exists>via. resolveSessionDriver ''m'' [] [''tmux'', ''open''] ''open'' (\<lambda>rt. if rt = ''tmux'' then ProbeHeld else ProbeFailed) [] ''a'' [] =
      Inr (Local ''tmux'', ''tmux'', via)"
  by (rule held_session_is_found) simp_all

text \<open>
  A listing that calls itself complete heard from everyone: if the collection of a fleet listing is
  complete, every local driver and every peer answered, and each of their own sources was ok; a
  driver that failed, timed out or reported a degraded source makes it incomplete.
\<close>

theorem complete_means_all_answered:
  assumes "ListSessions self ScopeFleet narrow want locals peers now st = (st', Some col)"
  shows "col_complete col \<longleftrightarrow>
    (\<forall>l \<in> set locals. answered (ll_answer l)) \<and> (\<forall>p \<in> set peers. answered (pl_answer p))"
proof -
  let ?z = "\<not> narrow \<and> want = []"
  let ?S = "snd (snd (list_locals self ?z locals st)) @ snd (list_peers peers)"
  have "col_complete col \<longleftrightarrow> (\<forall>s \<in> set (if ?S = [] then [source self SourceOK [] now] else ?S). src_status s = SourceOK)"
    using assms by (auto simp: ListSessions_def NewCollection_def Let_def split_beta split: if_splits)
  also have "\<dots> \<longleftrightarrow> (\<forall>s \<in> set ?S. src_status s = SourceOK)" by (auto simp: source_def)
  also have "\<dots> \<longleftrightarrow> (\<forall>l \<in> set locals. answered (ll_answer l)) \<and> (\<forall>p \<in> set peers. answered (pl_answer p))"
    using list_locals_answered [of self ?z locals st] list_peers_answered [of peers] by (simp add: ball_Un)
  finally show ?thesis .
qed

lemma complete_means_all_answered_witness:
  "\<not> col_complete (the (snd (ListSessions ''m'' ScopeFleet False [] []
      [\<lparr>pl_machine = ''p'', pl_answer = ListDeadline, pl_deadline_text = ''5s'', pl_now = 1\<rparr>] 1
      \<lparr>so_labels = newLabelStore, so_history = newHistoryStore ''m''\<rparr>)))"
proof -
  let ?p = "\<lparr>pl_machine = ''p'', pl_answer = ListDeadline, pl_deadline_text = ''5s'', pl_now = 1\<rparr>"
  let ?r = "ListSessions ''m'' ScopeFleet False [] [] [?p] 1 \<lparr>so_labels = newLabelStore, so_history = newHistoryStore ''m''\<rparr>"
  have "snd ?r \<noteq> None" by code_simp
  then have "?r = (fst ?r, Some (the (snd ?r)))" by (simp add: prod_eq_iff)
  from complete_means_all_answered [OF this] show ?thesis by (simp add: answered_def)
qed

text \<open>
  A driver that does not answer ends nothing: when a driver's listing fails or times out and
  reports no exit, no label record changes and the history is untouched, or only written out as any
  periodic save writes it.
\<close>

theorem failed_listing_ends_nothing:
  assumes "ll_answer l = ListDeadline \<or> (\<exists>e. ll_answer l = ListError e)" and "ll_exits l = []"
  shows "so_labels (fst (list_local self z l st)) = so_labels st \<and>
    so_history (fst (list_local self z l st)) \<in> {so_history st, saveLocked (ll_now l) (so_history st)}"
  using assms
  by (auto simp: list_local_def callList_def allSourcesOK_def source_def Let_def observe_nothing)

lemma failed_listing_ends_nothing_witness:
  "so_labels (fst (list_local ''m'' True \<lparr>ll_runtime = ''tmux'', ll_answer = ListDeadline, ll_deadline_text = ''5s'',
      ll_listed_at = 300, ll_now = 400, ll_exits = []\<rparr> \<lparr>so_labels = demo_labels, so_history = demo_store\<rparr>)) = demo_labels"
proof -
  let ?l = "\<lparr>ll_runtime = ''tmux'', ll_answer = ListDeadline, ll_deadline_text = ''5s'',
      ll_listed_at = 300, ll_now = 400, ll_exits = []\<rparr>"
  have "ll_answer ?l = ListDeadline \<or> (\<exists>e. ll_answer ?l = ListError e)" "ll_exits ?l = []" by simp_all
  from failed_listing_ends_nothing [OF this, of "''m''" True "\<lparr>so_labels = demo_labels, so_history = demo_store\<rparr>"]
  show ?thesis by simp
qed

end
