(* ===== verification/Authorization.thy ===== *)
theory Authorization
  imports Fleet
begin

text \<open>
  Who may do what: principals and grants (\<open>internal/service/auth.go\<close>), the middleware every
  route of the mux is wrapped in (\<open>NewMux\<close>, \<open>withAuth\<close>, \<open>mutating\<close>, \<open>reading\<close> in
  \<open>internal/service/http.go\<close> and \<open>revealing\<close> in \<open>turns.go\<close>), the audit trail
  (\<open>audit.go\<close>) and what \<open>/v1/whoami\<close> reports (\<open>whoami.go\<close>). A handler is a function
  from the request and the service's state to the new state and the answer; the state's type is a
  parameter, so the statements hold for whatever the wrapped handler does.
\<close>

section \<open>Principals and grants\<close>

datatype grant =
  GrantRead | GrantCreate | GrantSend | GrantInterrupt | GrantClose | GrantRename | GrantDiscard |
  GrantKeys | GrantLabel | GrantRelay | GrantHumanRelay

definition Grants :: "grant list" where
  "Grants = [GrantRead, GrantCreate, GrantSend, GrantInterrupt, GrantClose, GrantRename, GrantDiscard,
     GrantKeys, GrantLabel, GrantRelay, GrantHumanRelay]"

record principal =
  pr_name :: string
  pr_token :: string
  pr_grants :: "grant list"

record config =
  cfg_token :: string
  cfg_principals :: "principal list"
  cfg_allow_local :: bool
  cfg_allow_relay :: bool

datatype http_method = GET | POST | DELETE | OtherMethod string

record request =
  rq_method :: http_method
  rq_path :: string
  rq_authorization :: string
  rq_behalf :: string
  rq_human_relay :: string
  rq_machine :: string
  rq_id :: string
  rq_remote :: string
  rq_principal :: "principal option"

definition Allows :: "principal \<Rightarrow> grant \<Rightarrow> bool" where
  "Allows p g = (g \<in> set (pr_grants p))"

definition ascii_lower :: "char \<Rightarrow> char" where
  "ascii_lower c = (if 65 \<le> (of_char c :: nat) \<and> (of_char c :: nat) \<le> 90 then char_of (of_char c + 32 :: nat) else c)"

definition bearerOf :: "request \<Rightarrow> string" where
  "bearerOf r =
     (let p = ''Bearer ''; v = rq_authorization r
      in if length v > length p \<and> map ascii_lower (take (length p) v) = map ascii_lower p
         then drop (length p) v else [])"

definition principalFor :: "config \<Rightarrow> request \<Rightarrow> principal option" where
  "principalFor c r =
     (let presented = bearerOf r
      in if presented = [] then None
         else find (\<lambda>p. pr_token p \<noteq> [] \<and> pr_token p = presented) (cfg_principals c))"

definition grantForVerb :: "request \<Rightarrow> grant" where
  "grantForVerb r =
     (let path = rq_path r; post = (rq_method r = POST)
      in if post \<and> has_suffix path ''/sessions'' then GrantCreate
         else if post \<and> has_suffix path ''/input'' then GrantSend
         else if post \<and> has_suffix path ''/respond'' then GrantSend
         else if post \<and> has_suffix path ''/interrupt'' then GrantInterrupt
         else if post \<and> has_suffix path ''/rename'' then GrantRename
         else if post \<and> has_suffix path ''/discard'' then GrantDiscard
         else if post \<and> has_suffix path ''/keys'' then GrantKeys
         else if post \<and> has_suffix path ''/labels'' then GrantLabel
         else if rq_method r = DELETE then GrantClose
         else GrantRead)"

definition callerName :: "principal \<Rightarrow> request \<Rightarrow> string" where
  "callerName p r = (if rq_behalf r \<noteq> [] then rq_behalf r @ '' via '' @ pr_name p else pr_name p)"

section \<open>The audit trail\<close>

datatype audit_outcome =
  AuditPerformed | AuditRefusedStale | AuditNoSuchSession | AuditRefused | AuditFailed | AuditNoResponse | AuditDenied

record audit_line =
  au_actor :: string
  au_verb :: grant
  au_target :: string
  au_session :: string
  au_outcome :: audit_outcome

definition outcomeOf :: "int \<Rightarrow> audit_outcome" where
  "outcomeOf status =
     (if status = 0 then AuditNoResponse
      else if 200 \<le> status \<and> status < 300 then AuditPerformed
      else if status = 409 then AuditRefusedStale
      else if status = 404 then AuditNoSuchSession
      else if 400 \<le> status \<and> status < 500 then AuditRefused
      else AuditFailed)"

definition logMutation :: "principal \<Rightarrow> grant \<Rightarrow> string \<Rightarrow> request \<Rightarrow> int \<Rightarrow> audit_line list" where
  "logMutation p g target r status =
     (if g = GrantRead then []
      else [\<lparr>au_actor = callerName p r, au_verb = g, au_target = target, au_session = rq_id r,
             au_outcome = outcomeOf status\<rparr>])"

definition logDenied :: "principal \<Rightarrow> grant \<Rightarrow> string \<Rightarrow> request \<Rightarrow> audit_line list" where
  "logDenied p g target r =
     [\<lparr>au_actor = callerName p r, au_verb = g, au_target = target, au_session = rq_id r,
       au_outcome = AuditDenied\<rparr>]"

section \<open>Middleware\<close>

text \<open>
  What serving a request leaves: the service's state, the status written (0 when the handler wrote
  nothing), the audit lines and whether the wrapped handler ran.
\<close>

record 'w served =
  sv_state :: 'w
  sv_status :: int
  sv_audit :: "audit_line list"
  sv_ran :: bool

type_synonym 'w handler = "request \<Rightarrow> 'w \<Rightarrow> 'w served"

definition unauthorized :: "audit_line list \<Rightarrow> 'w \<Rightarrow> 'w served" where
  "unauthorized audit w = \<lparr>sv_state = w, sv_status = 401, sv_audit = audit, sv_ran = False\<rparr>"

definition withAuth :: "config \<Rightarrow> 'w handler \<Rightarrow> 'w handler" where
  "withAuth c h r w =
     (if cfg_principals c \<noteq> [] then
        (case principalFor c r of
           None \<Rightarrow> unauthorized [] w
         | Some p \<Rightarrow> h (r\<lparr>rq_principal := Some p\<rparr>) w)
      else if cfg_token c = [] \<or> rq_authorization r \<noteq> ''Bearer '' @ cfg_token c then unauthorized [] w
      else h r w)"

definition needed_grant :: "string \<Rightarrow> request \<Rightarrow> grant" where
  "needed_grant self r =
     (if rq_machine r \<noteq> [] \<and> rq_machine r \<noteq> self then GrantRelay else grantForVerb r)"

definition mutating :: "string \<Rightarrow> config \<Rightarrow> 'w handler \<Rightarrow> 'w handler" where
  "mutating self c h r w =
     (let target = rq_machine r in
      case rq_principal r of
        Some p \<Rightarrow>
          (let need = needed_grant self r
           in if \<not> Allows p need then unauthorized (logDenied p need target r) w
              else let s = h r w in s\<lparr>sv_audit := sv_audit s @ logMutation p need target r (sv_status s)\<rparr>)
      | None \<Rightarrow>
          if \<not> (if target \<noteq> [] \<and> target \<noteq> self then cfg_allow_relay c else cfg_allow_local c)
          then unauthorized [] w else h r w)"

definition reading :: "'w handler \<Rightarrow> 'w handler" where
  "reading h r w =
     (case rq_principal r of
        None \<Rightarrow> h r w
      | Some p \<Rightarrow> if \<not> Allows p GrantRead then unauthorized (logDenied p GrantRead (rq_machine r) r) w else h r w)"

definition revealing :: "'w handler \<Rightarrow> 'w handler" where
  "revealing h r w =
     (case rq_principal r of
        Some p \<Rightarrow> if \<not> Allows p GrantSend then unauthorized (logDenied p GrantSend (rq_machine r) r) w else h r w
      | None \<Rightarrow> h r w)"

section \<open>Routes\<close>

datatype route =
  RHealth | RWhoAmI | RMachines | RRuntimes | RSessions | RClosed | RWatch | RCreate | RGet | REnvironment |
  RTurns | RInput | RRespond | RInterrupt | RDiscard | RRename | RKeys | RLabels | RClose | REvents

definition all_routes :: "route list" where
  "all_routes = [RHealth, RWhoAmI, RMachines, RRuntimes, RSessions, RClosed, RWatch, RCreate, RGet, REnvironment,
     RTurns, RInput, RRespond, RInterrupt, RDiscard, RRename, RKeys, RLabels, RClose, REvents]"

definition session_path :: "string \<Rightarrow> string \<Rightarrow> string" where
  "session_path machine i = ''/v1/machines/'' @ machine @ ''/sessions/'' @ i"

text \<open>The method and path of a route, with the path values the mux extracts.\<close>

fun route_request :: "route \<Rightarrow> string \<Rightarrow> string \<Rightarrow> http_method \<times> string \<times> string \<times> string" where
  "route_request RHealth m i = (GET, ''/v1/health'', [], [])"
| "route_request RWhoAmI m i = (GET, ''/v1/whoami'', [], [])"
| "route_request RMachines m i = (GET, ''/v1/machines'', [], [])"
| "route_request RRuntimes m i = (GET, ''/v1/runtimes'', [], [])"
| "route_request RSessions m i = (GET, ''/v1/sessions'', [], [])"
| "route_request RClosed m i = (GET, ''/v1/sessions/closed'', [], [])"
| "route_request RWatch m i = (GET, ''/v1/sessions/watch'', [], [])"
| "route_request RCreate m i = (POST, ''/v1/machines/'' @ m @ ''/sessions'', m, [])"
| "route_request RGet m i = (GET, session_path m i, m, i)"
| "route_request REnvironment m i = (GET, session_path m i @ ''/environment'', m, i)"
| "route_request RTurns m i = (GET, session_path m i @ ''/turns'', m, i)"
| "route_request RInput m i = (POST, session_path m i @ ''/input'', m, i)"
| "route_request RRespond m i = (POST, session_path m i @ ''/respond'', m, i)"
| "route_request RInterrupt m i = (POST, session_path m i @ ''/interrupt'', m, i)"
| "route_request RDiscard m i = (POST, session_path m i @ ''/discard'', m, i)"
| "route_request RRename m i = (POST, session_path m i @ ''/rename'', m, i)"
| "route_request RKeys m i = (POST, session_path m i @ ''/keys'', m, i)"
| "route_request RLabels m i = (POST, session_path m i @ ''/labels'', m, i)"
| "route_request RClose m i = (DELETE, session_path m i, m, i)"
| "route_request REvents m i = (GET, ''/v1/events'', [], [])"

fun guard :: "string \<Rightarrow> config \<Rightarrow> route \<Rightarrow> 'w handler \<Rightarrow> 'w handler" where
  "guard self c RWhoAmI h = h"
| "guard self c RTurns h = revealing h"
| "guard self c RHealth h = reading h"
| "guard self c RMachines h = reading h"
| "guard self c RRuntimes h = reading h"
| "guard self c RSessions h = reading h"
| "guard self c RClosed h = reading h"
| "guard self c RWatch h = reading h"
| "guard self c RGet h = reading h"
| "guard self c REnvironment h = reading h"
| "guard self c REvents h = reading h"
| "guard self c RCreate h = mutating self c h"
| "guard self c RInput h = mutating self c h"
| "guard self c RRespond h = mutating self c h"
| "guard self c RInterrupt h = mutating self c h"
| "guard self c RDiscard h = mutating self c h"
| "guard self c RRename h = mutating self c h"
| "guard self c RKeys h = mutating self c h"
| "guard self c RLabels h = mutating self c h"
| "guard self c RClose h = mutating self c h"

definition serve :: "string \<Rightarrow> config \<Rightarrow> (route \<Rightarrow> 'w handler) \<Rightarrow> route \<Rightarrow> 'w handler" where
  "serve self c handlers rt = withAuth c (guard self c rt (handlers rt))"

definition well_routed :: "route \<Rightarrow> request \<Rightarrow> bool" where
  "well_routed rt r =
     (route_request rt (rq_machine r) (rq_id r) = (rq_method r, rq_path r, rq_machine r, rq_id r) \<and> rq_principal r = None)"

section \<open>Reporting and stamping\<close>

definition legacyGrants :: "config \<Rightarrow> grant list" where
  "legacyGrants c =
     [GrantRead] @
     (if cfg_allow_local c then [GrantCreate, GrantSend, GrantInterrupt, GrantClose, GrantRename, GrantDiscard,
        GrantKeys, GrantLabel] else []) @
     (if cfg_allow_relay c then [GrantRelay] else [])"

definition grantsForRequest :: "config \<Rightarrow> request \<Rightarrow> grant list" where
  "grantsForRequest c r = (case rq_principal r of Some p \<Rightarrow> pr_grants p | None \<Rightarrow> legacyGrants c)"

definition grantsForToken :: "config \<Rightarrow> string \<Rightarrow> grant list" where
  "grantsForToken c token =
     (if token = [] then []
      else if cfg_principals c \<noteq> [] then
        (case find (\<lambda>p. pr_token p \<noteq> [] \<and> pr_token p = token) (cfg_principals c) of
           Some p \<Rightarrow> pr_grants p | None \<Rightarrow> [])
      else if cfg_token c \<noteq> [] \<and> cfg_token c = token then legacyGrants c
      else [])"

definition relayTrusted :: "string list \<Rightarrow> request \<Rightarrow> bool" where
  "relayTrusted peers r = (case rq_principal r of None \<Rightarrow> True | Some p \<Rightarrow> pr_name p \<in> set peers)"

definition humanRelay :: "string list \<Rightarrow> request \<Rightarrow> bool" where
  "humanRelay peers r =
     ((case rq_principal r of Some p \<Rightarrow> Allows p GrantHumanRelay | None \<Rightarrow> False) \<or>
      rq_behalf r \<noteq> [] \<and> rq_human_relay r = ''1'' \<and> relayTrusted peers r)"

record message_from =
  mf_machine :: string
  mf_agent :: string
  mf_session :: string

definition stampSender :: "string \<Rightarrow> string list \<Rightarrow> request \<Rightarrow> message_from option \<Rightarrow> message_from option" where
  "stampSender self peers r claimed =
     (case claimed of
        None \<Rightarrow> None
      | Some f \<Rightarrow> Some (f\<lparr>mf_machine :=
          (if rq_behalf r = [] \<or> \<not> relayTrusted peers r then self
           else if mf_machine f \<noteq> [] \<and> mf_machine f \<noteq> self \<and> mf_machine f \<in> set peers then mf_machine f
           else [])\<rparr>))"

section \<open>What each route requires\<close>

fun route_grant :: "route \<Rightarrow> grant" where
  "route_grant RCreate = GrantCreate"
| "route_grant RInput = GrantSend"
| "route_grant RRespond = GrantSend"
| "route_grant RInterrupt = GrantInterrupt"
| "route_grant RDiscard = GrantDiscard"
| "route_grant RRename = GrantRename"
| "route_grant RKeys = GrantKeys"
| "route_grant RLabels = GrantLabel"
| "route_grant RClose = GrantClose"
| "route_grant RTurns = GrantSend"
| "route_grant _ = GrantRead"

fun mutates :: "route \<Rightarrow> bool" where
  "mutates RCreate = True" | "mutates RInput = True" | "mutates RRespond = True" | "mutates RInterrupt = True"
| "mutates RDiscard = True" | "mutates RRename = True" | "mutates RKeys = True" | "mutates RLabels = True"
| "mutates RClose = True" | "mutates _ = False"

definition remote :: "string \<Rightarrow> request \<Rightarrow> bool" where
  "remote self r = (rq_machine r \<noteq> [] \<and> rq_machine r \<noteq> self)"

definition authorised :: "string \<Rightarrow> config \<Rightarrow> route \<Rightarrow> request \<Rightarrow> bool" where
  "authorised self c rt r =
     (if cfg_principals c \<noteq> [] then
        (case principalFor c r of None \<Rightarrow> False
         | Some p \<Rightarrow> rt = RWhoAmI \<or> Allows p (if mutates rt \<and> remote self r then GrantRelay else route_grant rt))
      else cfg_token c \<noteq> [] \<and> rq_authorization r = ''Bearer '' @ cfg_token c \<and>
        (mutates rt \<longrightarrow> (if remote self r then cfg_allow_relay c else cfg_allow_local c)))"

definition admitted :: "config \<Rightarrow> request \<Rightarrow> request" where
  "admitted c r = (if cfg_principals c \<noteq> [] then r\<lparr>rq_principal := principalFor c r\<rparr> else r)"

text \<open>A suffix test on a concrete tail is decided from the end.\<close>

lemma has_suffix_rev: "has_suffix s p \<longleftrightarrow> take (length p) (rev s) = rev p"
proof
  assume "has_suffix s p"
  then show "take (length p) (rev s) = rev p" by (auto simp: has_suffix_iff)
next
  assume "take (length p) (rev s) = rev p"
  then have "rev s = rev p @ drop (length p) (rev s)" by (metis append_take_drop_id)
  then have "s = rev (drop (length p) (rev s)) @ p" by (metis rev_append rev_rev_ident)
  then show "has_suffix s p" by (auto simp: has_suffix_iff)
qed

text \<open>The verb the middleware reads off the path is the route's own, whatever machine and id say.\<close>

lemma grantForVerb_route:
  assumes "well_routed rt r" and "mutates rt"
  shows "grantForVerb r = route_grant rt"
proof -
  have "rq_method r = fst (route_request rt (rq_machine r) (rq_id r))"
    and "rq_path r = fst (snd (route_request rt (rq_machine r) (rq_id r)))"
    using assms(1) by (auto simp: well_routed_def)
  then show ?thesis
    using assms(2) by (cases rt) (simp_all add: grantForVerb_def Let_def has_suffix_rev)
qed

lemma needed_grant_route:
  "well_routed rt r \<Longrightarrow> mutates rt \<Longrightarrow>
     needed_grant self r = (if remote self r then GrantRelay else route_grant rt)"
  by (simp add: needed_grant_def remote_def grantForVerb_route)

lemma needed_grant_frame [simp]: "needed_grant self (r\<lparr>rq_principal := p\<rparr>) = needed_grant self r"
  by (simp add: needed_grant_def grantForVerb_def)

lemma guard_cases:
  "guard self c rt = (if rt = RWhoAmI then (\<lambda>h. h) else if rt = RTurns then revealing
     else if mutates rt then mutating self c else reading)"
  by (cases rt) (auto simp: fun_eq_iff)

lemma route_grant_read: "\<not> mutates rt \<Longrightarrow> rt \<noteq> RTurns \<Longrightarrow> route_grant rt = GrantRead"
  by (cases rt) auto

lemma guard_principal:
  assumes "well_routed rt r"
  shows "(Allows p (if mutates rt \<and> remote self r then GrantRelay else route_grant rt) \<or> rt = RWhoAmI \<longrightarrow>
      sv_state (guard self c rt h (r\<lparr>rq_principal := Some p\<rparr>) w) = sv_state (h (r\<lparr>rq_principal := Some p\<rparr>) w) \<and>
      sv_status (guard self c rt h (r\<lparr>rq_principal := Some p\<rparr>) w) = sv_status (h (r\<lparr>rq_principal := Some p\<rparr>) w)) \<and>
    (\<not> Allows p (if mutates rt \<and> remote self r then GrantRelay else route_grant rt) \<and> rt \<noteq> RWhoAmI \<longrightarrow>
      (\<exists>audit. guard self c rt h (r\<lparr>rq_principal := Some p\<rparr>) w = unauthorized audit w))"
  unfolding guard_cases
  using needed_grant_route [OF assms, of self] route_grant_read [of rt]
  by (cases "rt = RTurns")
    (auto simp: mutating_def reading_def revealing_def Let_def split: if_splits)

lemma guard_legacy:
  assumes "well_routed rt r"
  shows "guard self c rt h r w =
    (if mutates rt \<and> \<not> (if remote self r then cfg_allow_relay c else cfg_allow_local c) then unauthorized [] w else h r w)"
  using assms unfolding guard_cases
  by (auto simp: well_routed_def mutating_def reading_def revealing_def remote_def Let_def)

section \<open>Properties\<close>

text \<open>
  C10: No handler runs for a caller without the right. For every route of the mux and whatever
  the handler does, a request that is not authorised (a recognised credential holding the grant of
  the route, or the relay grant when the mutation targets another machine; in the single-token
  deployment the exact token and the flag for mutating here or relaying) leaves the service's state
  as it was and is answered 401.
\<close>

theorem unauthorised_changes_nothing:
  assumes "well_routed rt r" and "\<not> authorised self c rt r"
  shows "\<exists>audit. serve self c handlers rt r w = unauthorized audit w"
proof (cases "cfg_principals c = []")
  case True
  with assms show ?thesis
    by (auto simp: serve_def withAuth_def authorised_def guard_legacy)
next
  case False
  show ?thesis
  proof (cases "principalFor c r")
    case None
    with False show ?thesis by (auto simp: serve_def withAuth_def)
  next
    case (Some p)
    with False assms(2)
    have "rt \<noteq> RWhoAmI" "\<not> Allows p (if mutates rt \<and> remote self r then GrantRelay else route_grant rt)"
      by (auto simp: authorised_def)
    with guard_principal [OF assms(1), of p self c "handlers rt" w] False Some show ?thesis
      by (simp add: serve_def withAuth_def)
  qed
qed

definition demo_config :: config where
  "demo_config = \<lparr>cfg_token = [], cfg_principals =
     [\<lparr>pr_name = ''peer'', pr_token = ''t1'', pr_grants = [GrantRead, GrantSend]\<rparr>],
     cfg_allow_local = True, cfg_allow_relay = True\<rparr>"

definition demo_request :: "route \<Rightarrow> string \<Rightarrow> request" where
  "demo_request rt token = (case route_request rt ''m'' ''a'' of (meth, path, machine, i) \<Rightarrow>
     \<lparr>rq_method = meth, rq_path = path, rq_authorization = ''Bearer '' @ token, rq_behalf = [],
      rq_human_relay = [], rq_machine = machine, rq_id = i, rq_remote = ''host'', rq_principal = None\<rparr>)"

lemma unauthorised_changes_nothing_witness:
  "\<exists>audit. serve ''m'' demo_config (\<lambda>_ r w. \<lparr>sv_state = Suc w, sv_status = 200, sv_audit = [], sv_ran = True\<rparr>)
     RClose (demo_request RClose ''t1'') 0 = unauthorized audit 0"
  by (rule unauthorised_changes_nothing) code_simp+

text \<open>
  An authorised request is served: its handler runs, with the recognised principal attached,
  and the state and the status of the answer are the handler's own.
\<close>

theorem authorised_is_served:
  assumes "well_routed rt r" and "authorised self c rt r"
  shows "sv_state (serve self c handlers rt r w) = sv_state (handlers rt (admitted c r) w) \<and>
    sv_status (serve self c handlers rt r w) = sv_status (handlers rt (admitted c r) w)"
proof (cases "cfg_principals c = []")
  case True
  with assms show ?thesis
    by (auto simp: serve_def withAuth_def authorised_def guard_legacy admitted_def)
next
  case False
  with assms(2) obtain p where p: "principalFor c r = Some p"
    "rt = RWhoAmI \<or> Allows p (if mutates rt \<and> remote self r then GrantRelay else route_grant rt)"
    by (auto simp: authorised_def split: option.splits)
  with guard_principal [OF assms(1), of p self c "handlers rt" w] False show ?thesis
    by (auto simp: serve_def withAuth_def admitted_def)
qed

lemma authorised_is_served_witness:
  "sv_state (serve ''m'' demo_config (\<lambda>_ r w. \<lparr>sv_state = Suc w, sv_status = 200, sv_audit = [], sv_ran = True\<rparr>)
     RInput (demo_request RInput ''t1'') 0) = 1"
proof -
  have "well_routed RInput (demo_request RInput ''t1'')" "authorised ''m'' demo_config RInput (demo_request RInput ''t1'')"
    by code_simp+
  from authorised_is_served [OF this, of "\<lambda>_ r w. \<lparr>sv_state = Suc w, sv_status = 200, sv_audit = [], sv_ran = True\<rparr>" 0]
  show ?thesis by simp
qed

text \<open>
  Every attempt at a mutation by a recognised principal leaves exactly one audit line of the
  middleware, after the handler's own: the actor, the grant that was needed, the target and either
  DENIED or the outcome of the status.
\<close>

theorem every_mutation_audited:
  assumes "well_routed rt r" and "mutates rt" and "cfg_principals c \<noteq> []" and "principalFor c r = Some p"
  shows "sv_audit (serve self c handlers rt r w) =
    (if authorised self c rt r then sv_audit (handlers rt (admitted c r) w) else []) @
    [\<lparr>au_actor = callerName p r, au_verb = (if remote self r then GrantRelay else route_grant rt),
      au_target = rq_machine r, au_session = rq_id r,
      au_outcome = (if authorised self c rt r then outcomeOf (sv_status (handlers rt (admitted c r) w)) else AuditDenied)\<rparr>]"
proof -
  have nr: "(if remote self r then GrantRelay else route_grant rt) \<noteq> GrantRead"
    using assms(2) by (cases rt) auto
  have name: "callerName p (r\<lparr>rq_principal := q\<rparr>) = callerName p r" for q by (simp add: callerName_def)
  have "rt \<noteq> RWhoAmI" "rt \<noteq> RTurns" using assms(2) by auto
  then show ?thesis
    using assms(2-4) nr needed_grant_route [OF assms(1,2), of self]
    by (simp add: serve_def withAuth_def guard_cases mutating_def authorised_def admitted_def logMutation_def
        logDenied_def unauthorized_def Let_def name)
qed

lemma every_mutation_audited_witness:
  "sv_audit (serve ''m'' demo_config (\<lambda>_ r w. \<lparr>sv_state = Suc w, sv_status = 409, sv_audit = [], sv_ran = True\<rparr>)
     RInput (demo_request RInput ''t1'') 0) =
   [\<lparr>au_actor = ''peer'', au_verb = GrantSend, au_target = ''m'', au_session = ''a'', au_outcome = AuditRefusedStale\<rparr>]"
proof -
  let ?h = "\<lambda>_ r w. \<lparr>sv_state = Suc w, sv_status = 409, sv_audit = [], sv_ran = True\<rparr>"
  let ?p = "\<lparr>pr_name = ''peer'', pr_token = ''t1'', pr_grants = [GrantRead, GrantSend]\<rparr>"
  have h: "well_routed RInput (demo_request RInput ''t1'')" "mutates RInput" "cfg_principals demo_config \<noteq> []"
    "principalFor demo_config (demo_request RInput ''t1'') = Some ?p"
    "authorised ''m'' demo_config RInput (demo_request RInput ''t1'')"
    by code_simp+
  have v: "callerName ?p (demo_request RInput ''t1'') = ''peer''" "\<not> remote ''m'' (demo_request RInput ''t1'')"
    "rq_machine (demo_request RInput ''t1'') = ''m''" "rq_id (demo_request RInput ''t1'') = ''a''"
    "outcomeOf 409 = AuditRefusedStale"
    by code_simp+
  from every_mutation_audited [OF h(1-4), of "''m''" ?h 0] h(5) v show ?thesis by simp
qed

text \<open>
  What a credential is told it may do is what is enforced: for a bearer token presented to a
  route that mutates a session of this machine, or reads, the request is authorised exactly when the
  token's reported grants contain the route's grant. The turns route of a single-token deployment is
  the exception: any holder of the token may read turns.
\<close>

theorem reported_grants_enforced:
  assumes "rq_authorization r = ''Bearer '' @ tok" and "tok \<noteq> []" and "rt \<noteq> RWhoAmI"
    and "\<not> remote self r" and "rt \<noteq> RTurns \<or> cfg_principals c \<noteq> []"
  shows "authorised self c rt r \<longleftrightarrow> route_grant rt \<in> set (grantsForToken c tok)"
proof (cases "cfg_principals c = []")
  case True
  have "mutates rt \<Longrightarrow> route_grant rt \<in> {GrantCreate, GrantSend, GrantInterrupt, GrantClose, GrantRename,
      GrantDiscard, GrantKeys, GrantLabel}"
    by (cases rt) auto
  moreover have "\<not> mutates rt \<Longrightarrow> route_grant rt = GrantRead"
    using assms(5) True by (cases rt) auto
  ultimately show ?thesis
    using True assms(1,2,4) by (cases "mutates rt") (auto simp: authorised_def grantsForToken_def legacyGrants_def)
next
  case False
  have "take 7 (''Bearer '' @ tok) = ''Bearer ''" by simp
  then have "bearerOf r = tok" using assms(1,2) by (simp add: bearerOf_def)
  with False assms(2-4) show ?thesis
    by (auto simp: authorised_def principalFor_def grantsForToken_def Allows_def split: option.splits)
qed

lemma reported_grants_enforced_witness:
  "authorised ''m'' demo_config RInput (demo_request RInput ''t1'') \<longleftrightarrow>
     route_grant RInput \<in> set (grantsForToken demo_config ''t1'')"
  by (rule reported_grants_enforced) (simp_all add: demo_request_def demo_config_def remote_def)

text \<open>
  A message says truthfully where it came from: whatever a caller writes in the sender's
  machine, the stamped machine is this one unless the request is relayed by a trusted peer, and then
  it is at most the name of a known peer, never this machine's.
\<close>

theorem sender_machine_not_forged:
  assumes "stampSender self peers r (Some f) = Some g"
  shows "mf_agent g = mf_agent f \<and> mf_session g = mf_session f \<and>
    (mf_machine g = self \<and> (rq_behalf r = [] \<or> \<not> relayTrusted peers r) \<or>
     rq_behalf r \<noteq> [] \<and> relayTrusted peers r \<and>
       (mf_machine g = [] \<or> mf_machine g = mf_machine f \<and> mf_machine g \<in> set peers \<and> mf_machine g \<noteq> self))"
  using assms by (auto simp: stampSender_def split: if_splits)

lemma sender_machine_not_forged_witness:
  "mf_machine (the (stampSender ''m'' [''p''] (demo_request RInput ''t1'')
     (Some \<lparr>mf_machine = ''forged'', mf_agent = ''a'', mf_session = ''s''\<rparr>))) = ''m''"
proof -
  have "stampSender ''m'' [''p''] (demo_request RInput ''t1'') (Some \<lparr>mf_machine = ''forged'', mf_agent = ''a'', mf_session = ''s''\<rparr>)
      = Some \<lparr>mf_machine = ''m'', mf_agent = ''a'', mf_session = ''s''\<rparr>" by code_simp
  from sender_machine_not_forged [OF this] this show ?thesis
    by (simp add: demo_request_def)
qed

end
