(* ===== verification/Backoff.thy ===== *)
theory Backoff
  imports Prelude
begin

text \<open>
  The contract of a retry delay, which three loops of the program rely on: it starts at its least
  value, never shrinks, never exceeds its greatest value and reaches it. Each loop has its own step
  function; its theory interprets the contract on it.
\<close>

locale retry_delay =
  fixes lo :: duration and hi :: duration and step :: "duration \<Rightarrow> duration" and ok :: "duration \<Rightarrow> bool"
  assumes ok_lo: "ok lo"
    and ok_step: "ok d \<Longrightarrow> ok (step d)"
    and ok_range: "ok d \<Longrightarrow> lo \<le> d \<and> d \<le> hi"
    and grows: "ok d \<Longrightarrow> d \<le> step d"
    and stays: "step hi = hi"
    and doubles: "ok d \<Longrightarrow> d < hi \<Longrightarrow> step d = hi \<or> 2 * d \<le> step d"
    and lo_pos: "0 < lo"
begin

lemma ok_iter: "ok ((step ^^ n) lo)"
  by (induction n) (simp_all add: ok_lo ok_step)

lemma iter_range: "lo \<le> (step ^^ n) lo \<and> (step ^^ n) lo \<le> hi"
  using ok_range [OF ok_iter] .

lemma iter_mono: "(step ^^ n) lo \<le> (step ^^ Suc n) lo"
  using grows [OF ok_iter] by simp

lemma iter_doubles: "(step ^^ n) lo = hi \<or> 2 ^ n * lo \<le> (step ^^ n) lo"
proof (induction n)
  case 0
  then show ?case by simp
next
  case (Suc n)
  show ?case
  proof (cases "(step ^^ n) lo = hi")
    case True
    then show ?thesis by (simp add: stays)
  next
    case False
    then have "(step ^^ n) lo < hi" using iter_range [of n] by simp
    from doubles [OF ok_iter this] Suc False show ?thesis by auto
  qed
qed

lemma reaches: "hi < 2 ^ n * lo \<Longrightarrow> (step ^^ n) lo = hi"
  using iter_doubles [of n] iter_range [of n] by auto

end

text \<open>Doubling with a cap, as two of the loops do it.\<close>

lemma capped_doubling:
  assumes "0 < lo" and "lo \<le> hi" and step: "\<And>d. step d = min (2 * d) hi"
  shows "retry_delay lo hi step (\<lambda>d. lo \<le> d \<and> d \<le> hi)"
  by unfold_locales (use assms in \<open>auto simp: step min_def\<close>)

end
