(* ===== verification/Pump.thy ===== *)
theory Pump
  imports HubRun Backoff
begin

text \<open>
  The pump that carries one driver's events into the hub (\<open>pump\<close>, \<open>drainStream\<close>,
  \<open>announceFeedGap\<close>, \<open>announceFeedRestored\<close> in \<open>internal/service/events.go\<close>). What the
  driver does is the argument: the outcome of each attempt to subscribe and, for a stream that
  opened, the events it gave and how it ended. The result is what the pump published and how long it
  slept, in order.
\<close>

section \<open>The loop\<close>

datatype attempt =
  SubscribeRefused bool string
| Streamed "event list" "string option"

text \<open>
  \<open>SubscribeRefused\<close> carries whether the error is \<open>ErrUnsupported\<close>, which ends the pump.
\<close>

datatype pump_action = Published event | Slept duration

definition announceFeedGap :: "string \<Rightarrow> string option \<Rightarrow> timestamp \<Rightarrow> event" where
  "announceFeedGap machine cause now =
     mk_event machine EventSourceStatus
       (PSource \<lparr>src_machine = machine, src_status = SourceDegraded,
          src_error = (case cause of None \<Rightarrow> ''the event stream for this machine ended''
                       | Some c \<Rightarrow> ''the event stream for this machine is not running: '' @ c),
          src_observed_at = now\<rparr>)"

definition announceFeedRestored :: "string \<Rightarrow> timestamp \<Rightarrow> event list" where
  "announceFeedRestored machine now =
     [mk_event machine EventSourceStatus
        (PSource \<lparr>src_machine = machine, src_status = SourceOK, src_error = [], src_observed_at = now\<rparr>),
      mk_event machine EventControlResync (PResync ResyncFeedGap)]"

text \<open>
  Draining fills in the labels of a locally created session; \<open>labels\<close> is the label store's
  answer for it.
\<close>

definition drain_event :: "string \<Rightarrow> (session \<Rightarrow> (string, string) gomap) \<Rightarrow> event \<Rightarrow> event" where
  "drain_event self labels ev =
     (if ev_kind ev = EventSessionCreated \<and> (ev_machine ev = [] \<or> ev_machine ev = self)
      then (case ev_payload ev of
              PSession s \<Rightarrow> ev\<lparr>ev_payload := PSession (s\<lparr>sess_labels := labels s\<rparr>)\<rparr>
            | _ \<Rightarrow> ev)
      else ev)"

definition asks_sweep :: "string \<Rightarrow> event \<Rightarrow> bool" where
  "asks_sweep self ev = (ev_kind ev = EventSessionClosed \<and> (ev_machine ev = [] \<or> ev_machine ev = self))"

fun pump ::
  "string \<Rightarrow> (session \<Rightarrow> (string, string) gomap) \<Rightarrow> string \<Rightarrow> timestamp \<Rightarrow> duration \<Rightarrow> bool \<Rightarrow> attempt list \<Rightarrow> pump_action list" where
  "pump self labels machine now backoff gap [] = []"
| "pump self labels machine now backoff gap (SubscribeRefused unsupported e # rest) =
     (if gap then [] else [Published (announceFeedGap machine (Some e) now)]) @
     (if unsupported then []
      else Slept backoff # pump self labels machine now (nextBackoff backoff) True rest)"
| "pump self labels machine now backoff gap (Streamed evs err # rest) =
     (if gap then map Published (announceFeedRestored machine now) else []) @
     map (\<lambda>ev. Published (drain_event self labels ev)) evs @
     [Published (announceFeedGap machine err now), Slept pumpBackoffMin] @
     pump self labels machine now (nextBackoff pumpBackoffMin) True rest"

definition start_pump ::
  "string \<Rightarrow> (session \<Rightarrow> (string, string) gomap) \<Rightarrow> string \<Rightarrow> timestamp \<Rightarrow> attempt list \<Rightarrow> pump_action list" where
  "start_pump self labels machine now attempts = pump self labels machine now pumpBackoffMin False attempts"

section \<open>The delay keeps its contract\<close>

interpretation pump_delay: retry_delay pumpBackoffMin pumpBackoffMax nextBackoff
  "\<lambda>d. pumpBackoffMin \<le> d \<and> d \<le> pumpBackoffMax"
  by (rule capped_doubling)
    (auto simp: pumpBackoffMin_def pumpBackoffMax_def nextBackoff_def second_def millisecond_def Let_def min_def)

section \<open>What a subscriber can conclude\<close>

text \<open>
  The events of a published sequence since the last gap: whether the feed is currently announced as
  interrupted, judging by the source status and resync events alone.
\<close>

fun published_events :: "pump_action list \<Rightarrow> event list" where
  "published_events [] = []"
| "published_events (Published ev # as) = ev # published_events as"
| "published_events (Slept d # as) = published_events as"

lemma published_append [simp]: "published_events (xs @ ys) = published_events xs @ published_events ys"
  by (induction xs rule: published_events.induct) simp_all

lemma published_map [simp]: "published_events (map (\<lambda>x. Published (f x)) xs) = map f xs"
  by (induction xs) simp_all

lemma published_map' [simp]: "published_events (map Published xs) = xs"
  by (induction xs) simp_all

fun driver_events :: "attempt list \<Rightarrow> event list list" where
  "driver_events [] = []"
| "driver_events (SubscribeRefused u e # rest) = (if u then [] else driver_events rest)"
| "driver_events (Streamed evs err # rest) = evs # driver_events rest"

text \<open>
  The sequence a pump must publish, written down without delays: every stream after an interruption
  is preceded by the restoration and its resync, and followed by exactly one announced gap, and
  consecutive failed attempts announce nothing more.
\<close>

fun announced :: "string \<Rightarrow> (session \<Rightarrow> (string, string) gomap) \<Rightarrow> string \<Rightarrow> timestamp \<Rightarrow> bool \<Rightarrow> event list list \<Rightarrow> string option list \<Rightarrow> event list" where
  "announced self labels machine now gap [] errs = []"
| "announced self labels machine now gap (evs # rest) errs =
     (if gap then announceFeedRestored machine now else []) @ map (drain_event self labels) evs @
     [announceFeedGap machine (hd errs) now] @ announced self labels machine now True rest (tl errs)"

fun stream_errors :: "attempt list \<Rightarrow> string option list" where
  "stream_errors [] = []"
| "stream_errors (SubscribeRefused u e # rest) = (if u then [] else stream_errors rest)"
| "stream_errors (Streamed evs err # rest) = err # stream_errors rest"

lemma pump_published_gap:
  "published_events (pump self labels machine now d True attempts) =
     announced self labels machine now True (driver_events attempts) (stream_errors attempts)"
  by (induction attempts arbitrary: d rule: driver_events.induct) auto

lemma pump_sleeps:
  "pumpBackoffMin \<le> d \<and> d \<le> pumpBackoffMax \<Longrightarrow>
     Slept t \<in> set (pump self labels machine now d gap attempts) \<Longrightarrow> pumpBackoffMin \<le> t \<and> t \<le> pumpBackoffMax"
proof (induction self labels machine now d gap attempts rule: pump.induct)
  case (2 self labels machine now d gap u e rest)
  then show ?case using pump_delay.ok_step [of d] by (auto split: if_splits)
next
  case (3 self labels machine now d gap evs err rest)
  have "pumpBackoffMin \<le> nextBackoff pumpBackoffMin \<and> nextBackoff pumpBackoffMin \<le> pumpBackoffMax"
    using pump_delay.ok_step [OF pump_delay.ok_lo] .
  with 3 pump_delay.ok_lo show ?case by (auto simp: announceFeedRestored_def split: if_splits)
qed simp

section \<open>Properties\<close>

text \<open>
  Interruptions are announced, once each. Whatever a driver does, what its pump publishes is: for
  an initial run of failed attempts one announced gap; then for each stream that opens, after an
  interruption the restoration and a resync first, then the driver's events in order, then one
  announced gap. No event of a stream after an interruption precedes its resync, and repeated
  failures add nothing.
\<close>

theorem interruptions_announced_once:
  "published_events (start_pump self labels machine now attempts) =
     (case attempts of
        SubscribeRefused unsupported e # rest \<Rightarrow>
          announceFeedGap machine (Some e) now #
          (if unsupported then [] else announced self labels machine now True (driver_events rest) (stream_errors rest))
      | _ \<Rightarrow> announced self labels machine now False (driver_events attempts) (stream_errors attempts))"
  by (cases attempts rule: driver_events.cases) (simp_all add: start_pump_def pump_published_gap)

text \<open>
  A pump neither spins nor sleeps for long: every delay of a pump lies between half a second and
  thirty seconds.
\<close>

theorem pump_delay_bounded:
  assumes "Slept t \<in> set (start_pump self labels machine now attempts)"
  shows "500 * millisecond \<le> t \<and> t \<le> 30 * second"
  using pump_sleeps [OF pump_delay.ok_lo assms [unfolded start_pump_def]]
  by (simp add: pumpBackoffMin_def pumpBackoffMax_def)

lemma pump_delay_bounded_witness:
  "500 * millisecond \<le> (1000 * millisecond :: duration) \<and> (1000 * millisecond :: duration) \<le> 30 * second"
proof (rule pump_delay_bounded)
  show "Slept (1000 * millisecond) \<in> set (start_pump ''m'' (\<lambda>_. []) ''m'' 0
      [SubscribeRefused False ''x'', SubscribeRefused False ''y'', SubscribeRefused False ''z''])"
    by code_simp
qed

end
