(* ===== verification/PeerStream.thy ===== *)
theory PeerStream
  imports Limits Backoff
begin

text \<open>
  One service following another (\<open>internal/drivers/remote/subscribe.go\<close>): the stream over a
  peer's \<open>/v1/events\<close> with its position, reconnection and delay. The peer is what it answers:
  a connection is refused, or gives lines of text and ends. The JSON decoder is a parameter.
\<close>

section \<open>Consuming a connection\<close>

record position =
  ps_cursor :: int
  ps_epoch :: string

definition relabel :: "string \<Rightarrow> event \<Rightarrow> event" where
  "relabel machine ev =
     ev\<lparr>ev_origin := Some \<lparr>org_cursor = ev_cursor ev, org_epoch = ev_epoch ev\<rparr>,
       ev_cursor := 0, ev_epoch := [],
       ev_machine := (if ev_machine ev = [] then machine else ev_machine ev)\<rparr>"

definition sse_data :: "(string \<Rightarrow> event option) \<Rightarrow> string \<Rightarrow> event option" where
  "sse_data decode line = (if has_prefix line ''data: '' then decode (drop 6 line) else None)"

fun consume_lines :: "(string \<Rightarrow> event option) \<Rightarrow> string \<Rightarrow> string list \<Rightarrow> position \<Rightarrow> event list \<times> position" where
  "consume_lines decode machine [] pos = ([], pos)"
| "consume_lines decode machine (line # lines) pos =
     (case sse_data decode line of
        None \<Rightarrow> consume_lines decode machine lines pos
      | Some ev \<Rightarrow>
          (let (evs, pos') = consume_lines decode machine lines \<lparr>ps_cursor = ev_cursor ev, ps_epoch = ev_epoch ev\<rparr>
           in (relabel machine ev # evs, pos')))"

datatype connection = Refused string | Served "string list" "string option"

record stream_request =
  sr_sessions :: "string list"
  sr_cwd_prefix :: string
  sr_position :: "position option"

definition consume ::
  "(string \<Rightarrow> event option) \<Rightarrow> string \<Rightarrow> sub_filter \<Rightarrow> connection \<Rightarrow> position \<Rightarrow>
     stream_request \<times> event list \<times> position \<times> string option" where
  "consume decode machine flt conn from =
     (let req = \<lparr>sr_sessions = sf_sessions flt, sr_cwd_prefix = sf_cwd_prefix flt,
                 sr_position = (if ps_cursor from > 0 then Some from else None)\<rparr>
      in case conn of
           Refused e \<Rightarrow> (req, [], \<lparr>ps_cursor = 0, ps_epoch = []\<rparr>, Some e)
         | Served lines err \<Rightarrow>
             (let (evs, pos) = consume_lines decode machine lines \<lparr>ps_cursor = 0, ps_epoch = []\<rparr>
              in (req, evs, pos, err)))"

section \<open>The reconnecting loop\<close>

datatype stream_action = Requested stream_request | Emitted event | Waited duration

definition peerBackoffStart :: duration where
  "peerBackoffStart = 500 * millisecond"

definition peerBackoff :: "duration \<Rightarrow> duration" where
  "peerBackoff d = (if d < 15 * second then d * 2 else d)"

definition stream_ended :: "string \<Rightarrow> string option \<Rightarrow> timestamp \<Rightarrow> event" where
  "stream_ended machine err now =
     mk_event machine EventSourceStatus
       (PSource \<lparr>src_machine = machine, src_status = SourceUnreachable,
          src_error = ''peer event stream ended: '' @ (case err of None \<Rightarrow> ''<nil>'' | Some e \<Rightarrow> e),
          src_observed_at = now\<rparr>)"

fun run ::
  "(string \<Rightarrow> event option) \<Rightarrow> string \<Rightarrow> sub_filter \<Rightarrow> timestamp \<Rightarrow> position \<Rightarrow> duration \<Rightarrow> connection list \<Rightarrow> stream_action list" where
  "run decode machine flt now pos delay [] = []"
| "run decode machine flt now pos delay (conn # rest) =
     (let (req, evs, pos', err) = consume decode machine flt conn pos;
          new_pos = (if ps_cursor pos' > 0 then pos' else pos)
      in Requested req # map Emitted evs @ [Emitted (stream_ended machine err now), Waited delay] @
         run decode machine flt now new_pos (peerBackoff delay) rest)"

definition start_stream ::
  "(string \<Rightarrow> event option) \<Rightarrow> string \<Rightarrow> sub_filter \<Rightarrow> timestamp \<Rightarrow> connection list \<Rightarrow> stream_action list" where
  "start_stream decode machine flt now conns =
     run decode machine flt now \<lparr>ps_cursor = 0, ps_epoch = []\<rparr> peerBackoffStart conns"

section \<open>The delay\<close>

definition peer_delays :: "duration list" where
  "peer_delays = map (\<lambda>k. peerBackoffStart * 2 ^ k) [0..<6]"

interpretation peer_delay: retry_delay peerBackoffStart "16 * second" peerBackoff "\<lambda>d. d \<in> set peer_delays"
  by unfold_locales
    (auto simp: peer_delays_def peerBackoffStart_def peerBackoff_def second_def millisecond_def upt_rec numeral_eq_Suc)

section \<open>Following a peer loses nothing\<close>

definition consumed :: "(string \<Rightarrow> event option) \<Rightarrow> connection \<Rightarrow> event list" where
  "consumed decode conn =
     (case conn of Refused e \<Rightarrow> [] | Served lines err \<Rightarrow> List.map_filter (sse_data decode) lines)"

definition last_position :: "event list \<Rightarrow> position \<Rightarrow> position" where
  "last_position evs pos =
     (if evs = [] then pos else \<lparr>ps_cursor = ev_cursor (last evs), ps_epoch = ev_epoch (last evs)\<rparr>)"

lemma consume_lines_spec:
  "consume_lines decode machine lines pos =
     (map (relabel machine) (List.map_filter (sse_data decode) lines),
      last_position (List.map_filter (sse_data decode) lines) pos)"
  by (induction lines arbitrary: pos)
    (auto simp: last_position_def List.map_filter_def split: option.split)

lemma consume_spec:
  "consume decode machine flt conn from =
     (\<lparr>sr_sessions = sf_sessions flt, sr_cwd_prefix = sf_cwd_prefix flt,
        sr_position = (if ps_cursor from > 0 then Some from else None)\<rparr>,
      map (relabel machine) (consumed decode conn),
      last_position (consumed decode conn) \<lparr>ps_cursor = 0, ps_epoch = []\<rparr>,
      (case conn of Refused e \<Rightarrow> Some e | Served lines err \<Rightarrow> err))"
  by (simp add: consume_def consumed_def consume_lines_spec last_position_def Let_def split: connection.split)

text \<open>
  Where the stream stands after some connections: the position it asks the next one to resume from.
\<close>

fun stands_at :: "(string \<Rightarrow> event option) \<Rightarrow> connection list \<Rightarrow> position \<Rightarrow> position" where
  "stands_at decode [] pos = pos"
| "stands_at decode (conn # rest) pos =
     stands_at decode rest
       (let p = last_position (consumed decode conn) \<lparr>ps_cursor = 0, ps_epoch = []\<rparr>
        in if ps_cursor p > 0 then p else pos)"

fun emitted :: "stream_action list \<Rightarrow> event list" where
  "emitted [] = []"
| "emitted (Emitted ev # as) = ev # emitted as"
| "emitted (a # as) = emitted as"

lemma emitted_append [simp]: "emitted (xs @ ys) = emitted xs @ emitted ys"
  by (induction xs rule: emitted.induct) simp_all

lemma emitted_map [simp]: "emitted (map (Emitted \<circ> f) xs) = map f xs"
  by (induction xs) simp_all

definition from_peer :: "event \<Rightarrow> bool" where
  "from_peer ev = (ev_origin ev \<noteq> None)"

lemma from_peer_relabel [simp]: "from_peer (relabel machine ev)"
  by (simp add: from_peer_def relabel_def)

lemma from_peer_ended [simp]: "\<not> from_peer (stream_ended machine err now)"
  by (simp add: from_peer_def stream_ended_def)

lemma run_emitted:
  "filter from_peer (emitted (run decode machine flt now pos delay conns)) =
     map (relabel machine) (concat (map (consumed decode) conns))"
  by (induction conns arbitrary: pos delay) (simp_all add: consume_spec Let_def filter_id_conv comp_def [symmetric])

text \<open>
  The peer's own promise, as the hub's theorems state it: a connection asked to resume from a
  position gives a beginning of what the feed holds after it, and one that names no position a
  beginning of what the feed holds after some moment, which the peer chooses.
\<close>

definition gives_part :: "(string \<Rightarrow> event option) \<Rightarrow> (event \<Rightarrow> bool) \<Rightarrow> feed \<Rightarrow> connection \<Rightarrow> int \<Rightarrow> bool" where
  "gives_part decode P f conn k \<longleftrightarrow> prefix (consumed decode conn) (filter P (feed_after k f))"

fun peer_serves :: "(string \<Rightarrow> event option) \<Rightarrow> (event \<Rightarrow> bool) \<Rightarrow> feed \<Rightarrow> connection list \<Rightarrow> position \<Rightarrow> bool" where
  "peer_serves decode P f [] pos = True"
| "peer_serves decode P f (conn # rest) pos =
     ((if ps_cursor pos > 0 then gives_part decode P f conn (ps_cursor pos) else \<exists>k \<ge> 0. gives_part decode P f conn k) \<and>
      peer_serves decode P f rest (stands_at decode [conn] pos))"

lemma part_continued:
  assumes "feed_ok f" and "prefix c (filter P (feed_after k f))" and "c \<noteq> []"
    and "prefix later (filter P (feed_after (ev_cursor (last c)) f))"
  shows "k < ev_cursor (last c)" and "prefix (c @ later) (filter P (feed_after k f))"
proof -
  let ?all = "filter P (feed_after k f)"
  obtain rest where split: "?all = c @ rest" using assms(2) by (auto simp: prefix_def)
  have sorted: "sorted_wrt (\<lambda>a b. ev_cursor a < ev_cursor b) ?all"
    unfolding feed_after_def using feed_ok_sorted [OF assms(1)] by (intro sorted_wrt_filter)
  have "last c \<in> set ?all" using split assms(3) by simp
  then show gt: "k < ev_cursor (last c)" by (simp add: feed_after_def)
  have "filter P (feed_after (ev_cursor (last c)) f) = filter (\<lambda>ev. ev_cursor (last c) < ev_cursor ev) ?all"
    unfolding feed_after_def filter_filter using gt by (intro filter_cong) auto
  also have "\<dots> = rest" unfolding split by (rule filter_after_split [OF sorted [unfolded split] assms(3)])
  finally show "prefix (c @ later) ?all" using assms(4) split by simp
qed

lemma stands_after:
  "consumed decode conn = [] \<Longrightarrow> stands_at decode [conn] pos = pos"
  "consumed decode conn \<noteq> [] \<Longrightarrow> 0 < ev_cursor (last (consumed decode conn)) \<Longrightarrow>
     ps_cursor (stands_at decode [conn] pos) = ev_cursor (last (consumed decode conn))"
  by (simp_all add: last_position_def Let_def)

lemma resumed_lossless:
  assumes "feed_ok f" and "0 < ps_cursor pos" and "peer_serves decode P f conns pos"
  shows "prefix (concat (map (consumed decode) conns)) (filter P (feed_after (ps_cursor pos) f))"
  using assms(2,3)
proof (induction conns arbitrary: pos)
  case (Cons conn conns)
  let ?c = "consumed decode conn" and ?pos = "stands_at decode [conn] pos"
  have c: "prefix ?c (filter P (feed_after (ps_cursor pos) f))" and rest: "peer_serves decode P f conns ?pos"
    using Cons.prems by (simp_all add: gives_part_def del: stands_at.simps)
  show ?case
  proof (cases "?c = []")
    case True
    then show ?thesis using Cons.IH [OF Cons.prems(1)] rest stands_after(1) [OF True] by simp
  next
    case False
    have gt: "ps_cursor pos < ev_cursor (last ?c)" by (rule part_continued(1) [OF assms(1) c False, of "[]"]) simp
    then have pos': "ps_cursor ?pos = ev_cursor (last ?c)" using stands_after(2) [OF False] Cons.prems(1) by simp
    have "prefix (concat (map (consumed decode) conns)) (filter P (feed_after (ev_cursor (last ?c)) f))"
      using Cons.IH [of ?pos] rest pos' gt Cons.prems(1) by simp
    from part_continued(2) [OF assms(1) c False this] show ?thesis by simp
  qed
qed simp

lemma peer_lossless:
  assumes "feed_ok f" and "ps_cursor pos = 0" and "peer_serves decode P f conns pos"
  shows "\<exists>k \<ge> 0. prefix (concat (map (consumed decode) conns)) (filter P (feed_after k f))"
  using assms(2,3)
proof (induction conns arbitrary: pos)
  case (Cons conn conns)
  let ?c = "consumed decode conn" and ?pos = "stands_at decode [conn] pos"
  obtain k where k: "0 \<le> k" "prefix ?c (filter P (feed_after k f))" and rest: "peer_serves decode P f conns ?pos"
    using Cons.prems by (auto simp: gives_part_def simp del: stands_at.simps)
  show ?case
  proof (cases "?c = []")
    case True
    then show ?thesis using Cons.IH [OF Cons.prems(1)] rest stands_after(1) [OF True] by simp
  next
    case False
    have gt: "k < ev_cursor (last ?c)" by (rule part_continued(1) [OF assms(1) k(2) False, of "[]"]) simp
    then have pos': "ps_cursor ?pos = ev_cursor (last ?c)" using stands_after(2) [OF False] k(1) by simp
    have "prefix (concat (map (consumed decode) conns)) (filter P (feed_after (ev_cursor (last ?c)) f))"
      using resumed_lossless [OF assms(1) _ rest] pos' gt k(1) by simp
    from part_continued(2) [OF assms(1) k(2) False this] k(1) show ?thesis by auto
  qed
qed auto

text \<open>The same promise said of the requests the loop really makes.\<close>

fun requests :: "stream_action list \<Rightarrow> stream_request list" where
  "requests [] = []"
| "requests (Requested r # as) = r # requests as"
| "requests (a # as) = requests as"

definition serves_requests :: "(string \<Rightarrow> event option) \<Rightarrow> (event \<Rightarrow> bool) \<Rightarrow> feed \<Rightarrow> stream_request list \<Rightarrow> connection list \<Rightarrow> bool" where
  "serves_requests decode P f =
     list_all2 (\<lambda>rq conn. case sr_position rq of
       None \<Rightarrow> \<exists>k \<ge> 0. gives_part decode P f conn k
     | Some p \<Rightarrow> gives_part decode P f conn (ps_cursor p))"

lemma requests_append [simp]: "requests (xs @ ys) = requests xs @ requests ys"
  by (induction xs rule: requests.induct) simp_all

lemma requests_map [simp]: "requests (map (Emitted \<circ> f) xs) = []" "requests (map Emitted evs) = []"
  by (induction xs, simp_all) (induction evs, simp_all)

lemma requests_run:
  "requests (run decode machine flt now pos delay (conn # rest)) =
     fst (consume decode machine flt conn pos) #
     requests (run decode machine flt now (stands_at decode [conn] pos) (peerBackoff delay) rest)"
  by (simp add: consume_spec Let_def)

lemma serves_requests_peer:
  "serves_requests decode P f (requests (run decode machine flt now pos delay conns)) conns \<Longrightarrow>
     peer_serves decode P f conns pos"
proof (induction conns arbitrary: pos delay)
  case (Cons conn conns)
  then show ?case
    using Cons.IH [of "stands_at decode [conn] pos" "peerBackoff delay"]
    unfolding requests_run serves_requests_def by (simp add: consume_spec split: if_splits)
qed simp

section \<open>Properties\<close>

text \<open>
  C31: Following a peer loses nothing and repeats nothing from the first event on. Over any number of
  connections, refused ones and broken ones included, if the peer answers each request that names a
  position with a beginning of what its feed holds after it, and each that names none (before any
  event has come) with a beginning of what it holds after some moment, the events carried over are one
  unbroken piece of the peer's feed as the filter lets it through, in order, each with its place in the
  peer's sequence as its origin and without a place of its own yet. What the peer published before
  that piece, while connections without a position came and went, is not carried over.
\<close>

theorem peer_stream_lossless:
  assumes "feed_ok f"
    and "serves_requests decode P f (requests (start_stream decode machine flt now conns)) conns"
  shows "\<exists>evs k. filter from_peer (emitted (start_stream decode machine flt now conns)) = map (relabel machine) evs \<and>
    0 \<le> k \<and> prefix evs (filter P (feed_after k f))"
proof -
  have "peer_serves decode P f conns \<lparr>ps_cursor = 0, ps_epoch = []\<rparr>"
    using assms(2) unfolding start_stream_def by (rule serves_requests_peer)
  from peer_lossless [OF assms(1) _ this] show ?thesis by (auto simp: start_stream_def run_emitted)
qed

definition demo_decode :: "string \<Rightarrow> event option" where
  "demo_decode s = (if s = ''1'' then Some ((some_session_event ''p'')\<lparr>ev_cursor := 1, ev_epoch := ''e''\<rparr>)
     else if s = ''2'' then Some ((some_session_event ''p'')\<lparr>ev_cursor := 2, ev_epoch := ''e''\<rparr>) else None)"

definition demo_feed :: feed where
  "demo_feed = feed_append (some_session_event ''p'') (feed_append (some_session_event ''p'')
     \<lparr>fd_epoch = ''e'', fd_start = 0, fd_log = []\<rparr>)"

definition demo_conns :: "connection list" where
  "demo_conns = [Served [] None, Served [''event: x'', ''data: 1''] None, Refused ''dial'', Served [''data: 2''] (Some ''eof'')]"

lemma peer_stream_lossless_witness:
  "\<exists>evs k. filter from_peer (emitted (start_stream demo_decode ''p'' filter_all 0 demo_conns)) = map (relabel ''p'') evs \<and>
     0 \<le> k \<and> prefix evs (filter (\<lambda>_. True) (feed_after k demo_feed))"
proof (rule peer_stream_lossless)
  show "feed_ok demo_feed" by code_simp
  have "list_all2 (\<lambda>rq conn. gives_part demo_decode (\<lambda>_. True) demo_feed conn
      (case sr_position rq of None \<Rightarrow> 0 | Some p \<Rightarrow> ps_cursor p))
    (requests (start_stream demo_decode ''p'' filter_all 0 demo_conns)) demo_conns" by code_simp
  then show "serves_requests demo_decode (\<lambda>_. True) demo_feed
      (requests (start_stream demo_decode ''p'' filter_all 0 demo_conns)) demo_conns"
    unfolding serves_requests_def by (rule list_all2_mono) (auto split: option.splits)
qed

end
