(* ===== verification/PeerDown.thy ===== *)
theory PeerDown
  imports Backoff
begin

text \<open>
  What a service remembers of a peer that does not answer
  (\<open>internal/drivers/remote/down.go\<close>): consecutive failures, the down mark, calls that fail
  fast, and the background probe with its delay. The goroutine of \<open>probeLoop\<close> is the flag
  \<open>ds_probing\<close> with its local \<open>wait\<close>; one turn of it is a step that the run may take whenever
  the loop is running.
\<close>

section \<open>State\<close>

record down_policy =
  dp_after :: nat
  dp_min :: duration
  dp_max :: duration

record down_state =
  ds_fails :: nat
  ds_failing_since :: timestamp
  ds_down :: bool
  ds_next_probe :: timestamp
  ds_probing :: bool
  ds_wait :: duration
  ds_stopped :: bool

definition downAfterFailures :: nat where "downAfterFailures = 3"
definition downBackoffMin :: duration where "downBackoffMin = 2 * second"
definition downBackoffMax :: duration where "downBackoffMax = 30 * second"

definition defaultDownPolicy :: down_policy where
  "defaultDownPolicy = \<lparr>dp_after = downAfterFailures, dp_min = downBackoffMin, dp_max = downBackoffMax\<rparr>"

definition WithDownPolicy :: "int \<Rightarrow> duration \<Rightarrow> duration \<Rightarrow> down_policy \<Rightarrow> down_policy" where
  "WithDownPolicy after lo hi p =
     (let p1 = (if after > 0 then p\<lparr>dp_after := nat after\<rparr> else p);
          p2 = (if lo > 0 then p1\<lparr>dp_min := lo\<rparr> else p1);
          p3 = (if hi > 0 then p2\<lparr>dp_max := hi\<rparr> else p2)
      in if dp_max p3 < dp_min p3 then p3\<lparr>dp_max := dp_min p3\<rparr> else p3)"

definition new_down :: down_state where
  "new_down = \<lparr>ds_fails = 0, ds_failing_since = zero_time, ds_down = False, ds_next_probe = zero_time,
     ds_probing = False, ds_wait = 0, ds_stopped = False\<rparr>"

section \<open>Operations\<close>

definition PeerDown_report :: "down_state \<Rightarrow> bool \<times> timestamp \<times> nat" where
  "PeerDown_report s = (if \<not> ds_down s then (False, zero_time, ds_fails s) else (True, ds_failing_since s, ds_fails s))"

definition Shutdown :: "down_state \<Rightarrow> down_state" where
  "Shutdown s = s\<lparr>ds_stopped := True\<rparr>"

text \<open>\<open>admit\<close> refuses with the time the peer began failing and the number of failures.\<close>

definition admit :: "down_state \<Rightarrow> (timestamp \<times> nat) option" where
  "admit s = (if \<not> ds_down s then None else Some (ds_failing_since s, ds_fails s))"

definition countsAsPeerFailure :: "bool \<Rightarrow> duration \<Rightarrow> duration \<Rightarrow> bool" where
  "countsAsPeerFailure deadlineKind budget bound =
     (if \<not> deadlineKind then True else budget \<le> 0 \<or> budget \<ge> bound - bound div 10)"

definition noteFailure :: "down_policy \<Rightarrow> timestamp \<Rightarrow> timestamp \<Rightarrow> down_state \<Rightarrow> down_state" where
  "noteFailure pol started now s =
     (let s1 = s\<lparr>ds_failing_since := (if ds_fails s = 0 then started else ds_failing_since s), ds_fails := ds_fails s + 1\<rparr>;
          trip = (\<not> ds_down s1 \<and> ds_fails s1 \<ge> dp_after pol);
          s2 = (if trip then s1\<lparr>ds_down := True, ds_next_probe := now + dp_min pol\<rparr> else s1)
      in if trip \<and> \<not> ds_probing s2 then s2\<lparr>ds_probing := True, ds_wait := dp_min pol\<rparr> else s2)"

definition noteReached :: "down_state \<Rightarrow> down_state" where
  "noteReached s =
     (if ds_fails s = 0 \<and> \<not> ds_down s then s
      else s\<lparr>ds_fails := 0, ds_down := False, ds_failing_since := zero_time\<rparr>)"

definition endProbe :: "bool \<Rightarrow> down_state \<Rightarrow> down_state \<times> bool" where
  "endProbe force s = (if force \<or> \<not> ds_down s then (s\<lparr>ds_probing := False\<rparr>, True) else (s, False))"

definition probe_step :: "down_policy \<Rightarrow> duration \<Rightarrow> duration" where
  "probe_step pol d = min (d * 2) (dp_max pol)"

text \<open>One turn of the probe loop after its timer fired: the probe was answered or not.\<close>

definition probe_turn :: "down_policy \<Rightarrow> bool \<Rightarrow> timestamp \<Rightarrow> down_state \<Rightarrow> down_state" where
  "probe_turn pol answered now s =
     (let s1 = (if answered then noteReached s else s);
          (s2, stop) = endProbe False s1
      in if stop then s2
         else let w = probe_step pol (ds_wait s2) in s2\<lparr>ds_wait := w, ds_next_probe := now + w\<rparr>)"

section \<open>The end of a call\<close>

text \<open>
  How a request that was dialled comes back: with an HTTP answer of any status, because the caller went
  away, or without one (\<open>transportFailure\<close> in \<open>remote.go\<close>), for a deadline or not, with the time the caller
  left it (0 when it set none) and the driver's own bound.
\<close>

datatype call_end = Answered | HungUp | NoAnswer bool duration duration

definition end_call :: "down_policy \<Rightarrow> call_end \<Rightarrow> timestamp \<Rightarrow> timestamp \<Rightarrow> down_state \<Rightarrow> down_state" where
  "end_call pol e started now s =
     (case e of
        Answered \<Rightarrow> noteReached s
      | HungUp \<Rightarrow> s
      | NoAnswer deadlineKind budget bound \<Rightarrow>
          if countsAsPeerFailure deadlineKind budget bound then noteFailure pol started now s else s)"

section \<open>Runs\<close>

datatype down_op =
  CallEnds call_end timestamp timestamp
| ProbeTurn bool timestamp
| ProbeStopped
| ShutDown

fun down_step :: "down_policy \<Rightarrow> down_op \<Rightarrow> down_state \<Rightarrow> down_state" where
  "down_step pol (CallEnds e started now) s = end_call pol e started now s"
| "down_step pol (ProbeTurn answered now) s = (if ds_probing s then probe_turn pol answered now s else s)"
| "down_step pol ProbeStopped s = (if ds_probing s \<and> ds_stopped s then fst (endProbe True s) else s)"
| "down_step pol ShutDown s = Shutdown s"

definition down_run :: "down_policy \<Rightarrow> down_op list \<Rightarrow> down_state" where
  "down_run pol ops = fold (down_step pol) ops new_down"

text \<open>
  The specification: how many calls failed since the peer last answered, read off the history. A call
  failed when it got no answer and that was not for a deadline shorter than nine tenths of the
  driver's bound. A probe is only sent while the loop runs; an answer to it is an answer.
\<close>

fun heard :: "down_op \<Rightarrow> bool \<Rightarrow> bool" where
  "heard (CallEnds e started now) probing = (e = Answered)"
| "heard (ProbeTurn answered now) probing = (answered \<and> probing)"
| "heard _ probing = False"

fun failed :: "down_op \<Rightarrow> bool" where
  "failed (CallEnds (NoAnswer deadlineKind budget bound) started now) =
     (deadlineKind \<and> 0 < budget \<longrightarrow> bound - bound div 10 \<le> budget)"
| "failed _ = False"

fun failures_since :: "down_policy \<Rightarrow> down_op list \<Rightarrow> down_state \<Rightarrow> nat \<Rightarrow> nat" where
  "failures_since pol [] s n = n"
| "failures_since pol (op # ops) s n =
     failures_since pol ops (down_step pol op s)
       (if heard op (ds_probing s) then 0 else if failed op then n + 1 else n)"

section \<open>Invariant\<close>

definition policy_ok :: "down_policy \<Rightarrow> bool" where
  "policy_ok pol = (0 < dp_after pol \<and> 0 < dp_min pol \<and> dp_min pol \<le> dp_max pol)"

definition down_ok :: "down_policy \<Rightarrow> down_state \<Rightarrow> bool" where
  "down_ok pol s =
     (ds_down s = (dp_after pol \<le> ds_fails s) \<and>
      (ds_down s \<longrightarrow> ds_probing s \<or> ds_stopped s) \<and>
      (ds_probing s \<longrightarrow> dp_min pol \<le> ds_wait s \<and> ds_wait s \<le> dp_max pol))"

lemma policy_default: "policy_ok defaultDownPolicy"
  by (simp add: policy_ok_def defaultDownPolicy_def downAfterFailures_def downBackoffMin_def downBackoffMax_def second_def)

lemma policy_with: "policy_ok p \<Longrightarrow> policy_ok (WithDownPolicy after lo hi p)"
  by (auto simp: policy_ok_def WithDownPolicy_def Let_def)

interpretation probe_delay: retry_delay downBackoffMin downBackoffMax "probe_step defaultDownPolicy"
  "\<lambda>d. downBackoffMin \<le> d \<and> d \<le> downBackoffMax"
  by (rule capped_doubling)
    (auto simp: downBackoffMin_def downBackoffMax_def probe_step_def defaultDownPolicy_def second_def mult.commute)

lemma down_ok_new: "policy_ok pol \<Longrightarrow> down_ok pol new_down"
  by (simp add: down_ok_def new_down_def policy_ok_def)

lemma down_ok_failure: "policy_ok pol \<Longrightarrow> down_ok pol s \<Longrightarrow> down_ok pol (noteFailure pol started now s)"
  by (auto simp: down_ok_def noteFailure_def policy_ok_def Let_def)

lemma down_ok_reached: "policy_ok pol \<Longrightarrow> down_ok pol s \<Longrightarrow> down_ok pol (noteReached s)"
  by (auto simp: down_ok_def noteReached_def policy_ok_def)

lemma down_ok_turn:
  assumes "policy_ok pol" and "down_ok pol s" and "ds_probing s"
  shows "down_ok pol (probe_turn pol answered now s)"
  using assms
  by (auto simp: down_ok_def probe_turn_def noteReached_def endProbe_def policy_ok_def probe_step_def Let_def)

lemma down_ok_step: "policy_ok pol \<Longrightarrow> down_ok pol s \<Longrightarrow> down_ok pol (down_step pol op s)"
proof (cases op)
  case (CallEnds e started now)
  then show "policy_ok pol \<Longrightarrow> down_ok pol s \<Longrightarrow> ?thesis"
    by (simp add: end_call_def down_ok_failure down_ok_reached split: call_end.split)
next
  case ProbeStopped
  then show "policy_ok pol \<Longrightarrow> down_ok pol s \<Longrightarrow> ?thesis" by (auto simp: down_ok_def endProbe_def)
next
  case ShutDown
  then show "policy_ok pol \<Longrightarrow> down_ok pol s \<Longrightarrow> ?thesis" by (auto simp: down_ok_def Shutdown_def)
qed (simp_all add: down_ok_turn)

lemma down_ok_fold: "policy_ok pol \<Longrightarrow> down_ok pol s \<Longrightarrow> down_ok pol (fold (down_step pol) ops s)"
  by (induction ops arbitrary: s) (simp_all add: down_ok_step)

lemma fails_step:
  "ds_fails (down_step pol op s) =
     (if heard op (ds_probing s) then 0 else if failed op then ds_fails s + 1 else ds_fails s)"
proof (cases op)
  case (CallEnds e started now)
  then show ?thesis
    by (cases e) (auto simp: end_call_def countsAsPeerFailure_def noteFailure_def noteReached_def Let_def)
qed (auto simp: probe_turn_def noteReached_def endProbe_def Shutdown_def Let_def)

lemma fails_fold: "ds_fails (fold (down_step pol) ops s) = failures_since pol ops s (ds_fails s)"
  by (induction ops arbitrary: s) (simp_all add: fails_step)

section \<open>Properties\<close>

text \<open>
  C37: A peer is marked down exactly when enough calls in a row failed: over any history of calls that
  come back, probes and shutdowns, a call is refused without dialling if and only if at least the
  configured number of calls have failed since a call or a probe was last answered. A call whose
  caller went away is none of them, nor one that ended at a caller's deadline shorter than nine
  tenths of the driver's bound. (What the event stream of the peer brings is no part of this.)
\<close>

theorem down_iff_consecutive_failures:
  assumes "policy_ok pol"
  shows "admit (down_run pol ops) \<noteq> None \<longleftrightarrow> dp_after pol \<le> failures_since pol ops new_down 0"
proof -
  have "down_ok pol (down_run pol ops)"
    unfolding down_run_def by (rule down_ok_fold [OF assms down_ok_new [OF assms]])
  moreover have "ds_fails (down_run pol ops) = failures_since pol ops new_down 0"
    unfolding down_run_def fails_fold by (simp add: new_down_def)
  ultimately show ?thesis by (simp add: admit_def down_ok_def)
qed

definition demo_failures :: "down_op list" where
  "demo_failures = [CallEnds (NoAnswer False 0 0) 1 2, CallEnds (NoAnswer True 2 30) 3 4, CallEnds HungUp 4 5,
     CallEnds (NoAnswer True 28 30) 5 6, CallEnds (NoAnswer True 0 30) 7 8]"

lemma down_iff_consecutive_failures_witness:
  "admit (down_run defaultDownPolicy demo_failures) \<noteq> None \<and> admit (down_run defaultDownPolicy (butlast demo_failures)) = None"
proof -
  have "dp_after defaultDownPolicy \<le> failures_since defaultDownPolicy demo_failures new_down 0"
    "\<not> dp_after defaultDownPolicy \<le> failures_since defaultDownPolicy (butlast demo_failures) new_down 0"
    by code_simp+
  then show ?thesis unfolding down_iff_consecutive_failures [OF policy_default, symmetric] by blast
qed

text \<open>
  A peer that is marked down is never forgotten: at every moment of any history, while calls to it
  are refused and the service is not shutting down, its probe loop is running, the delay of the loop lies
  between the policy's bounds, and one answered probe lifts the mark.
\<close>

theorem down_peer_is_probed:
  assumes "policy_ok pol" and "admit (down_run pol ops) \<noteq> None" and "\<not> ds_stopped (down_run pol ops)"
  shows "ds_probing (down_run pol ops) \<and> dp_min pol \<le> ds_wait (down_run pol ops) \<and>
    ds_wait (down_run pol ops) \<le> dp_max pol \<and>
    admit (down_run pol (ops @ [ProbeTurn True now])) = None"
proof -
  have ok: "down_ok pol (down_run pol ops)"
    unfolding down_run_def by (rule down_ok_fold [OF assms(1) down_ok_new [OF assms(1)]])
  then have "ds_probing (down_run pol ops)" using assms(2,3) by (auto simp: down_ok_def admit_def split: if_splits)
  moreover have "admit (down_run pol (ops @ [ProbeTurn True now])) = None"
    using calculation
    by (simp add: down_run_def admit_def probe_turn_def noteReached_def endProbe_def Let_def)
  ultimately show ?thesis using ok by (auto simp: down_ok_def)
qed

lemma down_peer_is_probed_witness:
  "ds_probing (down_run defaultDownPolicy demo_failures)"
proof -
  have "admit (down_run defaultDownPolicy demo_failures) \<noteq> None"
    "\<not> ds_stopped (down_run defaultDownPolicy demo_failures)"
    by code_simp+
  from down_peer_is_probed [OF policy_default this] show ?thesis by blast
qed

end
