(* ===== verification/Naming.thy ===== *)
theory Naming
  imports Prelude
begin

text \<open>
  The names of new sessions (\<open>internal/drivers/tmux/naming.go\<close>): what the multiplexer cannot
  hold is removed, a session-type marker is appended at most once, and a name that is taken gets a
  counter in front of its marker. Strings are UTF-8 bytes; every character the rules name is
  ASCII, so a rule on runes is the same rule on bytes.
\<close>

section \<open>Lines and white space\<close>

text \<open>\<open>strings.Split(s, "\n")\<close>: always at least one piece.\<close>

fun split_on :: "char \<Rightarrow> string \<Rightarrow> string list" where
  "split_on c [] = [[]]"
| "split_on c (x # xs) =
     (if x = c then [] # split_on c xs
      else (case split_on c xs of [] \<Rightarrow> [[x]] | l # ls \<Rightarrow> (x # l) # ls))"

lemma split_on_line: "c \<notin> set l \<Longrightarrow> split_on c (l @ c # rest) = l # split_on c rest"
proof (induction l)
  case Nil
  then show ?case by simp
next
  case (Cons x l)
  then show ?case by auto
qed

lemma cut_at_char:
  "c \<notin> set xs \<Longrightarrow> takeWhile (\<lambda>x. x \<noteq> c) (xs @ c # ys) = xs"
  "c \<notin> set xs \<Longrightarrow> dropWhile (\<lambda>x. x \<noteq> c) (xs @ c # ys) = c # ys"
  by (induction xs) auto

lemma split_on_lines:
  "\<forall>l \<in> set ls. c \<notin> set l \<Longrightarrow> split_on c (concat (map (\<lambda>l. l @ [c]) ls)) = ls @ [[]]"
  by (induction ls) (simp_all add: split_on_line)

text \<open>
  \<open>strings.TrimSpace\<close> removes the characters of Unicode's White\_Space property; these are
  their encodings.
\<close>

definition white_space :: "string list" where
  "white_space =
     [[CHR 0x09], [CHR 0x0A], [CHR 0x0B], [CHR 0x0C], [CHR 0x0D], [CHR 0x20],
      [CHR 0xC2, CHR 0x85], [CHR 0xC2, CHR 0xA0], [CHR 0xE1, CHR 0x9A, CHR 0x80]] @
     map (\<lambda>b. [CHR 0xE2, CHR 0x80, b])
       [CHR 0x80, CHR 0x81, CHR 0x82, CHR 0x83, CHR 0x84, CHR 0x85, CHR 0x86, CHR 0x87, CHR 0x88, CHR 0x89, CHR 0x8A, CHR 0xA8, CHR 0xA9, CHR 0xAF] @
     [[CHR 0xE2, CHR 0x81, CHR 0x9F], [CHR 0xE3, CHR 0x80, CHR 0x80]]"

function (sequential) trim_left_of :: "string list \<Rightarrow> string \<Rightarrow> string" where
  "trim_left_of ws s =
     (case find (\<lambda>w. w \<noteq> [] \<and> has_prefix s w) ws of
        None \<Rightarrow> s
      | Some w \<Rightarrow> trim_left_of ws (drop (length w) s))"
  by pat_completeness auto

termination
proof (relation "measure (\<lambda>(ws, s). length s)")
  fix ws s w assume "find (\<lambda>w. w \<noteq> [] \<and> has_prefix s w) ws = Some w"
  then have "w \<noteq> []" and "has_prefix s w" by (auto simp: find_Some_iff)
  then show "((ws, drop (length w) s), ws, s) \<in> measure (\<lambda>(ws, s). length s)"
    by (cases s) (auto simp: has_prefix_def)
qed simp

definition TrimSpace :: "string \<Rightarrow> string" where
  "TrimSpace s = rev (trim_left_of (map rev white_space) (rev (trim_left_of white_space s)))"

section \<open>The naming rules\<close>

definition nameBody :: string where
  "nameBody = ''abcdefghijklmnopqrstuvwxyz0123456789._-''"

definition isNameBody :: "char \<Rightarrow> bool" where
  "isNameBody r = (r \<in> set nameBody)"

fun sanitize_chars :: "string \<Rightarrow> string" where
  "sanitize_chars [] = []"
| "sanitize_chars (r # rs) =
     (if (of_char r :: int) < 0x20 \<or> (of_char r :: int) = 0x7F then sanitize_chars rs
      else if r = CHR '':'' then sanitize_chars rs
      else if r = CHR ''.'' then CHR ''-'' # sanitize_chars rs
      else r # sanitize_chars rs)"

definition sanitizeName :: "string \<Rightarrow> string" where
  "sanitizeName raw = dropWhile (\<lambda>c. c = CHR ''-'') (sanitize_chars raw)"

definition decoration :: "string \<Rightarrow> string" where
  "decoration name =
     (let tl = takeWhile (\<lambda>c. \<not> isNameBody c) (rev name)
      in if length tl = length name then [] else rev tl)"

datatype markerState = markerUnknown | markerApplied | markerAbsent

fun applyMarker :: "string \<Rightarrow> string \<Rightarrow> markerState \<Rightarrow> string" where
  "applyMarker name marker known =
     (if marker = [] then name
      else case known of
          markerApplied \<Rightarrow> name
        | markerAbsent \<Rightarrow> name @ marker
        | markerUnknown \<Rightarrow>
            if decoration name \<noteq> [] \<or> has_suffix name marker then name else name @ marker)"

definition numberedName :: "string \<Rightarrow> nat \<Rightarrow> string" where
  "numberedName name n =
     (if n < 2 then name
      else let deco = decoration name in trim_suffix name deco @ ''-'' @ show_nat n @ deco)"

text \<open>
  \<open>liveNames\<close>: \<open>None\<close> when the multiplexer could not be asked, otherwise the names of its
  sessions as the listing prints them.
\<close>

definition liveNames :: "string option \<Rightarrow> string list option" where
  "liveNames out = map_option (\<lambda>text. filter (\<lambda>l. l \<noteq> []) (map TrimSpace (split_on (CHR 0x0A) text))) out"

definition maxNameAttempts :: nat where
  "maxNameAttempts = 64"

text \<open>The loop over the candidates \<open>n\<close>, \<open>n + 1\<close>, \<dots>, as many as the last argument says.\<close>

primrec first_free :: "string list \<Rightarrow> string \<Rightarrow> nat \<Rightarrow> nat \<Rightarrow> string option" where
  "first_free taken name n 0 = None"
| "first_free taken name n (Suc left) =
     (let candidate = numberedName name n
      in if candidate \<notin> set taken then Some candidate else first_free taken name (Suc n) left)"

text \<open>
  \<open>resolveName\<close>: \<open>known\<close> is what the session records say about the marker
  (\<open>markerStateFor\<close>). The answer is the name and whether the marker was appended.
\<close>

definition resolveName ::
    "(string \<Rightarrow> string \<Rightarrow> markerState) \<Rightarrow> string option \<Rightarrow> string \<Rightarrow> string \<Rightarrow> (string \<times> bool) option" where
  "resolveName markerStateFor out requested marker =
     (let marker = sanitizeName marker;
          sanitized = sanitizeName requested;
          name = applyMarker sanitized marker (markerStateFor sanitized marker);
          applied = (marker \<noteq> [] \<and> name \<noteq> sanitized)
      in if name = [] then None
         else case liveNames out of
             None \<Rightarrow> Some (name, applied)
           | Some taken \<Rightarrow>
               map_option (\<lambda>candidate. (candidate, applied)) (first_free taken name 1 maxNameAttempts))"

lemma first_free_eq:
  "first_free taken name n k = find (\<lambda>c. c \<notin> set taken) (map (numberedName name) [n ..< n + k])"
proof (induction k arbitrary: n)
  case (Suc k)
  have "[n ..< n + Suc k] = n # [Suc n ..< Suc n + k]" by (simp add: upt_conv_Cons del: upt_Suc)
  with Suc show ?case by (simp add: Let_def del: upt_Suc)
qed simp

lemma first_free_candidates:
  "first_free taken name (Suc 0) maxNameAttempts =
     find (\<lambda>c. c \<notin> set taken) (map (numberedName name) [Suc 0 ..< Suc maxNameAttempts])"
  by (simp add: first_free_eq del: upt_Suc)

section \<open>Facts about the rules\<close>

text \<open>What the multiplexer and an argument parser can hold.\<close>

definition holdable :: "char \<Rightarrow> bool" where
  "holdable r \<longleftrightarrow> \<not> ((of_char r :: int) < 0x20 \<or> (of_char r :: int) = 0x7F) \<and> r \<noteq> CHR '':'' \<and> r \<noteq> CHR ''.''"

definition clean_name :: "string \<Rightarrow> bool" where
  "clean_name s \<longleftrightarrow> (\<forall>r \<in> set s. holdable r) \<and> (s = [] \<or> hd s \<noteq> CHR ''-'')"

lemma sanitize_chars_holdable: "r \<in> set (sanitize_chars s) \<Longrightarrow> holdable r"
proof (induction s)
  case Nil
  then show ?case by simp
next
  case (Cons c s)
  have "holdable (CHR ''-'')" by (simp add: holdable_def)
  with Cons show ?case by (auto simp: holdable_def split: if_splits)
qed

lemma sanitize_chars_id: "(\<forall>r \<in> set s. holdable r) \<Longrightarrow> sanitize_chars s = s"
  by (induction s) (auto simp: holdable_def)

lemma sanitizeName_clean: "clean_name (sanitizeName raw)"
proof -
  let ?d = "dropWhile (\<lambda>c. c = CHR ''-'') (sanitize_chars raw)"
  have "\<forall>r \<in> set ?d. holdable r"
    using sanitize_chars_holdable set_dropWhileD by fast
  moreover have "?d = [] \<or> hd ?d \<noteq> CHR ''-''"
    using hd_dropWhile [of "\<lambda>c. c = CHR ''-''" "sanitize_chars raw"] by auto
  ultimately show ?thesis unfolding clean_name_def sanitizeName_def by blast
qed

lemma sanitizeName_id: "clean_name s \<Longrightarrow> sanitizeName s = s"
  unfolding clean_name_def sanitizeName_def
  by (cases s) (simp_all add: sanitize_chars_id del: sanitize_chars.simps)

lemma clean_append: "clean_name a \<Longrightarrow> clean_name b \<Longrightarrow> clean_name (a @ b)"
  by (cases a) (auto simp: clean_name_def)

lemma applyMarker_clean: "clean_name n \<Longrightarrow> clean_name m \<Longrightarrow> clean_name (applyMarker n m k)"
  by (cases k) (simp_all add: clean_append)

text \<open>A decoration is a proper suffix made of characters outside the alphabet of names.\<close>

lemma decoration_split:
  obtains "decoration name = []" | b c where "name = b @ c # decoration name" "isNameBody c"
proof (cases "decoration name = []")
  case True
  then show ?thesis using that(1) by simp
next
  case False
  let ?t = "takeWhile (\<lambda>c. \<not> isNameBody c) (rev name)" and ?d = "dropWhile (\<lambda>c. \<not> isNameBody c) (rev name)"
  have deco: "decoration name = rev ?t" and len: "length ?t \<noteq> length name"
    using False by (auto simp: decoration_def Let_def split: if_splits)
  have app: "rev name = ?t @ ?d" by simp
  then have "?d \<noteq> []" using len by (metis append_Nil2 length_rev)
  then obtain c r where d: "?d = c # r" by (cases ?d) auto
  then have "isNameBody c" by (simp add: dropWhile_eq_Cons_conv)
  moreover have "name = rev r @ c # rev ?t"
    using app unfolding d by (metis append_Cons append_Nil append_assoc rev.simps(2) rev_append rev_rev_ident)
  ultimately show ?thesis using that(2) deco by metis
qed

lemma decoration_foreign: "c \<in> set (decoration name) \<Longrightarrow> \<not> isNameBody c"
  by (auto simp: decoration_def Let_def dest: set_takeWhileD split: if_splits)

lemma decoration_append:
  assumes "isNameBody c" and "\<forall>x \<in> set d. \<not> isNameBody x"
  shows "decoration (b @ c # d) = d"
proof -
  have "takeWhile (\<lambda>c. \<not> isNameBody c) (rev (b @ c # d)) = rev d"
    using assms takeWhile_append2 [of "rev d" "\<lambda>c. \<not> isNameBody c" "c # rev b"] by simp
  then show ?thesis by (simp add: decoration_def)
qed

lemma show_nat_clean: "\<forall>r \<in> set (show_nat n). holdable r \<and> isNameBody r"
proof -
  have "list_all (\<lambda>r. holdable r \<and> isNameBody r) ''0123456789''" by code_simp
  then have "\<forall>r \<in> set ''0123456789''. holdable r \<and> isNameBody r" unfolding list_all_iff .
  then show ?thesis using show_nat_body by blast
qed

text \<open>A name is its stem and its decoration; numbering puts the counter between them.\<close>

lemma numberedName_split:
  assumes "name \<noteq> []"
  obtains b where "b \<noteq> []" and "name = b @ decoration name"
    and "\<And>n. 2 \<le> n \<Longrightarrow> numberedName name n = b @ ''-'' @ show_nat n @ decoration name"
proof (cases rule: decoration_split [of name])
  case 1
  then show ?thesis using that [of name] assms by (simp add: numberedName_def Let_def trim_suffix_def has_suffix_def)
next
  case (2 b c)
  then have n: "name = (b @ [c]) @ decoration name" by simp
  then have "trim_suffix name (decoration name) = b @ [c]" by (metis trim_suffix_append)
  then show ?thesis using that [of "b @ [c]"] n by (simp add: numberedName_def Let_def)
qed

lemma numberedName_clean: "clean_name name \<Longrightarrow> name \<noteq> [] \<Longrightarrow> clean_name (numberedName name n) \<and> numberedName name n \<noteq> []"
proof (cases "n < 2")
  case False
  assume name: "clean_name name" "name \<noteq> []"
  obtain b where b: "b \<noteq> []" "name = b @ decoration name"
      "numberedName name n = b @ ''-'' @ show_nat n @ decoration name"
    using numberedName_split [OF name(2)] False by (metis not_less)
  have "\<forall>r \<in> set (numberedName name n). holdable r"
  proof -
    have "\<forall>r \<in> set (b @ decoration name). holdable r"
      using name(1) unfolding clean_name_def b(2) [symmetric] by blast
    moreover have "holdable (CHR ''-'')" by (simp add: holdable_def)
    ultimately show ?thesis using show_nat_clean [of n] unfolding b(3) by auto
  qed
  moreover have "hd (numberedName name n) = hd name"
    using b by (metis hd_append2)
  ultimately show ?thesis using name b by (simp add: clean_name_def)
qed (simp add: numberedName_def)

lemma numberedName_decoration: "name \<noteq> [] \<Longrightarrow> decoration (numberedName name n) = decoration name"
proof (cases "n < 2")
  case False
  assume "name \<noteq> []"
  then obtain b where b: "numberedName name n = b @ ''-'' @ show_nat n @ decoration name"
    using numberedName_split False by (metis not_less)
  obtain ds d where d: "show_nat n = ds @ [d]" by (cases "show_nat n" rule: rev_cases) simp_all
  then have body: "isNameBody d" using show_nat_clean [of n] by simp
  have "numberedName name n = (b @ ''-'' @ ds) @ d # decoration name"
    using b d by simp
  moreover have "decoration ((b @ ''-'' @ ds) @ d # decoration name) = decoration name"
    using decoration_foreign by (intro decoration_append [OF body] ballI)
  ultimately show ?thesis by simp
qed (simp add: numberedName_def)

lemma numberedName_inj:
  assumes "name \<noteq> []"
  shows "inj_on (numberedName name) {1 ..< Suc k}"
proof (rule inj_onI)
  fix m n assume r: "m \<in> {1 ..< Suc k}" "n \<in> {1 ..< Suc k}" and eq: "numberedName name m = numberedName name n"
  obtain b where b: "name = b @ decoration name"
      "\<And>n. 2 \<le> n \<Longrightarrow> numberedName name n = b @ ''-'' @ show_nat n @ decoration name"
    using numberedName_split [OF assms] by metis
  have len: "length (numberedName name n) > length name" if "2 \<le> n" for n
  proof -
    have "length name = length b + length (decoration name)" using b(1) by (metis length_append)
    with b(2) [OF that] show ?thesis by simp
  qed
  have one: "numberedName name 1 = name" by (simp add: numberedName_def)
  show "m = n"
  proof (cases "2 \<le> m \<and> 2 \<le> n")
    case True
    with eq b(2) have "show_nat m = show_nat n" by simp
    then show ?thesis by (rule show_nat_inj)
  next
    case False
    with r consider "m = 1" "n = 1" | "m = 1" "2 \<le> n" | "2 \<le> m" "n = 1" by fastforce
    then show ?thesis using eq len [of m] len [of n] one by cases auto
  qed
qed

section \<open>Properties\<close>

lemma find_Some_map:
  "find P (map f xs) = Some y \<Longrightarrow> P y \<and> (\<exists>x \<in> set xs. y = f x)"
  by (auto simp: find_Some_iff intro: nth_mem)

lemma find_None_map: "find P (map f xs) = None \<longleftrightarrow> (\<forall>x \<in> set xs. \<not> P (f x))"
  by (simp add: find_None_iff)



text \<open>
  Naming always gives an answer: it refuses a name only when nothing of it is left, or when all
  64 candidates are live, and these are 64 different names, so at least 64 sessions carry them.
\<close>

theorem naming_refuses_only_when_full:
  assumes "resolveName states (Some out) requested marker = None"
  shows "sanitizeName requested = [] \<or>
    (\<exists>taken. liveNames (Some out) = Some taken \<and> maxNameAttempts \<le> card (set taken))"
proof (cases "sanitizeName requested = []")
  case False
  let ?s = "sanitizeName requested" and ?m = "sanitizeName marker"
  let ?n = "applyMarker ?s ?m (states ?s ?m)"
  have ne: "?n \<noteq> []" using False by (cases "states ?s ?m") simp_all
  obtain taken where t: "liveNames (Some out) = Some taken" by (simp add: liveNames_def)
  have "find (\<lambda>c. c \<notin> set taken) (map (numberedName ?n) [1 ..< Suc maxNameAttempts]) = None"
    using assms ne t by (simp add: resolveName_def first_free_candidates Let_def del: applyMarker.simps upt_Suc)
  then have "numberedName ?n ` {1 ..< Suc maxNameAttempts} \<subseteq> set taken"
    unfolding find_None_map by (auto simp del: applyMarker.simps)
  then have "card (numberedName ?n ` {1 ..< Suc maxNameAttempts}) \<le> card (set taken)"
    by (intro card_mono) simp_all
  moreover have "card (numberedName ?n ` {1 ..< Suc maxNameAttempts}) = maxNameAttempts"
    using card_image [OF numberedName_inj [OF ne]] by simp
  ultimately show ?thesis using t by auto
qed simp

lemma naming_refuses_only_when_full_witness:
  "sanitizeName ''-.-'' = []"
proof -
  have r: "resolveName (\<lambda>_ _. markerUnknown) (Some []) ''-.-'' [] = None" by code_simp
  have l: "liveNames (Some []) = Some []" by code_simp
  from naming_refuses_only_when_full [OF r] show ?thesis
    unfolding l by (simp add: maxNameAttempts_def)
qed

text \<open>
  The rules keep blanks at the end of a name and the listing is read with its blanks trimmed, so a
  name that ends in one is never found taken: a live session of exactly that name is chosen again.
\<close>

lemma trailing_blank_collides:
  "resolveName (\<lambda>_ _. markerUnknown) (Some (''bot '' @ [CHR 0x0A])) ''bot '' [] = Some (''bot '', False)"
  by code_simp

end
