(* ===== verification/CreateChecks.thy ===== *)
theory CreateChecks
  imports Fleet Naming "HOL-Library.Char_ord" "HOL-Library.List_Lexorder"
begin

text \<open>
  What the tmux driver checks before it starts a session: the environment a caller may set and what
  this machine adds to it (\<open>internal/drivers/tmux/sessionenv.go\<close>, \<open>environment.go\<close>,
  \<open>internal/delivery/delivery.go\<close>), launch-time settings (\<open>settings.go\<close>), conversation ids
  (\<open>conversation.go\<close>) and the checks of \<open>Driver.Create\<close> in \<open>tmux.go\<close>. Files and JSON
  are parameters.
\<close>

section \<open>The request and the machine\<close>

record session_spec =
  cs_name :: string
  cs_marker :: string
  cs_cwd :: string
  cs_context_ref :: string
  cs_env :: "(string, string) gomap"
  cs_permission_mode :: string
  cs_mcp_config :: "string list"
  cs_settings :: string
  cs_resume :: string
  cs_conversation_id :: string
  cs_agent :: string
  cs_model :: string
  cs_effort :: string
  cs_consents :: "string list"

record session_env_entry =
  se_name :: string
  se_from_file :: string
  se_required :: bool
  se_agents :: "string list"
  se_markers :: "string list"

text \<open>
  \<open>mc_read_file\<close> is \<open>os.ReadFile\<close> (\<open>None\<close> an error), \<open>mc_opens\<close> whether \<open>os.Open\<close>
  succeeds, \<open>mc_recorded\<close> whether the runtime's store of a directory holds a conversation; the
  three \<open>mc_json\<close> fields are \<open>json.Valid\<close>, \<open>json.Compact\<close> and the keys of a decoded object
  (\<open>None\<close> when the text is not an object).
\<close>

record machine_config =
  mc_session_env :: "session_env_entry list"
  mc_reserved :: "string list"
  mc_reserved_prefixes :: "string list"
  mc_bare_exec :: bool
  mc_read_file :: "string \<Rightarrow> string option"
  mc_opens :: "string \<Rightarrow> bool"
  mc_recorded :: "(string \<Rightarrow> string \<Rightarrow> bool) option"
  mc_json_valid :: "string \<Rightarrow> bool"
  mc_json_compact :: "string \<Rightarrow> string"
  mc_json_keys :: "string \<Rightarrow> string list option"

datatype create_error =
    KeyRequired | NoFreeName | CwdRequired | ContextNotAbsolute
  | ReservedEnv "string list" | RequiredEnvSet string | EnvNotProvisioned string
  | BadEnvName string | BadEnvValue string | EnvNeedsShell
  | UnknownPermissionMode | McpEmptyPath | McpFlag string | McpNotAbsolute string | McpUnreadable string
  | SettingsInvalid | SettingsNotObject | SettingsKeyRefused string | SettingsTooLong
  | ResumeIsFlag | ResumeAndConversation | BadConversationId | ConversationTaken
  | PinIsFlag string | NotConsentable string
  | VerifyFailed | ReplayOfEnded | IntentNotRecorded | StagingFailed | StartFailed | ResultNotRecorded

section \<open>Environment\<close>

definition is_lower :: "char \<Rightarrow> bool" where
  "is_lower c = (97 \<le> (of_char c :: int) \<and> (of_char c :: int) \<le> 122)"

definition is_upper :: "char \<Rightarrow> bool" where
  "is_upper c = (65 \<le> (of_char c :: int) \<and> (of_char c :: int) \<le> 90)"

definition validEnvName :: "string \<Rightarrow> bool" where
  "validEnvName name =
     (name \<noteq> [] \<and> \<not> is_digit (hd name) \<and>
      list_all (\<lambda>r. r = CHR ''_'' \<or> is_lower r \<or> is_upper r \<or> is_digit r) name)"

definition breaks_line :: "string \<Rightarrow> bool" where
  "breaks_line v = list_ex (\<lambda>c. c = CHR 0x0A \<or> c = CHR 0x00) v"

fun validateEnv :: "(string, string) gomap \<Rightarrow> create_error option" where
  "validateEnv [] = None"
| "validateEnv ((name, v) # rest) =
     (if \<not> validEnvName name then Some (BadEnvName name)
      else if breaks_line v then Some (BadEnvValue name)
      else validateEnv rest)"

definition CheckReservedEnv :: "(string, string) gomap \<Rightarrow> string list \<Rightarrow> create_error option" where
  "CheckReservedEnv env reserved =
     (if env = [] \<or> reserved = [] then None
      else let hit = filter (\<lambda>name. map_of env name \<noteq> None) reserved
           in if hit = [] then None else Some (ReservedEnv (sort hit)))"

definition HasReservedPrefix :: "string \<Rightarrow> string list \<Rightarrow> bool" where
  "HasReservedPrefix name pfxs = list_ex (\<lambda>p. p \<noteq> [] \<and> has_prefix name p) pfxs"

definition CheckReservedEnvPrefixes :: "(string, string) gomap \<Rightarrow> string list \<Rightarrow> create_error option" where
  "CheckReservedEnvPrefixes env pfxs =
     (if env = [] \<or> pfxs = [] then None
      else let hit = filter (\<lambda>name. HasReservedPrefix name pfxs) (map fst env)
           in if hit = [] then None else Some (ReservedEnv (sort hit)))"

definition scope_matches :: "session_env_entry \<Rightarrow> session_spec \<Rightarrow> bool" where
  "scope_matches e spec =
     (if se_agents e = [] \<and> se_markers e = [] then True
      else cs_agent spec \<in> set (se_agents e) \<or> cs_marker spec \<in> set (se_markers e))"

definition trim_right_newlines :: "string \<Rightarrow> string" where
  "trim_right_newlines s = rev (dropWhile (\<lambda>c. c = CHR 0x0D \<or> c = CHR 0x0A) (rev s))"

definition readSessionEnvFile :: "(string \<Rightarrow> string option) \<Rightarrow> string \<Rightarrow> string option" where
  "readSessionEnvFile read_file file =
     (case read_file file of
        None \<Rightarrow> None
      | Some raw \<Rightarrow>
          let v = trim_right_newlines raw
          in if v = [] then None else if breaks_line v then None else Some v)"

text \<open>
  \<open>provisionSessionEnv\<close>: the loop over the configured entries; \<open>merged\<close> is nil until an
  entry contributes.
\<close>

fun provision_entries ::
    "machine_config \<Rightarrow> session_spec \<Rightarrow> session_env_entry list \<Rightarrow> (string, string) gomap option \<Rightarrow>
       create_error + (string, string) gomap option" where
  "provision_entries cfg spec [] merged = Inr merged"
| "provision_entries cfg spec (e # es) merged =
     (if \<not> scope_matches e spec then provision_entries cfg spec es merged
      else if HasReservedPrefix (se_name e) (mc_reserved_prefixes cfg) then provision_entries cfg spec es merged
      else if se_required e \<and> map_of (cs_env spec) (se_name e) \<noteq> None then Inl (RequiredEnvSet (se_name e))
      else case readSessionEnvFile (mc_read_file cfg) (se_from_file e) of
          None \<Rightarrow>
            if se_required e then Inl (EnvNotProvisioned (se_name e)) else provision_entries cfg spec es merged
        | Some v \<Rightarrow>
            if map_of (cs_env spec) (se_name e) \<noteq> None then provision_entries cfg spec es merged
            else provision_entries cfg spec es
                   (Some (gm_put (se_name e) v (case merged of None \<Rightarrow> cs_env spec | Some m \<Rightarrow> m))))"

definition provisionSessionEnv :: "machine_config \<Rightarrow> session_spec \<Rightarrow> create_error + (string, string) gomap" where
  "provisionSessionEnv cfg spec =
     (if mc_session_env cfg = [] then Inr (cs_env spec)
      else case provision_entries cfg spec (mc_session_env cfg) None of
          Inl e \<Rightarrow> Inl e
        | Inr None \<Rightarrow> Inr (cs_env spec)
        | Inr (Some m) \<Rightarrow> Inr m)"

text \<open>\<open>ValidateSessionEnv\<close>, at startup.\<close>

datatype session_env_error = BadEntryName string | NoFromFile string | FromFileNotAbsolute string | DeclaredTwice string

fun validate_entries :: "session_env_entry list \<Rightarrow> string set \<Rightarrow> session_env_error option" where
  "validate_entries [] seen = None"
| "validate_entries (e # es) seen =
     (if \<not> validEnvName (se_name e) then Some (BadEntryName (se_name e))
      else if se_from_file e = [] then Some (NoFromFile (se_name e))
      else if \<not> has_prefix (se_from_file e) ''/'' then Some (FromFileNotAbsolute (se_name e))
      else if se_name e \<in> seen then Some (DeclaredTwice (se_name e))
      else validate_entries es (insert (se_name e) seen))"

definition ValidateSessionEnv :: "session_env_entry list \<Rightarrow> session_env_error option" where
  "ValidateSessionEnv entries = validate_entries entries {}"

definition ValidateSessionEnvReserved :: "machine_config \<Rightarrow> create_error option" where
  "ValidateSessionEnvReserved cfg =
     (if mc_reserved cfg = [] \<or> mc_session_env cfg = [] then None
      else CheckReservedEnv (fold (\<lambda>e m. gm_put (se_name e) [] m) (mc_session_env cfg) []) (mc_reserved cfg))"

text \<open>
  The staging file of \<open>stageEnv\<close>: one line for each variable in the order of their names.
\<close>

definition staged_env :: "(string, string) gomap \<Rightarrow> string" where
  "staged_env env =
     concat (map (\<lambda>name. name @ ''='' @ the_default [] (map_of env name) @ [CHR 0x0A]) (sort (map fst env)))"

text \<open>
  The loop of \<open>envRecordScript\<close> that applies the file, over the variables that are exported: \<open>read -r\<close> takes
  the whole lines one by one into \<open>fleet_env_line\<close>, and what is left after the last newline when it
  reports the end; a line that is not empty is exported as one assignment, whose name is what stands
  before the first \<open>=\<close>. The loop's variable is one of the shell's: once it is exported it stays so,
  and the next \<open>read\<close> writes over it. \<open>keeps\<close> says which names the user's shell lets be set (not its
  readonly and special ones, such as bash's \<open>UID\<close>, nor \<open>PWD\<close>, which the \<open>cd\<close> that follows sets).
\<close>

definition read_line :: "string \<Rightarrow> (string, string) gomap \<Rightarrow> (string, string) gomap" where
  "read_line line m = (if map_of m ''fleet_env_line'' = None then m else gm_put ''fleet_env_line'' line m)"

definition export_line :: "(string \<Rightarrow> bool) \<Rightarrow> string \<Rightarrow> (string, string) gomap \<Rightarrow> (string, string) gomap" where
  "export_line keeps line m =
     (let name = takeWhile (\<lambda>c. c \<noteq> CHR ''='') line in
      if line = [] \<or> \<not> keeps name then m else gm_put name (drop 1 (dropWhile (\<lambda>c. c \<noteq> CHR ''='') line)) m)"

definition shell_exports :: "(string \<Rightarrow> bool) \<Rightarrow> (string, string) gomap \<Rightarrow> string \<Rightarrow> (string, string) gomap" where
  "shell_exports keeps inherited file =
     (let parts = split_on (CHR 0x0A) file in
      read_line (last parts) (fold (\<lambda>line m. export_line keeps line (read_line line m)) (butlast parts) inherited))"

section \<open>Settings, conversations, arguments\<close>

abbreviation PermissionModeBypass :: string where
  "PermissionModeBypass \<equiv> ''bypass''"

definition launchSettingsOutsideBypass :: "string list" where
  "launchSettingsOutsideBypass = [''crossSessionInbound'']"

definition MaxLaunchSettingsBytes :: nat where
  "MaxLaunchSettingsBytes = 4096"

definition LaunchSettingsKeys :: "machine_config \<Rightarrow> string \<Rightarrow> string list" where
  "LaunchSettingsKeys cfg raw =
     (case mc_json_keys cfg (TrimSpace raw) of None \<Rightarrow> [] | Some keys \<Rightarrow> sort keys)"

definition ValidateLaunchSettings :: "machine_config \<Rightarrow> string \<Rightarrow> string \<Rightarrow> create_error + string" where
  "ValidateLaunchSettings cfg permissionMode raw =
     (let trimmed = TrimSpace raw
      in if trimmed = [] \<or> trimmed = ''null'' then Inr []
         else if \<not> mc_json_valid cfg trimmed then Inl SettingsInvalid
         else if hd trimmed \<noteq> CHR ''{'' then Inl SettingsNotObject
         else case (if permissionMode \<noteq> PermissionModeBypass
                    then find (\<lambda>k. k \<notin> set launchSettingsOutsideBypass) (LaunchSettingsKeys cfg trimmed) else None) of
             Some k \<Rightarrow> Inl (SettingsKeyRefused k)
           | None \<Rightarrow>
               if length (mc_json_compact cfg trimmed) > MaxLaunchSettingsBytes then Inl SettingsTooLong
               else Inr (mc_json_compact cfg trimmed))"

definition is_hex :: "char \<Rightarrow> bool" where
  "is_hex c = (is_digit c \<or> 97 \<le> (of_char c :: int) \<and> (of_char c :: int) \<le> 102 \<or>
     65 \<le> (of_char c :: int) \<and> (of_char c :: int) \<le> 70)"

definition uuidShaped :: "string \<Rightarrow> bool" where
  "uuidShaped s =
     (length s = 36 \<and>
      list_all (\<lambda>(i, r). if i \<in> {8, 13, 18, 23} then r = CHR ''-'' else is_hex r) (List.enumerate 0 s))"

definition safeArgvValue :: "string \<Rightarrow> bool" where
  "safeArgvValue v = (v \<noteq> [] \<and> \<not> has_prefix v ''-'')"

fun validateMcpConfig :: "machine_config \<Rightarrow> string list \<Rightarrow> create_error option" where
  "validateMcpConfig cfg [] = None"
| "validateMcpConfig cfg (p # ps) =
     (if p = [] then Some McpEmptyPath
      else if \<not> safeArgvValue p then Some (McpFlag p)
      else if \<not> has_prefix p ''/'' then Some (McpNotAbsolute p)
      else if \<not> mc_opens cfg p then Some (McpUnreadable p)
      else validateMcpConfig cfg ps)"

definition consentableKinds :: "string list" where
  "consentableKinds = [''folder-trust'', ''external-imports'', ''bypass-permissions'']"

section \<open>The checks of a create\<close>

text \<open>
  The checks \<open>Driver.Create\<close> makes between resolving the name and recording its intent, in its
  order. The answer is the environment the session is started with.
\<close>

definition check_conversation :: "machine_config \<Rightarrow> session_spec \<Rightarrow> create_error option" where
  "check_conversation cfg spec =
     (if cs_conversation_id spec = [] then None
      else if cs_resume spec \<noteq> [] then Some ResumeAndConversation
      else if \<not> uuidShaped (cs_conversation_id spec) then Some BadConversationId
      else case mc_recorded cfg of
          None \<Rightarrow> None
        | Some recorded \<Rightarrow> if recorded (cs_cwd spec) (cs_conversation_id spec) then Some ConversationTaken else None)"

definition check_pins :: "session_spec \<Rightarrow> create_error option" where
  "check_pins spec =
     map_option (\<lambda>(name, v). PinIsFlag name)
       (find (\<lambda>(name, v). v \<noteq> [] \<and> \<not> safeArgvValue v)
          [(''agent'', cs_agent spec), (''model'', cs_model spec), (''effort'', cs_effort spec)])"

definition check_consents :: "session_spec \<Rightarrow> create_error option" where
  "check_consents spec = map_option NotConsentable (find (\<lambda>k. k \<notin> set consentableKinds) (cs_consents spec))"

definition first_error :: "create_error option list \<Rightarrow> create_error option" where
  "first_error es = (case List.map_filter id es of [] \<Rightarrow> None | e # _ \<Rightarrow> Some e)"

definition create_checks :: "machine_config \<Rightarrow> session_spec \<Rightarrow> create_error + (string, string) gomap" where
  "create_checks cfg spec =
     (case first_error
        [if cs_cwd spec = [] then Some CwdRequired else None,
         if cs_context_ref spec \<noteq> [] \<and> \<not> has_prefix (cs_context_ref spec) ''/'' then Some ContextNotAbsolute else None,
         CheckReservedEnv (cs_env spec) (mc_reserved cfg),
         CheckReservedEnvPrefixes (cs_env spec) (mc_reserved_prefixes cfg)] of
        Some e \<Rightarrow> Inl e
      | None \<Rightarrow>
          (case provisionSessionEnv cfg spec of
             Inl e \<Rightarrow> Inl e
           | Inr env \<Rightarrow>
               (case first_error
                  [validateEnv env,
                   if env \<noteq> [] \<and> mc_bare_exec cfg then Some EnvNeedsShell else None,
                   if cs_permission_mode spec \<noteq> [] \<and> cs_permission_mode spec \<noteq> PermissionModeBypass
                     then Some UnknownPermissionMode else None,
                   validateMcpConfig cfg (cs_mcp_config spec),
                   (case ValidateLaunchSettings cfg (cs_permission_mode spec) (cs_settings spec) of
                      Inl e \<Rightarrow> Some e | Inr _ \<Rightarrow> None),
                   if cs_resume spec \<noteq> [] \<and> \<not> safeArgvValue (cs_resume spec) then Some ResumeIsFlag else None,
                   check_conversation cfg spec, check_pins spec, check_consents spec] of
                  Some e \<Rightarrow> Inl e
                | None \<Rightarrow> Inr env)))"

lemma first_error_Cons [simp]:
  "first_error [] = None"
  "first_error (e # es) = (case e of None \<Rightarrow> first_error es | Some x \<Rightarrow> Some x)"
  by (simp_all add: first_error_def List.map_filter_def split: option.split)

lemma first_error_None: "first_error es = None \<longleftrightarrow> (\<forall>e \<in> set es. e = None)"
  by (induction es) (auto split: option.split)

section \<open>What the checks guarantee\<close>

lemma validateEnv_None:
  "validateEnv env = None \<longleftrightarrow> (\<forall>(name, v) \<in> set env. validEnvName name \<and> \<not> breaks_line v)"
  by (induction env rule: validateEnv.induct) auto

lemma CheckReservedEnv_None:
  "CheckReservedEnv env reserved = None \<longleftrightarrow> (\<forall>name \<in> set reserved. map_of env name = None)"
  by (auto simp: CheckReservedEnv_def Let_def filter_empty_conv)

lemma CheckReservedEnvPrefixes_None:
  "CheckReservedEnvPrefixes env pfxs = None \<longleftrightarrow> (\<forall>name \<in> fst ` set env. \<not> HasReservedPrefix name pfxs)"
  by (auto simp: CheckReservedEnvPrefixes_def Let_def filter_empty_conv HasReservedPrefix_def)

lemma readSessionEnvFile_Some: "readSessionEnvFile f file = Some v \<Longrightarrow> v \<noteq> [] \<and> \<not> breaks_line v"
  by (auto simp: readSessionEnvFile_def Let_def split: option.splits if_splits)

text \<open>Where a variable of the started session comes from.\<close>

definition from_config :: "machine_config \<Rightarrow> session_spec \<Rightarrow> session_env_entry list \<Rightarrow> string \<Rightarrow> string \<Rightarrow> bool" where
  "from_config cfg spec es name v \<longleftrightarrow>
     (\<exists>e \<in> set es. se_name e = name \<and> scope_matches e spec \<and>
        \<not> HasReservedPrefix name (mc_reserved_prefixes cfg) \<and>
        readSessionEnvFile (mc_read_file cfg) (se_from_file e) = Some v)"

lemma from_config_Cons: "from_config cfg spec es name v \<Longrightarrow> from_config cfg spec (e # es) name v"
  by (auto simp: from_config_def)

lemma provision_entries_env:
  assumes "provision_entries cfg spec es merged = Inr merged'"
    and "map_of (case merged' of None \<Rightarrow> cs_env spec | Some m \<Rightarrow> m) name = Some v"
  shows "map_of (case merged of None \<Rightarrow> cs_env spec | Some m \<Rightarrow> m) name = Some v \<or>
    (map_of (cs_env spec) name = None \<and> from_config cfg spec es name v)"
  using assms
proof (induction es arbitrary: merged)
  case Nil
  then show ?case by simp
next
  case (Cons e es)
  consider "provision_entries cfg spec es merged = Inr merged'"
    | val where "provision_entries cfg spec es (Some (gm_put (se_name e) val (case merged of None \<Rightarrow> cs_env spec | Some m \<Rightarrow> m))) = Inr merged'"
        "map_of (cs_env spec) (se_name e) = None" "from_config cfg spec (e # es) (se_name e) val"
    using Cons.prems(1) by (auto simp: from_config_def split: if_splits option.splits)
  then show ?case
  proof cases
    case 1
    from Cons.IH [OF this Cons.prems(2)] show ?thesis using from_config_Cons by blast
  next
    case 2
    from Cons.IH [OF 2(1) Cons.prems(2)] show ?thesis
    proof
      assume "map_of (case Some (gm_put (se_name e) val (case merged of None \<Rightarrow> cs_env spec | Some m \<Rightarrow> m)) of
          None \<Rightarrow> cs_env spec | Some m \<Rightarrow> m) name = Some v"
      then show ?thesis using 2(2,3) by (cases "name = se_name e") auto
    next
      assume "map_of (cs_env spec) name = None \<and> from_config cfg spec es name v"
      then show ?thesis using from_config_Cons by blast
    qed
  qed
qed

lemma provision_entries_keeps:
  assumes "provision_entries cfg spec es merged = Inr merged'" and "map_of (cs_env spec) name = Some v"
    and "map_of (case merged of None \<Rightarrow> cs_env spec | Some m \<Rightarrow> m) name = Some v"
  shows "map_of (case merged' of None \<Rightarrow> cs_env spec | Some m \<Rightarrow> m) name = Some v"
  using assms
proof (induction es arbitrary: merged)
  case Nil
  then show ?case by simp
next
  case (Cons e es)
  show ?case
  proof (cases "provision_entries cfg spec es merged = Inr merged'")
    case True
    with Cons show ?thesis by blast
  next
    case False
    then obtain val where "provision_entries cfg spec es (Some (gm_put (se_name e) val (case merged of None \<Rightarrow> cs_env spec | Some m \<Rightarrow> m))) = Inr merged'"
        "map_of (cs_env spec) (se_name e) = None"
      using Cons.prems(1) by (auto split: if_splits option.splits)
    moreover from this have "name \<noteq> se_name e" using Cons.prems(2) by auto
    ultimately show ?thesis using Cons.IH Cons.prems(2,3) by simp
  qed
qed

lemma provision_entries_required:
  assumes "provision_entries cfg spec es merged = Inr merged'"
    and "e \<in> set es" and "scope_matches e spec" and "se_required e"
    and "\<not> HasReservedPrefix (se_name e) (mc_reserved_prefixes cfg)"
  shows "map_of (case merged' of None \<Rightarrow> cs_env spec | Some m \<Rightarrow> m) (se_name e) \<noteq> None"
    and "map_of (cs_env spec) (se_name e) = None"
proof -
  have mono: "map_of (case merged' of None \<Rightarrow> cs_env spec | Some m \<Rightarrow> m) k \<noteq> None"
    if "provision_entries cfg spec es merged = Inr merged'" "map_of (case merged of None \<Rightarrow> cs_env spec | Some m \<Rightarrow> m) k \<noteq> None"
    for es merged k
    using that
  proof (induction es arbitrary: merged)
    case Nil
    then show ?case by simp
  next
    case (Cons x es)
    show ?case
    proof (cases "provision_entries cfg spec es merged = Inr merged'")
      case True
      then show ?thesis using Cons by blast
    next
      case False
      then obtain val where v: "provision_entries cfg spec es (Some (gm_put (se_name x) val (case merged of None \<Rightarrow> cs_env spec | Some m \<Rightarrow> m))) = Inr merged'"
        using Cons.prems(1) by (auto split: if_splits option.splits)
      show ?thesis using Cons.IH [OF v] Cons.prems(2) by simp
    qed
  qed
  have "map_of (case merged' of None \<Rightarrow> cs_env spec | Some m \<Rightarrow> m) (se_name e) \<noteq> None \<and> map_of (cs_env spec) (se_name e) = None"
    using assms
  proof (induction es arbitrary: merged)
    case Nil
    then show ?case by simp
  next
    case (Cons x es)
    show ?case
    proof (cases "x = e")
      case True
      then obtain val where v: "provision_entries cfg spec es (Some (gm_put (se_name e) val (case merged of None \<Rightarrow> cs_env spec | Some m \<Rightarrow> m))) = Inr merged'"
          and n: "map_of (cs_env spec) (se_name e) = None"
        using Cons.prems by (auto split: if_splits option.splits)
      show ?thesis using mono [OF v, of "se_name e"] n by simp
    next
      case False
      then have "e \<in> set es" using Cons.prems(2) by simp
      moreover obtain m where "provision_entries cfg spec es m = Inr merged'"
        using Cons.prems(1) by (auto split: if_splits option.splits)
      ultimately show ?thesis using Cons.IH Cons.prems(3,4,5) by blast
    qed
  qed
  then show "map_of (case merged' of None \<Rightarrow> cs_env spec | Some m \<Rightarrow> m) (se_name e) \<noteq> None"
    and "map_of (cs_env spec) (se_name e) = None" by blast+
qed

lemma provision_env:
  assumes "provisionSessionEnv cfg spec = Inr env"
  shows "map_of (cs_env spec) name = Some v \<Longrightarrow> map_of env name = Some v"
    and "map_of env name = Some v \<Longrightarrow> map_of (cs_env spec) name = Some v \<or>
      (map_of (cs_env spec) name = None \<and> from_config cfg spec (mc_session_env cfg) name v)"
    and "e \<in> set (mc_session_env cfg) \<Longrightarrow> scope_matches e spec \<Longrightarrow> se_required e \<Longrightarrow>
      \<not> HasReservedPrefix (se_name e) (mc_reserved_prefixes cfg) \<Longrightarrow>
      map_of env (se_name e) \<noteq> None \<and> map_of (cs_env spec) (se_name e) = None"
proof -
  have p: "\<exists>m. provision_entries cfg spec (mc_session_env cfg) None = Inr m \<and>
      env = (case m of None \<Rightarrow> cs_env spec | Some m \<Rightarrow> m)"
    using assms by (auto simp: provisionSessionEnv_def split: if_splits sum.splits option.splits)
  then obtain m where m: "provision_entries cfg spec (mc_session_env cfg) None = Inr m"
      and env: "env = (case m of None \<Rightarrow> cs_env spec | Some m \<Rightarrow> m)" by blast
  show "map_of (cs_env spec) name = Some v \<Longrightarrow> map_of env name = Some v"
    using provision_entries_keeps [OF m, of name v] by (simp add: env)
  show "map_of env name = Some v \<Longrightarrow> map_of (cs_env spec) name = Some v \<or>
      (map_of (cs_env spec) name = None \<and> from_config cfg spec (mc_session_env cfg) name v)"
    using provision_entries_env [OF m, of name v] by (simp add: env)
  show "e \<in> set (mc_session_env cfg) \<Longrightarrow> scope_matches e spec \<Longrightarrow> se_required e \<Longrightarrow>
      \<not> HasReservedPrefix (se_name e) (mc_reserved_prefixes cfg) \<Longrightarrow>
      map_of env (se_name e) \<noteq> None \<and> map_of (cs_env spec) (se_name e) = None"
    using provision_entries_required [OF m, of e] by (simp add: env)
qed

lemma create_checks_Inr:
  assumes "create_checks cfg spec = Inr env"
  shows "provisionSessionEnv cfg spec = Inr env" and "validateEnv env = None"
    and "CheckReservedEnv (cs_env spec) (mc_reserved cfg) = None"
    and "CheckReservedEnvPrefixes (cs_env spec) (mc_reserved_prefixes cfg) = None"
    and "cs_cwd spec \<noteq> []" and "check_conversation cfg spec = None" and "check_pins spec = None"
    and "check_consents spec = None" and "validateMcpConfig cfg (cs_mcp_config spec) = None"
    and "\<exists>s. ValidateLaunchSettings cfg (cs_permission_mode spec) (cs_settings spec) = Inr s"
    and "cs_resume spec = [] \<or> safeArgvValue (cs_resume spec)"
    and "env = [] \<or> \<not> mc_bare_exec cfg"
    and "cs_permission_mode spec = [] \<or> cs_permission_mode spec = PermissionModeBypass"
    and "cs_context_ref spec = [] \<or> has_prefix (cs_context_ref spec) ''/''"
  using assms by (auto simp: create_checks_def split: option.splits sum.splits if_splits)

section \<open>Properties\<close>


definition demo_machine :: machine_config where
  "demo_machine = \<lparr>mc_session_env = [\<lparr>se_name = ''TEAM'', se_from_file = ''/t'', se_required = True, se_agents = [], se_markers = []\<rparr>],
     mc_reserved = [''LANE''], mc_reserved_prefixes = [''MOD_''], mc_bare_exec = False,
     mc_read_file = (\<lambda>f. if f = ''/t'' then Some (''red'' @ [CHR 0x0A]) else None), mc_opens = (\<lambda>_. True),
     mc_recorded = None, mc_json_valid = (\<lambda>_. True), mc_json_compact = id, mc_json_keys = (\<lambda>_. Some [])\<rparr>"

definition demo_spec :: session_spec where
  "demo_spec = \<lparr>cs_name = ''bot'', cs_marker = [], cs_cwd = ''/w'', cs_context_ref = [], cs_env = [(''A'', ''1'')],
     cs_permission_mode = [], cs_mcp_config = [], cs_settings = [], cs_resume = [], cs_conversation_id = [],
     cs_agent = [], cs_model = [], cs_effort = [], cs_consents = []\<rparr>"


lemma validEnvName_chars: "validEnvName name \<Longrightarrow> name \<noteq> [] \<and> CHR ''='' \<notin> set name \<and> CHR 0x0A \<notin> set name"
proof -
  assume v: "validEnvName name"
  let ?ok = "\<lambda>r. r = CHR ''_'' \<or> is_lower r \<or> is_upper r \<or> is_digit r"
  have "\<not> ?ok (CHR ''='')" by code_simp
  moreover have "\<not> ?ok (CHR 0x0A)" by code_simp
  ultimately show ?thesis using v unfolding validEnvName_def list_all_iff by blast
qed

text \<open>What the loop does with lines that are assignments.\<close>

abbreviation env_loop :: "(string \<Rightarrow> bool) \<Rightarrow> (string \<Rightarrow> string) \<Rightarrow> string list \<Rightarrow> (string, string) gomap \<Rightarrow> (string, string) gomap" where
  "env_loop keeps v names \<equiv>
     fold (\<lambda>line m. export_line keeps line (read_line line m)) (map (\<lambda>name. name @ ''='' @ v name) names)"

lemma export_assignment:
  "CHR ''='' \<notin> set name \<Longrightarrow> export_line keeps (name @ ''='' @ v) m = (if keeps name then gm_put name v m else m)"
  by (simp add: export_line_def cut_at_char)

lemma env_loop_exports:
  assumes "\<And>name. name \<in> set names \<Longrightarrow> CHR ''='' \<notin> set name"
  shows "x \<noteq> ''fleet_env_line'' \<Longrightarrow> map_of (env_loop keeps v names m) x =
      (if x \<in> set names \<and> keeps x then Some (v x) else map_of m x)"
    and "map_of (env_loop keeps v names m) ''fleet_env_line'' = None \<longleftrightarrow>
      \<not> (''fleet_env_line'' \<in> set names \<and> keeps ''fleet_env_line'') \<and> map_of m ''fleet_env_line'' = None"
  using assms
proof (induction names arbitrary: m)
  case (Cons name names)
  {
    case 1
    then show ?case
      using Cons.IH(1) by (simp add: export_assignment [simplified] read_line_def)
  next
    case 2
    then show ?case
      using Cons.IH(2) by (simp add: export_assignment [simplified] read_line_def)
  }
qed simp_all

text \<open>
  C38: What is staged is what the session gets. Reading the staged file back the way the wrapper's shell
  does exports every variable of the checked environment with its value, whatever the value contains,
  if the shell lets its name be set, and leaves every other variable as it was inherited; but the
  loop's own variable, which the check accepts as a name too, ends empty wherever it is exported.
\<close>

theorem staged_environment_round_trip:
  assumes "validateEnv env = None"
  shows "map_of (shell_exports keeps inherited (staged_env env)) name =
    (if name = ''fleet_env_line'' then
       (if map_of env name \<noteq> None \<and> keeps name \<or> map_of inherited name \<noteq> None then Some [] else None)
     else if map_of env name \<noteq> None \<and> keeps name then map_of env name
     else map_of inherited name)"
proof -
  let ?v = "\<lambda>name. the_default [] (map_of env name)" and ?names = "sort (map fst env)"
  have dom: "x \<in> set ?names \<longleftrightarrow> map_of env x \<noteq> None" for x by (simp add: map_of_eq_None_iff)
  have ok: "validEnvName x" "\<not> breaks_line (?v x)" if "x \<in> set ?names" for x
  proof -
    from that obtain v where v: "map_of env x = Some v" using dom by blast
    with assms map_of_SomeD [OF v] show "validEnvName x" and "\<not> breaks_line (?v x)"
      by (auto simp: validateEnv_None)
  qed
  have nl: "CHR 0x0A \<notin> set (x @ ''='' @ ?v x)" if "x \<in> set ?names" for x
    using ok [OF that] validEnvName_chars [of x] by (auto simp: breaks_line_def list_ex_iff)
  have "staged_env env = concat (map (\<lambda>l. l @ [CHR 0x0A]) (map (\<lambda>x. x @ ''='' @ ?v x) ?names))"
    by (simp add: staged_env_def comp_def)
  then have "split_on (CHR 0x0A) (staged_env env) = map (\<lambda>x. x @ ''='' @ ?v x) ?names @ [[]]"
    using split_on_lines [of "map (\<lambda>x. x @ ''='' @ ?v x) ?names" "CHR 0x0A"] nl by simp
  then have run: "shell_exports keeps inherited (staged_env env) = read_line [] (env_loop keeps ?v ?names inherited)"
    by (simp add: shell_exports_def)
  have eq: "CHR ''='' \<notin> set x" if "x \<in> set ?names" for x
    using validEnvName_chars [OF ok(1) [OF that]] by blast
  show ?thesis
  proof (cases "name = ''fleet_env_line''")
    case True
    with env_loop_exports(2) [where names = ?names and keeps = keeps and v = ?v and m = inherited, OF eq] show ?thesis unfolding run dom by (auto simp: read_line_def)
  next
    case False
    with env_loop_exports(1) [where names = ?names and keeps = keeps and v = ?v and m = inherited, OF eq False] show ?thesis unfolding run dom by (auto simp: read_line_def)
  qed
qed

lemma staged_environment_round_trip_witness:
  "map_of (shell_exports (\<lambda>n. n \<noteq> ''UID'') [(''UID'', ''501''), (''TERM'', ''vt'')]
     (staged_env [(''B'', ''x=$(rm y)''), (''UID'', ''7''), (''A'', [])])) =
   map_of [(''A'', []), (''B'', ''x=$(rm y)''), (''UID'', ''501''), (''TERM'', ''vt'')]"
proof
  fix name
  show "map_of (shell_exports (\<lambda>n. n \<noteq> ''UID'') [(''UID'', ''501''), (''TERM'', ''vt'')]
      (staged_env [(''B'', ''x=$(rm y)''), (''UID'', ''7''), (''A'', [])])) name =
    map_of [(''A'', []), (''B'', ''x=$(rm y)''), (''UID'', ''501''), (''TERM'', ''vt'')] name"
    using staged_environment_round_trip [of "[(''B'', ''x=$(rm y)''), (''UID'', ''7''), (''A'', [])]"
        "\<lambda>n. n \<noteq> ''UID''" "[(''UID'', ''501''), (''TERM'', ''vt'')]" name]
    by (simp add: validateEnv_None validEnvName_def breaks_line_def is_digit_def is_lower_def is_upper_def split: if_splits)
qed

text \<open>A variable of the loop's own name passes the checks and arrives empty.\<close>

lemma loop_variable_is_lost:
  "validateEnv [(''fleet_env_line'', ''secret'')] = None"
  "map_of (shell_exports (\<lambda>n. True) [] (staged_env [(''fleet_env_line'', ''secret'')])) ''fleet_env_line'' = Some []"
  by code_simp+

text \<open>
  C36: What a create that passes the checks puts on the agent's command line. A resumed conversation, agent,
  model, effort or configuration path never begins with a dash; a configuration path is absolute and
  was opened at the check, and a context reference is absolute; the permission mode is none or bypass;
  launch-time settings are one JSON object of at most 4096 bytes, which outside bypass has only
  the allowed key; a new conversation's id has the shape of a UUID, is not combined with a resumed one and
  is not recorded for the directory; and only consentable questions are consented to.
\<close>

theorem created_arguments_are_safe:
  assumes "create_checks cfg spec = Inr env"
  defines "settings \<equiv> TrimSpace (cs_settings spec)"
  shows "(\<forall>v \<in> {cs_resume spec, cs_agent spec, cs_model spec, cs_effort spec} \<union> set (cs_mcp_config spec).
      v = [] \<or> hd v \<noteq> CHR ''-'') \<and>
    (\<forall>p \<in> set (cs_mcp_config spec). p \<noteq> [] \<and> hd p = CHR ''/'' \<and> mc_opens cfg p) \<and>
    (cs_context_ref spec = [] \<or> hd (cs_context_ref spec) = CHR ''/'') \<and>
    cs_permission_mode spec \<in> {[], PermissionModeBypass} \<and>
    (settings = [] \<or> settings = ''null'' \<or>
      (mc_json_valid cfg settings \<and> hd settings = CHR ''{'' \<and> length (mc_json_compact cfg settings) \<le> 4096 \<and>
       (cs_permission_mode spec = [] \<longrightarrow> set (LaunchSettingsKeys cfg settings) \<subseteq> {''crossSessionInbound''}))) \<and>
    (cs_conversation_id spec \<noteq> [] \<longrightarrow> cs_resume spec = [] \<and> uuidShaped (cs_conversation_id spec) \<and>
      (\<forall>recorded. mc_recorded cfg = Some recorded \<longrightarrow> \<not> recorded (cs_cwd spec) (cs_conversation_id spec))) \<and>
    set (cs_consents spec) \<subseteq> set consentableKinds"
proof -
  note c = create_checks_Inr [OF assms(1)]
  have dash: "safeArgvValue v \<longleftrightarrow> v \<noteq> [] \<and> hd v \<noteq> CHR ''-''" for v
    by (cases v) (auto simp: safeArgvValue_def has_prefix_def)
  have slash: "has_prefix v ''/'' \<longleftrightarrow> v \<noteq> [] \<and> hd v = CHR ''/''" for v
    by (cases v) (auto simp: has_prefix_def)
  have mcp: "validateMcpConfig cfg ps = None \<Longrightarrow> \<forall>p \<in> set ps. safeArgvValue p \<and> has_prefix p ''/'' \<and> mc_opens cfg p" for ps
    by (induction ps) (auto split: if_splits)
  have pins: "\<forall>v \<in> {cs_agent spec, cs_model spec, cs_effort spec}. v = [] \<or> safeArgvValue v"
    using c(7) by (auto simp: check_pins_def split: if_splits)
  have "\<forall>v \<in> {cs_resume spec, cs_agent spec, cs_model spec, cs_effort spec} \<union> set (cs_mcp_config spec).
      v = [] \<or> hd v \<noteq> CHR ''-''"
    using pins mcp [OF c(9)] c(11) dash by auto
  moreover have "\<forall>p \<in> set (cs_mcp_config spec). p \<noteq> [] \<and> hd p = CHR ''/'' \<and> mc_opens cfg p"
    using mcp [OF c(9)] slash by auto
  moreover have "cs_context_ref spec = [] \<or> hd (cs_context_ref spec) = CHR ''/''"
    using c(14) slash by auto
  moreover have "cs_permission_mode spec \<in> {[], PermissionModeBypass}" using c(13) by auto
  moreover have "settings = [] \<or> settings = ''null'' \<or>
      (mc_json_valid cfg settings \<and> hd settings = CHR ''{'' \<and> length (mc_json_compact cfg settings) \<le> 4096 \<and>
       (cs_permission_mode spec = [] \<longrightarrow> set (LaunchSettingsKeys cfg settings) \<subseteq> {''crossSessionInbound''}))"
    using c(10) by (auto simp: ValidateLaunchSettings_def settings_def Let_def find_None_iff launchSettingsOutsideBypass_def
        MaxLaunchSettingsBytes_def split: if_splits option.splits)
  moreover have "cs_conversation_id spec \<noteq> [] \<Longrightarrow> cs_resume spec = [] \<and> uuidShaped (cs_conversation_id spec) \<and>
      (\<forall>recorded. mc_recorded cfg = Some recorded \<longrightarrow> \<not> recorded (cs_cwd spec) (cs_conversation_id spec))"
    using c(6) by (auto simp: check_conversation_def split: if_splits option.splits)
  moreover have "set (cs_consents spec) \<subseteq> set consentableKinds"
    using c(8) by (auto simp: check_consents_def find_None_iff)
  ultimately show ?thesis by blast
qed

lemma created_arguments_are_safe_witness:
  "create_checks demo_machine (demo_spec\<lparr>cs_model := ''opus''\<rparr>) = Inr [(''A'', ''1''), (''TEAM'', ''red'')] \<and>
   hd ''opus'' \<noteq> CHR ''-''"
proof -
  have c: "create_checks demo_machine (demo_spec\<lparr>cs_model := ''opus''\<rparr>) = Inr [(''A'', ''1''), (''TEAM'', ''red'')]"
    by code_simp
  from created_arguments_are_safe [OF c] c show ?thesis by simp
qed

end
