(* ===== verification/DocStore.thy ===== *)
theory DocStore
  imports Prelude
begin

text \<open>
  The durable documents of the service (\<open>internal/state/state.go\<close>): one file per document in
  a state directory, replaced atomically by writing a temporary file, syncing it and renaming it
  over the target. The model keeps what the file system may lose: which file contents are
  certainly on the disk, and which directory contents a power loss may fall back to. JSON is a
  parameter, an encoder and a decoder.
\<close>

section \<open>The file system as the store uses it\<close>

text \<open>
  \<open>fs_dir\<close> is what the running system sees in the state directory, \<open>fs_data\<close> the contents
  of a file by its inode, \<open>fs_disk\<close> the contents that an \<open>fsync\<close> put on the disk.
  \<open>fs_older\<close> are the earlier contents of the directory, newest first: the store never syncs
  the directory, so after a power loss any of them may be the one that is found.
\<close>

type_synonym inode = nat

record fsys =
  fs_dir :: "(string, inode) gomap"
  fs_older :: "(string, inode) gomap list"
  fs_data :: "inode \<Rightarrow> string"
  fs_disk :: "inode \<Rightarrow> string option"
  fs_next :: inode

definition empty_dir :: fsys where
  "empty_dir = \<lparr>fs_dir = [], fs_older = [], fs_data = (\<lambda>_. []), fs_disk = (\<lambda>_. None), fs_next = 0\<rparr>"

definition read_file :: "string \<Rightarrow> fsys \<Rightarrow> string option" where
  "read_file nm s = map_option (fs_data s) (map_of (fs_dir s) nm)"

definition set_dir :: "(string, inode) gomap \<Rightarrow> fsys \<Rightarrow> fsys" where
  "set_dir d s = s\<lparr>fs_dir := d, fs_older := fs_dir s # fs_older s\<rparr>"

definition create_excl :: "string \<Rightarrow> fsys \<Rightarrow> fsys" where
  "create_excl nm s =
     (set_dir (gm_put nm (fs_next s) (fs_dir s)) s)
       \<lparr>fs_data := (fs_data s)(fs_next s := []), fs_disk := (fs_disk s)(fs_next s := None),
        fs_next := Suc (fs_next s)\<rparr>"

definition write_file :: "inode \<Rightarrow> string \<Rightarrow> fsys \<Rightarrow> fsys" where
  "write_file i bs s = s\<lparr>fs_data := (fs_data s)(i := fs_data s i @ bs), fs_disk := (fs_disk s)(i := None)\<rparr>"

definition sync_file :: "inode \<Rightarrow> fsys \<Rightarrow> fsys" where
  "sync_file i s = s\<lparr>fs_disk := (fs_disk s)(i := Some (fs_data s i))\<rparr>"

definition remove_file :: "string \<Rightarrow> fsys \<Rightarrow> fsys" where
  "remove_file nm s = (if map_of (fs_dir s) nm = None then s else set_dir (gm_del nm (fs_dir s)) s)"

definition rename_file :: "string \<Rightarrow> string \<Rightarrow> fsys \<Rightarrow> fsys" where
  "rename_file old new s =
     (case map_of (fs_dir s) old of
        None \<Rightarrow> s
      | Some i \<Rightarrow> set_dir (gm_put new i (gm_del old (fs_dir s))) s)"

text \<open>
  A power loss: the directory falls back to its current contents or to any earlier ones, synced
  files keep their contents, the others may hold anything.
\<close>

definition power_loss :: "nat \<Rightarrow> (inode \<Rightarrow> string) \<Rightarrow> fsys \<Rightarrow> fsys" where
  "power_loss k junk s =
     (let dirs = fs_dir s # fs_older s;
          content = (\<lambda>i. case fs_disk s i of Some c \<Rightarrow> c | None \<Rightarrow> junk i)
      in s\<lparr>fs_dir := dirs ! min k (length (fs_older s)),
           fs_older := drop (Suc (min k (length (fs_older s)))) dirs,
           fs_data := content, fs_disk := (\<lambda>i. Some (content i))\<rparr>)"

section \<open>Saving and loading\<close>

text \<open>
  What one system call comes to: it succeeds, it fails, or the process is killed at it. A write
  that does not succeed may have written any number of bytes.
\<close>

datatype os_outcome = OsOk | OsFail nat | OsKilled nat

datatype os_call = CreateTemp | TmpWrite | TmpSync | TmpClose | OsRename

datatype save_result =
    Saved
  | EncodeFailed
  | OsFailed os_call
  | Died

definition path :: "string \<Rightarrow> string" where
  "path name = name @ ''.json''"

definition tmp_name :: "string \<Rightarrow> nat \<Rightarrow> string" where
  "tmp_name name r = ''.'' @ name @ ''.tmp'' @ show_nat r"

text \<open>
  \<open>os.CreateTemp\<close> opens the first of its random names that does not exist yet; \<open>rnd\<close> are
  the random numbers it draws (the library gives up after ten thousand).
\<close>

definition pick_temp :: "nat list \<Rightarrow> string \<Rightarrow> fsys \<Rightarrow> string option" where
  "pick_temp rnd name s =
     find (\<lambda>nm. map_of (fs_dir s) nm = None) (map (tmp_name name) (take 10000 rnd))"

text \<open>
  \<open>Save\<close> after the temporary file exists: write, sync, close and rename, each failure
  removing the temporary file on the way out (\<open>defer os.Remove\<close>), a killed process removing
  nothing. \<open>ora\<close> says what each call comes to.
\<close>

definition Save_tmp :: "(os_call \<Rightarrow> os_outcome) \<Rightarrow> string \<Rightarrow> inode \<Rightarrow> string \<Rightarrow> string \<Rightarrow> fsys \<Rightarrow> save_result \<times> fsys" where
  "Save_tmp ora tmp i raw name s =
     (case ora TmpWrite of
        OsFail n \<Rightarrow> (OsFailed TmpWrite, remove_file tmp (write_file i (take n raw) s))
      | OsKilled n \<Rightarrow> (Died, write_file i (take n raw) s)
      | OsOk \<Rightarrow>
         let s = write_file i raw s in
         (case ora TmpSync of
            OsFail _ \<Rightarrow> (OsFailed TmpSync, remove_file tmp s)
          | OsKilled _ \<Rightarrow> (Died, s)
          | OsOk \<Rightarrow>
             let s = sync_file i s in
             (case ora TmpClose of
                OsFail _ \<Rightarrow> (OsFailed TmpClose, remove_file tmp s)
              | OsKilled _ \<Rightarrow> (Died, s)
              | OsOk \<Rightarrow>
                 (case ora OsRename of
                    OsFail _ \<Rightarrow> (OsFailed OsRename, remove_file tmp s)
                  | OsKilled _ \<Rightarrow> (Died, s)
                  | OsOk \<Rightarrow> (Saved, remove_file tmp (rename_file tmp (path name) s))))))"

definition Save :: "('v \<Rightarrow> string option) \<Rightarrow> (os_call \<Rightarrow> os_outcome) \<Rightarrow> nat list \<Rightarrow> string \<Rightarrow> 'v \<Rightarrow> fsys \<Rightarrow> save_result \<times> fsys" where
  "Save enc ora rnd name v s =
     (case enc v of
        None \<Rightarrow> (EncodeFailed, s)
      | Some raw \<Rightarrow>
         (case ora CreateTemp of
            OsFail _ \<Rightarrow> (OsFailed CreateTemp, s)
          | OsKilled _ \<Rightarrow> (Died, s)
          | OsOk \<Rightarrow>
             (case pick_temp rnd name s of
                None \<Rightarrow> (OsFailed CreateTemp, s)
              | Some tmp \<Rightarrow> Save_tmp ora tmp (fs_next s) (raw @ [CHR 0x0A]) name (create_excl tmp s))))"

text \<open>
  \<open>Load\<close>: a missing file is not an error, a file that cannot be read or decoded is.
  \<open>readable\<close> is what \<open>os.ReadFile\<close> comes to on a file that exists.
\<close>

datatype 'v load_result = NothingStored | Loaded 'v | ReadFailed | Corrupt

definition Load :: "(string \<Rightarrow> 'v option) \<Rightarrow> bool \<Rightarrow> string \<Rightarrow> fsys \<Rightarrow> 'v load_result" where
  "Load dec readable name s =
     (case read_file (path name) s of
        None \<Rightarrow> NothingStored
      | Some raw \<Rightarrow>
         if \<not> readable then ReadFailed
         else (case dec raw of None \<Rightarrow> Corrupt | Some v \<Rightarrow> Loaded v))"

section \<open>What the store guarantees\<close>

text \<open>
  The contract: a document is a map entry. \<open>stored\<close> is the abstract map; the invariant says
  that every file a document name leads to, in the directory as it is or as a power loss may
  leave it, is on the disk and is one whose contents were written by a save of that document
  (\<open>P\<close> stands for \<^emph>\<open>some save of this document wrote these bytes\<close>).
\<close>

definition stored :: "fsys \<Rightarrow> string \<Rightarrow> string option" where
  "stored s name = read_file (path name) s"

definition dirs :: "fsys \<Rightarrow> (string, inode) gomap set" where
  "dirs s = insert (fs_dir s) (set (fs_older s))"

definition durable :: "(string \<Rightarrow> string \<Rightarrow> bool) \<Rightarrow> fsys \<Rightarrow> string \<Rightarrow> inode \<Rightarrow> bool" where
  "durable P s name i \<longleftrightarrow> fs_disk s i = Some (fs_data s i) \<and> P name (fs_data s i)"

definition store_inv :: "(string \<Rightarrow> string \<Rightarrow> bool) \<Rightarrow> fsys \<Rightarrow> bool" where
  "store_inv P s \<longleftrightarrow>
     (\<forall>d \<in> dirs s. gm_wf d \<and> (\<forall>nm i. map_of d nm = Some i \<longrightarrow> i < fs_next s) \<and>
        (\<forall>name i. map_of d (path name) = Some i \<longrightarrow> durable P s name i))"

lemma store_invI:
  assumes "\<And>d. d \<in> dirs s \<Longrightarrow> gm_wf d"
    and "\<And>d nm i. d \<in> dirs s \<Longrightarrow> map_of d nm = Some i \<Longrightarrow> i < fs_next s"
    and "\<And>d name i. d \<in> dirs s \<Longrightarrow> map_of d (path name) = Some i \<Longrightarrow> durable P s name i"
  shows "store_inv P s"
  using assms unfolding store_inv_def by blast

lemma store_invD:
  assumes "store_inv P s" and "d \<in> dirs s"
  shows "gm_wf d"
    and "map_of d nm = Some i \<Longrightarrow> i < fs_next s"
    and "map_of d (path name) = Some i \<Longrightarrow> durable P s name i"
  using assms unfolding store_inv_def by blast+

lemma dirs_cur [simp]: "fs_dir s \<in> dirs s"
  by (simp add: dirs_def)

lemma dirs_set_dir [simp]: "dirs (set_dir d s) = insert d (dirs s)"
  by (auto simp: dirs_def set_dir_def)

lemma set_dir_sel [simp]:
  "fs_dir (set_dir d s) = d" "fs_data (set_dir d s) = fs_data s" "fs_disk (set_dir d s) = fs_disk s"
  "fs_next (set_dir d s) = fs_next s"
  by (simp_all add: set_dir_def)

lemma show_nat_last: "(of_char (last (show_nat n)) :: nat) < 58"
proof (cases "n < 10")
  case True
  then show ?thesis by (subst show_nat.simps) simp
next
  case False
  have "last (show_nat n) = char_of (48 + n mod 10)"
    using False by (subst show_nat.simps) simp
  then show ?thesis by simp
qed

lemma tmp_not_path: "tmp_name name r \<noteq> path name'"
proof
  assume "tmp_name name r = path name'"
  then have "last (tmp_name name r) = last (path name')" by (rule arg_cong)
  then have "last (show_nat r) = CHR ''n''" by (simp add: tmp_name_def path_def)
  then show False using show_nat_last [of r] by simp
qed

lemma pick_temp_Some:
  assumes "pick_temp rnd name s = Some tmp"
  shows "map_of (fs_dir s) tmp = None" and "tmp \<noteq> path name'"
proof -
  from assms obtain r where "tmp = tmp_name name r" "map_of (fs_dir s) tmp = None"
    unfolding pick_temp_def find_Some_iff by auto
  then show "map_of (fs_dir s) tmp = None" and "tmp \<noteq> path name'"
    using tmp_not_path by auto
qed

lemma path_inj [simp]: "path a = path b \<longleftrightarrow> a = b"
  by (simp add: path_def)

text \<open>While a save is under way, its inode is reached by no document name.\<close>

definition writing :: "(string \<Rightarrow> string \<Rightarrow> bool) \<Rightarrow> string \<Rightarrow> inode \<Rightarrow> fsys \<Rightarrow> bool" where
  "writing P tmp i s \<longleftrightarrow>
     store_inv P s \<and> map_of (fs_dir s) tmp = Some i \<and> (\<forall>n. tmp \<noteq> path n) \<and>
     (\<forall>d \<in> dirs s. \<forall>n. map_of d (path n) \<noteq> Some i)"

lemma stored_cong: "fs_dir s' = fs_dir s \<Longrightarrow> (\<And>n i. map_of (fs_dir s) (path n) = Some i \<Longrightarrow> fs_data s' i = fs_data s i) \<Longrightarrow> stored s' = stored s"
  by (auto simp: stored_def read_file_def fun_eq_iff option.map_comp intro!: map_option_cong)

lemma create_excl_sel [simp]:
  "fs_dir (create_excl nm s) = gm_put nm (fs_next s) (fs_dir s)"
  "dirs (create_excl nm s) = insert (gm_put nm (fs_next s) (fs_dir s)) (dirs s)"
  "fs_next (create_excl nm s) = Suc (fs_next s)"
  "fs_data (create_excl nm s) = (fs_data s)(fs_next s := [])"
  "fs_disk (create_excl nm s) = (fs_disk s)(fs_next s := None)"
  by (auto simp: create_excl_def set_dir_def dirs_def)

lemma write_file_sel [simp]:
  "fs_dir (write_file i b s) = fs_dir s" "dirs (write_file i b s) = dirs s" "fs_next (write_file i b s) = fs_next s"
  "fs_data (write_file i b s) = (fs_data s)(i := fs_data s i @ b)"
  "fs_disk (write_file i b s) = (fs_disk s)(i := None)"
  by (simp_all add: write_file_def dirs_def)

lemma sync_file_sel [simp]:
  "fs_dir (sync_file i s) = fs_dir s" "dirs (sync_file i s) = dirs s" "fs_next (sync_file i s) = fs_next s"
  "fs_data (sync_file i s) = fs_data s" "fs_disk (sync_file i s) = (fs_disk s)(i := Some (fs_data s i))"
  by (simp_all add: sync_file_def dirs_def)

lemma store_inv_step:
  assumes inv: "store_inv P s" and ds: "dirs s' = insert d (dirs s)" and wf: "gm_wf d"
    and bound: "\<And>nm i. map_of d nm = Some i \<Longrightarrow> i < fs_next s'" and "fs_next s \<le> fs_next s'"
    and same: "\<And>i. i < fs_next s \<Longrightarrow> fs_data s' i = fs_data s i \<and> fs_disk s' i = fs_disk s i"
    and dur: "\<And>n i. map_of d (path n) = Some i \<Longrightarrow> durable P s' n i"
  shows "store_inv P s'"
proof (rule store_invI)
  fix e nm i assume "e \<in> dirs s'"
  then have e: "e = d \<or> e \<in> dirs s" using ds by simp
  then show "gm_wf e" using wf store_invD(1) [OF inv] by blast
  {
    assume "map_of e nm = Some i"
    with e show "i < fs_next s'"
      using bound store_invD(2) [OF inv, of e nm i] \<open>fs_next s \<le> fs_next s'\<close> by fastforce
  }
  {
    fix n assume m: "map_of e (path n) = Some i"
    show "durable P s' n i"
    proof (cases "e = d")
      case True
      then show ?thesis using m dur by simp
    next
      case False
      then have "e \<in> dirs s" using e by simp
      from store_invD(2) [OF inv this m] store_invD(3) [OF inv this m] show ?thesis
        using same [of i] by (simp add: durable_def)
    qed
  }
qed

lemma create_excl_writing:
  assumes inv: "store_inv P s" and free: "map_of (fs_dir s) tmp = None" and np: "\<And>n. tmp \<noteq> path n"
  shows "writing P tmp (fs_next s) (create_excl tmp s)" and "stored (create_excl tmp s) = stored s"
proof -
  have put: "map_of (gm_put tmp (fs_next s) (fs_dir s)) (path n) = map_of (fs_dir s) (path n)" for n
    using np [of n] by simp
  have lt: "i < fs_next s" if "map_of (fs_dir s) nm = Some i" for nm i
    using store_invD(2) [OF inv dirs_cur that] .
  have "store_inv P (create_excl tmp s)"
  proof (rule store_inv_step [OF inv create_excl_sel(2)])
    show "gm_wf (gm_put tmp (fs_next s) (fs_dir s))"
      using store_invD(1) [OF inv dirs_cur] by simp
    show "i < fs_next (create_excl tmp s)" if "map_of (gm_put tmp (fs_next s) (fs_dir s)) nm = Some i" for nm i
      using that lt [of nm i] by (cases "nm = tmp") auto
    show "durable P (create_excl tmp s) n i" if "map_of (gm_put tmp (fs_next s) (fs_dir s)) (path n) = Some i" for n i
    proof -
      have m: "map_of (fs_dir s) (path n) = Some i" using that put by metis
      with lt have "i < fs_next s" by blast
      with store_invD(3) [OF inv dirs_cur m] show ?thesis by (simp add: durable_def)
    qed
  qed auto
  moreover have "map_of d (path n) \<noteq> Some (fs_next s)" if "d \<in> dirs (create_excl tmp s)" for d n
  proof -
    from that have "d \<in> dirs s \<or> map_of d (path n) = map_of (fs_dir s) (path n)" using put by auto
    then show ?thesis using store_invD(2) [OF inv, of _ "path n" "fs_next s"] dirs_cur by fastforce
  qed
  ultimately show "writing P tmp (fs_next s) (create_excl tmp s)"
    using np by (simp add: writing_def)
  have "read_file (path n) (create_excl tmp s) = read_file (path n) s" for n
    using put [of n] lt [of "path n"] by (cases "map_of (fs_dir s) (path n)") (auto simp: read_file_def)
  then show "stored (create_excl tmp s) = stored s" by (simp add: stored_def fun_eq_iff)
qed

lemma writing_writes:
  assumes w: "writing P tmp i s" and "fs_dir s' = fs_dir s" and "dirs s' = dirs s" and "fs_next s' = fs_next s"
    and same: "\<And>j. j \<noteq> i \<Longrightarrow> fs_data s' j = fs_data s j \<and> fs_disk s' j = fs_disk s j"
  shows "writing P tmp i s'" and "stored s' = stored s"
proof -
  have other: "d \<in> dirs s \<Longrightarrow> map_of d (path n) = Some j \<Longrightarrow> j \<noteq> i" for d n j
    using w by (auto simp: writing_def)
  have inv: "store_inv P s" using w by (simp add: writing_def)
  have "store_inv P s'"
  proof (rule store_invI)
    show "d \<in> dirs s' \<Longrightarrow> gm_wf d" for d
      using store_invD(1) [OF inv] assms(3) by simp
    show "d \<in> dirs s' \<Longrightarrow> map_of d nm = Some j \<Longrightarrow> j < fs_next s'" for d nm j
      using store_invD(2) [OF inv] assms(3,4) by simp
    show "d \<in> dirs s' \<Longrightarrow> map_of d (path n) = Some j \<Longrightarrow> durable P s' n j" for d n j
      using store_invD(3) [OF inv] assms(3) other same by (simp add: durable_def)
  qed
  then show "writing P tmp i s'" using w assms(2,3) by (simp add: writing_def)
  show "stored s' = stored s"
    using assms(2) same other [OF dirs_cur] by (intro stored_cong) auto
qed

lemma writing_remove:
  assumes w: "writing P tmp i s"
  shows "store_inv P (remove_file tmp s)" and "stored (remove_file tmp s) = stored s"
proof -
  have inv: "store_inv P s" and np: "tmp \<noteq> path n" for n using w by (auto simp: writing_def)
  have del: "map_of (gm_del tmp (fs_dir s)) (path n) = map_of (fs_dir s) (path n)" for n
    using np [of n] by simp
  have r: "remove_file tmp s = set_dir (gm_del tmp (fs_dir s)) s"
    using w by (simp add: writing_def remove_file_def)
  show "store_inv P (remove_file tmp s)" unfolding r
  proof (rule store_inv_step [OF inv dirs_set_dir])
    show "gm_wf (gm_del tmp (fs_dir s))" using store_invD(1) [OF inv dirs_cur] by simp
    show "i < fs_next (set_dir (gm_del tmp (fs_dir s)) s)" if "map_of (gm_del tmp (fs_dir s)) nm = Some i" for nm i
      using that store_invD(2) [OF inv dirs_cur, of nm i] by (simp split: if_splits)
    show "durable P (set_dir (gm_del tmp (fs_dir s)) s) n i" if "map_of (gm_del tmp (fs_dir s)) (path n) = Some i" for n i
      using that store_invD(3) [OF inv dirs_cur, of n i] del [of n] by (simp add: durable_def)
  qed auto
  have "read_file (path n) (set_dir (gm_del tmp (fs_dir s)) s) = read_file (path n) s" for n
    using del [of n] by (simp add: read_file_def)
  then show "stored (remove_file tmp s) = stored s"
    by (simp add: r stored_def fun_eq_iff)
qed

text \<open>The rename publishes the written bytes under the document's name and nothing else.\<close>

lemma writing_rename:
  assumes w: "writing P tmp i s" and synced: "fs_disk s i = Some (fs_data s i)" and P: "P name (fs_data s i)"
  shows "store_inv P (rename_file tmp (path name) s)"
    and "stored (rename_file tmp (path name) s) = (stored s)(name := Some (fs_data s i))"
    and "remove_file tmp (rename_file tmp (path name) s) = rename_file tmp (path name) s"
proof -
  let ?d = "gm_put (path name) i (gm_del tmp (fs_dir s))"
  have inv: "store_inv P s" and np: "tmp \<noteq> path n" and t: "map_of (fs_dir s) tmp = Some i" for n
    using w by (auto simp: writing_def)
  have r: "rename_file tmp (path name) s = set_dir ?d s"
    using t by (simp add: rename_file_def)
  have d: "map_of ?d nm = (if nm = path name then Some i else if nm = tmp then None else map_of (fs_dir s) nm)" for nm
    using store_invD(1) [OF inv dirs_cur] by (simp add: gm.get_put gm.get_del gm.wf_del)
  show "store_inv P (rename_file tmp (path name) s)" unfolding r
  proof (rule store_inv_step [OF inv dirs_set_dir])
    show "gm_wf ?d" using store_invD(1) [OF inv dirs_cur] by simp
    show "j < fs_next (set_dir ?d s)" if "map_of ?d nm = Some j" for nm j
      using that store_invD(2) [OF inv dirs_cur, of nm j] store_invD(2) [OF inv dirs_cur t]
      unfolding d by (simp split: if_splits)
    show "durable P (set_dir ?d s) n j" if "map_of ?d (path n) = Some j" for n j
      using that store_invD(3) [OF inv dirs_cur, of n j] synced P
      unfolding d by (auto simp: durable_def split: if_splits)
  qed auto
  have "read_file (path n) (set_dir ?d s) = (if n = name then Some (fs_data s i) else read_file (path n) s)" for n
    using np [of n] unfolding read_file_def set_dir_sel d by simp
  then show "stored (rename_file tmp (path name) s) = (stored s)(name := Some (fs_data s i))"
    by (simp add: r stored_def fun_eq_iff)
  show "remove_file tmp (rename_file tmp (path name) s) = rename_file tmp (path name) s"
    using np [of name] unfolding r remove_file_def set_dir_sel d by simp
qed

lemma Save_tmp_spec:
  assumes w: "writing P tmp i s" and empty: "fs_data s i = []" and P: "P name raw"
    and run: "Save_tmp ora tmp i raw name s = (r, s')"
  shows "store_inv P s'"
    and "stored s' = (if r = Saved then (stored s)(name := Some raw) else stored s)"
    and "r = Saved \<longleftrightarrow> ora TmpWrite = OsOk \<and> ora TmpSync = OsOk \<and> ora TmpClose = OsOk \<and> ora OsRename = OsOk"
proof -
  have wr: "writing P tmp i (write_file i bs s)" "stored (write_file i bs s) = stored s" for bs
    by (rule writing_writes [OF w]; simp)+
  have sy: "writing P tmp i (sync_file i (write_file i raw s))"
      "stored (sync_file i (write_file i raw s)) = stored s"
    using writing_writes [OF wr(1), of "sync_file i (write_file i raw s)" raw] wr(2) by simp_all
  note re = writing_rename [OF sy(1), of name, simplified, unfolded empty append_Nil, OF P]
  have inv: "store_inv P (write_file i bs s)" "store_inv P (sync_file i (write_file i raw s))" for bs
    using wr(1) sy(1) by (simp_all add: writing_def)
  show "store_inv P s'"
    using run inv writing_remove(1) [OF wr(1)] writing_remove(1) [OF sy(1)] re
    by (auto simp: Save_tmp_def Let_def split: os_outcome.splits)
  show "stored s' = (if r = Saved then (stored s)(name := Some raw) else stored s)"
    using run wr(2) sy(2) writing_remove(2) [OF wr(1)] writing_remove(2) [OF sy(1)] re
    by (auto simp: Save_tmp_def Let_def split: os_outcome.splits)
  show "r = Saved \<longleftrightarrow> ora TmpWrite = OsOk \<and> ora TmpSync = OsOk \<and> ora TmpClose = OsOk \<and> ora OsRename = OsOk"
    using run by (auto simp: Save_tmp_def Let_def split: os_outcome.splits)
qed

lemma save_refines_all:
  assumes inv: "store_inv P s" and P: "\<And>raw. enc v = Some raw \<Longrightarrow> P name (raw @ [CHR 0x0A])"
    and run: "Save enc ora rnd name v s = (r, s')"
  shows "store_inv P s' \<and>
    stored s' = (if r = Saved then (stored s)(name := Some (the (enc v) @ [CHR 0x0A])) else stored s) \<and>
    (r = Saved \<longleftrightarrow> enc v \<noteq> None \<and> ora CreateTemp = OsOk \<and> pick_temp rnd name s \<noteq> None \<and>
       ora TmpWrite = OsOk \<and> ora TmpSync = OsOk \<and> ora TmpClose = OsOk \<and> ora OsRename = OsOk)"
proof (cases "\<exists>raw tmp. enc v = Some raw \<and> ora CreateTemp = OsOk \<and> pick_temp rnd name s = Some tmp")
  case False
  then have "s' = s \<and> r \<noteq> Saved"
    using run by (auto simp: Save_def split: option.splits os_outcome.splits)
  with inv False show ?thesis by auto
next
  case True
  then obtain raw tmp where t: "enc v = Some raw" "ora CreateTemp = OsOk" "pick_temp rnd name s = Some tmp"
    by blast
  note wr = create_excl_writing [OF inv pick_temp_Some [OF t(3)]]
  from run t have "Save_tmp ora tmp (fs_next s) (raw @ [CHR 0x0A]) name (create_excl tmp s) = (r, s')"
    by (simp add: Save_def)
  from Save_tmp_spec [OF wr(1) _ P [OF t(1)] this] wr(2) t show ?thesis by simp
qed

lemmas save_refines = save_refines_all [OF _ _ prod.collapse [symmetric], THEN conjunct1]

text \<open>
  C11: One \<open>Save\<close> of a store with a directory is one assignment to a map of documents. Whatever each system
  call comes to, and wherever the process is killed, it succeeds exactly when encoding and every call
  succeed; then loading that document gives the saved value; otherwise, and for every other
  document, loading gives what it gave before, and the store's invariant is kept. (A kill after the rename
  has happened is a save that succeeded and told nobody. What a power loss leaves is C24.)
\<close>

theorem save_refines_document_map:
  assumes inv: "store_inv P s" and P: "\<And>raw. enc v = Some raw \<Longrightarrow> P name (raw @ [CHR 0x0A])"
    and run: "Save enc ora rnd name v s = (r, s')"
    and codec: "\<And>raw. enc v = Some raw \<Longrightarrow> dec (raw @ [CHR 0x0A]) = Some v"
  shows "store_inv P s' \<and>
    stored s' = (if r = Saved then (stored s)(name := Some (the (enc v) @ [CHR 0x0A])) else stored s) \<and>
    (\<forall>nm. Load dec True nm s' = (if r = Saved \<and> nm = name then Loaded v else Load dec True nm s)) \<and>
    (r = Saved \<longleftrightarrow> enc v \<noteq> None \<and> ora CreateTemp = OsOk \<and> pick_temp rnd name s \<noteq> None \<and>
       ora TmpWrite = OsOk \<and> ora TmpSync = OsOk \<and> ora TmpClose = OsOk \<and> ora OsRename = OsOk)"
proof -
  have load: "Load dec True nm x = (case stored x nm of None \<Rightarrow> NothingStored
      | Some raw \<Rightarrow> (case dec raw of None \<Rightarrow> Corrupt | Some v \<Rightarrow> Loaded v))" for nm x
    by (simp add: Load_def stored_def split: option.split)
  note all = save_refines_all [OF inv P run]
  from all have "enc v \<noteq> None" if "r = Saved" using that by blast
  then have "Load dec True nm s' = (if r = Saved \<and> nm = name then Loaded v else Load dec True nm s)" for nm
    using all codec unfolding load by auto
  with all show ?thesis by blast
qed

lemma save_refines_document_map_witness:
  "stored (snd (Save Some (\<lambda>_. OsOk) [7] ''labels'' ''x'' empty_dir)) ''labels'' = Some (''x'' @ [CHR 0x0A]) \<and>
   Load (\<lambda>raw. Some (butlast raw)) True ''labels'' (snd (Save Some (\<lambda>_. OsOk) [7] ''labels'' ''x'' empty_dir)) = Loaded ''x''"
proof -
  have "store_inv (\<lambda>_ _. True) empty_dir"
    by (simp add: store_inv_def dirs_def empty_dir_def)
  moreover have "fst (Save Some (\<lambda>_. OsOk) [7] ''labels'' ''x'' empty_dir) = Saved"
    by (simp add: Save_def Save_tmp_def pick_temp_def empty_dir_def)
  ultimately show ?thesis
    using save_refines_document_map [OF _ _ prod.collapse [symmetric], where P = "\<lambda>_ _. True" and s = empty_dir and enc = Some
        and v = "''x''" and name = "''labels''" and ora = "\<lambda>_. OsOk" and rnd = "[7]" and dec = "\<lambda>raw. Some (butlast raw)"]
    by simp
qed

text \<open>Histories of saves and power losses.\<close>

datatype 'v store_op =
    OpSave string 'v "os_call \<Rightarrow> os_outcome" "nat list"
  | OpPowerLoss nat "inode \<Rightarrow> string"

fun store_step :: "('v \<Rightarrow> string option) \<Rightarrow> 'v store_op \<Rightarrow> fsys \<Rightarrow> fsys" where
  "store_step enc (OpSave name v ora rnd) s = snd (Save enc ora rnd name v s)"
| "store_step enc (OpPowerLoss k junk) s = power_loss k junk s"

definition store_run :: "('v \<Rightarrow> string option) \<Rightarrow> 'v store_op list \<Rightarrow> fsys \<Rightarrow> fsys" where
  "store_run enc ops s = fold (store_step enc) ops s"

definition saved_in :: "'v store_op list \<Rightarrow> string \<Rightarrow> 'v \<Rightarrow> bool" where
  "saved_in ops name v \<longleftrightarrow> (\<exists>ora rnd. OpSave name v ora rnd \<in> set ops)"

definition wrote :: "('v \<Rightarrow> string option) \<Rightarrow> 'v store_op list \<Rightarrow> string \<Rightarrow> string \<Rightarrow> bool" where
  "wrote enc ops name bytes \<longleftrightarrow> (\<exists>v raw. saved_in ops name v \<and> enc v = Some raw \<and> bytes = raw @ [CHR 0x0A])"

lemma store_inv_power_loss:
  assumes inv: "store_inv P s"
  shows "store_inv P (power_loss k junk s)"
proof (rule store_invI)
  let ?s = "power_loss k junk s"
  have sub: "d \<in> dirs s" if "d \<in> dirs ?s" for d
  proof -
    have "dirs ?s \<subseteq> set (fs_dir s # fs_older s)"
    proof -
      have "(fs_dir s # fs_older s) ! min k (length (fs_older s)) \<in> set (fs_dir s # fs_older s)"
        by (rule nth_mem) simp
      then show ?thesis
        unfolding dirs_def power_loss_def Let_def by (auto dest: in_set_dropD)
    qed
    with that show ?thesis by (auto simp: dirs_def)
  qed
  show "gm_wf d" if "d \<in> dirs ?s" for d
    using store_invD(1) [OF inv sub [OF that]] .
  show "i < fs_next ?s" if "d \<in> dirs ?s" and "map_of d nm = Some i" for d nm i
    using store_invD(2) [OF inv sub [OF that(1)] that(2)] by (simp add: power_loss_def Let_def)
  show "durable P ?s n i" if "d \<in> dirs ?s" and "map_of d (path n) = Some i" for d n i
    using store_invD(3) [OF inv sub [OF that(1)] that(2)] by (simp add: durable_def power_loss_def Let_def)
qed

lemma store_inv_run:
  assumes "store_inv (wrote enc all) s" and "set ops \<subseteq> set all"
  shows "store_inv (wrote enc all) (store_run enc ops s)"
  using assms unfolding store_run_def
proof (induction ops arbitrary: s)
  case Nil
  then show ?case by simp
next
  case (Cons op ops)
  have "store_inv (wrote enc all) (store_step enc op s)"
  proof (cases op)
    case (OpSave name v ora rnd)
    have "wrote enc all name (raw @ [CHR 0x0A])" if "enc v = Some raw" for raw
      using that Cons.prems(2) OpSave unfolding wrote_def saved_in_def by auto
    from save_refines [OF Cons.prems(1) this] show ?thesis using OpSave by simp
  next
    case OpPowerLoss
    then show ?thesis using store_inv_power_loss [OF Cons.prems(1)] by simp
  qed
  with Cons show ?case by simp
qed

lemma store_inv_empty [simp]: "store_inv P empty_dir"
  by (simp add: store_inv_def dirs_def empty_dir_def)

text \<open>
  C24: After any sequence of saves, failed saves, kills at any system call and power losses, every
  document reads back as a value some save of that very document encoded, or as never stored:
  never torn, never another document's value, never an error that a corrupt file would give.
\<close>

theorem documents_never_torn:
  assumes codec: "\<And>v raw. enc v = Some raw \<Longrightarrow> dec (raw @ [CHR 0x0A]) = Some v"
  shows "case Load dec True name (store_run enc ops empty_dir) of
      NothingStored \<Rightarrow> True | Loaded v \<Rightarrow> saved_in ops name v | ReadFailed \<Rightarrow> False | Corrupt \<Rightarrow> False"
proof -
  let ?s = "store_run enc ops empty_dir"
  have inv: "store_inv (wrote enc ops) ?s"
    by (rule store_inv_run) simp_all
  show ?thesis
  proof (cases "map_of (fs_dir ?s) (path name)")
    case None
    then show ?thesis by (simp add: Load_def read_file_def)
  next
    case (Some i)
    from store_invD(3) [OF inv dirs_cur this] have "wrote enc ops name (fs_data ?s i)"
      by (simp add: durable_def)
    then obtain v raw where "saved_in ops name v" "enc v = Some raw" "fs_data ?s i = raw @ [CHR 0x0A]"
      unfolding wrote_def by blast
    with Some codec [of v raw] show ?thesis by (simp add: Load_def read_file_def)
  qed
qed

definition demo_saves :: "string store_op list" where
  "demo_saves = [OpSave ''hub'' ''old'' (\<lambda>_. OsOk) [1],
     OpSave ''hub'' ''new'' (\<lambda>c. if c = TmpSync then OsKilled 0 else OsOk) [2], OpPowerLoss 0 (\<lambda>_. ''junk'')]"

lemma documents_never_torn_witness:
  "Load (\<lambda>raw. Some (butlast raw)) True ''hub'' (store_run Some demo_saves empty_dir) = Loaded ''old'' \<and>
   saved_in demo_saves ''hub'' ''old''"
proof -
  have l: "Load (\<lambda>raw. Some (butlast raw)) True ''hub'' (store_run Some demo_saves empty_dir) = Loaded ''old''"
    by code_simp
  show ?thesis
    using documents_never_torn [where enc = Some and dec = "\<lambda>raw. Some (butlast raw)" and ops = demo_saves
        and name = "''hub''"] l by simp
qed

end
