(* ===== verification/SessionRecords.thy ===== *)
theory SessionRecords
  imports Fleet Naming DocStore
begin

text \<open>
  The tmux driver's durable record of its sessions (\<open>internal/drivers/tmux/reconcile.go\<close> and
  \<open>reassertNames\<close> in \<open>tmux.go\<close>): what a create and a rename assert about a session, how a
  listing matches live sessions with records, how a name that no longer holds is put back, and the
  classification of what is found at startup. Go's \<open>%q\<close> and the RFC 3339 rendering of an instant
  are parameters.
\<close>

section \<open>Records and rows\<close>

record pane_row =
  pr_session :: string
  pr_pane :: string
  pr_cwd :: string
  pr_created :: timestamp

record session_record =
  sr_created :: timestamp
  sr_cwd :: string
  sr_first_seen :: timestamp
  sr_last_seen :: timestamp
  sr_status :: string
  sr_status_since :: timestamp
  sr_pane :: string
  sr_name :: string
  sr_marker :: string
  sr_marker_applied :: bool
  sr_session_marker :: string
  sr_reasserts :: int
  sr_name_asserted_at :: timestamp

definition zero_record :: session_record where
  "zero_record = \<lparr>sr_created = 0, sr_cwd = [], sr_first_seen = 0, sr_last_seen = 0, sr_status = [],
     sr_status_since = 0, sr_pane = [], sr_name = [], sr_marker = [], sr_marker_applied = False,
     sr_session_marker = [], sr_reasserts = 0, sr_name_asserted_at = 0\<rparr>"

definition fresh_record :: "pane_row \<Rightarrow> timestamp \<Rightarrow> session_record" where
  "fresh_record r now =
     zero_record\<lparr>sr_created := pr_created r, sr_cwd := pr_cwd r, sr_pane := pr_pane r, sr_first_seen := now\<rparr>"

type_synonym records = "(string, session_record) gomap"

text \<open>
  The document the records are kept in: \<open>None\<close> for a driver without a state directory,
  otherwise what \<open>Load\<close> gives. A failed load reads as no records at all, and a save replaces
  the document when it succeeds.
\<close>

type_synonym rec_store = "records load_result option"

definition loadRecords :: "rec_store \<Rightarrow> records" where
  "loadRecords st = (case st of Some (Loaded recs) \<Rightarrow> recs | _ \<Rightarrow> [])"

definition saveRecords :: "bool \<Rightarrow> records \<Rightarrow> rec_store \<Rightarrow> rec_store" where
  "saveRecords ok recs st =
     (case st of None \<Rightarrow> None | Some d \<Rightarrow> if ok then Some (Loaded recs) else Some d)"

section \<open>Runs\<close>

text \<open>A run of a session is its active pane and its start in Unix seconds, whatever its name.\<close>

definition paneCreatedOf :: "string \<Rightarrow> timestamp \<Rightarrow> string \<times> int" where
  "paneCreatedOf pane created = (pane, created div second)"

definition row_run :: "pane_row \<Rightarrow> string \<times> int" where
  "row_run r = paneCreatedOf (pr_pane r) (pr_created r)"

definition indexByPaneCreated :: "records \<Rightarrow> (string \<times> int, session_record) gomap" where
  "indexByPaneCreated recs =
     fold (\<lambda>(k, rec) idx. if sr_pane rec = [] then idx
                           else gm_put (paneCreatedOf (sr_pane rec) (sr_created rec)) rec idx) recs []"

section \<open>What a listing does to the records\<close>

definition note_row :: "records \<Rightarrow> (string \<times> int, session_record) gomap \<Rightarrow> timestamp \<Rightarrow> pane_row \<Rightarrow> session_record \<times> bool" where
  "note_row prior byRun now r =
     (let (rec, changed) =
        (case map_of prior (pr_session r) of
           Some rec \<Rightarrow>
             if sr_created rec = zero_time then
               (rec\<lparr>sr_created := pr_created r, sr_cwd := pr_cwd r, sr_pane := pr_pane r\<rparr>, True)
             else if sr_created rec = pr_created r then
               (if sr_pane rec \<noteq> pr_pane r then (rec\<lparr>sr_pane := pr_pane r\<rparr>, True) else (rec, False))
             else (fresh_record r now, True)
         | None \<Rightarrow>
             (case map_of byRun (row_run r) of
                Some carried \<Rightarrow> (carried\<lparr>sr_cwd := pr_cwd r\<rparr>, True)
              | None \<Rightarrow> (fresh_record r now, True)))
      in (rec\<lparr>sr_last_seen := now\<rparr>, changed))"

definition noteSessionSet :: "bool \<Rightarrow> timestamp \<Rightarrow> pane_row list \<Rightarrow> records \<Rightarrow> rec_store \<Rightarrow> rec_store" where
  "noteSessionSet ok now rows prior st =
     (if st = None then st
      else
        let byRun = indexByPaneCreated prior;
            next_recs = fold (\<lambda>r m. gm_put (pr_session r) (fst (note_row prior byRun now r)) m) rows [];
            changed = (length prior \<noteq> length rows \<or> (\<exists>r \<in> set rows. snd (note_row prior byRun now r)))
        in if changed then saveRecords ok next_recs st else st)"

record observation =
  ob_status :: string
  ob_status_since :: timestamp

definition note_status :: "(string, observation) gomap \<Rightarrow> string \<Rightarrow> session_record \<Rightarrow> session_record" where
  "note_status obs k rec =
     (case map_of obs k of
        None \<Rightarrow> rec
      | Some o1 \<Rightarrow>
          if sr_status rec \<noteq> ob_status o1 \<or> sr_status_since rec \<noteq> ob_status_since o1
          then rec\<lparr>sr_status := ob_status o1, sr_status_since := ob_status_since o1\<rparr> else rec)"

definition noteStatuses :: "bool \<Rightarrow> (string, observation) gomap \<Rightarrow> rec_store \<Rightarrow> rec_store" where
  "noteStatuses ok obs st =
     (if st = None then st
      else
        let prior = loadRecords st;
            next_recs = map (\<lambda>(k, rec). (k, note_status obs k rec)) prior
        in if \<exists>(k, rec) \<in> set prior. note_status obs k rec \<noteq> rec then saveRecords ok next_recs st else st)"

section \<open>Names this driver asserted\<close>

definition carriedMarker :: "string \<Rightarrow> string \<Rightarrow> string" where
  "carriedMarker name marker = (if marker = [] \<or> \<not> has_suffix name marker then [] else marker)"

definition publishedMarker :: "session_record \<Rightarrow> string" where
  "publishedMarker rec =
     (if sr_session_marker rec \<noteq> [] then sr_session_marker rec
      else if sr_marker_applied rec then sr_marker rec else [])"

definition markerFor :: "pane_row \<Rightarrow> records \<Rightarrow> (string \<times> int, session_record) gomap \<Rightarrow> string" where
  "markerFor r prior byRun =
     (case map_of byRun (row_run r) of
        Some rec \<Rightarrow> publishedMarker rec
      | None \<Rightarrow>
          (case map_of prior (pr_session r) of
             Some rec \<Rightarrow>
               if sr_pane rec = [] \<and> (sr_created rec = zero_time \<or> sr_created rec = pr_created r)
               then publishedMarker rec else []
           | None \<Rightarrow> []))"

definition markerForCreate :: "rec_store \<Rightarrow> string \<Rightarrow> string" where
  "markerForCreate st name =
     (if st = None then [] else publishedMarker (the_default zero_record (map_of (loadRecords st) name)))"

definition markerStateFor :: "rec_store \<Rightarrow> string \<Rightarrow> string \<Rightarrow> markerState" where
  "markerStateFor st name marker =
     (if st = None \<or> marker = [] then markerUnknown
      else case map_of (loadRecords st) name of
          None \<Rightarrow> markerUnknown
        | Some rec \<Rightarrow>
            if sr_marker rec \<noteq> marker then markerUnknown
            else if sr_marker_applied rec then markerApplied else markerAbsent)"

definition noteAssertedName :: "bool \<Rightarrow> timestamp \<Rightarrow> string \<Rightarrow> string \<Rightarrow> string \<Rightarrow> string \<Rightarrow> bool \<Rightarrow> rec_store \<Rightarrow> rec_store" where
  "noteAssertedName ok now key cwd name marker applied st =
     (if st = None then st
      else
        let recs = loadRecords st;
            rec = the_default zero_record (map_of recs key);
            rec = rec\<lparr>sr_cwd := cwd, sr_name := name, sr_marker := marker, sr_marker_applied := applied,
                      sr_session_marker := carriedMarker name marker, sr_reasserts := 0,
                      sr_name_asserted_at := now,
                      sr_first_seen := (if sr_first_seen rec = zero_time then now else sr_first_seen rec),
                      sr_last_seen := now\<rparr>
        in saveRecords ok (gm_put key rec recs) st)"

definition noteRenamed :: "bool \<Rightarrow> timestamp \<Rightarrow> string \<Rightarrow> string \<Rightarrow> string \<Rightarrow> string \<Rightarrow> timestamp \<Rightarrow> rec_store \<Rightarrow> rec_store" where
  "noteRenamed ok now old to cwd pane created st =
     (if st = None then st
      else
        let recs = loadRecords st;
            rec = the_default zero_record (map_of recs old);
            rec = rec\<lparr>sr_cwd := cwd, sr_pane := pane, sr_created := created, sr_name := to, sr_marker := [],
                      sr_marker_applied := False, sr_reasserts := 0, sr_name_asserted_at := now,
                      sr_first_seen := (if sr_first_seen rec = zero_time then now else sr_first_seen rec),
                      sr_last_seen := now\<rparr>
        in saveRecords ok (gm_put to rec (gm_del old recs)) st)"

section \<open>Drift and its repair\<close>

record name_drift =
  nd_live :: pane_row
  nd_want :: string
  nd_rec :: session_record

definition drift_of :: "(string \<times> int, session_record) gomap \<Rightarrow> pane_row \<Rightarrow> name_drift option" where
  "drift_of idx r =
     (case map_of idx (row_run r) of
        None \<Rightarrow> None
      | Some rec \<Rightarrow>
          if sr_name rec = [] \<or> sr_name rec = pr_session r then None
          else Some \<lparr>nd_live = r, nd_want = sr_name rec, nd_rec = rec\<rparr>)"

definition identityDrift :: "pane_row list \<Rightarrow> records \<Rightarrow> name_drift list" where
  "identityDrift rows prior =
     (if prior = [] then [] else List.map_filter (drift_of (indexByPaneCreated prior)) rows)"

definition maxNameReasserts :: int where
  "maxNameReasserts = 2"

definition recordReassertAttempt :: "bool \<Rightarrow> timestamp \<Rightarrow> string \<Rightarrow> session_record \<Rightarrow> bool \<Rightarrow> rec_store \<Rightarrow> rec_store" where
  "recordReassertAttempt ok now fromKey fallback succeeded st =
     (if st = None then st
      else
        let recs = loadRecords st;
            cur = the_default fallback (map_of recs fromKey);
            cur = cur\<lparr>sr_reasserts := sr_reasserts cur + 1, sr_last_seen := now\<rparr>
        in saveRecords ok
             (if succeeded then gm_put (sr_name cur) cur (gm_del fromKey recs) else gm_put fromKey cur recs) st)"

definition recordContested :: "bool \<Rightarrow> timestamp \<Rightarrow> string \<Rightarrow> session_record \<Rightarrow> rec_store \<Rightarrow> rec_store" where
  "recordContested ok now key fallback st =
     (if st = None then st
      else
        let recs = loadRecords st;
            cur = the_default fallback (map_of recs key);
            cur = cur\<lparr>sr_reasserts := maxNameReasserts, sr_last_seen := now\<rparr>
        in saveRecords ok (gm_put key cur recs) st)"

text \<open>
  \<open>reassertNames\<close>: \<open>renames nd\<close> says whether the multiplexer takes the rename. The answer
  holds the \<open>rename-session\<close> calls made, each with the drift it repairs.
\<close>

definition reassert_one ::
    "bool \<Rightarrow> timestamp \<Rightarrow> (name_drift \<Rightarrow> bool) \<Rightarrow> string set \<Rightarrow> name_drift \<Rightarrow> rec_store \<times> name_drift list \<Rightarrow> rec_store \<times> name_drift list" where
  "reassert_one ok now renames taken nd = (\<lambda>(st, calls).
     if nd_want nd \<in> taken then (recordContested ok now (pr_session (nd_live nd)) (nd_rec nd) st, calls)
     else if sr_reasserts (nd_rec nd) \<ge> maxNameReasserts then (st, calls)
     else (recordReassertAttempt ok now (pr_session (nd_live nd)) (nd_rec nd) (renames nd) st, calls @ [nd]))"

definition reassertNames ::
    "bool \<Rightarrow> timestamp \<Rightarrow> (name_drift \<Rightarrow> bool) \<Rightarrow> pane_row list \<Rightarrow> name_drift list \<Rightarrow> rec_store \<Rightarrow> rec_store \<times> name_drift list" where
  "reassertNames ok now renames rows drift st =
     fold (reassert_one ok now renames (set (map pr_session rows))) drift (st, [])"

text \<open>What one listing does to the records: the calls it makes are its answer.\<close>

definition list_records ::
    "bool \<Rightarrow> timestamp \<Rightarrow> (name_drift \<Rightarrow> bool) \<Rightarrow> pane_row list \<Rightarrow> (string, observation) gomap \<Rightarrow> rec_store \<Rightarrow> rec_store \<times> name_drift list" where
  "list_records ok now renames rows obs st =
     (let prior = loadRecords st;
          drift = identityDrift rows prior;
          st = noteSessionSet ok now rows prior st;
          st = noteStatuses ok obs st
      in reassertNames ok now renames rows drift st)"

section \<open>What a listing says about names\<close>

record identity_assertion =
  ia_asserted :: string
  ia_drifted :: "bool option"
  ia_carried :: string
  ia_asserted_at :: "timestamp option"
  ia_evidence :: string

definition assertedAtPtr :: "timestamp \<Rightarrow> timestamp option" where
  "assertedAtPtr t = (if t = zero_time then None else Some t)"

definition IdentityHeld :: "string \<Rightarrow> timestamp \<Rightarrow> string \<Rightarrow> identity_assertion" where
  "IdentityHeld asserted at1 evidence =
     \<lparr>ia_asserted = asserted, ia_drifted = Some False, ia_carried = [], ia_asserted_at = assertedAtPtr at1,
      ia_evidence = evidence\<rparr>"

definition IdentityDrifted :: "string \<Rightarrow> string \<Rightarrow> timestamp \<Rightarrow> string \<Rightarrow> identity_assertion" where
  "IdentityDrifted asserted carried at1 evidence =
     \<lparr>ia_asserted = asserted, ia_drifted = Some True, ia_carried = carried, ia_asserted_at = assertedAtPtr at1,
      ia_evidence = evidence\<rparr>"

definition IdentityUncorroborated :: "string \<Rightarrow> timestamp \<Rightarrow> string \<Rightarrow> identity_assertion" where
  "IdentityUncorroborated asserted at1 evidence =
     \<lparr>ia_asserted = asserted, ia_drifted = None, ia_carried = [], ia_asserted_at = assertedAtPtr at1,
      ia_evidence = evidence\<rparr>"

definition coherent :: "identity_assertion \<Rightarrow> bool" where
  "coherent a =
     (if ia_asserted a = [] \<or> ia_evidence a = [] then False
      else if ia_drifted a \<noteq> Some True then ia_carried a = []
      else ia_carried a \<noteq> [] \<and> ia_carried a \<noteq> ia_asserted a)"

definition driftSentence :: "(string \<Rightarrow> string) \<Rightarrow> string \<Rightarrow> string \<Rightarrow> string" where
  "driftSentence quote asserted carried =
     ''this machine last asserted '' @ quote asserted @ '' for this session and the runtime now carries '' @ quote carried"

definition heldSentence :: "(string \<Rightarrow> string) \<Rightarrow> string \<Rightarrow> string" where
  "heldSentence quote asserted =
     ''this machine asserted '' @ quote asserted @ '' for this session and the runtime carries it''"

definition uncorroboratedSentence :: "(string \<Rightarrow> string) \<Rightarrow> string \<Rightarrow> string" where
  "uncorroboratedSentence quote asserted =
     ''this machine asserted '' @ quote asserted @
     '' for this session and no read has yet matched the record to a live run; not a claim the runtime disagrees''"

definition identityAssertionFor ::
    "(string \<Rightarrow> string) \<Rightarrow> pane_row \<Rightarrow> records \<Rightarrow> (string \<times> int, session_record) gomap \<Rightarrow> identity_assertion option" where
  "identityAssertionFor quote r prior byRun =
     (let stub = (case map_of prior (pr_session r) of
          Some rec \<Rightarrow>
            if sr_name rec \<noteq> [] \<and> sr_pane rec = []
            then Some (IdentityUncorroborated (sr_name rec) (sr_name_asserted_at rec) (uncorroboratedSentence quote (sr_name rec)))
            else None
        | None \<Rightarrow> None)
      in case map_of byRun (row_run r) of
           Some rec \<Rightarrow>
             if sr_name rec \<noteq> [] then
               (if sr_name rec = pr_session r
                then Some (IdentityHeld (sr_name rec) (sr_name_asserted_at rec) (heldSentence quote (sr_name rec)))
                else Some (IdentityDrifted (sr_name rec) (pr_session r) (sr_name_asserted_at rec)
                       (driftSentence quote (sr_name rec) (pr_session r) @
                        (if sr_reasserts rec > 0
                         then ''; this machine has already put that name back '' @ show_int (sr_reasserts rec) @ '' time(s)''
                         else []))))
             else stub
         | None \<Rightarrow> stub)"

definition identityAssertionForCreate :: "(string \<Rightarrow> string) \<Rightarrow> rec_store \<Rightarrow> string \<Rightarrow> identity_assertion option" where
  "identityAssertionForCreate quote st name =
     (if st = None then None
      else case map_of (loadRecords st) name of
          None \<Rightarrow> None
        | Some rec \<Rightarrow>
            if sr_name rec = [] then None
            else Some (IdentityUncorroborated (sr_name rec) (sr_name_asserted_at rec) (uncorroboratedSentence quote (sr_name rec))))"

section \<open>Reconciliation at startup\<close>

record reconciliation =
  rc_adopted :: "session list"
  rc_orphaned :: "session list"
  rc_vanished :: "session list"

definition vanishedSession :: "string \<Rightarrow> string \<Rightarrow> session_record \<Rightarrow> string \<Rightarrow> session" where
  "vanishedSession machine sid rec why =
     \<lparr>sess_ref = \<lparr>ref_machine = machine, ref_id = sid, ref_name = sid\<rparr>, sess_runtime = [],
      sess_cwd = sr_cwd rec, sess_agent = [], sess_started_at = Some (sr_created rec),
      sess_conversation = None, sess_marker = publishedMarker rec, sess_labels = [],
      sess_state = InferredState ''dead'' (''disappeared while unobserved: '' @ why) None\<rparr>"

definition inferred_because :: "session \<Rightarrow> string \<Rightarrow> session" where
  "inferred_because s why =
     s\<lparr>sess_state := InferredState (st_status (sess_state s)) (st_evidence (sess_state s) @ why) None\<rparr>"

definition found_record :: "timestamp \<Rightarrow> string \<Rightarrow> timestamp \<Rightarrow> session_record" where
  "found_record start cwd now =
     zero_record\<lparr>sr_created := start, sr_cwd := cwd, sr_first_seen := now, sr_last_seen := now\<rparr>"

definition last_row :: "pane_row list \<Rightarrow> string \<Rightarrow> pane_row option" where
  "last_row rows sid = find (\<lambda>r. pr_session r = sid) (rev rows)"

definition reconcile_item ::
    "string \<Rightarrow> timestamp \<Rightarrow> pane_row list \<Rightarrow> records \<Rightarrow> session \<Rightarrow> reconciliation \<times> records \<Rightarrow> reconciliation \<times> records" where
  "reconcile_item machine now rows prior s = (\<lambda>(rc, seen).
     let start = (case last_row rows (sess_id s) of None \<Rightarrow> zero_time | Some r \<Rightarrow> pr_created r);
         cwd = (case last_row rows (sess_id s) of None \<Rightarrow> [] | Some r \<Rightarrow> pr_cwd r)
     in case map_of prior (sess_id s) of
          Some rec \<Rightarrow>
            if sr_created rec = start then
              (rc\<lparr>rc_adopted := rc_adopted rc @ [s]\<rparr>, gm_put (sess_id s) (rec\<lparr>sr_last_seen := now\<rparr>) seen)
            else
              (rc\<lparr>rc_vanished := rc_vanished rc @ [vanishedSession machine (sess_id s) rec ''id was reused by a session that started later''],
                  rc_orphaned := rc_orphaned rc @ [inferred_because s ''; id reused since this service last recorded it'']\<rparr>,
               gm_put (sess_id s) (found_record start cwd now) seen)
        | None \<Rightarrow>
            (rc\<lparr>rc_orphaned := rc_orphaned rc @ [inferred_because s (''; no prior record '' @ [CHR 0xE2, CHR 0x80, CHR 0x94] @ '' this service did not start it'')]\<rparr>,
             gm_put (sess_id s) (found_record start cwd now) seen))"


definition reconcile_absent ::
    "(timestamp \<Rightarrow> string) \<Rightarrow> string \<Rightarrow> records \<Rightarrow> string \<times> session_record \<Rightarrow> reconciliation \<Rightarrow> reconciliation" where
  "reconcile_absent rfc3339 machine seen = (\<lambda>(sid, rec) rc.
     if map_of seen sid \<noteq> None then rc
     else rc\<lparr>rc_vanished := rc_vanished rc @
          [vanishedSession machine sid rec (''present at '' @ rfc3339 (sr_last_seen rec) @ '', absent now'')]\<rparr>)"

text \<open>
  \<open>Reconcile\<close>: \<open>live\<close> is what the driver's own listing returned, with what it left in the
  store, \<open>rows\<close> the second read of the multiplexer (\<open>None\<close> when it fails).
\<close>

definition reconcile_pass ::
    "(timestamp \<Rightarrow> string) \<Rightarrow> string \<Rightarrow> timestamp \<Rightarrow> session list \<Rightarrow> pane_row list option \<Rightarrow> records \<Rightarrow> reconciliation \<times> records" where
  "reconcile_pass rfc3339 machine now live rows prior =
     (let (rc, seen) = fold (reconcile_item machine now (the_default [] rows) prior) live
            (\<lparr>rc_adopted = [], rc_orphaned = [], rc_vanished = []\<rparr>, [])
      in (fold (reconcile_absent rfc3339 machine seen) prior rc, seen))"

definition Reconcile ::
    "(timestamp \<Rightarrow> string) \<Rightarrow> string \<Rightarrow> bool \<Rightarrow> timestamp \<Rightarrow> (rec_store \<Rightarrow> session list \<times> rec_store) \<Rightarrow> pane_row list option \<Rightarrow>
       rec_store \<Rightarrow> reconciliation \<times> rec_store" where
  "Reconcile rfc3339 machine ok now list_sessions rows st =
     (let prior = loadRecords st;
          (live, st) = list_sessions st;
          (rc, seen) = reconcile_pass rfc3339 machine now live rows prior
      in (rc, saveRecords ok seen st))"

section \<open>Facts about the records\<close>

lemma set_gm_put_subset: "set (gm_put k v m) \<subseteq> insert (k, v) {p \<in> set m. fst p \<noteq> k} \<union> set m"
  by (induction m) auto

lemma load_save [simp]: "st \<noteq> None \<Longrightarrow> loadRecords (saveRecords True recs st) = recs"
  by (auto simp: loadRecords_def saveRecords_def)

lemma save_None [simp]: "saveRecords ok recs st = None \<longleftrightarrow> st = None"
  by (auto simp: saveRecords_def split: option.split)

lemma index_step:
  "map_of (fold (\<lambda>(k, rec) idx. if sr_pane rec = [] then idx
        else gm_put (paneCreatedOf (sr_pane rec) (sr_created rec)) rec idx) recs idx) run = Some rec \<Longrightarrow>
   map_of idx run = Some rec \<or>
   (\<exists>k. (k, rec) \<in> set recs \<and> sr_pane rec \<noteq> [] \<and> paneCreatedOf (sr_pane rec) (sr_created rec) = run)"
proof (induction recs arbitrary: idx)
  case Nil
  then show ?case by simp
next
  case (Cons p recs)
  obtain k r where p: "p = (k, r)" by (cases p)
  from Cons.IH [OF Cons.prems [unfolded p fold_simps prod.case]] show ?case
    by (auto simp: p split: if_splits)
qed

lemma index_Some:
  assumes "map_of (indexByPaneCreated recs) run = Some rec"
  shows "\<exists>k. (k, rec) \<in> set recs \<and> sr_pane rec \<noteq> [] \<and> paneCreatedOf (sr_pane rec) (sr_created rec) = run"
  using index_step [of recs "[]" run rec] assms unfolding indexByPaneCreated_def by simp

text \<open>
  Rows as the multiplexer gives them: one per session, started at a whole second; the last condition
  tells runs apart by their start, which two sessions started in the same second would defeat.
\<close>

definition rows_ok :: "pane_row list \<Rightarrow> bool" where
  "rows_ok rows \<longleftrightarrow> distinct (map pr_session rows) \<and> distinct (map pr_created rows) \<and>
     (\<forall>r \<in> set rows. pr_created r \<noteq> 0 \<and> second dvd pr_created r)"

text \<open>
  Of the asserted names: no record still waits for its first listing, starts are whole seconds, and
  the record of run \<open>t\<close> counts at least \<open>n\<close> attempts.
\<close>

definition rec_counts :: "timestamp \<Rightarrow> int \<Rightarrow> session_record \<Rightarrow> bool" where
  "rec_counts t n rec \<longleftrightarrow> (sr_name rec \<noteq> [] \<longrightarrow>
     sr_created rec \<noteq> 0 \<and> second dvd sr_created rec \<and> (sr_created rec = t \<longrightarrow> n \<le> sr_reasserts rec))"

definition counts :: "timestamp \<Rightarrow> int \<Rightarrow> rec_store \<Rightarrow> bool" where
  "counts t n st \<longleftrightarrow> gm_wf (loadRecords st) \<and> (\<forall>(k, rec) \<in> set (loadRecords st). rec_counts t n rec)"

definition placed :: "timestamp \<Rightarrow> string \<Rightarrow> rec_store \<Rightarrow> bool" where
  "placed t key st \<longleftrightarrow> (\<forall>(k, rec) \<in> set (loadRecords st). sr_name rec \<noteq> [] \<and> sr_created rec = t \<longrightarrow> k = key)"

lemma countsD: "counts t n st \<Longrightarrow> (k, rec) \<in> set (loadRecords st) \<Longrightarrow> rec_counts t n rec"
  by (auto simp: counts_def)

lemma placedD: "placed t key st \<Longrightarrow> (k, rec) \<in> set (loadRecords st) \<Longrightarrow> sr_name rec \<noteq> [] \<Longrightarrow> sr_created rec = t \<Longrightarrow> k = key"
  by (auto simp: placed_def)

lemma rec_counts_mono: "rec_counts t n rec \<Longrightarrow> m \<le> n \<Longrightarrow> rec_counts t m rec"
  by (auto simp: rec_counts_def)

lemma fresh_record_sel [simp]:
  "sr_name (fresh_record r now) = []" "sr_created (fresh_record r now) = pr_created r"
  "sr_pane (fresh_record r now) = pr_pane r"
  by (simp_all add: fresh_record_def zero_record_def)

lemma rec_counts_nameless [simp]: "sr_name rec = [] \<Longrightarrow> rec_counts t n rec"
  by (simp add: rec_counts_def)

lemma index_counts:
  assumes "counts t n st" and "map_of (indexByPaneCreated (loadRecords st)) (row_run r) = Some rec"
    and "second dvd pr_created r" and "sr_name rec \<noteq> []"
  shows "rec_counts t n rec" and "sr_created rec = pr_created r"
proof -
  obtain k where k: "(k, rec) \<in> set (loadRecords st)" "paneCreatedOf (sr_pane rec) (sr_created rec) = row_run r"
    using index_Some [OF assms(2)] by blast
  show rc: "rec_counts t n rec" using countsD [OF assms(1) k(1)] .
  then have "second dvd sr_created rec" using assms(4) by (simp add: rec_counts_def)
  moreover have "sr_created rec div second = pr_created r div second"
    using k(2) by (simp add: paneCreatedOf_def row_run_def)
  ultimately show "sr_created rec = pr_created r"
    using assms(3) by (metis dvd_div_mult_self)
qed

lemma note_row_counts:
  fixes now :: timestamp
  assumes c: "counts t n st" and r: "pr_created r \<noteq> 0" "second dvd pr_created r"
  defines "rec \<equiv> fst (note_row (loadRecords st) (indexByPaneCreated (loadRecords st)) now r)"
  shows "rec_counts t n rec" and "sr_name rec \<noteq> [] \<Longrightarrow> sr_created rec = pr_created r"
proof -
  let ?p = "loadRecords st" and ?i = "indexByPaneCreated (loadRecords st)"
  have at_key: "rec_counts t n p" if "map_of ?p (pr_session r) = Some p" for p
    using countsD [OF c map_of_SomeD [OF that]] .
  have by_run: "sr_name p \<noteq> [] \<Longrightarrow> rec_counts t n p \<and> sr_created p = pr_created r"
    if "map_of ?i (row_run r) = Some p" for p
    using index_counts [OF c that r(2)] by blast
  show "rec_counts t n rec"
    using at_key by_run r unfolding rec_def note_row_def
    by (auto simp: rec_counts_def Let_def split: option.split)
  show "sr_name rec \<noteq> [] \<Longrightarrow> sr_created rec = pr_created r"
    using at_key by_run r unfolding rec_def note_row_def
    by (auto simp: rec_counts_def Let_def split: option.splits if_splits)
qed

lemma fold_put_keys:
  "gm_wf m \<Longrightarrow> gm_wf (fold (\<lambda>r m. gm_put (f r) (g r) m) rows m)"
  by (induction rows arbitrary: m) simp_all

lemma fold_put_set:
  "set (fold (\<lambda>r m. gm_put (f r) (g r) m) rows m) \<subseteq> set m \<union> (\<lambda>r. (f r, g r)) ` set rows"
proof (induction rows arbitrary: m)
  case Nil
  then show ?case by simp
next
  case (Cons r rows)
  have "set (gm_put (f r) (g r) m) \<subseteq> insert (f r, g r) (set m)"
    using set_gm_put_subset [of "f r" "g r" m] by auto
  with Cons.IH [of "gm_put (f r) (g r) m"] show ?case by auto
qed

lemma fold_put_get:
  assumes "distinct (map f rows)" and "r \<in> set rows"
  shows "map_of (fold (\<lambda>r m. gm_put (f r) (g r) m) rows m) (f r) = Some (g r)"
  using assms
proof (induction rows arbitrary: m)
  case Nil
  then show ?case by simp
next
  case (Cons x rows)
  have other: "map_of (fold (\<lambda>r m. gm_put (f r) (g r) m) rows m) k = map_of m k" if "k \<notin> f ` set rows" for k m
    using that by (induction rows arbitrary: m) auto
  show ?case
  proof (cases "r = x")
    case True
    with Cons.prems(1) show ?thesis by (simp add: other)
  next
    case False
    with Cons show ?thesis by simp
  qed
qed

lemma fold_put_dom: "dom (map_of (fold (\<lambda>r m. gm_put (f r) (g r) m) rows m)) = dom (map_of m) \<union> f ` set rows"
  by (induction rows arbitrary: m) auto

text \<open>The records after a listing took note of its rows.\<close>

lemma noteSessionSet_load:
  assumes "st \<noteq> None"
  shows "loadRecords (noteSessionSet True now rows (loadRecords st) st) =
    (let byRun = indexByPaneCreated (loadRecords st); f = (\<lambda>r. fst (note_row (loadRecords st) byRun now r))
     in if length (loadRecords st) \<noteq> length rows \<or> (\<exists>r \<in> set rows. snd (note_row (loadRecords st) byRun now r))
        then fold (\<lambda>r m. gm_put (pr_session r) (f r) m) rows [] else loadRecords st)"
  using assms by (simp add: noteSessionSet_def Let_def del: not_None_eq)

lemma note_row_unchanged:
  assumes "\<not> snd (note_row prior byRun now r)"
  obtains rec where "map_of prior (pr_session r) = Some rec" "sr_created rec = pr_created r"
    "sr_pane rec = pr_pane r" "sr_created rec \<noteq> 0"
  using assms by (auto simp: note_row_def Let_def split: option.splits if_splits)

text \<open>A store whose records are as many as the rows and all match them has no other record.\<close>

lemma same_keys:
  assumes "gm_wf recs" and "distinct (map pr_session rows)" and "length recs = length rows"
    and "\<forall>r \<in> set rows. map_of recs (pr_session r) \<noteq> None"
  shows "fst ` set recs = pr_session ` set rows"
proof -
  have sub: "pr_session ` set rows \<subseteq> fst ` set recs"
    using assms(4) unfolding map_of_eq_None_iff by blast
  have "card (fst ` set recs) = card (pr_session ` set rows)"
    using assms(1,2,3) distinct_card [of "map fst recs"] distinct_card [of "map pr_session rows"] by simp
  then show ?thesis using card_subset_eq [OF _ sub] by simp
qed

lemma noteSessionSet_counts:
  fixes now :: timestamp
  assumes c: "counts t n st" and ok: "rows_ok rows"
  defines "st' \<equiv> noteSessionSet True now rows (loadRecords st) st"
  shows "counts t n st'" and "(\<forall>r \<in> set rows. pr_created r = t \<longrightarrow> pr_session r = key) \<Longrightarrow> placed t key st'"
proof -
  let ?p = "loadRecords st" let ?i = "indexByPaneCreated ?p"
  let ?f = "\<lambda>r. fst (note_row ?p ?i now r)"
  have rw: "pr_created r \<noteq> 0" "second dvd pr_created r" if "r \<in> set rows" for r
    using ok that by (auto simp: rows_ok_def)
  note nr = note_row_counts [OF c, of _ now]
  have each: "\<exists>r \<in> set rows. pr_session r = k \<and> sr_created rec = pr_created r"
    if "st \<noteq> None" and "(k, rec) \<in> set (loadRecords st')" and "sr_name rec \<noteq> []" for k rec
  proof (cases "length ?p \<noteq> length rows \<or> (\<exists>r \<in> set rows. snd (note_row ?p ?i now r))")
    case True
    with that have "(k, rec) \<in> set (fold (\<lambda>r m. gm_put (pr_session r) (?f r) m) rows [])"
      unfolding st'_def noteSessionSet_load [OF that(1)] Let_def by simp
    then obtain r where r: "r \<in> set rows" "k = pr_session r" "rec = ?f r"
      using fold_put_set [of pr_session ?f rows "[]"] by auto
    then show ?thesis using nr(2) rw that(3) by blast
  next
    case False
    then have len: "length ?p = length rows" and same: "\<And>r. r \<in> set rows \<Longrightarrow> \<not> snd (note_row ?p ?i now r)"
      by auto
    have ex: "\<exists>rec. map_of ?p (pr_session r) = Some rec \<and> sr_created rec = pr_created r" if "r \<in> set rows" for r
      using note_row_unchanged [OF same [OF that]] by metis
    have "fst ` set ?p = pr_session ` set rows"
    proof (rule same_keys)
      show "\<forall>r \<in> set rows. map_of ?p (pr_session r) \<noteq> None" using ex by fastforce
    qed (use c ok len in \<open>auto simp: counts_def rows_ok_def\<close>)
    moreover have m: "(k, rec) \<in> set ?p"
      using that(2) False unfolding st'_def noteSessionSet_load [OF that(1)] Let_def by simp
    ultimately obtain r where "r \<in> set rows" "k = pr_session r" by force
    moreover have "map_of ?p k = Some rec" using gm_get_in [OF _ m] c by (simp add: counts_def)
    ultimately show ?thesis using ex [of r] by auto
  qed
  show "counts t n st'"
  proof (cases "st = None \<or> \<not> (length ?p \<noteq> length rows \<or> (\<exists>r \<in> set rows. snd (note_row ?p ?i now r)))")
    case True
    then have "loadRecords st' = ?p"
      by (cases "st = None")
        (simp_all add: st'_def noteSessionSet_load noteSessionSet_def [where st = None] Let_def del: not_None_eq)
    with c show ?thesis by (simp add: counts_def)
  next
    case False
    then have l: "loadRecords st' = fold (\<lambda>r m. gm_put (pr_session r) (?f r) m) rows []"
      unfolding st'_def by (subst noteSessionSet_load) (auto simp: Let_def)
    have "rec_counts t n rec" if "(k, rec) \<in> set (loadRecords st')" for k rec
      using that fold_put_set [of pr_session ?f rows "[]"] nr(1) rw unfolding l by auto
    then show ?thesis unfolding counts_def using fold_put_keys [of "[]" pr_session ?f rows] l by auto
  qed
  show "placed t key st'" if "\<forall>r \<in> set rows. pr_created r = t \<longrightarrow> pr_session r = key"
  proof (cases "st = None")
    case True
    then show ?thesis by (simp add: placed_def st'_def noteSessionSet_def loadRecords_def)
  next
    case False
    then show ?thesis using each that unfolding placed_def by fastforce
  qed
qed

lemma note_status_sel [simp]:
  "sr_name (note_status obs k rec) = sr_name rec" "sr_created (note_status obs k rec) = sr_created rec"
  "sr_reasserts (note_status obs k rec) = sr_reasserts rec" "sr_pane (note_status obs k rec) = sr_pane rec"
  by (simp_all add: note_status_def split: option.split)

lemma noteStatuses_load:
  "loadRecords (noteStatuses True obs st) = loadRecords st \<or>
   loadRecords (noteStatuses True obs st) = map (\<lambda>(k, rec). (k, note_status obs k rec)) (loadRecords st)"
  by (simp add: noteStatuses_def Let_def)

lemma noteStatuses_counts:
  assumes "counts t n st"
  shows "counts t n (noteStatuses True obs st)"
    and "placed t key st \<Longrightarrow> placed t key (noteStatuses True obs st)"
proof -
  have "rec_counts t n (note_status obs k rec) = rec_counts t n rec" for k rec
    by (simp add: rec_counts_def)
  then show "counts t n (noteStatuses True obs st)"
    using assms noteStatuses_load [of obs st] unfolding counts_def by (elim disjE) (simp_all add: split_beta image_iff)
  show "placed t key st \<Longrightarrow> placed t key (noteStatuses True obs st)"
    using noteStatuses_load [of obs st] unfolding placed_def by (elim disjE) (fastforce simp: image_iff)+
qed

text \<open>Drift entries: a live row and a record of its run that asserts another name.\<close>

definition drift_ok :: "timestamp \<Rightarrow> int \<Rightarrow> name_drift \<Rightarrow> bool" where
  "drift_ok t n nd \<longleftrightarrow> rec_counts t n (nd_rec nd) \<and> sr_name (nd_rec nd) \<noteq> [] \<and>
     sr_created (nd_rec nd) = pr_created (nd_live nd)"

abbreviation drift_start :: "name_drift \<Rightarrow> timestamp" where
  "drift_start nd \<equiv> pr_created (nd_live nd)"

lemma drift_of_Some:
  assumes "drift_of idx r = Some nd"
  shows "nd_live nd = r" and "map_of idx (row_run r) = Some (nd_rec nd)" and "sr_name (nd_rec nd) \<noteq> []"
    and "nd_want nd = sr_name (nd_rec nd)" and "nd_want nd \<noteq> pr_session r"
  using assms by (auto simp: drift_of_def split: option.splits if_splits)

lemma identityDrift_ok:
  assumes "counts t n st" and "rows_ok rows"
  shows "\<forall>nd \<in> set (identityDrift rows (loadRecords st)). nd_live nd \<in> set rows \<and> drift_ok t n nd"
    and "distinct (map drift_start (identityDrift rows (loadRecords st)))"
proof -
  let ?i = "indexByPaneCreated (loadRecords st)"
  have one: "nd_live nd = r \<and> drift_ok t n nd" if "r \<in> set rows" "drift_of ?i r = Some nd" for r nd
    using drift_of_Some [OF that(2)] index_counts [OF assms(1), of r "nd_rec nd"] that(1) assms(2)
    by (auto simp: drift_ok_def rows_ok_def)
  then show "\<forall>nd \<in> set (identityDrift rows (loadRecords st)). nd_live nd \<in> set rows \<and> drift_ok t n nd"
    by (auto simp: identityDrift_def List.map_filter_def)
  have "map drift_start (List.map_filter (drift_of idx) rows) =
      map pr_created (filter (\<lambda>r. drift_of idx r \<noteq> None) rows)" for idx
  proof (induction rows)
    case Nil
    then show ?case by (simp add: List.map_filter_def)
  next
    case (Cons r rows)
    show ?case
    proof (cases "drift_of idx r")
      case None
      with Cons show ?thesis by (simp add: List.map_filter_def)
    next
      case (Some nd)
      then have "nd_live nd = r" by (rule drift_of_Some(1))
      with Some Cons show ?thesis by (simp add: List.map_filter_def)
    qed
  qed
  moreover have "distinct (map pr_created (filter (\<lambda>r. drift_of ?i r \<noteq> None) rows))"
    using assms(2) by (simp add: rows_ok_def distinct_map_filter)
  ultimately have "distinct (map drift_start (List.map_filter (drift_of ?i) rows))" by metis
  then show "distinct (map drift_start (identityDrift rows (loadRecords st)))"
    by (simp add: identityDrift_def)
qed

text \<open>
  One repair step replaces the record of the row it is about (or uses the one the drift was found
  with) by one whose count is not smaller; with an attempt it is one larger.
\<close>

lemma reassert_one_records:
  assumes "reassert_one True now renames taken nd (st, calls) = (st', calls')" and "st \<noteq> None"
  obtains
    "calls' = calls" "loadRecords st' = loadRecords st" "nd_want nd \<notin> taken" "maxNameReasserts \<le> sr_reasserts (nd_rec nd)"
  | k cur where "loadRecords st' = gm_put k cur (gm_del (pr_session (nd_live nd)) (loadRecords st)) \<or>
        loadRecords st' = gm_put (pr_session (nd_live nd)) cur (loadRecords st)"
      "sr_name cur = sr_name (the_default (nd_rec nd) (map_of (loadRecords st) (pr_session (nd_live nd))))"
      "sr_created cur = sr_created (the_default (nd_rec nd) (map_of (loadRecords st) (pr_session (nd_live nd))))"
      "calls' = calls \<and> sr_reasserts cur = maxNameReasserts \<or>
       calls' = calls @ [nd] \<and> sr_reasserts (nd_rec nd) < maxNameReasserts \<and>
         sr_reasserts cur = sr_reasserts (the_default (nd_rec nd) (map_of (loadRecords st) (pr_session (nd_live nd)))) + 1"
proof -
  let ?key = "pr_session (nd_live nd)"
  let ?old = "the_default (nd_rec nd) (map_of (loadRecords st) ?key)"
  consider "nd_want nd \<in> taken" | "nd_want nd \<notin> taken" "maxNameReasserts \<le> sr_reasserts (nd_rec nd)"
    | "nd_want nd \<notin> taken" "sr_reasserts (nd_rec nd) < maxNameReasserts" by fastforce
  then show ?thesis
  proof cases
    case 1
    then show ?thesis
      using assms that(2) [of ?key "?old\<lparr>sr_reasserts := maxNameReasserts, sr_last_seen := now\<rparr>"]
      by (auto simp: reassert_one_def recordContested_def Let_def)
  next
    case 2
    then show ?thesis using assms that(1) by (simp add: reassert_one_def)
  next
    case 3
    let ?cur = "?old\<lparr>sr_reasserts := sr_reasserts ?old + 1, sr_last_seen := now\<rparr>"
    show ?thesis
      using assms 3 that(2) [of "if renames nd then sr_name ?old else ?key" ?cur]
      by (auto simp: reassert_one_def recordReassertAttempt_def Let_def split: if_splits)
  qed
qed

lemma set_put_del: "(k', rec) \<in> set (gm_put k cur (gm_del key recs)) \<Longrightarrow>
    (k', rec) = (k, cur) \<or> ((k', rec) \<in> set recs \<and> k' \<noteq> key)"
  using set_gm_put_subset [of k cur "gm_del key recs"] by (auto simp: set_gm_del)

lemma set_put: "(k', rec) \<in> set (gm_put k cur recs) \<Longrightarrow> gm_wf recs \<Longrightarrow>
    (k', rec) = (k, cur) \<or> ((k', rec) \<in> set recs \<and> k' \<noteq> k)"
  by (auto simp: set_gm_put)

definition calls_about :: "timestamp \<Rightarrow> name_drift list \<Rightarrow> nat" where
  "calls_about t calls = length (filter (\<lambda>nd. drift_start nd = t) calls)"

lemma calls_about_simps [simp]:
  "calls_about t [] = 0" "calls_about t (xs @ ys) = calls_about t xs + calls_about t ys"
  "calls_about t [nd] = (if drift_start nd = t then 1 else 0)"
  by (simp_all add: calls_about_def)

lemma reassert_one_None [simp]: "fst (reassert_one ok now renames taken nd (None, calls)) = None"
  by (simp add: reassert_one_def recordContested_def recordReassertAttempt_def)

lemma reassert_one_not_None: "st \<noteq> None \<Longrightarrow> fst (reassert_one ok now renames taken nd (st, calls)) \<noteq> None"
  by (simp add: reassert_one_def recordContested_def recordReassertAttempt_def Let_def del: not_None_eq)

text \<open>The record a repair starts from counts no less than the bound and is placed where it was.\<close>

lemma old_record:
  assumes c: "counts t n st" and d: "drift_ok t n nd"
  defines "old \<equiv> the_default (nd_rec nd) (map_of (loadRecords st) (pr_session (nd_live nd)))"
  shows "rec_counts t n old"
    and "placed t key st \<Longrightarrow> sr_name old \<noteq> [] \<Longrightarrow> sr_created old = t \<Longrightarrow>
      pr_session (nd_live nd) = key \<or> drift_start nd = t"
proof -
  have cases: "old = nd_rec nd \<or> (pr_session (nd_live nd), old) \<in> set (loadRecords st)"
    by (cases "map_of (loadRecords st) (pr_session (nd_live nd))") (auto simp: old_def dest: map_of_SomeD)
  then show "rec_counts t n old" using d countsD [OF c] by (auto simp: drift_ok_def)
  show "placed t key st \<Longrightarrow> sr_name old \<noteq> [] \<Longrightarrow> sr_created old = t \<Longrightarrow>
      pr_session (nd_live nd) = key \<or> drift_start nd = t"
    using cases d placedD by (fastforce simp: drift_ok_def)
qed

lemma reassert_other:
  assumes c: "counts t n st" and d: "drift_ok t n nd" and n: "n \<le> maxNameReasserts" and st: "st \<noteq> None"
    and run: "reassert_one True now renames taken nd (st, calls) = (st', calls')" and t: "drift_start nd \<noteq> t"
  shows "counts t n st'" and "calls_about t calls' = calls_about t calls"
    and "placed t key st \<Longrightarrow> pr_session (nd_live nd) \<noteq> key \<Longrightarrow> placed t key st'"
proof -
  let ?key = "pr_session (nd_live nd)" let ?recs = "loadRecords st"
  let ?old = "the_default (nd_rec nd) (map_of ?recs ?key)"
  have wf: "gm_wf ?recs" using c by (simp add: counts_def)
  note old = old_record [OF c d]
  have "counts t n st' \<and> calls_about t calls' = calls_about t calls \<and>
      (placed t key st \<longrightarrow> ?key \<noteq> key \<longrightarrow> placed t key st')" for key
  proof (cases rule: reassert_one_records [OF run st])
    case 1
    then show ?thesis using c by (simp add: counts_def placed_def)
  next
    case (2 k cur)
    have cur: "rec_counts t n cur"
      using 2(2,3,4) old(1) n by (auto simp: rec_counts_def)
    have entry: "(k', rec) \<in> set (loadRecords st') \<Longrightarrow> rec = cur \<or> (k', rec) \<in> set ?recs" for k' rec
      using 2(1) set_put_del set_put [OF _ wf] by (metis prod.inject)
    have wf': "gm_wf (loadRecords st')" using 2(1) wf by auto
    have "counts t n st'" unfolding counts_def using wf' entry cur countsD [OF c] by blast
    moreover have "placed t key st'" if p: "placed t key st" and ne: "?key \<noteq> key"
    proof -
      have "\<not> (sr_name cur \<noteq> [] \<and> sr_created cur = t)"
        using old(2) [OF p] 2(2,3) ne t by metis
      then show ?thesis unfolding placed_def using entry placedD [OF p] by blast
    qed
    moreover have "calls_about t calls' = calls_about t calls" using 2(4) t by auto
    ultimately show ?thesis by blast
  qed
  then show "counts t n st'" and "calls_about t calls' = calls_about t calls"
    and "placed t key st \<Longrightarrow> ?key \<noteq> key \<Longrightarrow> placed t key st'" by blast+
qed

lemma reassert_self:
  assumes c: "counts t n st" and d: "drift_ok t n nd" and n: "n \<le> maxNameReasserts" and st: "st \<noteq> None"
    and run: "reassert_one True now renames taken nd (st, calls) = (st', calls')" and t: "drift_start nd = t"
    and p: "placed t (pr_session (nd_live nd)) st"
  shows "calls' = calls \<and> counts t n st' \<or>
    calls' = calls @ [nd] \<and> n < maxNameReasserts \<and> counts t (n + 1) st'"
proof (cases rule: reassert_one_records [OF run st])
  case 1
  then show ?thesis using c by (simp add: counts_def)
next
  let ?key = "pr_session (nd_live nd)" let ?recs = "loadRecords st"
  let ?old = "the_default (nd_rec nd) (map_of ?recs ?key)"
  case (2 k cur)
  have wf: "gm_wf ?recs" using c by (simp add: counts_def)
  have wf': "gm_wf (loadRecords st')" using 2(1) wf by auto
  have entry: "rec = cur \<or> ((k', rec) \<in> set ?recs \<and> k' \<noteq> ?key)" if "(k', rec) \<in> set (loadRecords st')" for k' rec
    using that 2(1) set_put_del set_put [OF _ wf] by (metis prod.inject)
  have others: "rec_counts t m rec" if "(k', rec) \<in> set ?recs" "k' \<noteq> ?key" for k' rec m
    using countsD [OF c that(1)] placedD [OF p that(1)] that(2) by (auto simp: rec_counts_def)
  note old = old_record(1) [OF c d]
  from 2(4) show ?thesis
  proof
    assume a: "calls' = calls \<and> sr_reasserts cur = maxNameReasserts"
    then have "rec_counts t n cur" using 2(2,3) old n by (auto simp: rec_counts_def)
    then have "counts t n st'" unfolding counts_def using wf' entry others by blast
    then show ?thesis using a by simp
  next
    assume a: "calls' = calls @ [nd] \<and> sr_reasserts (nd_rec nd) < maxNameReasserts \<and> sr_reasserts cur = sr_reasserts ?old + 1"
    then have "rec_counts t (n + 1) cur" using 2(2,3) old by (auto simp: rec_counts_def)
    then have "counts t (n + 1) st'" unfolding counts_def using wf' entry others by blast
    moreover have "n < maxNameReasserts" using a d t by (auto simp: drift_ok_def rec_counts_def)
    ultimately show ?thesis using a by simp
  qed
qed

text \<open>All repairs of one listing: those about other runs, then the one about this run, then others.\<close>

lemma reassert_fold_other:
  assumes "counts t n st" and "\<forall>nd \<in> set ds. drift_ok t n nd \<and> drift_start nd \<noteq> t"
    and "n \<le> maxNameReasserts" and "st \<noteq> None"
    and "fold (reassert_one True now renames taken) ds (st, calls) = (st', calls')"
  shows "counts t n st' \<and> calls_about t calls' = calls_about t calls \<and> st' \<noteq> None \<and>
    ((\<forall>nd \<in> set ds. pr_session (nd_live nd) \<noteq> key) \<longrightarrow> placed t key st \<longrightarrow> placed t key st')"
  using assms
proof (induction ds arbitrary: st calls)
  case Nil
  then show ?case by simp
next
  case (Cons nd ds)
  obtain st1 calls1 where one: "reassert_one True now renames taken nd (st, calls) = (st1, calls1)"
    by (cases "reassert_one True now renames taken nd (st, calls)")
  have nd: "drift_ok t n nd" "drift_start nd \<noteq> t" using Cons.prems(2) by auto
  note step = reassert_other [OF Cons.prems(1) nd(1) Cons.prems(3,4) one nd(2)]
  have "st1 \<noteq> None" using reassert_one_not_None [OF Cons.prems(4), of True now renames taken nd calls] one by simp
  with Cons.IH [OF step(1) _ Cons.prems(3), of calls1] Cons.prems(2,5) one step(2,3) show ?case
    by (auto simp del: not_None_eq)
qed

lemma drift_ok_mono: "drift_ok t n nd \<Longrightarrow> drift_start nd \<noteq> t \<Longrightarrow> drift_ok t m nd"
  by (auto simp: drift_ok_def rec_counts_def)

lemma reassert_fold:
  assumes c: "counts t n st" and ds: "\<forall>nd \<in> set ds. drift_ok t n nd" "distinct (map drift_start ds)"
      "inj_on drift_start (set ds)"
    and keys: "\<forall>a \<in> set ds. \<forall>b \<in> set ds. pr_session (nd_live a) = pr_session (nd_live b) \<longrightarrow> drift_start a = drift_start b"
    and n: "n \<le> maxNameReasserts" and st: "st \<noteq> None"
    and p: "\<forall>nd \<in> set ds. drift_start nd = t \<longrightarrow> placed t (pr_session (nd_live nd)) st"
    and run: "fold (reassert_one True now renames taken) ds (st, []) = (st', calls')"
  shows "counts t (n + int (calls_about t calls')) st' \<and> n + int (calls_about t calls') \<le> maxNameReasserts"
proof (cases "\<exists>nd \<in> set ds. drift_start nd = t")
  case False
  with reassert_fold_other [OF c _ n st run] ds(1) n show ?thesis by auto
next
  case True
  then obtain nd as bs where split: "ds = as @ nd # bs" and t: "drift_start nd = t"
    by (metis split_list)
  have other: "drift_start x \<noteq> t" if "x \<in> set as \<union> set bs" for x
  proof
    assume "drift_start x = t"
    then have "t \<in> drift_start ` set as \<union> drift_start ` set bs" using that by blast
    then show False using ds(2) t unfolding split by auto
  qed
  obtain st1 calls1 where one: "fold (reassert_one True now renames taken) as (st, []) = (st1, calls1)"
    by (cases "fold (reassert_one True now renames taken) as (st, [])")
  obtain st2 calls2 where two: "reassert_one True now renames taken nd (st1, calls1) = (st2, calls2)"
    by (cases "reassert_one True now renames taken nd (st1, calls1)")
  have three: "fold (reassert_one True now renames taken) bs (st2, calls2) = (st', calls')"
    using run one two by (simp add: split)
  have "\<forall>x \<in> set as. drift_ok t n x \<and> drift_start x \<noteq> t" using ds(1) other by (simp add: split)
  moreover have "\<forall>x \<in> set as. pr_session (nd_live x) \<noteq> pr_session (nd_live nd)"
  proof
    fix x assume x: "x \<in> set as"
    then have "x \<in> set ds" "nd \<in> set ds" by (simp_all add: split)
    with keys have "pr_session (nd_live x) = pr_session (nd_live nd) \<longrightarrow> drift_start x = drift_start nd" by blast
    with other [of x] x t show "pr_session (nd_live x) \<noteq> pr_session (nd_live nd)" by auto
  qed
  moreover have "placed t (pr_session (nd_live nd)) st" using p t by (simp add: split)
  ultimately have A: "counts t n st1" "calls_about t calls1 = 0" "st1 \<noteq> None" "placed t (pr_session (nd_live nd)) st1"
    using reassert_fold_other [OF c _ n st one, of "pr_session (nd_live nd)"] by simp_all
  have st2: "st2 \<noteq> None" using reassert_one_not_None [OF A(3), of True now renames taken nd calls1] two by simp
  have nd: "drift_ok t n nd" using ds(1) by (simp add: split)
  have bs: "\<forall>x \<in> set bs. drift_ok t m x \<and> drift_start x \<noteq> t" for m
    using ds(1) other drift_ok_mono by (simp add: split) blast
  from reassert_self [OF A(1) nd n A(3) two t A(4)] show ?thesis
  proof
    assume "calls2 = calls1 \<and> counts t n st2"
    with reassert_fold_other [OF _ bs n st2 three] A(2) n show ?thesis by auto
  next
    assume b: "calls2 = calls1 @ [nd] \<and> n < maxNameReasserts \<and> counts t (n + 1) st2"
    with reassert_fold_other [OF _ bs _ st2 three, of "n + 1"] A(2) t show ?thesis by auto
  qed
qed

lemma list_records_counts:
  assumes c: "counts t n st" and ok: "rows_ok rows" and n: "n \<le> maxNameReasserts"
    and run: "list_records True now renames rows obs st = (st', calls)"
  shows "counts t (n + int (calls_about t calls)) st' \<and> n + int (calls_about t calls) \<le> maxNameReasserts"
proof (cases "st = None")
  case True
  then have "identityDrift rows (loadRecords st) = []" by (simp add: identityDrift_def loadRecords_def)
  then have "calls = []" "st' = st"
    using run True by (auto simp: list_records_def Let_def reassertNames_def noteSessionSet_def noteStatuses_def)
  with c n show ?thesis by simp
next
  case False
  let ?drift = "identityDrift rows (loadRecords st)"
  let ?st = "noteStatuses True obs (noteSessionSet True now rows (loadRecords st) st)"
  note d = identityDrift_ok [OF c ok]
  have inj: "nd_live a = nd_live b" if "a \<in> set ?drift" "b \<in> set ?drift" "drift_start a = drift_start b" for a b
    using that d(1) ok by (auto simp: rows_ok_def distinct_map dest: inj_onD)
  have ses: "drift_start a = drift_start b"
    if "a \<in> set ?drift" "b \<in> set ?drift" "pr_session (nd_live a) = pr_session (nd_live b)" for a b
    using that d(1) ok by (metis distinct_map inj_onD rows_ok_def)
  have place: "placed t (pr_session (nd_live nd)) ?st" if "nd \<in> set ?drift" "drift_start nd = t" for nd
  proof -
    have "\<forall>r \<in> set rows. pr_created r = t \<longrightarrow> pr_session r = pr_session (nd_live nd)"
      using that d(1) ok by (metis distinct_map inj_onD rows_ok_def)
    then have "placed t (pr_session (nd_live nd)) (noteSessionSet True now rows (loadRecords st) st)"
      by (rule noteSessionSet_counts(2) [OF c ok])
    then show ?thesis by (rule noteStatuses_counts(2) [OF noteSessionSet_counts(1) [OF c ok]])
  qed
  have cst: "counts t n ?st" by (intro noteStatuses_counts(1) noteSessionSet_counts [OF c ok])
  have ne: "?st \<noteq> None"
    using False by (simp add: noteStatuses_def noteSessionSet_def Let_def del: not_None_eq)
  have fold: "fold (reassert_one True now renames (set (map pr_session rows))) ?drift (?st, []) = (st', calls)"
    using run by (simp add: list_records_def Let_def reassertNames_def)
  have "inj_on drift_start (set ?drift)" using d(2) by (simp add: distinct_map)
  from reassert_fold [OF cst _ d(2) this _ n ne _ fold] d(1) ses place show ?thesis by blast
qed

text \<open>Successive listings, each with the rows it finds and the renames the multiplexer takes.\<close>

record listing_pass =
  lp_now :: timestamp
  lp_renames :: "name_drift \<Rightarrow> bool"
  lp_rows :: "pane_row list"
  lp_obs :: "(string, observation) gomap"

fun list_passes :: "listing_pass list \<Rightarrow> rec_store \<Rightarrow> rec_store \<times> name_drift list" where
  "list_passes [] st = (st, [])"
| "list_passes (p # ps) st =
     (let (st1, calls) = list_records True (lp_now p) (lp_renames p) (lp_rows p) (lp_obs p) st;
          (st2, later) = list_passes ps st1
      in (st2, calls @ later))"

lemma list_passes_counts:
  assumes "counts t n st" and "\<forall>p \<in> set ps. rows_ok (lp_rows p)" and "n \<le> maxNameReasserts"
    and "list_passes ps st = (st', calls)"
  shows "n + int (calls_about t calls) \<le> maxNameReasserts"
  using assms
proof (induction ps arbitrary: st n calls)
  case Nil
  then show ?case by simp
next
  case (Cons p ps)
  obtain st1 c1 where one: "list_records True (lp_now p) (lp_renames p) (lp_rows p) (lp_obs p) st = (st1, c1)"
    by (cases "list_records True (lp_now p) (lp_renames p) (lp_rows p) (lp_obs p) st")
  have two: "list_passes ps st1 = (st', snd (list_passes ps st1))" and calls: "calls = c1 @ snd (list_passes ps st1)"
    using Cons.prems(4) one by (simp_all add: Let_def split: prod.splits)
  have "counts t (n + int (calls_about t c1)) st1 \<and> n + int (calls_about t c1) \<le> maxNameReasserts"
    using list_records_counts [OF Cons.prems(1) _ Cons.prems(3) one] Cons.prems(2) by simp
  then have "n + int (calls_about t c1) + int (calls_about t (snd (list_passes ps st1))) \<le> maxNameReasserts"
    using Cons.IH [OF _ _ _ two] Cons.prems(2) by simp
  then show ?case by (simp add: calls)
qed

section \<open>Properties\<close>

text \<open>
  C12: Putting a name back ends. However the sessions of the machine are renamed by others between
  listings, and whether the multiplexer takes the renames or not, a driver that has attempted
  \<open>n\<close> repairs of the name it asserted for a run attempts at most \<open>2 - n\<close> more, over any
  number of listings of one process in which it asserts no name anew, the saves of the records
  succeed, and the sessions' starts are distinct whole seconds. (A restart gives an attempt back, as a lemma
  further down shows.)
\<close>

theorem rename_war_is_bounded:
  assumes "counts t n st" and "\<forall>p \<in> set ps. rows_ok (lp_rows p)" and "0 \<le> n" and "n \<le> maxNameReasserts"
  shows "int (calls_about t (snd (list_passes ps st))) \<le> 2 - n"
  using list_passes_counts [OF assms(1,2,4) prod.collapse [symmetric]] by (simp add: maxNameReasserts_def)

definition demo_row :: "string \<Rightarrow> pane_row" where
  "demo_row nm = \<lparr>pr_session = nm, pr_pane = ''%1'', pr_cwd = ''/w'', pr_created = 5 * second\<rparr>"

definition demo_asserted :: rec_store where
  "demo_asserted = noteRenamed True 9 ''old'' ''new'' ''/w'' ''%1'' (5 * second) (Some NothingStored)"

definition demo_reverted :: "listing_pass list" where
  "demo_reverted = replicate 5 \<lparr>lp_now = 9, lp_renames = (\<lambda>_. True), lp_rows = [demo_row ''old''], lp_obs = []\<rparr>"

lemma rename_war_is_bounded_witness:
  "int (calls_about (5 * second) (snd (list_passes demo_reverted demo_asserted))) \<le> 2 - 0 \<and>
   map nd_want (snd (list_passes demo_reverted demo_asserted)) = [''new'', ''new'']"
proof
  have "counts (5 * second) 0 demo_asserted" by code_simp
  moreover have "\<forall>p \<in> set demo_reverted. rows_ok (lp_rows p)" by code_simp
  ultimately show "int (calls_about (5 * second) (snd (list_passes demo_reverted demo_asserted))) \<le> 2 - 0"
    by (rule rename_war_is_bounded) (simp_all add: maxNameReasserts_def)
  show "map nd_want (snd (list_passes demo_reverted demo_asserted)) = [''new'', ''new'']" by code_simp
qed

text \<open>
  C39: What a listing or a create says about the identity of a named session is always a coherent
  assertion, so it can be encoded: it carries a name and evidence, and a carried name exactly when
  it reports a drift, which then differs from the asserted one.
\<close>

theorem identity_assertions_are_coherent:
  assumes "pr_session r \<noteq> []"
    and "identityAssertionFor quote r prior byRun = Some a \<or> identityAssertionForCreate quote st name = Some a"
  shows "coherent a"
proof -
  have "coherent a" if "identityAssertionFor quote r prior byRun = Some a"
    using that assms(1)
    by (auto simp: identityAssertionFor_def coherent_def IdentityHeld_def IdentityDrifted_def IdentityUncorroborated_def
        heldSentence_def driftSentence_def uncorroboratedSentence_def Let_def split: option.splits if_splits)
  moreover have "coherent a" if "identityAssertionForCreate quote st name = Some a"
    using that
    by (auto simp: identityAssertionForCreate_def coherent_def IdentityUncorroborated_def uncorroboratedSentence_def split: option.splits if_splits)
  ultimately show ?thesis using assms(2) by blast
qed

lemma identity_assertions_are_coherent_witness:
  "\<exists>a. identityAssertionFor id (demo_row ''old'') (loadRecords demo_asserted) (indexByPaneCreated (loadRecords demo_asserted)) = Some a \<and>
    ia_carried a = ''old'' \<and> coherent a"
proof -
  have "map_option ia_carried (identityAssertionFor id (demo_row ''old'') (loadRecords demo_asserted)
      (indexByPaneCreated (loadRecords demo_asserted))) = Some ''old''" by code_simp
  then obtain a where a: "identityAssertionFor id (demo_row ''old'') (loadRecords demo_asserted)
      (indexByPaneCreated (loadRecords demo_asserted)) = Some a" "ia_carried a = ''old''" by auto
  have "coherent a" by (rule identity_assertions_are_coherent [OF _ disjI1 [OF a(1)]]) (simp add: demo_row_def)
  with a show ?thesis by blast
qed

text \<open>What a listing leaves under a session's name.\<close>

definition kept_name :: "records \<Rightarrow> pane_row \<Rightarrow> string" where
  "kept_name prior r =
     (case map_of prior (pr_session r) of
        Some rec \<Rightarrow> if sr_created rec = 0 \<or> sr_created rec = pr_created r then sr_name rec else []
      | None \<Rightarrow>
          (case map_of (indexByPaneCreated prior) (row_run r) of Some rec \<Rightarrow> sr_name rec | None \<Rightarrow> []))"

lemma note_row_kept:
  assumes "\<forall>(k, rec) \<in> set prior. second dvd sr_created rec" and "second dvd pr_created r"
  shows "let rec = fst (note_row prior (indexByPaneCreated prior) now r)
    in sr_created rec = pr_created r \<and> sr_pane rec = pr_pane r \<and> sr_name rec = kept_name prior r"
proof -
  have "sr_created rec = pr_created r \<and> sr_pane rec = pr_pane r"
    if i: "map_of (indexByPaneCreated prior) (row_run r) = Some rec" for rec
  proof -
    obtain k where k: "(k, rec) \<in> set prior" "paneCreatedOf (sr_pane rec) (sr_created rec) = row_run r"
      using index_Some [OF i] by blast
    then have "second dvd sr_created rec" using assms(1) by auto
    moreover have "sr_created rec div second = pr_created r div second" "sr_pane rec = pr_pane r"
      using k(2) by (simp_all add: paneCreatedOf_def row_run_def)
    ultimately show ?thesis using assms(2) by (metis dvd_div_mult_self)
  qed
  then show ?thesis by (auto simp: note_row_def kept_name_def Let_def split: option.split)
qed

text \<open>
  C26: What taking in an enumeration leaves on record (\<open>noteSessionSet\<close>; the repairs of names that a listing
  makes afterwards write records of their own). When the multiplexer answered, with distinct names and
  distinct starts in whole seconds, and there is a store, the driver remembers exactly the sessions
  of the enumeration: one record for each row, under its name, with the start and the pane of the run
  that answers to it now, and with the name this driver asserted for that run, also when the run was
  filed under another name before; a session found under a recycled name inherits nothing.
\<close>

theorem records_follow_live_sessions:
  fixes now :: timestamp
  assumes "rows_ok rows" and "st \<noteq> None" and "gm_wf (loadRecords st)"
    and "\<forall>(k, rec) \<in> set (loadRecords st). second dvd sr_created rec"
  defines "recs \<equiv> loadRecords (noteSessionSet True now rows (loadRecords st) st)"
  shows "dom (map_of recs) = pr_session ` set rows \<and>
    (\<forall>r \<in> set rows. \<exists>rec. map_of recs (pr_session r) = Some rec \<and> sr_created rec = pr_created r \<and>
       sr_pane rec = pr_pane r \<and> sr_name rec = kept_name (loadRecords st) r)"
proof -
  let ?p = "loadRecords st" let ?i = "indexByPaneCreated ?p"
  let ?f = "\<lambda>r. fst (note_row ?p ?i now r)"
  have rw: "second dvd pr_created r" if "r \<in> set rows" for r
    using assms(1) that by (auto simp: rows_ok_def)
  have ds: "distinct (map pr_session rows)" using assms(1) by (simp add: rows_ok_def)
  show ?thesis
  proof (cases "length ?p \<noteq> length rows \<or> (\<exists>r \<in> set rows. snd (note_row ?p ?i now r))")
    case True
    then have recs: "recs = fold (\<lambda>r m. gm_put (pr_session r) (?f r) m) rows []"
      unfolding recs_def noteSessionSet_load [OF assms(2)] Let_def by simp
    have "map_of recs (pr_session r) = Some (?f r)" if "r \<in> set rows" for r
      unfolding recs by (rule fold_put_get [OF ds that])
    moreover have "dom (map_of recs) = pr_session ` set rows" unfolding recs fold_put_dom by simp
    ultimately show ?thesis using note_row_kept [OF assms(4) rw, of _ now] by (metis (no_types, lifting))
  next
    case False
    then have recs: "recs = ?p" and len: "length ?p = length rows"
      unfolding recs_def noteSessionSet_load [OF assms(2)] Let_def by auto
    have ex: "\<exists>rec. map_of ?p (pr_session r) = Some rec \<and> sr_created rec = pr_created r \<and>
        sr_pane rec = pr_pane r \<and> sr_name rec = kept_name ?p r" if r: "r \<in> set rows" for r
    proof -
      have "\<not> snd (note_row ?p ?i now r)" using False r by blast
      then obtain rec where "map_of ?p (pr_session r) = Some rec" "sr_created rec = pr_created r" "sr_pane rec = pr_pane r"
        using note_row_unchanged by metis
      then show ?thesis by (simp add: kept_name_def del: map_of_eq_Some_iff)
    qed
    have "fst ` set ?p = pr_session ` set rows"
    proof (rule same_keys [OF assms(3) ds len])
      show "\<forall>r \<in> set rows. map_of ?p (pr_session r) \<noteq> None" using ex by fastforce
    qed
    then show ?thesis unfolding recs using ex by (simp add: dom_map_of_conv_image_fst)
  qed
qed

lemma records_follow_live_sessions_witness:
  "dom (map_of (loadRecords (noteSessionSet True 9 [demo_row ''old''] (loadRecords demo_asserted) demo_asserted))) = {''old''}"
proof -
  have rows: "rows_ok [demo_row ''old'']" by code_simp
  have st: "demo_asserted \<noteq> None" by code_simp
  have wf: "gm_wf (loadRecords demo_asserted)" by code_simp
  have whole: "\<forall>(k, rec) \<in> set (loadRecords demo_asserted). second dvd sr_created rec" by code_simp
  from records_follow_live_sessions [OF rows st wf whole, of 9] show ?thesis by (simp add: demo_row_def)
qed

text \<open>The classification at startup, item by item.\<close>

definition row_start :: "pane_row list \<Rightarrow> session \<Rightarrow> timestamp" where
  "row_start rows s = (case last_row rows (sess_id s) of None \<Rightarrow> zero_time | Some r \<Rightarrow> pr_created r)"

definition remembered :: "pane_row list \<Rightarrow> records \<Rightarrow> session \<Rightarrow> bool" where
  "remembered rows prior s =
     (case map_of prior (sess_id s) of None \<Rightarrow> False | Some rec \<Rightarrow> sr_created rec = row_start rows s)"

lemma vanishedSession_sel [simp]:
  "ref_id (sess_ref (vanishedSession machine sid rec why)) = sid"
  "st_status (sess_state (vanishedSession machine sid rec why)) = ''dead''"
  by (simp_all add: vanishedSession_def InferredState_def ObservedState_def)

lemma inferred_because_sel [simp]: "sess_ref (inferred_because s why) = sess_ref s"
  by (simp add: inferred_because_def)

lemma reconcile_item_effect:
  assumes "reconcile_item machine now rows prior s (rc, seen) = (rc', seen')"
  shows "rc_adopted rc' = rc_adopted rc @ (if remembered rows prior s then [s] else [])"
    and "map sess_id (rc_orphaned rc') = map sess_id (rc_orphaned rc) @ (if remembered rows prior s then [] else [sess_id s])"
    and "sess_id ` set (rc_vanished rc') = sess_id ` set (rc_vanished rc) \<union>
      (if \<not> remembered rows prior s \<and> map_of prior (sess_id s) \<noteq> None then {sess_id s} else {})"
    and "dom (map_of seen') = insert (sess_id s) (dom (map_of seen))"
  using assms by (auto simp: reconcile_item_def remembered_def row_start_def Let_def split: option.splits if_splits)

lemma reconcile_fold:
  assumes "fold (reconcile_item machine now rows prior) live (rc, seen) = (rc', seen')"
  shows "rc_adopted rc' = rc_adopted rc @ filter (remembered rows prior) live"
    and "map sess_id (rc_orphaned rc') = map sess_id (rc_orphaned rc) @ map sess_id (filter (\<lambda>s. \<not> remembered rows prior s) live)"
    and "sess_id ` set (rc_vanished rc') = sess_id ` set (rc_vanished rc) \<union>
      {sid \<in> dom (map_of prior). \<exists>s \<in> set live. sess_id s = sid \<and> \<not> remembered rows prior s}"
    and "dom (map_of seen') = dom (map_of seen) \<union> sess_id ` set live"
proof -
  have "rc_adopted rc' = rc_adopted rc @ filter (remembered rows prior) live \<and>
    map sess_id (rc_orphaned rc') = map sess_id (rc_orphaned rc) @ map sess_id (filter (\<lambda>s. \<not> remembered rows prior s) live) \<and>
    sess_id ` set (rc_vanished rc') = sess_id ` set (rc_vanished rc) \<union>
      {sid \<in> dom (map_of prior). \<exists>s \<in> set live. sess_id s = sid \<and> \<not> remembered rows prior s} \<and>
    dom (map_of seen') = dom (map_of seen) \<union> sess_id ` set live"
    using assms
  proof (induction live arbitrary: rc seen)
    case Nil
    then show ?case by simp
  next
    case (Cons s live)
    obtain rc1 seen1 where one: "reconcile_item machine now rows prior s (rc, seen) = (rc1, seen1)"
      by (cases "reconcile_item machine now rows prior s (rc, seen)")
    from Cons.IH [of rc1 seen1] Cons.prems one reconcile_item_effect [OF one] show ?case
      by (auto simp: dom_def)
  qed
  then show "rc_adopted rc' = rc_adopted rc @ filter (remembered rows prior) live"
    and "map sess_id (rc_orphaned rc') = map sess_id (rc_orphaned rc) @ map sess_id (filter (\<lambda>s. \<not> remembered rows prior s) live)"
    and "sess_id ` set (rc_vanished rc') = sess_id ` set (rc_vanished rc) \<union>
      {sid \<in> dom (map_of prior). \<exists>s \<in> set live. sess_id s = sid \<and> \<not> remembered rows prior s}"
    and "dom (map_of seen') = dom (map_of seen) \<union> sess_id ` set live" by blast+
qed

lemma reconcile_absent_fold:
  defines "absent seen prior \<equiv> map fst (filter (\<lambda>(sid, rec). map_of seen sid = None) prior)"
  shows "rc_adopted (fold (reconcile_absent rfc machine seen) prior rc) = rc_adopted rc"
    and "rc_orphaned (fold (reconcile_absent rfc machine seen) prior rc) = rc_orphaned rc"
    and "map sess_id (rc_vanished (fold (reconcile_absent rfc machine seen) prior rc)) =
      map sess_id (rc_vanished rc) @ absent seen prior"
  unfolding absent_def by (induction prior arbitrary: rc) (auto simp: reconcile_absent_def)

text \<open>
  C30: Reconciliation classifies what the enumeration lists. A listed session is adopted exactly when a
  record of its name has its start time, and orphaned otherwise, in the order of the listing; a record
  is reported vanished exactly when its session was not adopted, which includes a run that lives
  under another name or that the enumeration missed; and what is kept are records of the listed
  sessions.
\<close>

theorem reconciliation_classifies:
  "let (rc, seen) = reconcile_pass rfc3339 machine now live rows prior;
       found = remembered (the_default [] rows) prior
   in rc_adopted rc = filter found live \<and>
      map sess_id (rc_orphaned rc) = map sess_id (filter (\<lambda>s. \<not> found s) live) \<and>
      sess_id ` set (rc_vanished rc) =
        (dom (map_of prior) - sess_id ` set live) \<union>
        (dom (map_of prior) \<inter> sess_id ` set (filter (\<lambda>s. \<not> found s) live)) \<and>
      dom (map_of seen) = sess_id ` set live"
proof -
  let ?rows = "the_default [] rows"
  obtain rc1 seen where f: "fold (reconcile_item machine now ?rows prior) live
      (\<lparr>rc_adopted = [], rc_orphaned = [], rc_vanished = []\<rparr>, []) = (rc1, seen)"
    by (cases "fold (reconcile_item machine now ?rows prior) live
      (\<lparr>rc_adopted = [], rc_orphaned = [], rc_vanished = []\<rparr>, [])")
  note one = reconcile_fold [OF f, simplified]
  note two = reconcile_absent_fold [of rfc3339 machine seen prior rc1]
  have "sess_id ` set (rc_vanished (fold (reconcile_absent rfc3339 machine seen) prior rc1)) =
      sess_id ` set (rc_vanished rc1) \<union> fst ` {x \<in> set prior. case x of (sid, rec) \<Rightarrow> map_of seen sid = None}"
    using arg_cong [OF two(3), of set] by (simp add: set_filter)
  also have "fst ` {x \<in> set prior. case x of (sid, rec) \<Rightarrow> map_of seen sid = None} = dom (map_of prior) - sess_id ` set live"
  proof -
    have "map_of seen sid = None \<longleftrightarrow> sid \<notin> sess_id ` set live" for sid
      using one(4) by (metis domIff)
    then show ?thesis unfolding dom_map_of_conv_image_fst by auto
  qed
  finally have v: "sess_id ` set (rc_vanished (fold (reconcile_absent rfc3339 machine seen) prior rc1)) =
      (dom (map_of prior) - sess_id ` set live) \<union>
      (dom (map_of prior) \<inter> sess_id ` set (filter (\<lambda>s. \<not> remembered ?rows prior s) live))"
    unfolding one(3) by (auto simp: image_iff intro: sym)
  show ?thesis
    using one v two(1,2) by (simp add: reconcile_pass_def f Let_def)
qed

section \<open>Where the records go wrong\<close>

text \<open>
  A listing that fails gives no sessions, and reconciliation does not look at whether it was
  complete: when the multiplexer does not answer at startup every remembered session is reported dead
  and every record is dropped.
\<close>

theorem unreachable_at_startup_vanishes_all:
  "map sess_id (rc_vanished (fst (Reconcile rfc3339 machine True now (\<lambda>st. ([], st)) None (Some (Loaded recs))))) = map fst recs \<and>
   snd (Reconcile rfc3339 machine True now (\<lambda>st. ([], st)) None (Some (Loaded recs))) = Some (Loaded [])"
  using reconcile_absent_fold(3) [of rfc3339 machine "[]" recs "\<lparr>rc_adopted = [], rc_orphaned = [], rc_vanished = []\<rparr>"]
  by (simp add: Reconcile_def reconcile_pass_def loadRecords_def saveRecords_def Let_def case_prod_unfold)

definition demo_live :: "string \<Rightarrow> session" where
  "demo_live nm = (vanishedSession ''m'' nm zero_record [])\<lparr>sess_state := ObservedState ''idle'' [] None\<rparr>"

text \<open>A second read that fails makes every remembered session a recycled one.\<close>

lemma failed_second_read_recycles_all:
  "let (rc, seen) = reconcile_pass show_int ''m'' 9 [demo_live ''a''] None [(''a'', zero_record\<lparr>sr_created := 5, sr_name := ''a''\<rparr>)]
   in map sess_id (rc_vanished rc) = [''a''] \<and> rc_adopted rc = [] \<and> map_option sr_name (map_of seen ''a'') = Some []"
  by code_simp

text \<open>A session created just before the restart, never listed, is not recognised: its record has no start.\<close>

lemma unlisted_create_is_not_adopted:
  "let (rc, seen) = reconcile_pass show_int ''m'' 9 [demo_live ''new''] (Some [demo_row ''new''])
      (loadRecords (noteAssertedName True 8 ''new'' ''/w'' ''new'' [] False (Some NothingStored)))
   in rc_adopted rc = [] \<and> map sess_id (rc_vanished rc) = [''new''] \<and> map_option sr_name (map_of seen ''new'') = Some []"
  by code_simp

text \<open>A session renamed while the service was down is reported dead under its old name, and its record is lost.\<close>

lemma renamed_while_down_is_vanished:
  "let (rc, seen) = reconcile_pass show_int ''m'' 9 [demo_live ''old''] (Some [demo_row ''old'']) (loadRecords demo_asserted)
   in map sess_id (rc_vanished rc) = [''new''] \<and> map sess_id (rc_orphaned rc) = [''old''] \<and>
      map_option sr_name (map_of seen ''old'') = Some []"
  by code_simp

text \<open>
  Reconciliation saves the counts it read before its own listing, so the attempt that listing makes is
  not counted: every restart has one more.
\<close>

lemma restart_refunds_an_attempt:
  "let st = Some (Loaded [(''old'', zero_record\<lparr>sr_created := 5 * second, sr_pane := ''%1'', sr_name := ''new'', sr_reasserts := 1\<rparr>)]);
       lists = (\<lambda>st. ([demo_live ''old''], fst (list_records True 9 (\<lambda>_. False) [demo_row ''old''] [] st)));
       st' = snd (Reconcile show_int ''m'' True 9 lists (Some [demo_row ''old'']) st)
   in map nd_want (snd (list_records True 9 (\<lambda>_. False) [demo_row ''old''] [] st)) = [''new''] \<and>
      map_option sr_reasserts (map_of (loadRecords st') ''old'') = Some 1"
  by code_simp

text \<open>
  A session that another actor renames to the name of one that has ended gets a fresh record; the
  repair of its asserted name then files that record under the empty name.
\<close>

lemma repair_files_under_empty_name:
  "let st = Some (Loaded [(''new'', zero_record\<lparr>sr_created := 5 * second, sr_pane := ''%1'', sr_name := ''new''\<rparr>),
         (''gone'', zero_record\<lparr>sr_created := 3 * second, sr_pane := ''%0'', sr_name := ''gone''\<rparr>)]);
       (st', calls) = list_records True 9 (\<lambda>_. True) [demo_row ''gone''] [] st
   in map nd_want calls = [''new''] \<and> map fst (loadRecords st') = [[]]"
  by code_simp

text \<open>A document that does not parse reads as no records and is replaced by the next listing.\<close>

lemma corrupt_records_are_replaced:
  "loadRecords (Some Corrupt) = [] \<and>
   noteSessionSet True 9 [demo_row ''a''] (loadRecords (Some Corrupt)) (Some Corrupt) \<noteq> Some Corrupt"
  by code_simp

end
