(* ===== verification/Create.thy ===== *)
theory Create
  imports CreateChecks SessionRecords
begin

text \<open>
  Creating a session once for each idempotency key: the durable keys of
  \<open>internal/drivers/tmux/idempotency.go\<close> and \<open>Driver.Create\<close> of \<open>tmux.go\<close>, with the kills
  and restarts the keys exist for. The multiplexer is what its documentation says: session names are
  unique and a new session whose name is taken is refused.
\<close>

section \<open>The keys\<close>

datatype idem_phase = IdemPending | IdemComplete

record idem_record =
  ir_phase :: idem_phase
  ir_machine :: string
  ir_id :: string
  ir_name :: string
  ir_cwd :: string
  ir_at :: timestamp

type_synonym idem_keys = "(string, idem_record) gomap"

text \<open>
  \<open>is_doc\<close> is the document the keys are saved in, as \<open>Load\<close> reads it; \<open>None\<close> without a state
  directory.
\<close>

record idem_store =
  is_keys :: idem_keys
  is_doc :: "idem_keys load_result option"
  is_retention :: duration

definition sweepLocked :: "timestamp \<Rightarrow> idem_store \<Rightarrow> idem_store" where
  "sweepLocked now s = s\<lparr>is_keys := filter (\<lambda>(k, r). \<not> time_sub now (ir_at r) > is_retention s) (is_keys s)\<rparr>"

text \<open>Saving answers whether it succeeded; \<open>ok\<close> says whether the document can be written.\<close>

definition idem_saveLocked :: "bool \<Rightarrow> idem_store \<Rightarrow> bool \<times> idem_store" where
  "idem_saveLocked ok s =
     (case is_doc s of
        None \<Rightarrow> (True, s)
      | Some _ \<Rightarrow> if ok then (True, s\<lparr>is_doc := Some (Loaded (is_keys s))\<rparr>) else (False, s))"

definition newIdemStore :: "bool \<Rightarrow> timestamp \<Rightarrow> idem_keys load_result option \<Rightarrow> duration \<Rightarrow> (bool \<times> idem_store) option" where
  "newIdemStore ok now doc retention =
     (case doc of
        None \<Rightarrow> Some (True, \<lparr>is_keys = [], is_doc = None, is_retention = retention\<rparr>)
      | Some ReadFailed \<Rightarrow> None
      | Some Corrupt \<Rightarrow> None
      | Some NothingStored \<Rightarrow>
          Some (idem_saveLocked ok (sweepLocked now \<lparr>is_keys = [], is_doc = doc, is_retention = retention\<rparr>))
      | Some (Loaded keys) \<Rightarrow>
          Some (idem_saveLocked ok (sweepLocked now \<lparr>is_keys = keys, is_doc = doc, is_retention = retention\<rparr>)))"

definition lookup :: "timestamp \<Rightarrow> string \<Rightarrow> idem_store \<Rightarrow> idem_record option \<times> idem_store" where
  "lookup now key s = (let s = sweepLocked now s in (map_of (is_keys s) key, s))"

definition reserve :: "bool \<Rightarrow> timestamp \<Rightarrow> string \<Rightarrow> string \<Rightarrow> string \<Rightarrow> idem_store \<Rightarrow> bool \<times> idem_store" where
  "reserve ok now key name cwd s =
     idem_saveLocked ok (s\<lparr>is_keys := gm_put key
       \<lparr>ir_phase = IdemPending, ir_machine = [], ir_id = [], ir_name = name, ir_cwd = cwd, ir_at = now\<rparr> (is_keys s)\<rparr>)"

definition complete :: "bool \<Rightarrow> timestamp \<Rightarrow> string \<Rightarrow> session_ref \<Rightarrow> idem_store \<Rightarrow> bool \<times> idem_store" where
  "complete ok now key ref s =
     idem_saveLocked ok (s\<lparr>is_keys := gm_put key
       \<lparr>ir_phase = IdemComplete, ir_machine = ref_machine ref, ir_id = ref_id ref, ir_name = ref_name ref,
        ir_cwd = [], ir_at = now\<rparr> (is_keys s)\<rparr>)"

definition release :: "bool \<Rightarrow> string \<Rightarrow> idem_store \<Rightarrow> bool \<times> idem_store" where
  "release ok key s = idem_saveLocked ok (s\<lparr>is_keys := gm_del key (is_keys s)\<rparr>)"

section \<open>The machine a create works on\<close>

text \<open>
  A live session of the multiplexer, with the working directory it reports. \<open>ls_key\<close> is the
  idempotency key it was started under; no modelled operation reads it.
\<close>

record live_session =
  ls_name :: string
  ls_cwd :: string
  ls_key :: string

record create_world =
  cw_idem :: idem_store
  cw_live :: "live_session list"
  cw_records :: rec_store

text \<open>
  One attempt: what the clock, the multiplexer and the disk answer. \<open>ca_listing\<close> whether
  enumerating the sessions succeeds, \<open>ca_names\<close> whether listing their names does, \<open>ca_seen_cwd\<close>
  the directory the multiplexer reports for the new session, \<open>ca_staged\<close> whether the
  environment (with what a delivery module adds to it) can be staged, the four \<open>_saved\<close> fields whether the
  key document can be written, \<open>ca_killed\<close> where the service is killed.
\<close>

datatype kill_point = NotKilled | KilledBeforeStart | KilledAfterStart

record create_attempt =
  ca_now :: timestamp
  ca_nonce :: string
  ca_listing :: bool
  ca_names :: bool
  ca_seen_cwd :: string
  ca_adopt_saved :: bool
  ca_release_saved :: bool
  ca_reserve_saved :: bool
  ca_complete_saved :: bool
  ca_records_saved :: bool
  ca_staged :: bool
  ca_starts :: bool
  ca_killed :: kill_point

datatype create_result =
    Started session_ref
  | Replayed session_ref
  | Adopted session_ref
  | CreateFailed create_error
  | ServiceKilled

definition name_listing :: "live_session list \<Rightarrow> string" where
  "name_listing live = concat (map (\<lambda>s. ls_name s @ [CHR 0x0A]) live)"

definition same_ref :: "string \<Rightarrow> string \<Rightarrow> session_ref" where
  "same_ref machine nm = \<lparr>ref_machine = machine, ref_id = nm, ref_name = nm\<rparr>"

definition sessionLive :: "create_attempt \<Rightarrow> string \<Rightarrow> create_world \<Rightarrow> bool option" where
  "sessionLive a sid w = (if ca_listing a then Some (list_ex (\<lambda>s. ls_name s = sid) (cw_live w)) else None)"

definition resolvePending ::
    "string \<Rightarrow> create_attempt \<Rightarrow> string \<Rightarrow> idem_record \<Rightarrow> create_world \<Rightarrow> session_ref option \<times> create_world" where
  "resolvePending machine a key rec w =
     (if \<not> ca_listing a then (None, w)
      else case find (\<lambda>s. ls_name s = ir_name rec \<and> \<not> (ir_cwd rec \<noteq> [] \<and> ls_cwd s \<noteq> ir_cwd rec)) (cw_live w) of
          None \<Rightarrow> (None, w)
        | Some s \<Rightarrow>
            let ref = same_ref machine (ls_name s)
            in (Some ref, w\<lparr>cw_idem := snd (complete (ca_adopt_saved a) (ca_now a) key ref (cw_idem w))\<rparr>))"

section \<open>Create\<close>

text \<open>
  The first half, up to the recorded intent: what was found under the key, the name, the checks.
  \<open>Inl\<close> is an answer; \<open>Inr\<close> carries the name, whether the marker was appended and the
  environment to the second half.
\<close>

definition create_new ::
    "machine_config \<Rightarrow> create_attempt \<Rightarrow> string \<Rightarrow> session_spec \<Rightarrow> create_world \<Rightarrow>
       (create_result + string \<times> bool \<times> (string, string) gomap) \<times> create_world" where
  "create_new cfg a key spec w =
     (let requested = (if cs_name spec = [] then ''fleet-'' @ ca_nonce a else cs_name spec)
      in case resolveName (markerStateFor (cw_records w)) (if ca_names a then Some (name_listing (cw_live w)) else None)
                requested (cs_marker spec) of
          None \<Rightarrow> (Inl (CreateFailed NoFreeName), w)
        | Some (name, applied) \<Rightarrow>
            (case create_checks cfg spec of
               Inl e \<Rightarrow> (Inl (CreateFailed e), w)
             | Inr env \<Rightarrow>
                 let (saved, idem) = reserve (ca_reserve_saved a) (ca_now a) key name (cs_cwd spec) (cw_idem w);
                     w = w\<lparr>cw_idem := idem\<rparr>
                 in if \<not> saved then (Inl (CreateFailed IntentNotRecorded), w)
                    else if ca_killed a = KilledBeforeStart then (Inl ServiceKilled, w)
                    else (Inr (name, applied, env), w)))"

definition create_begin ::
    "string \<Rightarrow> machine_config \<Rightarrow> create_attempt \<Rightarrow> string \<Rightarrow> session_spec \<Rightarrow> create_world \<Rightarrow>
       (create_result + string \<times> bool \<times> (string, string) gomap) \<times> create_world" where
  "create_begin machine cfg a key spec w =
     (if key = [] then (Inl (CreateFailed KeyRequired), w)
      else
        let (found, idem) = lookup (ca_now a) key (cw_idem w);
            w = w\<lparr>cw_idem := idem\<rparr>
        in case found of
             None \<Rightarrow> create_new cfg a key spec w
           | Some rec \<Rightarrow>
               if ir_phase rec = IdemComplete then
                 (case sessionLive a (ir_id rec) w of
                    None \<Rightarrow> (Inl (CreateFailed VerifyFailed), w)
                  | Some False \<Rightarrow> (Inl (CreateFailed ReplayOfEnded), w)
                  | Some True \<Rightarrow>
                      (Inl (Replayed \<lparr>ref_machine = ir_machine rec, ref_id = ir_id rec, ref_name = ir_name rec\<rparr>), w))
               else
                 (case resolvePending machine a key rec w of
                    (Some ref, w) \<Rightarrow> (Inl (Adopted ref), w)
                  | (None, w) \<Rightarrow>
                      create_new cfg a key spec
                        (w\<lparr>cw_idem := snd (release (ca_release_saved a) key (cw_idem w))\<rparr>)))"

text \<open>The second half: stage the environment, start the session, record the result.\<close>

definition release_key :: "create_attempt \<Rightarrow> string \<Rightarrow> create_world \<Rightarrow> create_world" where
  "release_key a key w = w\<lparr>cw_idem := snd (release (ca_release_saved a) key (cw_idem w))\<rparr>"

definition create_finish ::
    "string \<Rightarrow> create_attempt \<Rightarrow> string \<Rightarrow> session_spec \<Rightarrow> string \<times> bool \<times> (string, string) gomap \<Rightarrow> create_world \<Rightarrow>
       create_result \<times> create_world" where
  "create_finish machine a key spec plan w =
     (let (name, applied, env) = plan
      in if \<not> ca_staged a then (CreateFailed StagingFailed, release_key a key w)
         else if \<not> ca_starts a \<or> name \<in> ls_name ` set (cw_live w)
         then (CreateFailed StartFailed, release_key a key w)
         else
           let w = w\<lparr>cw_live := cw_live w @ [\<lparr>ls_name = name, ls_cwd = ca_seen_cwd a, ls_key = key\<rparr>]\<rparr>
           in if ca_killed a = KilledAfterStart then (ServiceKilled, w)
              else
                let ref = same_ref machine name;
                    (saved, idem) = complete (ca_complete_saved a) (ca_now a) key ref (cw_idem w);
                    w = w\<lparr>cw_idem := idem\<rparr>
                in if \<not> saved then (CreateFailed ResultNotRecorded, w)
                   else (Started ref,
                     w\<lparr>cw_records := noteAssertedName (ca_records_saved a) (ca_now a) name (cs_cwd spec) name
                          (sanitizeName (cs_marker spec)) applied (cw_records w)\<rparr>))"

definition Create ::
    "string \<Rightarrow> machine_config \<Rightarrow> create_attempt \<Rightarrow> string \<Rightarrow> session_spec \<Rightarrow> create_world \<Rightarrow> create_result \<times> create_world" where
  "Create machine cfg a key spec w =
     (case create_begin machine cfg a key spec w of
        (Inl r, w) \<Rightarrow> (r, w)
      | (Inr plan, w) \<Rightarrow> create_finish machine a key spec plan w)"

section \<open>Runs\<close>

datatype create_op =
    OpCreate create_attempt string session_spec
  | OpEnd string
  | OpRestart bool timestamp

fun create_step :: "string \<Rightarrow> machine_config \<Rightarrow> create_op \<Rightarrow> create_world \<Rightarrow> create_world" where
  "create_step machine cfg (OpCreate a key spec) w = snd (Create machine cfg a key spec w)"
| "create_step machine cfg (OpEnd nm) w = w\<lparr>cw_live := filter (\<lambda>s. ls_name s \<noteq> nm) (cw_live w)\<rparr>"
| "create_step machine cfg (OpRestart ok now) w =
     (case newIdemStore ok now (is_doc (cw_idem w)) (is_retention (cw_idem w)) of
        None \<Rightarrow> w
      | Some (_, idem) \<Rightarrow> w\<lparr>cw_idem := idem\<rparr>)"

definition create_run :: "string \<Rightarrow> machine_config \<Rightarrow> create_op list \<Rightarrow> create_world \<Rightarrow> create_world" where
  "create_run machine cfg ops w = fold (create_step machine cfg) ops w"

definition world_start :: "duration \<Rightarrow> live_session list \<Rightarrow> rec_store \<Rightarrow> create_world" where
  "world_start retention live recs =
     \<lparr>cw_idem = \<lparr>is_keys = [], is_doc = Some NothingStored, is_retention = retention\<rparr>, cw_live = live, cw_records = recs\<rparr>"

text \<open>
  The circumstances the keys are made for: every enumeration answers, the retention window of the
  first use is not over, and the multiplexer reports the directory a session was created with.
\<close>

definition attempt_ok :: "timestamp \<Rightarrow> duration \<Rightarrow> create_attempt \<Rightarrow> session_spec \<Rightarrow> bool" where
  "attempt_ok T ret a spec \<longleftrightarrow> ca_listing a \<and> T \<le> ca_now a \<and> ca_now a \<le> T + ret \<and> ca_seen_cwd a = cs_cwd spec"

fun op_ok :: "timestamp \<Rightarrow> duration \<Rightarrow> create_op \<Rightarrow> bool" where
  "op_ok T ret (OpCreate a key spec) = attempt_ok T ret a spec"
| "op_ok T ret (OpEnd nm) = True"
| "op_ok T ret (OpRestart ok now) = (T \<le> now \<and> now \<le> T + ret)"

section \<open>The invariant\<close>

text \<open>A record that leads from a key to the session started under it.\<close>

definition leads_to :: "timestamp \<Rightarrow> idem_record option \<Rightarrow> live_session \<Rightarrow> bool" where
  "leads_to T rec s \<longleftrightarrow> (\<exists>r. rec = Some r \<and> T \<le> ir_at r \<and>
     (if ir_phase r = IdemComplete then ir_id r = ls_name s
      else ir_name r = ls_name s \<and> (ir_cwd r = [] \<or> ir_cwd r = ls_cwd s)))"

definition tracks :: "timestamp \<Rightarrow> live_session list \<Rightarrow> idem_keys \<Rightarrow> bool" where
  "tracks T live m \<longleftrightarrow> gm_wf m \<and> (\<forall>s \<in> set live. ls_key s \<noteq> [] \<longrightarrow> leads_to T (map_of m (ls_key s)) s)"

definition doc_keys :: "idem_keys load_result option \<Rightarrow> idem_keys" where
  "doc_keys doc = (case doc of Some (Loaded d) \<Rightarrow> d | _ \<Rightarrow> [])"

definition idem_ok :: "timestamp \<Rightarrow> duration \<Rightarrow> live_session list \<Rightarrow> idem_store \<Rightarrow> bool" where
  "idem_ok T ret live s \<longleftrightarrow> tracks T live (is_keys s) \<and> tracks T live (doc_keys (is_doc s)) \<and>
     (is_doc s = Some NothingStored \<or> is_doc s = Some (Loaded (doc_keys (is_doc s)))) \<and> is_retention s = ret"

definition keys_ok :: "timestamp \<Rightarrow> duration \<Rightarrow> create_world \<Rightarrow> bool" where
  "keys_ok T ret w \<longleftrightarrow> idem_ok T ret (cw_live w) (cw_idem w) \<and> distinct (map ls_name (cw_live w)) \<and>
     (\<forall>s \<in> set (cw_live w). \<forall>s' \<in> set (cw_live w). ls_key s = ls_key s' \<and> ls_key s \<noteq> [] \<longrightarrow> s = s')"

lemma tracks_put:
  "tracks T live m \<Longrightarrow> (\<And>s. s \<in> set live \<Longrightarrow> ls_key s = k \<Longrightarrow> k \<noteq> [] \<Longrightarrow> leads_to T (Some r) s) \<Longrightarrow>
   tracks T live (gm_put k r m)"
  by (simp add: tracks_def)

lemma tracks_del:
  "tracks T live m \<Longrightarrow> \<forall>s \<in> set live. ls_key s \<noteq> k \<Longrightarrow> tracks T live (gm_del k m)"
  by (auto simp: tracks_def)

lemma tracks_sub: "tracks T live m \<Longrightarrow> set live' \<subseteq> set live \<Longrightarrow> tracks T live' m"
  by (auto simp: tracks_def)

lemma tracks_sweep:
  assumes "tracks T live m" and "now \<le> T + ret" and "0 \<le> ret"
  shows "tracks T live (filter (\<lambda>(k, r). \<not> time_sub now (ir_at r) > ret) m)"
proof -
  have keep: "\<not> time_sub now at1 > ret" if "T \<le> at1" for at1
    using that assms(2,3) by (simp add: time_sub_def)
  have "leads_to T (map_of (filter (\<lambda>(k, r). \<not> time_sub now (ir_at r) > ret) m) (ls_key s)) s"
    if s: "s \<in> set live" "ls_key s \<noteq> []" for s
  proof -
    obtain r where r: "map_of m (ls_key s) = Some r" "T \<le> ir_at r" and l: "leads_to T (Some r) s"
      using assms(1) s by (auto simp: tracks_def leads_to_def)
    have "map_of (filter (\<lambda>(k, r). \<not> time_sub now (ir_at r) > ret) m) (ls_key s) = Some r"
      using assms(1) r keep by (simp add: map_of_filter_key tracks_def del: map_of_eq_Some_iff)
    with l show ?thesis by simp
  qed
  then show ?thesis using assms(1) by (simp add: tracks_def gm_wf_filter)
qed

lemma idem_ok_save:
  assumes "tracks T live (is_keys s)" and "tracks T live (doc_keys (is_doc s))"
    and "is_doc s = Some NothingStored \<or> is_doc s = Some (Loaded (doc_keys (is_doc s)))" and "is_retention s = ret"
  shows "idem_ok T ret live (snd (idem_saveLocked ok s))"
  using assms by (auto simp: idem_ok_def idem_saveLocked_def doc_keys_def split: option.split)

lemma idem_ok_lookup:
  assumes "idem_ok T ret live s" and "now \<le> T + ret" and "0 \<le> ret" and "lookup now key s = (found, s')"
  shows "idem_ok T ret live s'" and "found = map_of (is_keys s') key"
  using assms tracks_sweep [of T live "is_keys s" now ret]
  by (auto simp: idem_ok_def lookup_def sweepLocked_def Let_def)

lemma idem_ok_release:
  "idem_ok T ret live s \<Longrightarrow> \<forall>x \<in> set live. ls_key x \<noteq> key \<Longrightarrow> idem_ok T ret live (snd (release ok key s))"
  unfolding release_def by (rule idem_ok_save) (auto simp: idem_ok_def intro: tracks_del)

lemma idem_ok_reserve:
  "idem_ok T ret live s \<Longrightarrow> \<forall>x \<in> set live. ls_key x \<noteq> key \<Longrightarrow> idem_ok T ret live (snd (reserve ok now key name cwd s))"
  unfolding reserve_def by (rule idem_ok_save) (auto simp: idem_ok_def intro: tracks_put)

lemma idem_ok_complete:
  "idem_ok T ret live s \<Longrightarrow> T \<le> now \<Longrightarrow> (\<And>x. x \<in> set live \<Longrightarrow> ls_key x = key \<Longrightarrow> key \<noteq> [] \<Longrightarrow> ls_name x = ref_id ref) \<Longrightarrow>
   idem_ok T ret live (snd (complete ok now key ref s))"
  unfolding complete_def by (rule idem_ok_save) (auto simp: idem_ok_def leads_to_def intro!: tracks_put)

lemma keys_okD:
  assumes "keys_ok T ret w"
  shows "idem_ok T ret (cw_live w) (cw_idem w)" and "distinct (map ls_name (cw_live w))"
    and "s \<in> set (cw_live w) \<Longrightarrow> s' \<in> set (cw_live w) \<Longrightarrow> ls_key s = ls_key s' \<Longrightarrow> ls_key s \<noteq> [] \<Longrightarrow> s = s'"
  using assms unfolding keys_ok_def by blast+

lemma keys_ok_idem: "keys_ok T ret w \<Longrightarrow> idem_ok T ret (cw_live w) idem \<Longrightarrow> keys_ok T ret (w\<lparr>cw_idem := idem\<rparr>)"
  unfolding keys_ok_def by (elim conjE, intro conjI) simp_all

lemma keys_ok_records: "keys_ok T ret w \<Longrightarrow> keys_ok T ret (w\<lparr>cw_records := recs\<rparr>)"
  unfolding keys_ok_def by (elim conjE, intro conjI) simp_all

text \<open>What a recorded intent leaves behind for the second half.\<close>

definition intent_recorded :: "timestamp \<Rightarrow> string \<Rightarrow> string \<Rightarrow> string \<Rightarrow> create_world \<Rightarrow> bool" where
  "intent_recorded T key name cwd w \<longleftrightarrow>
     (\<forall>s \<in> set (cw_live w). ls_key s \<noteq> key) \<and>
     (\<forall>m \<in> {is_keys (cw_idem w), doc_keys (is_doc (cw_idem w))}.
        \<exists>r. map_of m key = Some r \<and> T \<le> ir_at r \<and> ir_phase r = IdemPending \<and> ir_name r = name \<and> ir_cwd r = cwd)"

lemma create_new_cases:
  assumes "create_new cfg a key spec w = (r, w')"
  obtains (refused) e where "r = Inl (CreateFailed e)" "w' = w"
  | (reserved) name applied env where
      "w' = w\<lparr>cw_idem := snd (reserve (ca_reserve_saved a) (ca_now a) key name (cs_cwd spec) (cw_idem w))\<rparr>"
      "r = Inl (CreateFailed IntentNotRecorded) \<or> r = Inl ServiceKilled \<or>
       r = Inr (name, applied, env) \<and> fst (reserve (ca_reserve_saved a) (ca_now a) key name (cs_cwd spec) (cw_idem w))"
proof -
  let ?n = "resolveName (markerStateFor (cw_records w))
        (if ca_names a then Some (name_listing (cw_live w)) else None)
        (if cs_name spec = [] then ''fleet-'' @ ca_nonce a else cs_name spec) (cs_marker spec)"
  show ?thesis
  proof (cases "\<exists>name applied env. ?n = Some (name, applied) \<and> create_checks cfg spec = Inr env")
    case False
    then have "\<exists>e. r = Inl (CreateFailed e) \<and> w' = w"
      using assms unfolding create_new_def Let_def by (auto split: option.splits sum.splits)
    then show ?thesis using refused by blast
  next
    case True
    then obtain name applied env where t: "?n = Some (name, applied)" "create_checks cfg spec = Inr env" by blast
    let ?res = "reserve (ca_reserve_saved a) (ca_now a) key name (cs_cwd spec) (cw_idem w)"
    have "(if \<not> fst ?res then (Inl (CreateFailed IntentNotRecorded), w\<lparr>cw_idem := snd ?res\<rparr>)
        else if ca_killed a = KilledBeforeStart then (Inl ServiceKilled, w\<lparr>cw_idem := snd ?res\<rparr>)
        else (Inr (name, applied, env), w\<lparr>cw_idem := snd ?res\<rparr>)) = (r, w')"
      using assms unfolding create_new_def Let_def t option.case sum.case prod.case
      by (simp only: case_prod_unfold)
    then show ?thesis using reserved [of name applied env] by (auto split: if_splits)
  qed
qed

lemma create_new_ok:
  assumes w: "keys_ok T ret w" and a: "attempt_ok T ret a spec" and none: "\<forall>s \<in> set (cw_live w). ls_key s \<noteq> key"
    and run: "create_new cfg a key spec w = (r, w')"
  shows "keys_ok T ret w' \<and> cw_live w' = cw_live w" (is ?A)
    and "r = Inr (name, applied, env) \<Longrightarrow> intent_recorded T key name (cs_cwd spec) w'"
    and "\<And>ref. r \<noteq> Inl (Replayed ref) \<and> r \<noteq> Inl (Adopted ref)"
proof -
  have ok: "keys_ok T ret (w\<lparr>cw_idem := snd (reserve ok now key nm cwd (cw_idem w))\<rparr>)" for ok now nm cwd
    by (rule keys_ok_idem [OF w idem_ok_reserve [OF keys_okD(1) [OF w] none]])
  show ?A using create_new_cases [OF run] ok w by cases auto
  show "\<And>ref. r \<noteq> Inl (Replayed ref) \<and> r \<noteq> Inl (Adopted ref)"
    using create_new_cases [OF run] by cases auto
  assume r: "r = Inr (name, applied, env)"
  let ?res = "reserve (ca_reserve_saved a) (ca_now a) key name (cs_cwd spec) (cw_idem w)"
  from create_new_cases [OF run] r have w': "w' = w\<lparr>cw_idem := snd ?res\<rparr>" and saved: "fst ?res"
    by (cases, auto)+
  have T: "T \<le> ca_now a" using a by (simp add: attempt_ok_def)
  have d: "is_doc (cw_idem w) \<noteq> None" using keys_okD(1) [OF w] by (auto simp: idem_ok_def)
  let ?m = "gm_put key \<lparr>ir_phase = IdemPending, ir_machine = [], ir_id = [], ir_name = name,
      ir_cwd = cs_cwd spec, ir_at = ca_now a\<rparr> (is_keys (cw_idem w))"
  have keys: "is_keys (snd ?res) = ?m" and doc: "is_doc (snd ?res) = Some (Loaded ?m)"
    using saved d by (auto simp: reserve_def idem_saveLocked_def split: option.splits if_splits)
  then show "intent_recorded T key name (cs_cwd spec) w'"
    using none T by (simp add: intent_recorded_def w' doc_keys_def)
qed

lemma find_live:
  assumes "keys_ok T ret w" and "s \<in> set (cw_live w)" and "P s" and "\<And>x. P x \<Longrightarrow> ls_name x = ls_name s"
  shows "find P (cw_live w) = Some s"
proof -
  have "find P (cw_live w) \<noteq> None" using assms(2,3) by (auto simp: find_None_iff)
  then obtain x where x: "find P (cw_live w) = Some x" by blast
  then have "x \<in> set (cw_live w)" "P x" by (auto simp: find_Some_iff)
  then have "x = s"
    using assms(4) keys_okD(2) [OF assms(1)] assms(2) by (auto simp: distinct_map dest: inj_onD)
  with x show ?thesis by simp
qed

text \<open>The first half of a create, when a session of the key is live and when none is.\<close>

lemma create_begin_live:
  assumes w: "keys_ok T ret w" and a: "attempt_ok T ret a spec" and ret: "0 \<le> ret" and key: "key \<noteq> []"
    and s: "s \<in> set (cw_live w)" "ls_key s = key"
    and run: "create_begin machine cfg a key spec w = (r, w')"
  shows "keys_ok T ret w' \<and> cw_live w' = cw_live w \<and>
    (\<exists>ref. (r = Inl (Replayed ref) \<or> r = Inl (Adopted ref)) \<and> ref_id ref = ls_name s)"
proof -
  obtain found idem where l: "lookup (ca_now a) key (cw_idem w) = (found, idem)"
    by (cases "lookup (ca_now a) key (cw_idem w)")
  have now: "ca_now a \<le> T + ret" "T \<le> ca_now a" "ca_listing a" using a by (auto simp: attempt_ok_def)
  note lk = idem_ok_lookup [OF keys_okD(1) [OF w] now(1) ret l]
  let ?w = "w\<lparr>cw_idem := idem\<rparr>"
  have w1: "keys_ok T ret ?w" by (rule keys_ok_idem [OF w lk(1)])
  have "leads_to T found s"
    using lk s key by (auto simp: idem_ok_def tracks_def)
  then obtain rec where rec: "found = Some rec"
      "if ir_phase rec = IdemComplete then ir_id rec = ls_name s
       else ir_name rec = ls_name s \<and> (ir_cwd rec = [] \<or> ir_cwd rec = ls_cwd s)"
    by (auto simp: leads_to_def)
  show ?thesis
  proof (cases "ir_phase rec = IdemComplete")
    case True
    then have id: "ir_id rec = ls_name s" using rec(2) by simp
    have "list_ex (\<lambda>x. ls_name x = ir_id rec) (cw_live w)" using s id by (auto simp: list_ex_iff)
    then have "sessionLive a (ir_id rec) ?w = Some True" using now by (simp add: sessionLive_def)
    then have "r = Inl (Replayed \<lparr>ref_machine = ir_machine rec, ref_id = ir_id rec, ref_name = ir_name rec\<rparr>) \<and> w' = ?w"
      using run key l rec(1) True by (simp add: create_begin_def Let_def)
    then show ?thesis using w1 id by auto
  next
    case False
    let ?P = "\<lambda>x. ls_name x = ir_name rec \<and> \<not> (ir_cwd rec \<noteq> [] \<and> ls_cwd x \<noteq> ir_cwd rec)"
    have nm: "ir_name rec = ls_name s" "ir_cwd rec = [] \<or> ir_cwd rec = ls_cwd s" using rec(2) False by auto
    have f: "find ?P (cw_live w) = Some s"
      by (rule find_live [OF w s(1)]) (use nm in auto)
    let ?ref = "same_ref machine (ls_name s)"
    let ?idem = "snd (complete (ca_adopt_saved a) (ca_now a) key ?ref idem)"
    have "resolvePending machine a key rec ?w = (Some ?ref, ?w\<lparr>cw_idem := ?idem\<rparr>)"
      using f now by (simp add: resolvePending_def Let_def)
    then have r: "r = Inl (Adopted ?ref)" "w' = ?w\<lparr>cw_idem := ?idem\<rparr>"
      using run key l rec(1) False by (simp_all add: create_begin_def Let_def)
    have "idem_ok T ret (cw_live w) ?idem"
    proof (rule idem_ok_complete [OF lk(1) now(2)])
      fix x assume "x \<in> set (cw_live w)" "ls_key x = key" "key \<noteq> []"
      then have "x = s" using keys_okD(3) [OF w] s by auto
      then show "ls_name x = ref_id ?ref" by (simp add: same_ref_def)
    qed
    then show ?thesis using r keys_ok_idem [OF w] by (auto simp: same_ref_def)
  qed
qed

lemma create_begin_fresh:
  assumes w: "keys_ok T ret w" and a: "attempt_ok T ret a spec" and ret: "0 \<le> ret" and key: "key \<noteq> []"
    and none: "\<forall>s \<in> set (cw_live w). ls_key s \<noteq> key"
    and run: "create_begin machine cfg a key spec w = (r, w')"
  shows "keys_ok T ret w' \<and> cw_live w' = cw_live w"
    and "r = Inr (name, applied, env) \<Longrightarrow> intent_recorded T key name (cs_cwd spec) w'"
proof -
  obtain found idem where l: "lookup (ca_now a) key (cw_idem w) = (found, idem)"
    by (cases "lookup (ca_now a) key (cw_idem w)")
  have now: "ca_now a \<le> T + ret" "T \<le> ca_now a" "ca_listing a" using a by (auto simp: attempt_ok_def)
  note lk = idem_ok_lookup [OF keys_okD(1) [OF w] now(1) ret l]
  let ?w = "w\<lparr>cw_idem := idem\<rparr>"
  have w1: "keys_ok T ret ?w" by (rule keys_ok_idem [OF w lk(1)])
  have w2: "keys_ok T ret (?w\<lparr>cw_idem := snd (release ok key idem)\<rparr>)" for ok
    by (rule keys_ok_idem [OF w1]) (use idem_ok_release [OF lk(1) none] in simp)
  have w3: "keys_ok T ret (?w\<lparr>cw_idem := snd (complete ok now' key ref idem)\<rparr>)" if "T \<le> now'" for ok now' ref
    by (rule keys_ok_idem [OF w1]) (use idem_ok_complete [OF lk(1) that] none in auto)
  consider (new) "found = None" "create_new cfg a key spec ?w = (r, w')"
    | (known) rec where "found = Some rec" "ir_phase rec = IdemComplete" "w' = ?w" "\<And>p. r \<noteq> Inr p"
    | (adopted) rec ref where "found = Some rec" "r = Inl (Adopted ref)"
        "w' = ?w\<lparr>cw_idem := snd (complete (ca_adopt_saved a) (ca_now a) key ref idem)\<rparr>"
    | (released) rec where "found = Some rec"
        "create_new cfg a key spec (?w\<lparr>cw_idem := snd (release (ca_release_saved a) key idem)\<rparr>) = (r, w')"
    using run key l
    by (cases found) (auto simp: create_begin_def Let_def resolvePending_def split: if_splits option.splits bool.splits)
  then have "(keys_ok T ret w' \<and> cw_live w' = cw_live w) \<and>
      (r = Inr (name, applied, env) \<longrightarrow> intent_recorded T key name (cs_cwd spec) w')"
  proof cases
    case new
    from create_new_ok [OF w1 a _ new(2)] none show ?thesis by auto
  next
    case known
    then show ?thesis using w1 by simp
  next
    case adopted
    then show ?thesis using w3 [OF now(2)] by simp
  next
    case released
    from create_new_ok [OF w2 a _ released(2)] none show ?thesis by auto
  qed
  then show "keys_ok T ret w' \<and> cw_live w' = cw_live w"
    and "r = Inr (name, applied, env) \<Longrightarrow> intent_recorded T key name (cs_cwd spec) w'" by blast+
qed

lemma started_ok:
  assumes w: "keys_ok T ret w" and i: "intent_recorded T key name cwd w" and free: "name \<notin> ls_name ` set (cw_live w)"
  shows "keys_ok T ret (w\<lparr>cw_live := cw_live w @ [\<lparr>ls_name = name, ls_cwd = cwd, ls_key = key\<rparr>]\<rparr>)"
proof -
  let ?s = "\<lparr>ls_name = name, ls_cwd = cwd, ls_key = key\<rparr>"
  have "leads_to T (map_of m key) ?s" if "m \<in> {is_keys (cw_idem w), doc_keys (is_doc (cw_idem w))}" for m
    using i that unfolding intent_recorded_def leads_to_def by fastforce
  then have "tracks T (cw_live w @ [?s]) m"
    if "m \<in> {is_keys (cw_idem w), doc_keys (is_doc (cw_idem w))}" "tracks T (cw_live w) m" for m
    using that by (auto simp: tracks_def)
  then have "idem_ok T ret (cw_live w @ [?s]) (cw_idem w)"
    using keys_okD(1) [OF w] by (simp add: idem_ok_def)
  moreover have "\<forall>x \<in> set (cw_live w). ls_key x \<noteq> key" using i by (simp add: intent_recorded_def)
  ultimately show ?thesis using w free by (auto simp: keys_ok_def)
qed

lemma create_finish_ok:
  assumes w: "keys_ok T ret w" and a: "attempt_ok T ret a spec"
    and i: "intent_recorded T key name (cs_cwd spec) w"
  shows "keys_ok T ret (snd (create_finish machine a key spec (name, applied, env) w))"
proof -
  have none: "\<forall>s \<in> set (cw_live w). ls_key s \<noteq> key" using i by (simp add: intent_recorded_def)
  have T: "T \<le> ca_now a" and cwd: "ca_seen_cwd a = cs_cwd spec" using a by (auto simp: attempt_ok_def)
  have rel: "keys_ok T ret (release_key a key w)"
    unfolding release_key_def by (rule keys_ok_idem [OF w idem_ok_release [OF keys_okD(1) [OF w] none]])
  show ?thesis
  proof (cases "\<not> ca_staged a \<or> \<not> ca_starts a \<or> name \<in> ls_name ` set (cw_live w)")
    case True
    then show ?thesis using rel by (auto simp: create_finish_def)
  next
    case False
    let ?w = "w\<lparr>cw_live := cw_live w @ [\<lparr>ls_name = name, ls_cwd = ca_seen_cwd a, ls_key = key\<rparr>]\<rparr>"
    have w1: "keys_ok T ret ?w" using started_ok [OF w i] False cwd by simp
    let ?idem = "snd (complete (ca_complete_saved a) (ca_now a) key (same_ref machine name) (cw_idem ?w))"
    have "idem_ok T ret (cw_live ?w) ?idem"
    proof (rule idem_ok_complete [OF keys_okD(1) [OF w1] T])
      fix x assume "x \<in> set (cw_live ?w)" "ls_key x = key"
      with none have "x = \<lparr>ls_name = name, ls_cwd = ca_seen_cwd a, ls_key = key\<rparr>" by simp blast
      then have "ls_name x = name" by (rule ssubst) simp
      then show "ls_name x = ref_id (same_ref machine name)" by (simp add: same_ref_def)
    qed
    then have w2: "keys_ok T ret (?w\<lparr>cw_idem := ?idem\<rparr>)" by (rule keys_ok_idem [OF w1])
    then have w3: "keys_ok T ret (?w\<lparr>cw_idem := ?idem, cw_records := recs\<rparr>)" for recs
      by (rule keys_ok_records)
    show ?thesis using False w1 w2 w3 by (simp add: create_finish_def Let_def case_prod_unfold)
  qed
qed

lemma Create_ok:
  assumes w: "keys_ok T ret w" and a: "attempt_ok T ret a spec" and ret: "0 \<le> ret"
  shows "keys_ok T ret (snd (Create machine cfg a key spec w))"
proof -
  obtain r w' where b: "create_begin machine cfg a key spec w = (r, w')"
    by (cases "create_begin machine cfg a key spec w")
  consider "key = []" | s where "key \<noteq> []" "s \<in> set (cw_live w)" "ls_key s = key"
    | "key \<noteq> []" "\<forall>s \<in> set (cw_live w). ls_key s \<noteq> key" by blast
  then show ?thesis
  proof cases
    case 1
    then show ?thesis using w by (simp add: Create_def create_begin_def)
  next
    case 2
    from create_begin_live [OF w a ret 2 b] b show ?thesis by (auto simp: Create_def)
  next
    case 3
    note f = create_begin_fresh [OF w a ret 3 b]
    show ?thesis
    proof (cases r)
      case (Inl x)
      then show ?thesis using f b by (simp add: Create_def)
    next
      case (Inr plan)
      then obtain name applied env where r: "r = Inr (name, applied, env)" by (cases plan) auto
      from create_finish_ok [OF conjunct1 [OF f(1)] a f(2) [OF r]] r b show ?thesis by (simp add: Create_def)
    qed
  qed
qed

lemma newIdemStore_readable:
  assumes "doc = Some NothingStored \<or> doc = Some (Loaded (doc_keys doc))"
  shows "newIdemStore ok now doc ret =
    Some (idem_saveLocked ok (sweepLocked now \<lparr>is_keys = doc_keys doc, is_doc = doc, is_retention = ret\<rparr>))"
proof (cases doc)
  case None
  with assms show ?thesis by simp
next
  case (Some d)
  with assms show ?thesis by (cases d) (simp_all add: newIdemStore_def doc_keys_def)
qed

lemma keys_ok_step:
  assumes w: "keys_ok T ret w" and ok: "op_ok T ret op" and ret: "0 \<le> ret"
  shows "keys_ok T ret (create_step machine cfg op w)"
proof (cases op)
  case (OpCreate a key spec)
  then show ?thesis using Create_ok [OF w _ ret] ok by simp
next
  case (OpEnd nm)
  have "tracks T (filter (\<lambda>s. ls_name s \<noteq> nm) (cw_live w)) m" if "tracks T (cw_live w) m" for m
    using tracks_sub [OF that] by simp
  then show ?thesis using w OpEnd by (auto simp: keys_ok_def idem_ok_def distinct_map_filter)
next
  case (OpRestart k now)
  let ?doc = "is_doc (cw_idem w)" and ?ret = "is_retention (cw_idem w)"
  have i: "tracks T (cw_live w) (doc_keys ?doc)" "?doc = Some NothingStored \<or> ?doc = Some (Loaded (doc_keys ?doc))" "?ret = ret"
    using keys_okD(1) [OF w] by (auto simp: idem_ok_def)
  let ?s = "sweepLocked now \<lparr>is_keys = doc_keys ?doc, is_doc = ?doc, is_retention = ret\<rparr>"
  have "idem_ok T ret (cw_live w) (snd (idem_saveLocked k ?s))"
  proof (rule idem_ok_save)
    show "tracks T (cw_live w) (is_keys ?s)"
      using tracks_sweep [OF i(1) _ ret, of now] ok OpRestart by (simp add: sweepLocked_def)
  qed (use i in \<open>simp_all add: sweepLocked_def\<close>)
  moreover have "newIdemStore k now ?doc ret = Some (idem_saveLocked k ?s)"
    using i(2) by (rule newIdemStore_readable)
  ultimately show ?thesis
    using OpRestart i(3) keys_ok_idem [OF w] by (simp add: case_prod_unfold)
qed

lemma keys_ok_run:
  "keys_ok T ret w \<Longrightarrow> \<forall>op \<in> set ops. op_ok T ret op \<Longrightarrow> 0 \<le> ret \<Longrightarrow> keys_ok T ret (create_run machine cfg ops w)"
  unfolding create_run_def by (induction ops arbitrary: w) (simp_all add: keys_ok_step)

lemma keys_ok_start:
  assumes "distinct (map ls_name live)" and "\<forall>s \<in> set live. ls_key s = []"
  shows "keys_ok T ret (world_start ret live recs)"
  using assms by (auto simp: keys_ok_def world_start_def idem_ok_def tracks_def doc_keys_def)

section \<open>Properties\<close>


definition demo_attempt :: create_attempt where
  "demo_attempt = \<lparr>ca_now = 5, ca_nonce = ''x'', ca_listing = True, ca_names = True, ca_seen_cwd = ''/w'',
     ca_adopt_saved = True, ca_release_saved = True, ca_reserve_saved = True, ca_complete_saved = True,
     ca_records_saved = True, ca_staged = True, ca_starts = True, ca_killed = NotKilled\<rparr>"

text \<open>Unnamed creates, each with its own nonce; the listing of names is not needed for these.\<close>

definition unnamed :: session_spec where
  "unnamed = demo_spec\<lparr>cs_name := []\<rparr>"

definition nonced :: "string \<Rightarrow> create_attempt" where
  "nonced n = demo_attempt\<lparr>ca_nonce := n, ca_names := False\<rparr>"

definition demo_world :: create_world where
  "demo_world = world_start hour [] (Some NothingStored)"

definition live_keys :: "create_world \<Rightarrow> (string \<times> string) list" where
  "live_keys w = map (\<lambda>s. (ls_name s, ls_key s)) (cw_live w)"

definition demo_creates :: "create_op list" where
  "demo_creates = [OpCreate ((nonced ''1'')\<lparr>ca_killed := KilledAfterStart\<rparr>) ''k'' unnamed, OpRestart True 6,
     OpCreate (nonced ''2'') ''k'' unnamed]"




section \<open>Where a key gives two agents, or the wrong one\<close>

text \<open>
  \<open>resolvePending\<close> answers a failed enumeration like an empty one: the pending key is released and a
  second agent is started beside the first.
\<close>

theorem failed_listing_starts_a_second_agent:
  "live_keys (create_run ''m'' demo_machine
     [OpCreate ((nonced ''1'')\<lparr>ca_killed := KilledAfterStart\<rparr>) ''k'' unnamed, OpRestart True 6,
      OpCreate ((nonced ''2'')\<lparr>ca_listing := False\<rparr>) ''k'' unnamed] demo_world) =
   [(''fleet-1'', ''k''), (''fleet-2'', ''k'')]"
  by code_simp

text \<open>A directory reported under another path (a symbolic link) has the same effect.\<close>

lemma other_path_starts_a_second_agent:
  "live_keys (create_run ''m'' demo_machine
     [OpCreate ((nonced ''1'')\<lparr>ca_seen_cwd := ''/private/w'', ca_killed := KilledAfterStart\<rparr>) ''k'' unnamed,
      OpRestart True 6, OpCreate (nonced ''2'') ''k'' unnamed] demo_world) =
   [(''fleet-1'', ''k''), (''fleet-2'', ''k'')]"
  by code_simp

text \<open>
  A retry that overlaps the first attempt finds its pending record and no session yet, releases the
  record and starts an agent; then the first attempt starts its own.
\<close>

lemma overlapping_retry_starts_a_second_agent:
  "let (first, w) = create_begin ''m'' demo_machine (nonced ''1'') ''k'' unnamed demo_world;
       (retry, w) = Create ''m'' demo_machine (nonced ''2'') ''k'' unnamed w;
       (result, w) = create_finish ''m'' (nonced ''1'') ''k'' unnamed (projr first) w
   in retry = Started (same_ref ''m'' ''fleet-2'') \<and> result = Started (same_ref ''m'' ''fleet-1'') \<and>
      live_keys w = [(''fleet-2'', ''k''), (''fleet-1'', ''k'')]"
  by code_simp

text \<open>
  A key whose create was killed before its session started adopts the session another key started
  under the same name in the same directory.
\<close>

lemma pending_key_adopts_another_keys_session:
  "fst (Create ''m'' demo_machine (nonced ''2'') ''k'' demo_spec
     (create_run ''m'' demo_machine
       [OpCreate ((nonced ''1'')\<lparr>ca_killed := KilledBeforeStart\<rparr>) ''k'' demo_spec, OpRestart True 6,
        OpCreate (nonced ''3'') ''other'' demo_spec] demo_world)) = Adopted (same_ref ''m'' ''bot'')"
  by code_simp

text \<open>A rename does not reach the keys: the replay of a renamed, living session says it has ended.\<close>

lemma renamed_session_replays_as_ended:
  "let (_, w) = Create ''m'' demo_machine (nonced ''1'') ''k'' demo_spec demo_world;
       w = w\<lparr>cw_live := map (\<lambda>s. s\<lparr>ls_name := ''new''\<rparr>) (cw_live w)\<rparr>
   in fst (Create ''m'' demo_machine (nonced ''2'') ''k'' demo_spec w) = CreateFailed ReplayOfEnded"
  by code_simp

end
