(* ===== verification/GoText.thy ===== *)
theory GoText
  imports Naming
begin

text \<open>
  What the readers of a pane's screen use of Go's \<open>strings\<close>, \<open>unicode/utf8\<close> and
  \<open>unicode\<close>: decoding and encoding of runes, searching, trimming and splitting. The tables of
  Unicode's character classes and case mappings are a parameter of the readers that need them.
\<close>

section \<open>Runes\<close>

type_synonym rune = int

definition RuneError :: rune where
  "RuneError = 0xFFFD"

definition byte :: "char \<Rightarrow> int" where
  "byte c = of_char c"

definition in_range :: "int \<Rightarrow> int \<Rightarrow> int \<Rightarrow> bool" where
  "in_range lo hi x = (lo \<le> x \<and> x \<le> hi)"

text \<open>
  The range a second byte must lie in after a first byte; \<open>None\<close> when the first byte starts no
  sequence. The length of the sequence comes with it.
\<close>

definition accept :: "int \<Rightarrow> (nat \<times> int \<times> int) option" where
  "accept b =
     (if in_range 0xC2 0xDF b then Some (2, 0x80, 0xBF)
      else if b = 0xE0 then Some (3, 0xA0, 0xBF)
      else if b = 0xED then Some (3, 0x80, 0x9F)
      else if in_range 0xE1 0xEF b then Some (3, 0x80, 0xBF)
      else if b = 0xF0 then Some (4, 0x90, 0xBF)
      else if in_range 0xF1 0xF3 b then Some (4, 0x80, 0xBF)
      else if b = 0xF4 then Some (4, 0x80, 0x8F)
      else None)"

fun decode_tail :: "int \<Rightarrow> nat \<Rightarrow> string \<Rightarrow> int option" where
  "decode_tail acc 0 s = Some acc"
| "decode_tail acc (Suc n) [] = None"
| "decode_tail acc (Suc n) (c # s) =
     (if in_range 0x80 0xBF (byte c) then decode_tail (acc * 64 + (byte c - 0x80)) n s else None)"

text \<open>\<open>utf8.DecodeRuneInString\<close>: the first rune and its size; a byte that starts none is an error of size one.\<close>

fun decode_rune :: "string \<Rightarrow> rune \<times> nat" where
  "decode_rune [] = (RuneError, 0)"
| "decode_rune (c # s) =
     (if byte c < 0x80 then (byte c, 1)
      else case accept (byte c) of
          None \<Rightarrow> (RuneError, 1)
        | Some (sz, lo, hi) \<Rightarrow>
            if s \<noteq> [] \<and> in_range lo hi (byte (hd s)) then
              (case decode_tail (byte c mod 2 ^ (7 - sz)) (sz - 1) s of
                 None \<Rightarrow> (RuneError, 1) | Some r \<Rightarrow> (r, sz))
            else (RuneError, 1))"

lemma accept_size: "accept b = Some (sz, lo, hi) \<Longrightarrow> 2 \<le> sz"
  by (auto simp: accept_def split: if_splits)

lemma decode_rune_size: "s \<noteq> [] \<Longrightarrow> 0 < snd (decode_rune s)"
  by (cases s) (auto dest: accept_size split: option.split)

text \<open>\<open>[]rune(s)\<close>, and ranging over a string.\<close>

function runes :: "string \<Rightarrow> rune list" where
  "runes s = (if s = [] then [] else let (r, n) = decode_rune s in r # runes (drop n s))"
  by pat_completeness auto

termination
proof (relation "measure length")
  fix s :: string and x r n
  assume s: "s \<noteq> []" and x: "x = decode_rune s" "(r, n) = x"
  have "snd (decode_rune s) = n" using x by (metis snd_conv)
  with decode_rune_size [OF s] have "0 < n" by simp
  with s show "(drop n s, s) \<in> measure length" by (cases s) auto
qed simp

declare runes.simps [simp del]

lemma runes_Nil [simp]: "runes [] = []"
  by (simp add: runes.simps)

lemma runes_ascii: "byte c < 0x80 \<Longrightarrow> runes (c # s) = byte c # runes s"
  by (simp add: runes.simps [of "c # s"])

text \<open>\<open>string(r)\<close>; what is no code point is written as the error rune.\<close>

definition encode_rune :: "rune \<Rightarrow> string" where
  "encode_rune r =
     (let r = (if r < 0 \<or> r > 0x10FFFF \<or> in_range 0xD800 0xDFFF r then RuneError else r)
      in map char_of
        (if r < 0x80 then [r]
         else if r < 0x800 then [0xC0 + r div 64, 0x80 + r mod 64]
         else if r < 0x10000 then [0xE0 + r div 4096, 0x80 + r div 64 mod 64, 0x80 + r mod 64]
         else [0xF0 + r div 262144, 0x80 + r div 4096 mod 64, 0x80 + r div 64 mod 64, 0x80 + r mod 64]))"

definition of_runes :: "rune list \<Rightarrow> string" where
  "of_runes rs = concat (map encode_rune rs)"

text \<open>\<open>unicode.IsSpace\<close>, the White\_Space property.\<close>

definition is_space :: "rune \<Rightarrow> bool" where
  "is_space r = (in_range 9 13 r \<or> r = 0x20 \<or> r = 0x85 \<or> r = 0xA0 \<or> r = 0x1680 \<or> in_range 0x2000 0x200A r \<or>
     r = 0x2028 \<or> r = 0x2029 \<or> r = 0x202F \<or> r = 0x205F \<or> r = 0x3000)"

text \<open>
  The Unicode tables behind \<open>unicode.IsSymbol\<close>, \<open>IsPunct\<close>, \<open>IsUpper\<close>, \<open>IsLetter\<close>,
  \<open>IsDigit\<close> and \<open>ToLower\<close>; \<open>sha256\<close> in hexadecimal, and the text of a rounded duration.
\<close>

record golib =
  uc_symbol :: "rune \<Rightarrow> bool"
  uc_punct :: "rune \<Rightarrow> bool"
  uc_upper :: "rune \<Rightarrow> bool"
  uc_letter :: "rune \<Rightarrow> bool"
  uc_digit :: "rune \<Rightarrow> bool"
  uc_lower :: "rune \<Rightarrow> rune"
  lib_sha256_hex :: "string \<Rightarrow> string"
  lib_show_duration :: "int \<Rightarrow> string"

definition ToLower :: "golib \<Rightarrow> string \<Rightarrow> string" where
  "ToLower uc s = of_runes (map (uc_lower uc) (runes s))"

section \<open>Searching and trimming\<close>

definition trim_prefix :: "string \<Rightarrow> string \<Rightarrow> string" where
  "trim_prefix s p = (if has_prefix s p then drop (length p) s else s)"

definition trim_left_chars :: "char list \<Rightarrow> string \<Rightarrow> string" where
  "trim_left_chars cs s = dropWhile (\<lambda>c. c \<in> set cs) s"

definition trim_right_chars :: "char list \<Rightarrow> string \<Rightarrow> string" where
  "trim_right_chars cs s = rev (dropWhile (\<lambda>c. c \<in> set cs) (rev s))"

text \<open>\<open>strings.Index\<close> and \<open>strings.Count\<close> (of a non-empty pattern).\<close>

fun str_index :: "string \<Rightarrow> string \<Rightarrow> nat option" where
  "str_index s p =
     (if has_prefix s p then Some 0 else case s of [] \<Rightarrow> None | _ # t \<Rightarrow> map_option Suc (str_index t p))"

declare str_index.simps [simp del]

function str_count :: "string \<Rightarrow> string \<Rightarrow> nat" where
  "str_count p s =
     (if s = [] \<or> p = [] then 0
      else if has_prefix s p then Suc (str_count p (drop (length p) s))
      else str_count p (tl s))"
  by pat_completeness auto

termination by (relation "measure (\<lambda>(p, s). length s)") (auto simp: neq_Nil_conv)

declare str_count.simps [simp del]

definition contains_any :: "string \<Rightarrow> string list \<Rightarrow> bool" where
  "contains_any s ps = list_ex (str_contains s) ps"

fun join :: "string \<Rightarrow> string list \<Rightarrow> string" where
  "join sep [] = []"
| "join sep [s] = s"
| "join sep (s # ss) = s @ sep @ join sep ss"

lemma has_prefix_length: "has_prefix s p \<Longrightarrow> length p \<le> length s"
  by (auto simp: has_prefix_iff)

lemma str_index_SomeD: "str_index s p = Some i \<Longrightarrow> i + length p \<le> length s \<and> has_prefix (drop i s) p"
proof (induction s arbitrary: i)
  case Nil
  then show ?case by (auto simp: str_index.simps [of "[]"] has_prefix_def split: if_splits)
next
  case (Cons c s)
  show ?case
  proof (cases "has_prefix (c # s) p")
    case True
    then show ?thesis using Cons.prems has_prefix_length [OF True] by (simp add: str_index.simps [of "c # s"])
  next
    case False
    then obtain j where "str_index s p = Some j" "i = Suc j"
      using Cons.prems by (auto simp: str_index.simps [of "c # s"])
    then show ?thesis using Cons.IH by simp
  qed
qed

text \<open>\<open>strings.Split\<close> with a separator of several bytes.\<close>

function split_str :: "string \<Rightarrow> string \<Rightarrow> string list" where
  "split_str sep s =
     (case str_index s sep of
        None \<Rightarrow> [s]
      | Some i \<Rightarrow> if sep = [] then [s] else take i s # split_str sep (drop (i + length sep) s))"
  by pat_completeness auto

termination
  by (relation "measure (\<lambda>(sep, s). length s)") (auto dest!: str_index_SomeD simp: neq_Nil_conv)

text \<open>\<open>strings.Fields\<close> on text whose words are separated by white space.\<close>

fun rune_words :: "rune list \<Rightarrow> rune list \<Rightarrow> rune list list" where
  "rune_words cur [] = (if cur = [] then [] else [cur])"
| "rune_words cur (r # rs) =
     (if is_space r then (if cur = [] then rune_words [] rs else cur # rune_words [] rs)
      else rune_words (cur @ [r]) rs)"

definition Fields :: "string \<Rightarrow> string list" where
  "Fields s = map of_runes (rune_words [] (runes s))"

section \<open>Trimming\<close>

declare trim_left_of.simps [simp del]

definition starts_blank :: "string list \<Rightarrow> string \<Rightarrow> bool" where
  "starts_blank ws s = list_ex (\<lambda>w. w \<noteq> [] \<and> has_prefix s w) ws"

lemma trim_left_of_suffix: "\<exists>p. s = p @ trim_left_of ws s"
proof (induction ws s rule: trim_left_of.induct)
  case (1 ws s)
  show ?case
  proof (cases "find (\<lambda>w. w \<noteq> [] \<and> has_prefix s w) ws")
    case (Some w)
    from 1 [OF Some] obtain p where "drop (length w) s = p @ trim_left_of ws (drop (length w) s)" by blast
    then have "s = (take (length w) s @ p) @ trim_left_of ws (drop (length w) s)"
      by (metis append.assoc append_take_drop_id)
    moreover have "trim_left_of ws s = trim_left_of ws (drop (length w) s)"
      using Some by (simp add: trim_left_of.simps [of ws s])
    ultimately show ?thesis by (metis append.assoc)
  qed (simp add: trim_left_of.simps [of ws s])
qed

lemma trim_left_of_id: "trim_left_of ws s = s \<longleftrightarrow> \<not> starts_blank ws s"
proof -
  have len: "length (trim_left_of ws s) \<le> length s" for s
    using trim_left_of_suffix [of s ws] by (metis length_append le_add2)
  show ?thesis
  proof (cases "find (\<lambda>w. w \<noteq> [] \<and> has_prefix s w) ws")
    case None
    then have "trim_left_of ws s = s" by (simp add: trim_left_of.simps [of ws s])
    moreover have "\<not> starts_blank ws s" using None by (auto simp: starts_blank_def find_None_iff list_ex_iff)
    ultimately show ?thesis by simp
  next
    case (Some w)
    then have w: "w \<in> set ws" "w \<noteq> []" "has_prefix s w" by (auto simp: find_Some_iff)
    have "length (trim_left_of ws s) \<le> length (drop (length w) s)"
      using Some len [of "drop (length w) s"] by (simp add: trim_left_of.simps [of ws s])
    also have "\<dots> < length s" using w(2) has_prefix_length [OF w(3)] by (cases w) simp_all
    finally show ?thesis using w by (auto simp: starts_blank_def list_ex_iff)
  qed
qed

abbreviation trimmed :: "string \<Rightarrow> bool" where
  "trimmed s \<equiv> TrimSpace s = s"

lemma trimmed_iff: "trimmed s \<longleftrightarrow> \<not> starts_blank white_space s \<and> \<not> starts_blank (map rev white_space) (rev s)"
proof
  assume t: "trimmed s"
  obtain p where p: "s = p @ trim_left_of white_space s" using trim_left_of_suffix by blast
  obtain q where q: "rev (trim_left_of white_space s) = q @ trim_left_of (map rev white_space) (rev (trim_left_of white_space s))"
    using trim_left_of_suffix by blast
  have "trim_left_of (map rev white_space) (rev (trim_left_of white_space s)) = rev s"
    using t unfolding TrimSpace_def by (metis rev_rev_ident)
  with q have "rev (trim_left_of white_space s) = q @ rev s" by simp
  then have "length (trim_left_of white_space s) = length q + length s" by (metis length_append length_rev)
  moreover have "length s = length p + length (trim_left_of white_space s)" by (metis p length_append)
  ultimately have "p = []" by simp
  with p have l: "trim_left_of white_space s = s" by simp
  with t have "trim_left_of (map rev white_space) (rev s) = rev s" by (simp add: TrimSpace_def rev_swap)
  with l show "\<not> starts_blank white_space s \<and> \<not> starts_blank (map rev white_space) (rev s)"
    by (simp add: trim_left_of_id)
next
  assume "\<not> starts_blank white_space s \<and> \<not> starts_blank (map rev white_space) (rev s)"
  then show "trimmed s" by (simp add: TrimSpace_def trim_left_of_id [THEN iffD2])
qed

text \<open>No white space of several bytes holds a plain blank, so a blank between two texts protects both.\<close>

lemma starts_blank_append:
  assumes ws: "list_all (\<lambda>w. CHR '' '' \<notin> set (tl w)) ws" and s: "s \<noteq> []" "\<not> starts_blank ws s"
  shows "\<not> starts_blank ws (s @ CHR '' '' # t)"
proof
  assume "starts_blank ws (s @ CHR '' '' # t)"
  then obtain w where w: "w \<in> set ws" "w \<noteq> []" "has_prefix (s @ CHR '' '' # t) w"
    by (auto simp: starts_blank_def list_ex_iff)
  show False
  proof (cases "length w \<le> length s")
    case True
    then have "has_prefix s w" using w(3) by (simp add: has_prefix_def)
    with w s show False by (auto simp: starts_blank_def list_ex_iff)
  next
    case False
    then obtain n where n: "length w - length s = Suc n" by (cases "length w - length s") auto
    then have "w = s @ CHR '' '' # take n t" using w(3) False by (simp add: has_prefix_def)
    then have "CHR '' '' \<in> set (tl w)" using s by (cases s) auto
    then show False using ws w(1) by (auto simp: list_all_iff)
  qed
qed

lemma white_space_inner:
  "list_all (\<lambda>w. CHR '' '' \<notin> set (tl w)) white_space"
  "list_all (\<lambda>w. CHR '' '' \<notin> set (tl w)) (map rev white_space)"
  by (simp_all add: white_space_def)

lemma trimmed_blank_between:
  assumes "trimmed s" "s \<noteq> []" "trimmed t" "t \<noteq> []"
  shows "trimmed (s @ CHR '' '' # t)"
proof -
  have "\<not> starts_blank (map rev white_space) (rev t @ CHR '' '' # rev s)"
    by (rule starts_blank_append [OF white_space_inner(2)]) (use assms in \<open>auto simp: trimmed_iff\<close>)
  moreover have "\<not> starts_blank white_space (s @ CHR '' '' # t)"
    by (rule starts_blank_append [OF white_space_inner(1)]) (use assms in \<open>auto simp: trimmed_iff\<close>)
  ultimately show ?thesis by (simp add: trimmed_iff)
qed

lemma trimmed_join: "list_all (\<lambda>t. trimmed t \<and> t \<noteq> []) ts \<Longrightarrow> trimmed (join '' '' ts) \<and> (ts \<noteq> [] \<longrightarrow> join '' '' ts \<noteq> [])"
proof (induction "'' ''" ts rule: join.induct)
  case 1
  show ?case by (simp add: trimmed_iff starts_blank_def list_ex_iff has_prefix_def)
next
  case (3 s t ts)
  then show ?case using trimmed_blank_between [of s "join '' '' (t # ts)"] by simp
qed simp

lemma TrimSpace_blank: "TrimSpace (CHR '' '' # s) = TrimSpace s"
proof -
  have "find (\<lambda>w. w \<noteq> [] \<and> has_prefix (CHR '' '' # s) w) white_space = Some '' ''"
    by (simp add: white_space_def has_prefix_def)
  then have "trim_left_of white_space (CHR '' '' # s) = trim_left_of white_space s"
    by (subst trim_left_of.simps) simp
  then show ?thesis by (simp add: TrimSpace_def)
qed

lemma trimmed_last: "trimmed s \<Longrightarrow> s \<noteq> [] \<Longrightarrow> last s \<notin> {CHR '' '', CHR 0x09, CHR 0x0D}"
proof -
  assume t: "trimmed s" and s: "s \<noteq> []"
  have "\<not> has_prefix (rev s) w" if "w \<in> set (map rev white_space)" "w \<noteq> []" for w
    using t that by (auto simp: trimmed_iff starts_blank_def list_ex_iff)
  moreover have "[c] \<in> set (map rev white_space)" if "c \<in> {CHR '' '', CHR 0x09, CHR 0x0D}" for c
    using that by (auto simp: white_space_def)
  moreover have "has_prefix (rev s) [last s]" using s by (cases s rule: rev_cases) (auto simp: has_prefix_def)
  ultimately show ?thesis by blast
qed

section \<open>Encoding and decoding\<close>

text \<open>What is decoded are code points, and what is encoded from them is decoded to them.\<close>

definition code_point :: "rune \<Rightarrow> bool" where
  "code_point r \<longleftrightarrow> 0 \<le> r \<and> r \<le> 0x10FFFF \<and> \<not> in_range 0xD800 0xDFFF r"

lemma byte_char: "0 \<le> k \<Longrightarrow> k < 256 \<Longrightarrow> byte (char_of k) = k"
  by (simp add: byte_def)

lemma sixes:
  assumes "0 \<le> (r :: int)"
  obtains q t where "r = q * 64 + t" "0 \<le> t" "t < 64" "0 \<le> q" "r div 64 = q" "r mod 64 = t"
  using assms by (intro that [of "r div 64" "r mod 64"]) simp_all

lemma decode_two:
  assumes "r = q * 64 + t" and "2 \<le> q" "q < 32" "0 \<le> t" "t < 64"
  shows "decode_rune (char_of (0xC0 + q) # char_of (0x80 + t) # s) = (r, 2)"
proof -
  have "(0xC0 + q) mod 32 = q" using assms by (simp add: mod_pos_pos_trivial flip: mod_add_left_eq [of "0xC0"])
  then show ?thesis using assms by (simp add: byte_char accept_def in_range_def numeral_2_eq_2)
qed

lemma decode_three:
  assumes "r = (p * 64 + q) * 64 + t" and "0 \<le> p" "p < 16" "0 \<le> q" "q < 64" "0 \<le> t" "t < 64"
    and "p = 0 \<longrightarrow> 32 \<le> q" and "p = 13 \<longrightarrow> q < 32"
  shows "decode_rune (char_of (0xE0 + p) # char_of (0x80 + q) # char_of (0x80 + t) # s) = (r, 3)"
proof -
  have "(0xE0 + p) mod 16 = p" using assms by (simp add: mod_pos_pos_trivial flip: mod_add_left_eq [of "0xE0"])
  then show ?thesis using assms by (auto simp: byte_char accept_def in_range_def numeral_2_eq_2 numeral_3_eq_3)
qed

lemma decode_four:
  assumes "r = ((n * 64 + p) * 64 + q) * 64 + t" and "0 \<le> n" "n < 5" "0 \<le> p" "p < 64" "0 \<le> q" "q < 64" "0 \<le> t" "t < 64"
    and "n = 0 \<longrightarrow> 16 \<le> p" and "n = 4 \<longrightarrow> p < 16"
  shows "decode_rune (char_of (0xF0 + n) # char_of (0x80 + p) # char_of (0x80 + q) # char_of (0x80 + t) # s) = (r, 4)"
proof -
  have "(0xF0 + n) mod 8 = n" using assms by (simp add: mod_pos_pos_trivial flip: mod_add_left_eq [of "0xF0"])
  then show ?thesis using assms by (auto simp: byte_char accept_def in_range_def numeral_3_eq_3)
qed

lemma decode_encode:
  assumes "code_point r"
  shows "decode_rune (encode_rune r @ s) = (r, length (encode_rune r)) \<and> encode_rune r \<noteq> []"
proof -
  have r: "0 \<le> r" "r \<le> 0x10FFFF" "r < 0xD800 \<or> 0xDFFF < r" using assms by (auto simp: code_point_def in_range_def)
  obtain q t where q: "r = q * 64 + t" "0 \<le> t" "t < 64" "0 \<le> q" "r div 64 = q" "r mod 64 = t" by (rule sixes [OF r(1)])
  obtain p u where p: "q = p * 64 + u" "0 \<le> u" "u < 64" "0 \<le> p" "q div 64 = p" "q mod 64 = u" by (rule sixes [OF q(4)])
  obtain n v where n: "p = n * 64 + v" "0 \<le> v" "v < 64" "0 \<le> n" "p div 64 = n" "p mod 64 = v" by (rule sixes [OF p(4)])
  have div: "r div 4096 = p" "r div 262144 = n"
    using q(5) p(5) n(5) zdiv_zmult2_eq [of 64 r 64] zdiv_zmult2_eq [of 64 r 4096] zdiv_zmult2_eq [of 64 q 64] by simp_all
  have whole: "(if r < 0 \<or> r > 0x10FFFF \<or> in_range 0xD800 0xDFFF r then RuneError else r) = r"
    using r by (auto simp: in_range_def)
  have enc: "encode_rune r = map char_of
      (if r < 0x80 then [r] else if r < 0x800 then [0xC0 + q, 0x80 + t]
       else if r < 0x10000 then [0xE0 + p, 0x80 + u, 0x80 + t] else [0xF0 + n, 0x80 + v, 0x80 + u, 0x80 + t])"
    unfolding encode_rune_def Let_def whole div q(5,6) p(6) n(6) ..
  consider "r < 0x80" | "0x80 \<le> r" "r < 0x800" | "0x800 \<le> r" "r < 0x10000" | "0x10000 \<le> r" by linarith
  then show ?thesis
  proof cases
    case 1
    then show ?thesis unfolding enc using r(1) by (simp add: byte_char)
  next
    case 2
    have "decode_rune (char_of (0xC0 + q) # char_of (0x80 + t) # s) = (r, 2)"
      by (rule decode_two; (rule impI)?; use 2 q(1-3) in linarith)
    with 2 show ?thesis unfolding enc by (simp del: decode_rune.simps)
  next
    case 3
    have "decode_rune (char_of (0xE0 + p) # char_of (0x80 + u) # char_of (0x80 + t) # s) = (r, 3)"
    proof (rule decode_three)
      show "r = (p * 64 + u) * 64 + t" using q(1) p(1) by simp
      show "p = 13 \<longrightarrow> u < 32" using 3 r(3) q(1-3) p(1-4) by auto
      show "p = 0 \<longrightarrow> 32 \<le> u" using 3 q(1-3) p(1-4) by auto
    qed (use 3 q(1-3) p(1-4) in linarith)+
    with 3 show ?thesis unfolding enc by (simp del: decode_rune.simps)
  next
    case 4
    have "decode_rune (char_of (0xF0 + n) # char_of (0x80 + v) # char_of (0x80 + u) # char_of (0x80 + t) # s) = (r, 4)"
    proof (rule decode_four)
      show "r = ((n * 64 + v) * 64 + u) * 64 + t" using q(1) p(1) n(1) by simp
      show "n = 0 \<longrightarrow> 16 \<le> v" "n = 4 \<longrightarrow> v < 16" using 4 r(2) q(1-3) p(1-4) n(1-4) by auto
    qed (use 4 r(2) q(1-3) p(1-4) n(1-4) in linarith)+
    with 4 show ?thesis unfolding enc by (simp del: decode_rune.simps)
  qed
qed

text \<open>Runes that were decoded are code points.\<close>

lemma decode_tail_value:
  "decode_tail acc n s = Some r \<Longrightarrow> acc * 64 ^ n \<le> r \<and> r < (acc + 1) * 64 ^ n"
proof (induction acc n s rule: decode_tail.induct)
  case (3 acc n c s)
  then have b: "in_range 0x80 0xBF (byte c)" and d: "decode_tail (acc * 64 + (byte c - 0x80)) n s = Some r" by (auto split: if_splits)
  let ?t = "byte c - 0x80"
  have t: "0 \<le> ?t" "?t + 1 \<le> 64" using b by (auto simp: in_range_def)
  have pow: "0 < (64 :: int) ^ n" by simp
  have "acc * 64 ^ Suc n \<le> (acc * 64 + ?t) * 64 ^ n"
    using mult_right_mono [of "acc * 64" "acc * 64 + ?t" "64 ^ n"] t(1) by (simp add: mult.assoc)
  moreover have "(acc * 64 + ?t + 1) * 64 ^ n \<le> (acc + 1) * 64 ^ Suc n"
    using mult_right_mono [of "acc * 64 + ?t + 1" "(acc + 1) * 64" "64 ^ n"] t(2) by (simp add: mult.assoc)
  ultimately show ?case using "3.IH" [OF b d] by linarith
qed simp_all

lemma leading_bits:
  fixes b :: int
  shows "in_range 0xC0 0xDF b \<Longrightarrow> b mod 32 = b - 0xC0" and "in_range 0xE0 0xEF b \<Longrightarrow> b mod 16 = b - 0xE0"
    and "in_range 0xF0 0xF7 b \<Longrightarrow> b mod 8 = b - 0xF0"
  unfolding in_range_def by presburger+

lemma decoded_code_point:
  assumes "accept b = Some (sz, lo, hi)" and "in_range lo hi (byte d)"
    and "decode_tail (b mod 2 ^ (7 - sz)) (sz - 1) (d # s) = Some r"
  shows "code_point r"
proof -
  define acc where "acc = b mod 2 ^ (7 - sz)"
  define t where "t = byte d - 0x80"
  have sz: "2 \<le> sz" using assms(1) by (rule accept_size)
  then obtain n where n: "sz - 1 = Suc n" "sz = n + 2" using that [of "sz - 2"] by simp
  have "decode_tail (acc * 64 + t) n s = Some r"
    using assms(3) unfolding acc_def [symmetric] n(1) t_def by (auto split: if_splits)
  note r = decode_tail_value [OF this]
  have split: "b = 0xE0 \<or> b = 0xED \<or> b = 0xF0 \<or> b = 0xF4 \<or> in_range 0xC2 0xDF b \<or>
      in_range 0xE1 0xEC b \<or> in_range 0xEE 0xEF b \<or> in_range 0xF1 0xF3 b"
    using assms(1) by (auto simp: accept_def in_range_def split: if_splits)
  then show ?thesis
  proof (elim disjE)
    assume "b = 0xE0"
    with assms(1,2) n r show ?thesis by (auto simp: accept_def in_range_def acc_def t_def code_point_def)
  next
    assume "b = 0xED"
    with assms(1,2) n r show ?thesis by (auto simp: accept_def in_range_def acc_def t_def code_point_def)
  next
    assume "b = 0xF0"
    with assms(1,2) n r show ?thesis by (auto simp: accept_def in_range_def acc_def t_def code_point_def numeral_2_eq_2)
  next
    assume "b = 0xF4"
    with assms(1,2) n r show ?thesis by (auto simp: accept_def in_range_def acc_def t_def code_point_def numeral_2_eq_2)
  next
    assume b: "in_range 0xC2 0xDF b"
    with assms(1) n have "n = 0" "acc = b - 0xC0" "lo = 0x80" "hi = 0xBF"
      using leading_bits(1) [of b] by (auto simp: accept_def in_range_def acc_def)
    with b r assms(2) show ?thesis by (auto simp: in_range_def t_def code_point_def)
  next
    assume b: "in_range 0xE1 0xEC b"
    with assms(1) n have "n = 1" "acc = b - 0xE0" "lo = 0x80" "hi = 0xBF"
      using leading_bits(2) [of b] by (auto simp: accept_def in_range_def acc_def split: if_splits)
    with b r assms(2) show ?thesis by (auto simp: in_range_def t_def code_point_def)
  next
    assume b: "in_range 0xEE 0xEF b"
    with assms(1) n have "n = 1" "acc = b - 0xE0" "lo = 0x80" "hi = 0xBF"
      using leading_bits(2) [of b] by (auto simp: accept_def in_range_def acc_def split: if_splits)
    with b r assms(2) show ?thesis by (auto simp: in_range_def t_def code_point_def)
  next
    assume b: "in_range 0xF1 0xF3 b"
    with assms(1) n have "n = 2" "acc = b - 0xF0" "lo = 0x80" "hi = 0xBF"
      using leading_bits(3) [of b] by (auto simp: accept_def in_range_def acc_def split: if_splits)
    with b r assms(2) show ?thesis by (auto simp: in_range_def t_def code_point_def)
  qed
qed

lemma decode_code_point: "s \<noteq> [] \<Longrightarrow> code_point (fst (decode_rune s))"
proof (cases s)
  case (Cons c s')
  have err: "code_point RuneError" by (simp add: code_point_def in_range_def RuneError_def)
  have low: "0 \<le> byte c" unfolding byte_def by (metis of_nat_of_char of_nat_0_le_iff)
  show ?thesis
  proof (cases "byte c < 0x80")
    case True
    then show ?thesis using Cons low by (simp add: code_point_def in_range_def)
  next
    case high: False
    show ?thesis
    proof (cases "accept (byte c)")
      case None
      then show ?thesis using Cons high err by simp
    next
      case (Some x)
      obtain sz lo hi where x: "x = (sz, lo, hi)" by (cases x)
      show ?thesis
      proof (cases "s' \<noteq> [] \<and> in_range lo hi (byte (hd s')) \<and> decode_tail (byte c mod 2 ^ (7 - sz)) (sz - 1) s' \<noteq> None")
        case False
        then show ?thesis using Cons high err Some x by (auto split: option.split)
      next
        case True
        then obtain d s'' r where s': "s' = d # s''" "in_range lo hi (byte d)"
          "decode_tail (byte c mod 2 ^ (7 - sz)) (sz - 1) (d # s'') = Some r"
          by (cases s') auto
        have "fst (decode_rune s) = r" using Cons high Some x s' by simp
        moreover have "code_point r"
          using decoded_code_point Some s'(2,3) unfolding x by blast
        ultimately show ?thesis by simp
      qed
    qed
  qed
qed simp


lemma runes_code_points: "list_all code_point (runes s)"
proof (induction s rule: runes.induct)
  case (1 s)
  show ?case
  proof (cases "s = []")
    case False
    then have "runes s = fst (decode_rune s) # runes (drop (snd (decode_rune s)) s)"
      by (simp add: runes.simps [of s] split_beta)
    then show ?thesis using 1 [OF False refl prod.collapse] decode_code_point [OF False] by simp
  qed simp
qed

lemma runes_of_runes: "list_all code_point rs \<Longrightarrow> runes (of_runes rs) = rs"
proof (induction rs)
  case (Cons r rs)
  then have d: "decode_rune (encode_rune r @ of_runes rs) = (r, length (encode_rune r))" "encode_rune r \<noteq> []"
    using decode_encode [of r "of_runes rs"] by simp_all
  have "runes (encode_rune r @ of_runes rs) = r # runes (of_runes rs)"
    using d by (subst runes.simps) (simp del: decode_rune.simps)
  with Cons show ?case by (simp add: of_runes_def)
qed (simp add: of_runes_def)

end
