(* ===== verification/NfcLite.thy ===== *)
theory NfcLite
  imports GoText
begin

text \<open>
  The composition of Latin letters with their combining marks
  (\<open>internal/drivers/tmux/nfclite.go\<close>) and the white-space folding built on it
  (\<open>composertext.go\<close>). The table is the source's, entry by entry; a key is its runes.
\<close>

definition nfcLiteTable :: "(rune list \<times> rune) list" where
  "nfcLiteTable = [
     ([0x0041, 0x0300], 0x00C0), ([0x0041, 0x0301], 0x00C1), ([0x0041, 0x0302], 0x00C2),
     ([0x0041, 0x0303], 0x00C3), ([0x0041, 0x0304], 0x0100), ([0x0041, 0x0306], 0x0102),
     ([0x0041, 0x0307], 0x0226), ([0x0041, 0x0308], 0x00C4), ([0x0041, 0x0309], 0x1EA2),
     ([0x0041, 0x030A], 0x00C5), ([0x0041, 0x030C], 0x01CD), ([0x0041, 0x030F], 0x0200),
     ([0x0041, 0x0311], 0x0202), ([0x0041, 0x0323], 0x1EA0), ([0x0041, 0x0325], 0x1E00),
     ([0x0041, 0x0328], 0x0104), ([0x0042, 0x0307], 0x1E02), ([0x0042, 0x0323], 0x1E04),
     ([0x0042, 0x0331], 0x1E06), ([0x0043, 0x0301], 0x0106), ([0x0043, 0x0302], 0x0108),
     ([0x0043, 0x0307], 0x010A), ([0x0043, 0x030C], 0x010C), ([0x0043, 0x0327], 0x00C7),
     ([0x0044, 0x0307], 0x1E0A), ([0x0044, 0x030C], 0x010E), ([0x0044, 0x0323], 0x1E0C),
     ([0x0044, 0x0327], 0x1E10), ([0x0044, 0x032D], 0x1E12), ([0x0044, 0x0331], 0x1E0E),
     ([0x0045, 0x0300], 0x00C8), ([0x0045, 0x0301], 0x00C9), ([0x0045, 0x0302], 0x00CA),
     ([0x0045, 0x0303], 0x1EBC), ([0x0045, 0x0304], 0x0112), ([0x0045, 0x0306], 0x0114),
     ([0x0045, 0x0307], 0x0116), ([0x0045, 0x0308], 0x00CB), ([0x0045, 0x0309], 0x1EBA),
     ([0x0045, 0x030C], 0x011A), ([0x0045, 0x030F], 0x0204), ([0x0045, 0x0311], 0x0206),
     ([0x0045, 0x0323], 0x1EB8), ([0x0045, 0x0327], 0x0228), ([0x0045, 0x0328], 0x0118),
     ([0x0045, 0x032D], 0x1E18), ([0x0045, 0x0330], 0x1E1A), ([0x0046, 0x0307], 0x1E1E),
     ([0x0047, 0x0301], 0x01F4), ([0x0047, 0x0302], 0x011C), ([0x0047, 0x0304], 0x1E20),
     ([0x0047, 0x0306], 0x011E), ([0x0047, 0x0307], 0x0120), ([0x0047, 0x030C], 0x01E6),
     ([0x0047, 0x0327], 0x0122), ([0x0048, 0x0302], 0x0124), ([0x0048, 0x0307], 0x1E22),
     ([0x0048, 0x0308], 0x1E26), ([0x0048, 0x030C], 0x021E), ([0x0048, 0x0323], 0x1E24),
     ([0x0048, 0x0327], 0x1E28), ([0x0048, 0x032E], 0x1E2A), ([0x0049, 0x0300], 0x00CC),
     ([0x0049, 0x0301], 0x00CD), ([0x0049, 0x0302], 0x00CE), ([0x0049, 0x0303], 0x0128),
     ([0x0049, 0x0304], 0x012A), ([0x0049, 0x0306], 0x012C), ([0x0049, 0x0307], 0x0130),
     ([0x0049, 0x0308], 0x00CF), ([0x0049, 0x0309], 0x1EC8), ([0x0049, 0x030C], 0x01CF),
     ([0x0049, 0x030F], 0x0208), ([0x0049, 0x0311], 0x020A), ([0x0049, 0x0323], 0x1ECA),
     ([0x0049, 0x0328], 0x012E), ([0x0049, 0x0330], 0x1E2C), ([0x004A, 0x0302], 0x0134),
     ([0x004B, 0x0301], 0x1E30), ([0x004B, 0x030C], 0x01E8), ([0x004B, 0x0323], 0x1E32),
     ([0x004B, 0x0327], 0x0136), ([0x004B, 0x0331], 0x1E34), ([0x004C, 0x0301], 0x0139),
     ([0x004C, 0x030C], 0x013D), ([0x004C, 0x0323], 0x1E36), ([0x004C, 0x0327], 0x013B),
     ([0x004C, 0x032D], 0x1E3C), ([0x004C, 0x0331], 0x1E3A), ([0x004D, 0x0301], 0x1E3E),
     ([0x004D, 0x0307], 0x1E40), ([0x004D, 0x0323], 0x1E42), ([0x004E, 0x0300], 0x01F8),
     ([0x004E, 0x0301], 0x0143), ([0x004E, 0x0303], 0x00D1), ([0x004E, 0x0307], 0x1E44),
     ([0x004E, 0x030C], 0x0147), ([0x004E, 0x0323], 0x1E46), ([0x004E, 0x0327], 0x0145),
     ([0x004E, 0x032D], 0x1E4A), ([0x004E, 0x0331], 0x1E48), ([0x004F, 0x0300], 0x00D2),
     ([0x004F, 0x0301], 0x00D3), ([0x004F, 0x0302], 0x00D4), ([0x004F, 0x0303], 0x00D5),
     ([0x004F, 0x0304], 0x014C), ([0x004F, 0x0306], 0x014E), ([0x004F, 0x0307], 0x022E),
     ([0x004F, 0x0308], 0x00D6), ([0x004F, 0x0309], 0x1ECE), ([0x004F, 0x030B], 0x0150),
     ([0x004F, 0x030C], 0x01D1), ([0x004F, 0x030F], 0x020C), ([0x004F, 0x0311], 0x020E),
     ([0x004F, 0x031B], 0x01A0), ([0x004F, 0x0323], 0x1ECC), ([0x004F, 0x0328], 0x01EA),
     ([0x0050, 0x0301], 0x1E54), ([0x0050, 0x0307], 0x1E56), ([0x0052, 0x0301], 0x0154),
     ([0x0052, 0x0307], 0x1E58), ([0x0052, 0x030C], 0x0158), ([0x0052, 0x030F], 0x0210),
     ([0x0052, 0x0311], 0x0212), ([0x0052, 0x0323], 0x1E5A), ([0x0052, 0x0327], 0x0156),
     ([0x0052, 0x0331], 0x1E5E), ([0x0053, 0x0301], 0x015A), ([0x0053, 0x0302], 0x015C),
     ([0x0053, 0x0307], 0x1E60), ([0x0053, 0x030C], 0x0160), ([0x0053, 0x0323], 0x1E62),
     ([0x0053, 0x0326], 0x0218), ([0x0053, 0x0327], 0x015E), ([0x0054, 0x0307], 0x1E6A),
     ([0x0054, 0x030C], 0x0164), ([0x0054, 0x0323], 0x1E6C), ([0x0054, 0x0326], 0x021A),
     ([0x0054, 0x0327], 0x0162), ([0x0054, 0x032D], 0x1E70), ([0x0054, 0x0331], 0x1E6E),
     ([0x0055, 0x0300], 0x00D9), ([0x0055, 0x0301], 0x00DA), ([0x0055, 0x0302], 0x00DB),
     ([0x0055, 0x0303], 0x0168), ([0x0055, 0x0304], 0x016A), ([0x0055, 0x0306], 0x016C),
     ([0x0055, 0x0308], 0x00DC), ([0x0055, 0x0309], 0x1EE6), ([0x0055, 0x030A], 0x016E),
     ([0x0055, 0x030B], 0x0170), ([0x0055, 0x030C], 0x01D3), ([0x0055, 0x030F], 0x0214),
     ([0x0055, 0x0311], 0x0216), ([0x0055, 0x031B], 0x01AF), ([0x0055, 0x0323], 0x1EE4),
     ([0x0055, 0x0324], 0x1E72), ([0x0055, 0x0328], 0x0172), ([0x0055, 0x032D], 0x1E76),
     ([0x0055, 0x0330], 0x1E74), ([0x0056, 0x0303], 0x1E7C), ([0x0056, 0x0323], 0x1E7E),
     ([0x0057, 0x0300], 0x1E80), ([0x0057, 0x0301], 0x1E82), ([0x0057, 0x0302], 0x0174),
     ([0x0057, 0x0307], 0x1E86), ([0x0057, 0x0308], 0x1E84), ([0x0057, 0x0323], 0x1E88),
     ([0x0058, 0x0307], 0x1E8A), ([0x0058, 0x0308], 0x1E8C), ([0x0059, 0x0300], 0x1EF2),
     ([0x0059, 0x0301], 0x00DD), ([0x0059, 0x0302], 0x0176), ([0x0059, 0x0303], 0x1EF8),
     ([0x0059, 0x0304], 0x0232), ([0x0059, 0x0307], 0x1E8E), ([0x0059, 0x0308], 0x0178),
     ([0x0059, 0x0309], 0x1EF6), ([0x0059, 0x0323], 0x1EF4), ([0x005A, 0x0301], 0x0179),
     ([0x005A, 0x0302], 0x1E90), ([0x005A, 0x0307], 0x017B), ([0x005A, 0x030C], 0x017D),
     ([0x005A, 0x0323], 0x1E92), ([0x005A, 0x0331], 0x1E94), ([0x0061, 0x0300], 0x00E0),
     ([0x0061, 0x0301], 0x00E1), ([0x0061, 0x0302], 0x00E2), ([0x0061, 0x0303], 0x00E3),
     ([0x0061, 0x0304], 0x0101), ([0x0061, 0x0306], 0x0103), ([0x0061, 0x0307], 0x0227),
     ([0x0061, 0x0308], 0x00E4), ([0x0061, 0x0309], 0x1EA3), ([0x0061, 0x030A], 0x00E5),
     ([0x0061, 0x030C], 0x01CE), ([0x0061, 0x030F], 0x0201), ([0x0061, 0x0311], 0x0203),
     ([0x0061, 0x0323], 0x1EA1), ([0x0061, 0x0325], 0x1E01), ([0x0061, 0x0328], 0x0105),
     ([0x0062, 0x0307], 0x1E03), ([0x0062, 0x0323], 0x1E05), ([0x0062, 0x0331], 0x1E07),
     ([0x0063, 0x0301], 0x0107), ([0x0063, 0x0302], 0x0109), ([0x0063, 0x0307], 0x010B),
     ([0x0063, 0x030C], 0x010D), ([0x0063, 0x0327], 0x00E7), ([0x0064, 0x0307], 0x1E0B),
     ([0x0064, 0x030C], 0x010F), ([0x0064, 0x0323], 0x1E0D), ([0x0064, 0x0327], 0x1E11),
     ([0x0064, 0x032D], 0x1E13), ([0x0064, 0x0331], 0x1E0F), ([0x0065, 0x0300], 0x00E8),
     ([0x0065, 0x0301], 0x00E9), ([0x0065, 0x0302], 0x00EA), ([0x0065, 0x0303], 0x1EBD),
     ([0x0065, 0x0304], 0x0113), ([0x0065, 0x0306], 0x0115), ([0x0065, 0x0307], 0x0117),
     ([0x0065, 0x0308], 0x00EB), ([0x0065, 0x0309], 0x1EBB), ([0x0065, 0x030C], 0x011B),
     ([0x0065, 0x030F], 0x0205), ([0x0065, 0x0311], 0x0207), ([0x0065, 0x0323], 0x1EB9),
     ([0x0065, 0x0327], 0x0229), ([0x0065, 0x0328], 0x0119), ([0x0065, 0x032D], 0x1E19),
     ([0x0065, 0x0330], 0x1E1B), ([0x0066, 0x0307], 0x1E1F), ([0x0067, 0x0301], 0x01F5),
     ([0x0067, 0x0302], 0x011D), ([0x0067, 0x0304], 0x1E21), ([0x0067, 0x0306], 0x011F),
     ([0x0067, 0x0307], 0x0121), ([0x0067, 0x030C], 0x01E7), ([0x0067, 0x0327], 0x0123),
     ([0x0068, 0x0302], 0x0125), ([0x0068, 0x0307], 0x1E23), ([0x0068, 0x0308], 0x1E27),
     ([0x0068, 0x030C], 0x021F), ([0x0068, 0x0323], 0x1E25), ([0x0068, 0x0327], 0x1E29),
     ([0x0068, 0x032E], 0x1E2B), ([0x0068, 0x0331], 0x1E96), ([0x0069, 0x0300], 0x00EC),
     ([0x0069, 0x0301], 0x00ED), ([0x0069, 0x0302], 0x00EE), ([0x0069, 0x0303], 0x0129),
     ([0x0069, 0x0304], 0x012B), ([0x0069, 0x0306], 0x012D), ([0x0069, 0x0308], 0x00EF),
     ([0x0069, 0x0309], 0x1EC9), ([0x0069, 0x030C], 0x01D0), ([0x0069, 0x030F], 0x0209),
     ([0x0069, 0x0311], 0x020B), ([0x0069, 0x0323], 0x1ECB), ([0x0069, 0x0328], 0x012F),
     ([0x0069, 0x0330], 0x1E2D), ([0x006A, 0x0302], 0x0135), ([0x006A, 0x030C], 0x01F0),
     ([0x006B, 0x0301], 0x1E31), ([0x006B, 0x030C], 0x01E9), ([0x006B, 0x0323], 0x1E33),
     ([0x006B, 0x0327], 0x0137), ([0x006B, 0x0331], 0x1E35), ([0x006C, 0x0301], 0x013A),
     ([0x006C, 0x030C], 0x013E), ([0x006C, 0x0323], 0x1E37), ([0x006C, 0x0327], 0x013C),
     ([0x006C, 0x032D], 0x1E3D), ([0x006C, 0x0331], 0x1E3B), ([0x006D, 0x0301], 0x1E3F),
     ([0x006D, 0x0307], 0x1E41), ([0x006D, 0x0323], 0x1E43), ([0x006E, 0x0300], 0x01F9),
     ([0x006E, 0x0301], 0x0144), ([0x006E, 0x0303], 0x00F1), ([0x006E, 0x0307], 0x1E45),
     ([0x006E, 0x030C], 0x0148), ([0x006E, 0x0323], 0x1E47), ([0x006E, 0x0327], 0x0146),
     ([0x006E, 0x032D], 0x1E4B), ([0x006E, 0x0331], 0x1E49), ([0x006F, 0x0300], 0x00F2),
     ([0x006F, 0x0301], 0x00F3), ([0x006F, 0x0302], 0x00F4), ([0x006F, 0x0303], 0x00F5),
     ([0x006F, 0x0304], 0x014D), ([0x006F, 0x0306], 0x014F), ([0x006F, 0x0307], 0x022F),
     ([0x006F, 0x0308], 0x00F6), ([0x006F, 0x0309], 0x1ECF), ([0x006F, 0x030B], 0x0151),
     ([0x006F, 0x030C], 0x01D2), ([0x006F, 0x030F], 0x020D), ([0x006F, 0x0311], 0x020F),
     ([0x006F, 0x031B], 0x01A1), ([0x006F, 0x0323], 0x1ECD), ([0x006F, 0x0328], 0x01EB),
     ([0x0070, 0x0301], 0x1E55), ([0x0070, 0x0307], 0x1E57), ([0x0072, 0x0301], 0x0155),
     ([0x0072, 0x0307], 0x1E59), ([0x0072, 0x030C], 0x0159), ([0x0072, 0x030F], 0x0211),
     ([0x0072, 0x0311], 0x0213), ([0x0072, 0x0323], 0x1E5B), ([0x0072, 0x0327], 0x0157),
     ([0x0072, 0x0331], 0x1E5F), ([0x0073, 0x0301], 0x015B), ([0x0073, 0x0302], 0x015D),
     ([0x0073, 0x0307], 0x1E61), ([0x0073, 0x030C], 0x0161), ([0x0073, 0x0323], 0x1E63),
     ([0x0073, 0x0326], 0x0219), ([0x0073, 0x0327], 0x015F), ([0x0074, 0x0307], 0x1E6B),
     ([0x0074, 0x0308], 0x1E97), ([0x0074, 0x030C], 0x0165), ([0x0074, 0x0323], 0x1E6D),
     ([0x0074, 0x0326], 0x021B), ([0x0074, 0x0327], 0x0163), ([0x0074, 0x032D], 0x1E71),
     ([0x0074, 0x0331], 0x1E6F), ([0x0075, 0x0300], 0x00F9), ([0x0075, 0x0301], 0x00FA),
     ([0x0075, 0x0302], 0x00FB), ([0x0075, 0x0303], 0x0169), ([0x0075, 0x0304], 0x016B),
     ([0x0075, 0x0306], 0x016D), ([0x0075, 0x0308], 0x00FC), ([0x0075, 0x0309], 0x1EE7),
     ([0x0075, 0x030A], 0x016F), ([0x0075, 0x030B], 0x0171), ([0x0075, 0x030C], 0x01D4),
     ([0x0075, 0x030F], 0x0215), ([0x0075, 0x0311], 0x0217), ([0x0075, 0x031B], 0x01B0),
     ([0x0075, 0x0323], 0x1EE5), ([0x0075, 0x0324], 0x1E73), ([0x0075, 0x0328], 0x0173),
     ([0x0075, 0x032D], 0x1E77), ([0x0075, 0x0330], 0x1E75), ([0x0076, 0x0303], 0x1E7D),
     ([0x0076, 0x0323], 0x1E7F), ([0x0077, 0x0300], 0x1E81), ([0x0077, 0x0301], 0x1E83),
     ([0x0077, 0x0302], 0x0175), ([0x0077, 0x0307], 0x1E87), ([0x0077, 0x0308], 0x1E85),
     ([0x0077, 0x030A], 0x1E98), ([0x0077, 0x0323], 0x1E89), ([0x0078, 0x0307], 0x1E8B),
     ([0x0078, 0x0308], 0x1E8D), ([0x0079, 0x0300], 0x1EF3), ([0x0079, 0x0301], 0x00FD),
     ([0x0079, 0x0302], 0x0177), ([0x0079, 0x0303], 0x1EF9), ([0x0079, 0x0304], 0x0233),
     ([0x0079, 0x0307], 0x1E8F), ([0x0079, 0x0308], 0x00FF), ([0x0079, 0x0309], 0x1EF7),
     ([0x0079, 0x030A], 0x1E99), ([0x0079, 0x0323], 0x1EF5), ([0x007A, 0x0301], 0x017A),
     ([0x007A, 0x0302], 0x1E91), ([0x007A, 0x0307], 0x017C), ([0x007A, 0x030C], 0x017E),
     ([0x007A, 0x0323], 0x1E93), ([0x007A, 0x0331], 0x1E95), ([0x0041, 0x0302, 0x0300], 0x1EA6),
     ([0x0041, 0x0302, 0x0301], 0x1EA4), ([0x0041, 0x0302, 0x0303], 0x1EAA),
     ([0x0041, 0x0302, 0x0309], 0x1EA8), ([0x0041, 0x0306, 0x0300], 0x1EB0),
     ([0x0041, 0x0306, 0x0301], 0x1EAE), ([0x0041, 0x0306, 0x0303], 0x1EB4),
     ([0x0041, 0x0306, 0x0309], 0x1EB2), ([0x0041, 0x0307, 0x0304], 0x01E0),
     ([0x0041, 0x0308, 0x0304], 0x01DE), ([0x0041, 0x030A, 0x0301], 0x01FA),
     ([0x0041, 0x0323, 0x0302], 0x1EAC), ([0x0041, 0x0323, 0x0306], 0x1EB6),
     ([0x0043, 0x0327, 0x0301], 0x1E08), ([0x0045, 0x0302, 0x0300], 0x1EC0),
     ([0x0045, 0x0302, 0x0301], 0x1EBE), ([0x0045, 0x0302, 0x0303], 0x1EC4),
     ([0x0045, 0x0302, 0x0309], 0x1EC2), ([0x0045, 0x0304, 0x0300], 0x1E14),
     ([0x0045, 0x0304, 0x0301], 0x1E16), ([0x0045, 0x0323, 0x0302], 0x1EC6),
     ([0x0045, 0x0327, 0x0306], 0x1E1C), ([0x0049, 0x0308, 0x0301], 0x1E2E),
     ([0x004C, 0x0323, 0x0304], 0x1E38), ([0x004F, 0x0302, 0x0300], 0x1ED2),
     ([0x004F, 0x0302, 0x0301], 0x1ED0), ([0x004F, 0x0302, 0x0303], 0x1ED6),
     ([0x004F, 0x0302, 0x0309], 0x1ED4), ([0x004F, 0x0303, 0x0301], 0x1E4C),
     ([0x004F, 0x0303, 0x0304], 0x022C), ([0x004F, 0x0303, 0x0308], 0x1E4E),
     ([0x004F, 0x0304, 0x0300], 0x1E50), ([0x004F, 0x0304, 0x0301], 0x1E52),
     ([0x004F, 0x0307, 0x0304], 0x0230), ([0x004F, 0x0308, 0x0304], 0x022A),
     ([0x004F, 0x031B, 0x0300], 0x1EDC), ([0x004F, 0x031B, 0x0301], 0x1EDA),
     ([0x004F, 0x031B, 0x0303], 0x1EE0), ([0x004F, 0x031B, 0x0309], 0x1EDE),
     ([0x004F, 0x031B, 0x0323], 0x1EE2), ([0x004F, 0x0323, 0x0302], 0x1ED8),
     ([0x004F, 0x0328, 0x0304], 0x01EC), ([0x0052, 0x0323, 0x0304], 0x1E5C),
     ([0x0053, 0x0301, 0x0307], 0x1E64), ([0x0053, 0x030C, 0x0307], 0x1E66),
     ([0x0053, 0x0323, 0x0307], 0x1E68), ([0x0055, 0x0303, 0x0301], 0x1E78),
     ([0x0055, 0x0304, 0x0308], 0x1E7A), ([0x0055, 0x0308, 0x0300], 0x01DB),
     ([0x0055, 0x0308, 0x0301], 0x01D7), ([0x0055, 0x0308, 0x0304], 0x01D5),
     ([0x0055, 0x0308, 0x030C], 0x01D9), ([0x0055, 0x031B, 0x0300], 0x1EEA),
     ([0x0055, 0x031B, 0x0301], 0x1EE8), ([0x0055, 0x031B, 0x0303], 0x1EEE),
     ([0x0055, 0x031B, 0x0309], 0x1EEC), ([0x0055, 0x031B, 0x0323], 0x1EF0),
     ([0x0061, 0x0302, 0x0300], 0x1EA7), ([0x0061, 0x0302, 0x0301], 0x1EA5),
     ([0x0061, 0x0302, 0x0303], 0x1EAB), ([0x0061, 0x0302, 0x0309], 0x1EA9),
     ([0x0061, 0x0306, 0x0300], 0x1EB1), ([0x0061, 0x0306, 0x0301], 0x1EAF),
     ([0x0061, 0x0306, 0x0303], 0x1EB5), ([0x0061, 0x0306, 0x0309], 0x1EB3),
     ([0x0061, 0x0307, 0x0304], 0x01E1), ([0x0061, 0x0308, 0x0304], 0x01DF),
     ([0x0061, 0x030A, 0x0301], 0x01FB), ([0x0061, 0x0323, 0x0302], 0x1EAD),
     ([0x0061, 0x0323, 0x0306], 0x1EB7), ([0x0063, 0x0327, 0x0301], 0x1E09),
     ([0x0065, 0x0302, 0x0300], 0x1EC1), ([0x0065, 0x0302, 0x0301], 0x1EBF),
     ([0x0065, 0x0302, 0x0303], 0x1EC5), ([0x0065, 0x0302, 0x0309], 0x1EC3),
     ([0x0065, 0x0304, 0x0300], 0x1E15), ([0x0065, 0x0304, 0x0301], 0x1E17),
     ([0x0065, 0x0323, 0x0302], 0x1EC7), ([0x0065, 0x0327, 0x0306], 0x1E1D),
     ([0x0069, 0x0308, 0x0301], 0x1E2F), ([0x006C, 0x0323, 0x0304], 0x1E39),
     ([0x006F, 0x0302, 0x0300], 0x1ED3), ([0x006F, 0x0302, 0x0301], 0x1ED1),
     ([0x006F, 0x0302, 0x0303], 0x1ED7), ([0x006F, 0x0302, 0x0309], 0x1ED5),
     ([0x006F, 0x0303, 0x0301], 0x1E4D), ([0x006F, 0x0303, 0x0304], 0x022D),
     ([0x006F, 0x0303, 0x0308], 0x1E4F), ([0x006F, 0x0304, 0x0300], 0x1E51),
     ([0x006F, 0x0304, 0x0301], 0x1E53), ([0x006F, 0x0307, 0x0304], 0x0231),
     ([0x006F, 0x0308, 0x0304], 0x022B), ([0x006F, 0x031B, 0x0300], 0x1EDD),
     ([0x006F, 0x031B, 0x0301], 0x1EDB), ([0x006F, 0x031B, 0x0303], 0x1EE1),
     ([0x006F, 0x031B, 0x0309], 0x1EDF), ([0x006F, 0x031B, 0x0323], 0x1EE3),
     ([0x006F, 0x0323, 0x0302], 0x1ED9), ([0x006F, 0x0328, 0x0304], 0x01ED),
     ([0x0072, 0x0323, 0x0304], 0x1E5D), ([0x0073, 0x0301, 0x0307], 0x1E65),
     ([0x0073, 0x030C, 0x0307], 0x1E67), ([0x0073, 0x0323, 0x0307], 0x1E69),
     ([0x0075, 0x0303, 0x0301], 0x1E79), ([0x0075, 0x0304, 0x0308], 0x1E7B),
     ([0x0075, 0x0308, 0x0300], 0x01DC), ([0x0075, 0x0308, 0x0301], 0x01D8),
     ([0x0075, 0x0308, 0x0304], 0x01D6), ([0x0075, 0x0308, 0x030C], 0x01DA),
     ([0x0075, 0x031B, 0x0300], 0x1EEB), ([0x0075, 0x031B, 0x0301], 0x1EE9),
     ([0x0075, 0x031B, 0x0303], 0x1EEF), ([0x0075, 0x031B, 0x0309], 0x1EED),
     ([0x0075, 0x031B, 0x0323], 0x1EF1)]"

definition nfcLiteMarks :: "rune list" where
  "nfcLiteMarks = [
     0x0300, 0x0301, 0x0302, 0x0303, 0x0304, 0x0306, 0x0307, 0x0308, 0x0309, 0x030A, 0x030B, 0x030C, 0x030F,
     0x0311, 0x031B, 0x0323, 0x0324, 0x0325, 0x0326, 0x0327, 0x0328, 0x032D, 0x032E, 0x0330, 0x0331]"

definition is_mark :: "rune list \<Rightarrow> bool" where
  "is_mark rs = (rs \<noteq> [] \<and> hd rs \<in> set nfcLiteMarks)"

text \<open>One step at the head of the runes: what is written and how many are read.\<close>

definition compose_step :: "rune list \<Rightarrow> rune \<times> nat" where
  "compose_step rs =
     (if is_mark (tl rs) then
        (case (if is_mark (tl (tl rs)) then map_of nfcLiteTable (take 3 rs) else None) of
           Some r \<Rightarrow> (r, 3)
         | None \<Rightarrow> (case map_of nfcLiteTable (take 2 rs) of Some r \<Rightarrow> (r, 2) | None \<Rightarrow> (hd rs, 1)))
      else (hd rs, 1))"

lemma compose_step_reads: "0 < snd (compose_step rs)"
  by (auto simp: compose_step_def split: option.split)

function compose_runes :: "rune list \<Rightarrow> rune list" where
  "compose_runes [] = []"
| "compose_runes (r # rs) = (let (w, n) = compose_step (r # rs) in w # compose_runes (drop n (r # rs)))"
  by pat_completeness auto

termination
proof (relation "measure length")
  fix r :: rune and rs x w n
  assume "x = compose_step (r # rs)" "(w, n) = x"
  then have "n = snd (compose_step (r # rs))" by (metis snd_conv)
  with compose_step_reads [of "r # rs"] show "(drop n (r # rs), r # rs) \<in> measure length" by simp
qed simp

definition composeNFCLite :: "string \<Rightarrow> string" where
  "composeNFCLite s = (if s = [] then s else of_runes (compose_runes (runes s)))"

text \<open>\<open>collapseSpace\<close>: runs of white space become one blank, none at either end.\<close>

fun collapse_runes :: "bool \<Rightarrow> bool \<Rightarrow> rune list \<Rightarrow> rune list" where
  "collapse_runes space some [] = []"
| "collapse_runes space some (r # rs) =
     (if is_space r then collapse_runes True some rs
      else (if space \<and> some then [0x20] else []) @ r # collapse_runes False True rs)"

definition collapseSpace :: "string \<Rightarrow> string" where
  "collapseSpace s = of_runes (collapse_runes False False (runes (composeNFCLite s)))"

definition normalizeForMatch :: "string \<Rightarrow> string" where
  "normalizeForMatch s = of_runes (filter (\<lambda>r. \<not> is_space r) (runes (composeNFCLite s)))"

section \<open>Composition undoes decomposition\<close>

text \<open>The decomposition the table was made from.\<close>

definition expand_rune :: "rune \<Rightarrow> rune list" where
  "expand_rune r = (case find (\<lambda>e. snd e = r) nfcLiteTable of None \<Rightarrow> [r] | Some e \<Rightarrow> fst e)"

definition expand :: "rune list \<Rightarrow> rune list" where
  "expand rs = concat (map expand_rune rs)"

text \<open>
  What the proofs use of the table: its values are pairwise different and are neither letters nor marks,
  a key is an ASCII letter with one or two marks, and marks lie beyond ASCII.
\<close>

definition key_ok :: "rune list \<times> rune \<Rightarrow> bool" where
  "key_ok e = (case e of
     (b # ms, v) \<Rightarrow> b < 0x80 \<and> (length ms = 1 \<or> length ms = 2) \<and> list_all (\<lambda>m. in_range 0x300 0x331 m) ms \<and>
       (in_range 0xC0 0x2FF v \<or> 0x332 \<le> v)
   | _ \<Rightarrow> False)"

lemma table_keys: "list_all key_ok nfcLiteTable"
  by (simp add: nfcLiteTable_def key_ok_def in_range_def)

lemma table_values: "distinct (map snd nfcLiteTable)"
  by (simp add: nfcLiteTable_def)

lemma marks_range: "m \<in> set nfcLiteMarks \<Longrightarrow> in_range 0x300 0x331 m"
  by (auto simp: nfcLiteMarks_def in_range_def)

lemma table_key:
  assumes "map_of nfcLiteTable k = Some v"
  shows "(k, v) \<in> set nfcLiteTable" and "key_ok (k, v)" and "hd k < 0x80" and "v \<notin> set nfcLiteMarks" and "0x80 \<le> v"
    and "k = hd k # tl k"
proof -
  show m: "(k, v) \<in> set nfcLiteTable" using assms by (rule map_of_SomeD)
  then show ok: "key_ok (k, v)" using table_keys by (simp add: list_all_iff)
  show "hd k < 0x80" "0x80 \<le> v" "k = hd k # tl k"
    using ok by (auto simp: key_ok_def in_range_def split: list.splits)
  show "v \<notin> set nfcLiteMarks" using ok marks_range by (fastforce simp: key_ok_def in_range_def split: list.splits)
qed

lemma expand_value: "map_of nfcLiteTable k = Some v \<Longrightarrow> expand_rune v = k"
proof -
  assume k: "map_of nfcLiteTable k = Some v"
  note m = table_key(1) [OF k]
  have "find (\<lambda>e. snd e = v) nfcLiteTable \<noteq> None" using m by (auto simp: find_None_iff)
  then obtain e where e: "find (\<lambda>e. snd e = v) nfcLiteTable = Some e" by blast
  then have "e \<in> set nfcLiteTable" "snd e = v" by (auto simp: find_Some_iff)
  with m table_values have "e = (k, v)" using inj_onD [of snd "set nfcLiteTable" e "(k, v)"] by (simp add: distinct_map)
  with e show ?thesis by (simp add: expand_rune_def)
qed

lemma key_ok_value: "key_ok e \<Longrightarrow> \<not> (snd e < 0x80 \<or> in_range 0x300 0x331 (snd e))"
  by (cases e; cases "fst e") (auto simp: key_ok_def in_range_def)

lemma expand_small: "r < 0x80 \<or> in_range 0x300 0x331 r \<Longrightarrow> expand_rune r = [r]"
proof -
  assume r: "r < 0x80 \<or> in_range 0x300 0x331 r"
  have "find (\<lambda>e. snd e = r) nfcLiteTable = None"
    using r table_keys key_ok_value by (auto simp: find_None_iff list_all_iff)
  then show ?thesis by (simp add: expand_rune_def)
qed

lemma expand_key: "map_of nfcLiteTable k = Some v \<Longrightarrow> expand k = k"
proof -
  assume k: "map_of nfcLiteTable k = Some v"
  have "expand_rune r = [r]" if "r \<in> set k" for r
    by (rule expand_small) (use table_key(2) [OF k] that in \<open>auto simp: key_ok_def list_all_iff split: list.splits\<close>)
  then show ?thesis unfolding expand_def by (induction k) auto
qed

lemma compose_step_cases:
  obtains "compose_step rs = (hd rs, 1)"
  | k v where "map_of nfcLiteTable k = Some v" "compose_step rs = (v, length k)" "k = take (length k) rs"
proof -
  show thesis
  proof (cases "is_mark (tl rs)")
    case True
    then have "2 \<le> length rs" by (cases rs; cases "tl rs") (auto simp: is_mark_def)
    then have two: "length (take 2 rs) = 2" by simp
    show thesis
    proof (cases "if is_mark (tl (tl rs)) then map_of nfcLiteTable (take 3 rs) else None")
      case None
      then show thesis
        using True two that by (cases "map_of nfcLiteTable (take 2 rs)") (auto simp: compose_step_def)
    next
      case (Some v)
      then have three: "is_mark (tl (tl rs))" "map_of nfcLiteTable (take 3 rs) = Some v" by (auto split: if_splits)
      then have "length (take 3 rs) = 3" by (cases rs; cases "tl rs"; cases "tl (tl rs)") (auto simp: is_mark_def)
      then show thesis using True three that(2) [of "take 3 rs" v] by (simp add: compose_step_def)
    qed
  qed (use that in \<open>simp add: compose_step_def\<close>)
qed

lemma expand_compose: "expand (compose_runes rs) = expand rs"
proof (induction rs rule: compose_runes.induct)
  case (2 r rs)
  show ?case
  proof (cases rule: compose_step_cases [of "r # rs"])
    case 1
    then show ?thesis using 2 by (simp add: expand_def)
  next
    case (2 k v)
    have "expand (compose_runes (r # rs)) = k @ expand (drop (length k) (r # rs))"
      using 2 "2.IH" [OF refl, of v "length k"] expand_value [OF 2(1)] by (simp add: expand_def)
    also have "k @ expand (drop (length k) (r # rs)) = expand (take (length k) (r # rs)) @ expand (drop (length k) (r # rs))"
      using 2(3) expand_key [OF 2(1)] by simp
    also have "\<dots> = expand (r # rs)" unfolding expand_def by (metis append_take_drop_id concat_append map_append)
    finally show ?thesis .
  qed
qed simp

lemma compose_mark: "is_mark rs \<Longrightarrow> compose_runes rs = hd rs # compose_runes (tl rs)"
proof (cases rs)
  case (Cons r us)
  assume m: "is_mark rs"
  show ?thesis
  proof (cases rule: compose_step_cases [of rs])
    case 1
    then show ?thesis using Cons by simp
  next
    case (2 k v)
    have "r < 0x80" using table_key(3,6) [OF 2(1)] 2(3) Cons by (cases k) auto
    then show ?thesis using m Cons marks_range [of r] by (auto simp: is_mark_def in_range_def)
  qed
qed (simp add: is_mark_def)

lemma is_mark_compose: "is_mark (compose_runes rs) = is_mark rs"
proof (cases "is_mark rs")
  case True
  then show ?thesis using compose_mark [OF True] by (simp add: is_mark_def)
next
  case False
  show ?thesis
  proof (cases rs)
    case (Cons r us)
    show ?thesis
    proof (cases rule: compose_step_cases [of rs])
      case 1
      then show ?thesis using Cons False by (simp add: is_mark_def)
    next
      case (2 k v)
      then show ?thesis using Cons False table_key(4) [OF 2(1)] by (simp add: is_mark_def)
    qed
  qed simp
qed

lemma compose_step_high: "rs \<noteq> [] \<Longrightarrow> 0x80 \<le> hd rs \<Longrightarrow> compose_step rs = (hd rs, 1)"
proof (cases rule: compose_step_cases [of rs])
  case (2 k v)
  assume rs: "rs \<noteq> []" "0x80 \<le> hd rs"
  have "hd k = hd rs" using 2(3) table_key(6) [OF 2(1)] rs by (metis hd_take length_greater_0_conv list.distinct(1))
  then show ?thesis using table_key(3) [OF 2(1)] rs by simp
qed

text \<open>A letter that could not be composed stands before the same runes afterwards.\<close>

lemma compose_step_stuck:
  assumes "compose_step (r # rs) = (r, 1)"
  shows "compose_step (r # compose_runes rs) = (r, 1)"
proof (cases "is_mark rs")
  case False
  then show ?thesis by (simp add: compose_step_def is_mark_compose)
next
  case True
  then obtain m us where rs: "rs = m # us" by (cases rs) (auto simp: is_mark_def)
  have c: "compose_runes rs = m # compose_runes us" using compose_mark [OF True] rs by simp
  have no: "(if is_mark us then map_of nfcLiteTable [r, m, hd us] else None) = None" "map_of nfcLiteTable [r, m] = None"
    using assms True rs table_key(3,5) [of _ r]
    by (auto simp: compose_step_def numeral_3_eq_3 numeral_2_eq_2 is_mark_def neq_Nil_conv split: option.splits if_splits)
  show ?thesis
  proof (cases "is_mark us")
    case True
    then obtain m2 vs where us: "us = m2 # vs" by (cases us) (auto simp: is_mark_def)
    then have "compose_runes us = m2 # compose_runes vs" using compose_mark [OF True] by simp
    moreover have "is_mark (compose_runes rs)" "is_mark (compose_runes us)"
      using True \<open>is_mark rs\<close> by (simp_all add: is_mark_compose)
    ultimately show ?thesis using c no us True
      by (simp add: compose_step_def numeral_3_eq_3 numeral_2_eq_2)
  next
    case False
    then have "\<not> is_mark (compose_runes us)" by (simp add: is_mark_compose)
    then show ?thesis using c no by (simp add: compose_step_def numeral_2_eq_2)
  qed
qed

lemma compose_idem: "compose_runes (compose_runes rs) = compose_runes rs"
proof (induction rs rule: compose_runes.induct)
  case (2 r rs)
  show ?case
  proof (cases rule: compose_step_cases [of "r # rs"])
    case 1
    then have "compose_step (r # compose_runes rs) = (r, 1)" using compose_step_stuck by simp
    then show ?thesis using 1 "2.IH" [OF refl, of r 1] by simp
  next
    case (2 k v)
    then have "compose_step (v # compose_runes (drop (length k) (r # rs))) = (v, 1)"
      using compose_step_high [of "v # _"] table_key(5) [OF 2(1)] by simp
    then show ?thesis using 2 "2.IH" [OF refl, of v "length k"] by simp
  qed
qed simp

text \<open>The spelling with marks of a letter of the table is composed to it, when no mark follows.\<close>

lemma table_marks: "list_all (\<lambda>e. set (tl (fst e)) \<subseteq> set nfcLiteMarks) nfcLiteTable"
  by code_simp

lemma table_keys_distinct: "distinct (map fst nfcLiteTable)"
  by (simp add: nfcLiteTable_def)

lemma is_mark_Cons: "is_mark (r # rs) \<longleftrightarrow> r \<in> set nfcLiteMarks"
  by (simp add: is_mark_def)

lemma compose_spelling:
  assumes "\<not> is_mark rest" and "v \<notin> set nfcLiteMarks"
  shows "compose_runes (expand_rune v @ rest) = v # compose_runes rest \<and> \<not> is_mark (expand_rune v @ rest)"
proof (cases "find (\<lambda>e. snd e = v) nfcLiteTable")
  case None
  then have "expand_rune v = [v]" by (simp add: expand_rune_def)
  moreover have "compose_step (v # rest) = (v, 1)" using assms(1) by (simp add: compose_step_def)
  ultimately show ?thesis using assms(2) by (simp add: is_mark_def)
next
  case (Some e)
  then have e: "e \<in> set nfcLiteTable" "snd e = v" by (auto simp: find_Some_iff)
  then have k: "map_of nfcLiteTable (fst e) = Some v" "expand_rune v = fst e"
    using table_keys_distinct Some by (auto simp: expand_rune_def)
  from table_key(2) [OF k(1)] obtain b ms where bms: "fst e = b # ms" "b < 0x80" "length ms = 1 \<or> length ms = 2"
    by (auto simp: key_ok_def split: list.splits)
  have ms: "set ms \<subseteq> set nfcLiteMarks" using table_marks e(1) bms(1) unfolding list_all_iff by fastforce
  have b: "b \<notin> set nfcLiteMarks" using bms(2) marks_range [of b] by (auto simp: in_range_def)
  have "compose_step (fst e @ rest) = (v, length (fst e))"
    using bms(3)
  proof
    assume "length ms = 1"
    then obtain m where "ms = [m]" by (cases ms) auto
    then show ?thesis using bms(1) ms k(1) assms(1) by (simp add: compose_step_def is_mark_Cons numeral_2_eq_2)
  next
    assume "length ms = 2"
    then obtain m m2 where "ms = [m, m2]" by (cases ms; cases "tl ms") auto
    then show ?thesis using bms(1) ms k(1) by (simp add: compose_step_def is_mark_Cons numeral_3_eq_3)
  qed
  then show ?thesis using k(2) bms(1) b by (simp add: is_mark_def)
qed

lemma compose_expand:
  "list_all (\<lambda>r. r \<notin> set nfcLiteMarks) rs \<Longrightarrow> compose_runes (expand rs) = rs \<and> \<not> is_mark (expand rs)"
proof (induction rs)
  case (Cons v rs)
  then show ?case using compose_spelling [of "expand rs" v] by (simp add: expand_def)
qed (simp add: expand_def is_mark_def)

text \<open>
  C35: Composing letters with their marks undoes their decomposition: a text without loose marks, spelled
  out letter by letter as the table has it, is composed to itself, so that both spellings of a letter
  are read alike. Of any text composing keeps the decomposition, so that only spellings of one text are
  made equal, and composing again changes nothing.
\<close>

theorem composition_inverts_decomposition:
  "(list_all (\<lambda>r. r \<notin> set nfcLiteMarks) rs \<longrightarrow> compose_runes (expand rs) = rs) \<and>
   expand (compose_runes rs) = expand rs \<and> compose_runes (compose_runes rs) = compose_runes rs"
  by (simp add: compose_expand expand_compose compose_idem)

lemma composition_inverts_decomposition_witness:
  "compose_runes (expand [0x1EC7, 0x78, 0xE9]) = [0x1EC7, 0x78, 0xE9] \<and>
   expand [0x1EC7, 0x78, 0xE9] = [0x65, 0x323, 0x302, 0x78, 0x65, 0x301]"
proof -
  have "list_all (\<lambda>r. r \<notin> set nfcLiteMarks) [0x1EC7, 0x78, 0xE9]" "expand [0x1EC7, 0x78, 0xE9] = [0x65, 0x323, 0x302, 0x78, 0x65, 0x301]"
    by code_simp+
  with composition_inverts_decomposition show ?thesis by blast
qed

text \<open>
  It is no canonical form of all spellings: a letter that comes half composed, with its second mark apart,
  stays so, and differs from what the whole spelling is composed to.
\<close>

lemma half_composed_stays_apart:
  "expand [0xE2, 0x301] = expand [0x61, 0x302, 0x301]"
  "compose_runes [0xE2, 0x301] = [0xE2, 0x301]" "compose_runes [0x61, 0x302, 0x301] = [0x1EA5]"
  by code_simp+
end
