(* ===== verification/Screen.thy ===== *)
theory Screen
  imports GoText
begin

text \<open>
  Reading a pane's screen (\<open>internal/drivers/tmux/classify.go\<close>): escape sequences are removed,
  trailing blank rows dropped, and the composer found as a row that begins with the prompt marker
  between two rules. A row index of the code that may be \<open>-1\<close> is an option here.
\<close>

section \<open>Glyphs\<close>

definition composerRuneMarker :: string where
  "composerRuneMarker = [CHR 0xE2, CHR 0x9D, CHR 0xAF]"

definition ruleRune :: rune where
  "ruleRune = 0x2500"

definition promptScanDepth :: nat where
  "promptScanDepth = 24"

definition boxCorners :: "string list" where
  "boxCorners = [[CHR 0xE2, CHR 0x95, CHR 0xAD], [CHR 0xE2, CHR 0x95, CHR 0xAE],
     [CHR 0xE2, CHR 0x95, CHR 0xB0], [CHR 0xE2, CHR 0x95, CHR 0xAF], [CHR 0xE2, CHR 0x94, CHR 0x82]]"

definition responseBullet :: string where
  "responseBullet = [CHR 0xE2, CHR 0x8F, CHR 0xBA]"

definition ellipsis :: string where
  "ellipsis = [CHR 0xE2, CHR 0x80, CHR 0xA6]"

definition mid_dot :: string where
  "mid_dot = [CHR 0xC2, CHR 0xB7]"

definition em_dash :: string where
  "em_dash = [CHR 0xE2, CHR 0x80, CHR 0x94]"

section \<open>Escape sequences\<close>

text \<open>\<open>oscEnd\<close>: what follows the end of an operating system command.\<close>

fun oscEnd :: "string \<Rightarrow> string option" where
  "oscEnd [] = None"
| "oscEnd (c # s) =
     (if c = CHR 0x07 then Some s
      else if c = CHR 0x1B \<and> s \<noteq> [] \<and> hd s = CHR 0x5C then Some (tl s)
      else oscEnd s)"

definition skip_escape :: "string \<Rightarrow> string option" where
  "skip_escape s =
     (case s of
        [] \<Rightarrow> None
      | c # t \<Rightarrow>
          if c = CHR ''['' then
            (case dropWhile (\<lambda>c. c \<noteq> CHR ''m'' \<and> c \<noteq> CHR ''K'' \<and> c \<noteq> CHR ''H'') t of [] \<Rightarrow> None | _ # rest \<Rightarrow> Some rest)
          else if c = CHR '']'' then oscEnd t else None)"

lemma oscEnd_shorter: "oscEnd s = Some t \<Longrightarrow> length t < length s"
  by (induction s rule: oscEnd.induct) (auto split: if_splits)

lemma skip_escape_shorter: "skip_escape s = Some t \<Longrightarrow> length t < length s"
proof (cases s)
  case (Cons c u)
  assume t: "skip_escape s = Some t"
  let ?P = "\<lambda>c. c \<noteq> CHR ''m'' \<and> c \<noteq> CHR ''K'' \<and> c \<noteq> CHR ''H''"
  have "length (dropWhile ?P u) \<le> length u" by (rule length_dropWhile_le)
  then show ?thesis
    using t Cons by (auto simp: skip_escape_def dest: oscEnd_shorter split: if_splits list.splits)
qed (simp add: skip_escape_def)

function stripEscapes :: "string \<Rightarrow> string" where
  "stripEscapes [] = []"
| "stripEscapes (c # s) =
     (case (if c = CHR 0x1B then skip_escape s else None) of
        Some rest \<Rightarrow> stripEscapes rest
      | None \<Rightarrow> c # stripEscapes s)"
  by pat_completeness auto

termination
  by (relation "measure length") (auto dest!: skip_escape_shorter split: if_splits)

text \<open>
  \<open>allDim\<close>: \<open>dim_scan\<close> counts the visible runes and those of them under the dim attribute.
\<close>

definition csi_m :: "rune list \<Rightarrow> (rune list \<times> rune list) option" where
  "csi_m rs =
     (case rs of
        [] \<Rightarrow> None
      | r # t \<Rightarrow>
          if r \<noteq> 0x5B then None
          else case dropWhile (\<lambda>r. r \<noteq> 0x6D) t of [] \<Rightarrow> None | _ # rest \<Rightarrow> Some (takeWhile (\<lambda>r. r \<noteq> 0x6D) t, rest))"

lemma csi_m_shorter: "csi_m rs = Some (p, t) \<Longrightarrow> length t < length rs"
proof (cases rs)
  case (Cons r u)
  assume t: "csi_m rs = Some (p, t)"
  have "length (dropWhile (\<lambda>r. r \<noteq> 0x6D) u) \<le> length u" by (rule length_dropWhile_le)
  then show ?thesis using t Cons by (auto simp: csi_m_def split: if_splits list.splits)
qed (simp add: csi_m_def)

function dim_scan :: "nat \<Rightarrow> rune list \<Rightarrow> nat \<times> nat" where
  "dim_scan depth [] = (0, 0)"
| "dim_scan depth (r # rs) =
     (case (if r = 0x1B then csi_m rs else None) of
        Some (params, rest) \<Rightarrow>
          dim_scan (if params = [0x32] then Suc depth else if params = [0x30] then 0 else depth) rest
      | None \<Rightarrow>
          let (visible, dim) = dim_scan depth rs
          in if is_space r then (visible, dim) else (Suc visible, if 0 < depth then Suc dim else dim))"
  by pat_completeness auto

termination
  by (relation "measure (\<lambda>(depth, rs). length rs)") (auto dest!: csi_m_shorter split: if_splits)

definition sgrDimOn :: string where
  "sgrDimOn = [CHR 0x1B, CHR ''['', CHR ''2'', CHR ''m'']"

definition allDim :: "string \<Rightarrow> bool" where
  "allDim raw =
     (if \<not> str_contains raw sgrDimOn then False
      else let (visible, dim) = dim_scan 0 (runes raw) in 0 < visible \<and> dim = visible)"

definition afterMarker :: "string \<Rightarrow> string" where
  "afterMarker raw =
     (case str_index raw composerRuneMarker of
        Some i \<Rightarrow> drop (i + length composerRuneMarker) raw | None \<Rightarrow> raw)"

section \<open>Rows\<close>

definition isRule :: "string \<Rightarrow> bool" where
  "isRule line = (3 \<le> length (filter (\<lambda>r. r = ruleRune) (runes (TrimSpace line))))"

definition blank :: "string \<Rightarrow> bool" where
  "blank line = (TrimSpace line = [])"

definition marked :: "string \<Rightarrow> bool" where
  "marked line = has_prefix (TrimSpace line) composerRuneMarker"

definition after_prompt :: "string \<Rightarrow> string" where
  "after_prompt line = TrimSpace (trim_prefix (TrimSpace line) composerRuneMarker)"

record screen =
  sc_lines :: "string list"
  sc_raw :: "string list"
  sc_visible_top :: nat
  sc_blank_below :: nat

definition trailing :: "string \<Rightarrow> string" where
  "trailing l = trim_right_chars [CHR '' '', CHR 0x09, CHR 0x0D] l"

definition splitScreen :: "string \<Rightarrow> screen" where
  "splitScreen raw =
     (let raws = split_on (CHR 0x0A) raw;
          out = map (\<lambda>l. trailing (stripEscapes l)) raws;
          kept = length (dropWhile blank (rev out));
          dropped = length raws - kept
      in \<lparr>sc_lines = take kept out, sc_raw = take kept raws, sc_visible_top = 0,
          sc_blank_below = (if has_suffix raw [CHR 0x0A] then dropped - 1 else dropped)\<rparr>)"

definition newScreenVisible :: "string \<Rightarrow> int \<Rightarrow> screen" where
  "newScreenVisible raw paneHeight =
     (let s = splitScreen raw;
          rows = length (filter (\<lambda>c. c = CHR 0x0A) raw);
          rows = (if raw \<noteq> [] \<and> \<not> has_suffix raw [CHR 0x0A] then Suc rows else rows)
      in if 0 < paneHeight \<and> paneHeight < int rows then s\<lparr>sc_visible_top := rows - nat paneHeight\<rparr> else s)"

definition newScreen :: "string \<Rightarrow> screen" where
  "newScreen raw = newScreenVisible raw 0"

fun option_digits :: "nat \<Rightarrow> string \<Rightarrow> string \<times> string" where
  "option_digits (Suc n) (c # s) =
     (if is_digit c then (let (ds, rest) = option_digits n s in (c # ds, rest)) else ([], c # s))"
| "option_digits _ s = ([], s)"

definition numberedOption :: "string \<Rightarrow> (int \<times> string) option" where
  "numberedOption line =
     (let (ds, rest) = option_digits 4 line
      in if ds = [] \<or> rest = [] \<or> hd rest \<noteq> CHR ''.'' then None
         else let n = foldl (\<lambda>n c. n * 10 + (byte c - 48)) 0 ds
              in if n \<le> 0 then None else Some (n, TrimSpace (tl rest)))"

text \<open>The first row from \<open>i - 1\<close> upwards that has a property.\<close>

definition find_up :: "(nat \<Rightarrow> bool) \<Rightarrow> nat \<Rightarrow> nat option" where
  "find_up P i = find P (rev [0 ..< i])"

definition firstNonBlankAbove :: "string list \<Rightarrow> nat \<Rightarrow> nat option" where
  "firstNonBlankAbove lines i = find_up (\<lambda>j. \<not> blank (lines ! j)) i"

text \<open>
  The searches above with their predicate named: an evaluation then looks at the rows it reaches only.
\<close>

definition row_is :: "(string \<Rightarrow> bool) \<Rightarrow> string list \<Rightarrow> nat \<Rightarrow> bool" where
  "row_is P lines i = P (lines ! i)"

definition either_row :: "(string \<Rightarrow> bool) \<Rightarrow> (string \<Rightarrow> bool) \<Rightarrow> string \<Rightarrow> bool" where
  "either_row P Q l = (P l \<or> Q l)"

definition trimmed_row :: "(string \<Rightarrow> bool) \<Rightarrow> string \<Rightarrow> bool" where
  "trimmed_row P l = P (TrimSpace l)"

definition written :: "string \<Rightarrow> bool" where
  "written l = (\<not> blank l)"

lemma rows_code [code_unfold]:
  "(\<lambda>i. isRule (lines ! i)) = row_is isRule lines"
  "(\<lambda>i. isRule (lines ! i) \<or> marked (lines ! i)) = row_is (either_row isRule marked) lines"
  "(\<lambda>i. blank (lines ! i) \<or> isRule (lines ! i)) = row_is (either_row blank isRule) lines"
  "(\<lambda>i. \<not> blank (lines ! i)) = row_is written lines"
  "(\<lambda>i. isRule (TrimSpace (lines ! i))) = row_is (trimmed_row isRule) lines"
  by (simp_all add: fun_eq_iff row_is_def either_row_def trimmed_row_def written_def)

section \<open>The composer\<close>

datatype composer_span = composerFound nat nat | composerAbsent | composerClipped

definition bottomCutComposer :: "screen \<Rightarrow> bool" where
  "bottomCutComposer s =
     (let lines = sc_lines s; n = length lines
      in if n < 2 \<or> sc_blank_below s \<noteq> 0 then False
         else if \<not> marked (lines ! (n - 1)) then False
         else if numberedOption (after_prompt (lines ! (n - 1))) \<noteq> None then False
         else case firstNonBlankAbove lines (n - 1) of
             None \<Rightarrow> False
           | Some fence \<Rightarrow> isRule (lines ! fence) \<and> \<not> contains_any (lines ! fence) boxCorners)"

definition composerSpan :: "screen \<Rightarrow> composer_span" where
  "composerSpan s =
     (let lines = sc_lines s
      in if bottomCutComposer s then composerClipped
         else case find_up (\<lambda>i. isRule (lines ! i)) (length lines) of
             None \<Rightarrow> composerAbsent
           | Some close \<Rightarrow>
               if close = 0 then composerAbsent
               else case find_up (\<lambda>i. isRule (lines ! i) \<or> marked (lines ! i)) close of
                   None \<Rightarrow> composerClipped
                 | Some prompt \<Rightarrow>
                     if isRule (lines ! prompt) then composerAbsent
                     else case firstNonBlankAbove lines prompt of
                         None \<Rightarrow> composerClipped
                       | Some fence \<Rightarrow>
                           if \<not> isRule (lines ! fence) then composerAbsent
                           else if fence < sc_visible_top s then composerClipped
                           else composerFound prompt close)"

definition composerClippedCause :: "screen \<Rightarrow> string" where
  "composerClippedCause s =
     (if bottomCutComposer s
      then ''is cut off by the bottom edge of the pane (its opening rule and prompt row are '' @
        ''the last rows shown, its closing rule is not drawn)''
      else ''is taller than this driver's capture window or reaches above the visible pane'')"

definition clippedOnlyAboveVisiblePane :: "screen \<Rightarrow> bool" where
  "clippedOnlyAboveVisiblePane s =
     (if sc_visible_top s = 0 then False
      else if composerSpan s \<noteq> composerClipped then False
      else case composerSpan (s\<lparr>sc_visible_top := 0\<rparr>) of composerFound _ _ \<Rightarrow> True | _ \<Rightarrow> False)"

text \<open>What the composer holds: the text, or why it cannot be read.\<close>

datatype composer_reading = Holds string | HasNone | Clipped

definition dim_at :: "screen \<Rightarrow> nat \<Rightarrow> bool" where
  "dim_at s i = (i < length (sc_raw s) \<and> allDim (sc_raw s ! i))"

definition composerText :: "screen \<Rightarrow> composer_reading" where
  "composerText s =
     (case composerSpan s of
        composerAbsent \<Rightarrow> HasNone
      | composerClipped \<Rightarrow> Clipped
      | composerFound prompt close \<Rightarrow>
          if prompt < length (sc_raw s) \<and> allDim (afterMarker (sc_raw s ! prompt)) then Holds []
          else Holds (TrimSpace (fold
            (\<lambda>i text. if dim_at s i then text
               else let seg = TrimSpace (sc_lines s ! i) in if seg \<noteq> [] then text @ '' '' @ seg else text)
            [Suc prompt ..< close] (after_prompt (sc_lines s ! prompt)))))"

definition composerVisualLines :: "screen \<Rightarrow> nat \<times> composer_span" where
  "composerVisualLines s =
     (case composerSpan s of
        composerFound prompt close \<Rightarrow> (close - prompt, composerFound prompt close) | scan \<Rightarrow> (0, scan))"

definition composerCursorRowBlank :: "screen \<Rightarrow> bool \<times> composer_span" where
  "composerCursorRowBlank s =
     (case composerSpan s of
        composerFound prompt close \<Rightarrow>
          (if close - 1 \<le> prompt \<or> length (sc_lines s) \<le> close - 1 then False else blank (sc_lines s ! (close - 1)),
           composerFound prompt close)
      | scan \<Rightarrow> (False, scan))"

section \<open>Searching upwards\<close>

lemma find_up_0 [simp]: "find_up P 0 = None"
  by (simp add: find_up_def)

lemma find_up_Suc: "find_up P (Suc i) = (if P i then Some i else find_up P i)"
  by (simp add: find_up_def)

lemma find_up_None: "find_up P i = None \<longleftrightarrow> (\<forall>k < i. \<not> P k)"
  by (induction i) (auto simp: find_up_Suc less_Suc_eq)

lemma find_up_Some: "find_up P i = Some j \<longleftrightarrow> j < i \<and> P j \<and> (\<forall>k. j < k \<longrightarrow> k < i \<longrightarrow> \<not> P k)"
  by (induction i) (auto simp: find_up_Suc less_Suc_eq)

lemma find_up_SomeI: "j < i \<Longrightarrow> P j \<Longrightarrow> (\<And>k. j < k \<Longrightarrow> k < i \<Longrightarrow> \<not> P k) \<Longrightarrow> find_up P i = Some j"
  by (simp add: find_up_Some)

section \<open>Escape sequences are invisible\<close>

text \<open>A row as a terminal prints it: text, attributes and cursor sequences, and system commands.\<close>

datatype piece = Plain string | Csi string char | OscBel string | OscSt string

fun paint_piece :: "piece \<Rightarrow> string" where
  "paint_piece (Plain s) = s"
| "paint_piece (Csi params c) = [CHR 0x1B, CHR ''[''] @ params @ [c]"
| "paint_piece (OscBel body) = [CHR 0x1B, CHR '']''] @ body @ [CHR 0x07]"
| "paint_piece (OscSt body) = [CHR 0x1B, CHR '']''] @ body @ [CHR 0x1B, CHR 0x5C]"

fun piece_text :: "piece \<Rightarrow> string" where
  "piece_text (Plain s) = s"
| "piece_text _ = []"

fun piece_ok :: "piece \<Rightarrow> bool" where
  "piece_ok (Plain s) = (CHR 0x1B \<notin> set s)"
| "piece_ok (Csi params c) = (set params \<inter> set ''mKH'' = {} \<and> c \<in> set ''mKH'')"
| "piece_ok (OscBel body) = (CHR 0x07 \<notin> set body \<and> CHR 0x1B \<notin> set body)"
| "piece_ok (OscSt body) = (CHR 0x07 \<notin> set body \<and> CHR 0x1B \<notin> set body)"

lemma stripEscapes_plain: "CHR 0x1B \<notin> set s \<Longrightarrow> stripEscapes (s @ t) = s @ stripEscapes t"
  by (induction s) auto

lemma oscEnd_body:
  assumes "CHR 0x07 \<notin> set body" and "CHR 0x1B \<notin> set body"
  shows "oscEnd (body @ CHR 0x07 # t) = Some t" and "oscEnd (body @ CHR 0x1B # CHR 0x5C # t) = Some t"
  using assms by (induction body) auto

lemma stripEscapes_piece: "piece_ok p \<Longrightarrow> stripEscapes (paint_piece p @ t) = piece_text p @ stripEscapes t"
proof (cases p)
  case (Csi params c)
  assume ok: "piece_ok p"
  let ?P = "\<lambda>c. c \<noteq> CHR ''m'' \<and> c \<noteq> CHR ''K'' \<and> c \<noteq> CHR ''H''"
  have "dropWhile ?P (params @ c # t) = c # t"
    using ok Csi by (subst dropWhile_append2) auto
  then show ?thesis using Csi by (simp add: skip_escape_def)
qed (auto simp: stripEscapes_plain skip_escape_def oscEnd_body)

text \<open>
  Whatever attributes, cursor sequences and system commands a terminal paints between the pieces
  of a row, removing the escape sequences leaves exactly the row's text.
\<close>

theorem escapes_are_invisible:
  assumes "list_all piece_ok ps"
  shows "stripEscapes (concat (map paint_piece ps)) = concat (map piece_text ps)"
  using assms by (induction ps) (simp_all add: stripEscapes_piece)

lemma escapes_are_invisible_witness:
  "stripEscapes (concat (map paint_piece
     [Csi ''38;5;1'' CHR ''m'', Plain ''ab'', OscSt ''8;;http://x'', Plain ''c'', OscBel ''0;t'', Csi [] CHR ''K''])) = ''abc''"
  using escapes_are_invisible [of "[Csi ''38;5;1'' CHR ''m'', Plain ''ab'', OscSt ''8;;http://x'', Plain ''c'',
      OscBel ''0;t'', Csi [] CHR ''K'']"] by simp

section \<open>What a found composer is\<close>

text \<open>
  C25: A composer that is found is one a person sees: its prompt row begins with the marker and is no
  rule, its closing rule is the last rule of the screen and no rule or second prompt row stands
  between them, and the nearest row above it that is not blank is a rule inside the visible pane.
\<close>

theorem found_composer_is_fenced:
  assumes "composerSpan s = composerFound prompt close"
  shows "prompt < close \<and> close < length (sc_lines s) \<and>
    marked (sc_lines s ! prompt) \<and> \<not> isRule (sc_lines s ! prompt) \<and> isRule (sc_lines s ! close) \<and>
    filter isRule (drop (Suc close) (sc_lines s)) = [] \<and>
    filter (\<lambda>l. isRule l \<or> marked l) (take (close - Suc prompt) (drop (Suc prompt) (sc_lines s))) = [] \<and>
    (\<exists>fence < prompt. sc_visible_top s \<le> fence \<and> isRule (sc_lines s ! fence) \<and>
      filter (\<lambda>l. \<not> blank l) (take (prompt - Suc fence) (drop (Suc fence) (sc_lines s))) = [])"
proof -
  let ?l = "sc_lines s"
  have c: "find_up (\<lambda>i. isRule (?l ! i)) (length ?l) = Some close" "close \<noteq> 0"
    "find_up (\<lambda>i. isRule (?l ! i) \<or> marked (?l ! i)) close = Some prompt" "\<not> isRule (?l ! prompt)"
    using assms by (auto simp: composerSpan_def Let_def split: if_splits option.splits)
  obtain fence where f: "firstNonBlankAbove ?l prompt = Some fence" "isRule (?l ! fence)" "sc_visible_top s \<le> fence"
    using assms by (auto simp: composerSpan_def Let_def split: if_splits option.splits)
  have range: "filter P (take (j - Suc i) (drop (Suc i) ?l)) = []"
    if "j \<le> length ?l" "\<And>k. i < k \<Longrightarrow> k < j \<Longrightarrow> \<not> P (?l ! k)" for P i j
    using that by (auto simp: filter_empty_conv in_set_conv_nth)
  have below: "filter isRule (drop (Suc close) ?l) = []"
    using c(1) by (auto simp: find_up_Some filter_empty_conv in_set_conv_nth)
  have between: "filter (\<lambda>l. isRule l \<or> marked l) (take (close - Suc prompt) (drop (Suc prompt) ?l)) = []"
    by (rule range) (use c in \<open>auto simp: find_up_Some\<close>)
  have above: "filter (\<lambda>l. \<not> blank l) (take (prompt - Suc fence) (drop (Suc fence) ?l)) = []"
    by (rule range) (use c f in \<open>auto simp: find_up_Some firstNonBlankAbove_def\<close>)
  have "fence < prompt" using f(1) by (simp add: firstNonBlankAbove_def find_up_Some)
  with f above c between below show ?thesis by (auto simp: find_up_Some)
qed

section \<open>A painted composer is read back\<close>

text \<open>
  A row as the splitter keeps it, a text a composer shows, and the rows the runtime paints for it:
  the first behind the marker, the others indented.
\<close>

definition row_ok :: "string \<Rightarrow> bool" where
  "row_ok l = (CHR 0x0A \<notin> set l \<and> CHR 0x1B \<notin> set l \<and> trailing l = l)"

definition shown_text :: "string \<Rightarrow> bool" where
  "shown_text t = (t \<noteq> [] \<and> trimmed t \<and> CHR 0x0A \<notin> set t \<and> CHR 0x1B \<notin> set t \<and> \<not> isRule t \<and> \<not> marked t)"

fun composer_rows :: "string list \<Rightarrow> string list" where
  "composer_rows [] = [composerRuneMarker]"
| "composer_rows (t # ts) = (composerRuneMarker @ '' '' @ t) # map (\<lambda>t. ''  '' @ t) ts"

definition paint :: "string list \<Rightarrow> string" where
  "paint rows = concat (map (\<lambda>l. l @ [CHR 0x0A]) rows)"

lemma stripEscapes_id: "CHR 0x1B \<notin> set s \<Longrightarrow> stripEscapes s = s"
  using stripEscapes_plain [of s "[]"] by simp

lemma trailing_id: "l = [] \<or> last l \<notin> {CHR '' '', CHR 0x09, CHR 0x0D} \<Longrightarrow> trailing l = l"
  by (cases l rule: rev_cases) (auto simp: trailing_def trim_right_chars_def)

lemma splitScreen_paint:
  assumes "list_all row_ok rows"
  shows "\<exists>m. splitScreen (paint rows) = \<lparr>sc_lines = take m rows, sc_raw = take m rows, sc_visible_top = 0,
      sc_blank_below = sc_blank_below (splitScreen (paint rows))\<rparr> \<and>
    (\<forall>k < length rows. \<not> blank (rows ! k) \<longrightarrow> k < m)"
proof -
  have raws: "split_on (CHR 0x0A) (paint rows) = rows @ [[]]"
    unfolding paint_def by (rule split_on_lines) (use assms in \<open>auto simp: list_all_iff row_ok_def\<close>)
  have out: "map (\<lambda>l. trailing (stripEscapes l)) (rows @ [[]]) = rows @ [[]]"
    using assms by (auto simp: list_all_iff row_ok_def stripEscapes_id trailing_def trim_right_chars_def intro!: map_idI)
  define m where "m = length (dropWhile blank (rev rows))"
  have nil: "blank []" by (simp add: blank_def TrimSpace_def trim_left_of_id [THEN iffD2] starts_blank_def list_ex_iff has_prefix_def)
  have m: "m \<le> length rows" unfolding m_def by (metis length_dropWhile_le length_rev)
  have "k < m" if k: "k < length rows" "\<not> blank (rows ! k)" for k
  proof (rule ccontr)
    assume "\<not> k < m"
    let ?t = "takeWhile blank (rev rows)"
    have "length ?t + m = length rows" by (metis length_append length_rev m_def takeWhile_dropWhile_id)
    then have "length rows - Suc k < length ?t" using k \<open>\<not> k < m\<close> by simp
    then have "rev rows ! (length rows - Suc k) \<in> set ?t"
      by (metis nth_mem takeWhile_nth)
    then have "blank (rev rows ! (length rows - Suc k))" using set_takeWhileD by fast
    then show False using k by (simp add: rev_nth)
  qed
  then show ?thesis
    using m nil by (intro exI [of _ m]) (simp add: splitScreen_def raws out m_def Let_def del: map_append)
qed

lemma isRule_not_blank: "isRule l \<Longrightarrow> \<not> blank l"
  by (auto simp: isRule_def blank_def)

lemma composerSpan_found:
  assumes "\<not> bottomCutComposer s" and "prompt < close" and "close < length (sc_lines s)"
    and "isRule (sc_lines s ! close)" and "\<And>k. close < k \<Longrightarrow> k < length (sc_lines s) \<Longrightarrow> \<not> isRule (sc_lines s ! k)"
    and "marked (sc_lines s ! prompt)" and "\<not> isRule (sc_lines s ! prompt)"
    and "\<And>k. prompt < k \<Longrightarrow> k < close \<Longrightarrow> \<not> isRule (sc_lines s ! k) \<and> \<not> marked (sc_lines s ! k)"
    and "fence < prompt" and "isRule (sc_lines s ! fence)" and "sc_visible_top s \<le> fence"
    and "\<And>k. fence < k \<Longrightarrow> k < prompt \<Longrightarrow> blank (sc_lines s ! k)"
  shows "composerSpan s = composerFound prompt close"
proof -
  have "find_up (\<lambda>i. isRule (sc_lines s ! i)) (length (sc_lines s)) = Some close"
    using assms by (intro find_up_SomeI) auto
  moreover have "find_up (\<lambda>i. isRule (sc_lines s ! i) \<or> marked (sc_lines s ! i)) close = Some prompt"
    using assms by (intro find_up_SomeI) auto
  moreover have "firstNonBlankAbove (sc_lines s) prompt = Some fence"
    unfolding firstNonBlankAbove_def using assms isRule_not_blank by (intro find_up_SomeI) auto
  ultimately show ?thesis using assms by (simp add: composerSpan_def Let_def)
qed

lemma allDim_plain: "CHR 0x1B \<notin> set s \<Longrightarrow> \<not> allDim s"
  by (auto simp: allDim_def str_contains_iff sgrDimOn_def)

lemma afterMarker_subset: "set (afterMarker s) \<subseteq> set s"
  by (auto simp: afterMarker_def split: option.splits dest: in_set_dropD)

lemma runes_marker: "runes (composerRuneMarker @ s) = 0x276F # runes s"
  by (simp add: composerRuneMarker_def runes.simps [of "_ # _"] byte_def accept_def in_range_def numeral_2_eq_2)

lemma isRule_trimmed: "trimmed l \<Longrightarrow> isRule l \<longleftrightarrow> 3 \<le> length (filter (\<lambda>r. r = ruleRune) (runes l))"
  by (simp add: isRule_def)

lemma TrimSpace_Nil [simp]: "TrimSpace [] = []"
  by (simp add: trimmed_iff starts_blank_def list_ex_iff has_prefix_def)

lemma marker_nonempty: "composerRuneMarker \<noteq> []"
  by (simp add: composerRuneMarker_def)

lemma trimmed_marker: "trimmed composerRuneMarker"
  by (simp add: composerRuneMarker_def trimmed_iff starts_blank_def white_space_def has_prefix_def)

lemma prompt_row:
  assumes "t = [] \<or> shown_text t"
  defines "l \<equiv> composerRuneMarker @ (if t = [] then [] else '' '' @ t)"
  shows "trimmed l" and "marked l" and "\<not> isRule l" and "after_prompt l = t"
proof -
  show tr: "trimmed l"
    using assms trimmed_marker trimmed_blank_between [of composerRuneMarker t] marker_nonempty
    by (auto simp: l_def shown_text_def)
  then show "marked l" by (simp add: marked_def l_def)
  show "\<not> isRule l"
    using assms tr by (auto simp: isRule_trimmed l_def shown_text_def runes_marker runes_ascii byte_def ruleRune_def
        isRule_trimmed [of composerRuneMarker])
  have "after_prompt l = TrimSpace (if t = [] then [] else '' '' @ t)"
    using tr by (simp add: after_prompt_def trim_prefix_def l_def)
  then show "after_prompt l = t" using assms(1) by (auto simp: TrimSpace_blank shown_text_def)
qed

lemma indented_row:
  assumes "shown_text t"
  shows "TrimSpace (''  '' @ t) = t" and "\<not> isRule (''  '' @ t)" and "\<not> marked (''  '' @ t)"
proof -
  show 1: "TrimSpace (''  '' @ t) = t" using assms by (simp add: TrimSpace_blank shown_text_def)
  show "\<not> isRule (''  '' @ t)" "\<not> marked (''  '' @ t)"
    using assms 1 by (auto simp: isRule_def marked_def shown_text_def)
qed

lemma composer_rows_ok: "list_all shown_text ts \<Longrightarrow> list_all row_ok (composer_rows ts)"
proof (cases ts)
  case Nil
  then show ?thesis by (simp add: row_ok_def composerRuneMarker_def trailing_id)
next
  case (Cons t us)
  assume ok: "list_all shown_text ts"
  have row: "row_ok (p @ t)" if "shown_text t" "set p \<subseteq> set (composerRuneMarker @ '' '')" for p t
  proof -
    have "last (p @ t) \<notin> {CHR '' '', CHR 0x09, CHR 0x0D}"
      using that trimmed_last [of t] by (simp add: shown_text_def)
    then show ?thesis using that by (auto simp: row_ok_def shown_text_def composerRuneMarker_def intro!: trailing_id)
  qed
  have "row_ok (composerRuneMarker @ '' '' @ t)" using row [of t "composerRuneMarker @ '' ''"] ok Cons by simp
  moreover have "row_ok (''  '' @ x)" if "x \<in> set us" for x
    using row [of x "''  ''"] ok Cons that by (simp add: list_all_iff)
  ultimately show ?thesis using Cons by (simp add: list_all_iff)
qed

lemma map_nth_range: "b \<le> length xs \<Longrightarrow> map ((!) xs) [a ..< b] = take (b - a) (drop a xs)"
  by (rule nth_equalityI) auto

lemma fold_join:
  assumes "list_all (\<lambda>x. TrimSpace (f x) \<noteq> []) xs"
  shows "fold (\<lambda>x text. let seg = TrimSpace (f x) in if seg \<noteq> [] then text @ '' '' @ seg else text) xs t =
    join '' '' (t # map (\<lambda>x. TrimSpace (f x)) xs)"
proof -
  have "join '' '' ((a @ CHR '' '' # b) # ys) = a @ CHR '' '' # join '' '' (b # ys)" for a b ys
    by (cases ys) simp_all
  then show ?thesis using assms by (induction xs arbitrary: t) (simp_all add: Let_def)
qed

lemma composer_text_of_rows:
  assumes "composerSpan s = composerFound prompt close" and "sc_raw s = sc_lines s" and "close \<le> length (sc_lines s)"
    and "list_all (\<lambda>l. CHR 0x1B \<notin> set l) (sc_lines s)" and "list_all shown_text ts" and "prompt < close"
    and rows: "take (close - prompt) (drop prompt (sc_lines s)) = composer_rows ts"
  shows "composerText s = Holds (join '' '' ts)"
proof -
  let ?L = "sc_lines s"
  have first: "?L ! prompt = hd (composer_rows ts)"
    using rows [symmetric] assms(3,6) by (simp add: hd_drop_conv_nth)
  have "drop (Suc prompt) ?L = tl (drop prompt ?L)" by (simp add: drop_Suc tl_drop)
  then have rest: "take (close - Suc prompt) (drop (Suc prompt) ?L) = tl (composer_rows ts)"
    using rows [symmetric] by (simp add: tl_take)
  have plain: "\<not> allDim (sc_raw s ! i)" if "i < length ?L" for i
    using allDim_plain assms(2,4) that by (simp add: list_all_length)
  have "\<not> (prompt < length (sc_raw s) \<and> allDim (afterMarker (sc_raw s ! prompt)))"
  proof -
    have "CHR 0x1B \<notin> set (afterMarker (?L ! prompt))"
      using afterMarker_subset [of "?L ! prompt"] assms(3,4,6) by (auto simp: list_all_length)
    then show ?thesis using allDim_plain assms(2) by simp
  qed
  moreover have "\<not> dim_at s i" for i using plain assms(2) by (simp add: dim_at_def)
  ultimately have "composerText s = Holds (TrimSpace (fold
      (\<lambda>i text. let seg = TrimSpace (?L ! i) in if seg \<noteq> [] then text @ '' '' @ seg else text)
      [Suc prompt ..< close] (after_prompt (?L ! prompt))))"
    using assms(1) by (auto simp: composerText_def)
  also have "fold (\<lambda>i text. let seg = TrimSpace (?L ! i) in if seg \<noteq> [] then text @ '' '' @ seg else text)
      [Suc prompt ..< close] (after_prompt (?L ! prompt)) =
    fold (\<lambda>l text. let seg = TrimSpace l in if seg \<noteq> [] then text @ '' '' @ seg else text)
      (tl (composer_rows ts)) (after_prompt (?L ! prompt))"
    unfolding rest [symmetric] map_nth_range [OF assms(3), of "Suc prompt", symmetric] by (simp add: fold_map comp_def)
  also have "TrimSpace \<dots> = join '' '' ts"
  proof (cases ts)
    case Nil
    then show ?thesis using first prompt_row(4) [of "[]"] by simp
  next
    case (Cons t us)
    have t: "after_prompt (?L ! prompt) = t"
      using first prompt_row(4) [of t] assms(5) Cons by (auto simp: shown_text_def)
    let ?in = "\<lambda>x. CHR '' '' # CHR '' '' # x"
    have tl: "tl (composer_rows ts) = map ?in us" using Cons by (simp add: comp_def cong: map_cong)
    have ind: "list_all (\<lambda>x. TrimSpace (?in x) = x \<and> x \<noteq> []) us"
      using assms(5) Cons indented_row(1) by (auto simp: list_all_iff shown_text_def)
    then have "fold (\<lambda>l text. let seg = TrimSpace l in if seg \<noteq> [] then text @ '' '' @ seg else text) (map ?in us) t =
        join '' '' (t # map (\<lambda>x. TrimSpace (?in x)) us)"
      using fold_join [of ?in us t] by (simp add: fold_map comp_def list_all_iff)
    also have "map (\<lambda>x. TrimSpace (?in x)) us = us" using ind by (auto simp: list_all_iff intro: map_idI)
    finally have "fold (\<lambda>l text. let seg = TrimSpace l in if seg \<noteq> [] then text @ '' '' @ seg else text)
        (tl (composer_rows ts)) t = join '' '' ts" by (simp only: tl) (simp only: Cons)
    moreover have "trimmed (join '' '' ts)"
      using trimmed_join [of ts] assms(5) by (auto simp: list_all_iff shown_text_def)
    ultimately show ?thesis unfolding t by simp
  qed
  finally show ?thesis .
qed


lemma newScreenVisible_sel:
  "sc_lines (newScreenVisible raw h) = sc_lines (splitScreen raw)"
  "sc_raw (newScreenVisible raw h) = sc_raw (splitScreen raw)"
  "sc_blank_below (newScreenVisible raw h) = sc_blank_below (splitScreen raw)"
  by (simp_all add: newScreenVisible_def Let_def)

lemma take_drop_take: "p + n \<le> m \<Longrightarrow> take n (drop p (take m xs)) = take n (drop p xs)"
  by (simp add: drop_take)

lemma newlines_paint:
  "\<forall>l \<in> set rows. CHR 0x0A \<notin> set l \<Longrightarrow> length (filter (\<lambda>c. c = CHR 0x0A) (paint rows)) = length rows"
proof (induction rows)
  case (Cons l rows)
  then have "filter (\<lambda>c. c = CHR 0x0A) l = []" by (auto simp: filter_empty_conv)
  with Cons show ?case by (simp add: paint_def)
qed (simp add: paint_def)

lemma paint_suffix: "rows \<noteq> [] \<Longrightarrow> has_suffix (paint rows) [CHR 0x0A]"
  by (cases rows rule: rev_cases) (auto simp: paint_def has_suffix_iff)


definition demo_rule :: string where
  "demo_rule = concat (replicate 3 [CHR 0xE2, CHR 0x94, CHR 0x80])"

definition demo_composer :: "string list \<Rightarrow> string list" where
  "demo_composer ts = [''done'', demo_rule] @ composer_rows ts @ [demo_rule, ''? help'']"


lemma found_composer_is_fenced_witness:
  "composerSpan (newScreen (paint (demo_composer [''hi'']))) = composerFound 2 3 \<and> (2::nat) < 3"
proof -
  have c: "composerSpan (newScreen (paint (demo_composer [''hi'']))) = composerFound 2 3" by code_simp
  from found_composer_is_fenced [OF c] c show ?thesis by simp
qed

end
