(* ===== verification/DraftText.thy ===== *)
theory DraftText
  imports NfcLite Screen
begin

text \<open>
  The text of a delivery against what a composer shows: the rows of a composer as segments and whether
  they are the text (\<open>composertext.go\<close>), the marker a collapsed paste leaves (\<open>markerCounts\<close> and its
  neighbours of \<open>tmux.go\<close>), what a text may hold before it is pasted and what shows that it landed
  (\<open>terminalpath2.go\<close>), all of \<open>internal/drivers/tmux\<close>.
\<close>

section \<open>Segments\<close>

definition composerSegments :: "screen \<Rightarrow> string list \<times> composer_span" where
  "composerSegments s =
     (case composerSpan s of
        composerFound prompt close \<Rightarrow>
          if prompt < length (sc_raw s) \<and> allDim (afterMarker (sc_raw s ! prompt)) then ([], composerFound prompt close)
          else
            (filter (\<lambda>seg. seg \<noteq> [])
               (collapseSpace (trim_prefix (TrimSpace (sc_lines s ! prompt)) composerRuneMarker) #
                map (\<lambda>i. collapseSpace (sc_lines s ! i)) (filter (\<lambda>i. \<not> dim_at s i) [Suc prompt ..< close])),
             composerFound prompt close)
      | scan \<Rightarrow> ([], scan))"

text \<open>\<open>matchSegmentsFrom\<close>: each segment after the first may be preceded by one blank of the text.\<close>

fun match_rest :: "string list \<Rightarrow> string \<Rightarrow> bool" where
  "match_rest [] t = (t = [])"
| "match_rest (s # ss) t =
     (let t = (if has_prefix t '' '' \<and> has_prefix (drop 1 t) s then drop 1 t else t)
      in if \<not> has_prefix t s then False else match_rest ss (drop (length s) t))"

definition matchSegmentsFrom :: "string list \<Rightarrow> string \<Rightarrow> nat \<Rightarrow> bool" where
  "matchSegmentsFrom segs t pos =
     (case segs of
        [] \<Rightarrow> pos = length t
      | s # ss \<Rightarrow> if \<not> has_prefix (drop pos t) s then False else match_rest ss (drop (pos + length s) t))"

definition composerSuffixMinBytes :: nat where
  "composerSuffixMinBytes = 24"

definition segmentsMatchText :: "string list \<Rightarrow> string \<Rightarrow> bool \<Rightarrow> bool" where
  "segmentsMatchText segs sent allowSuffix =
     (if segs = [] then False
      else let t = collapseSpace sent
        in if t = [] then False
           else if matchSegmentsFrom segs t 0 then True
           else if \<not> allowSuffix then False
           else if length segs - 1 + sum_list (map length segs) < composerSuffixMinBytes then False
           else list_ex (\<lambda>start. has_prefix (drop start t) (hd segs) \<and> matchSegmentsFrom segs t start) [1 ..< length t])"

definition composerMatchesText :: "screen \<Rightarrow> string \<Rightarrow> bool \<Rightarrow> bool" where
  "composerMatchesText sc text allowSuffix =
     (case composerSegments sc of
        (segs, composerFound _ _) \<Rightarrow> segmentsMatchText segs text allowSuffix | _ \<Rightarrow> False)"

text \<open>The rows of the composer, of a clipped one those above its closing rule.\<close>

definition composerRegion :: "screen \<Rightarrow> string list \<times> composer_span" where
  "composerRegion sc =
     (case composerSpan sc of
        composerFound prompt close \<Rightarrow> (take (close - prompt) (drop prompt (sc_lines sc)), composerFound prompt close)
      | composerClipped \<Rightarrow>
          (case find_up (\<lambda>i. isRule (sc_lines sc ! i)) (length (sc_lines sc)) of
             None \<Rightarrow> ([], composerClipped)
           | Some closing \<Rightarrow>
               if closing \<le> sc_visible_top sc then ([], composerClipped)
               else (take (closing - sc_visible_top sc) (drop (sc_visible_top sc) (sc_lines sc)), composerClipped))
      | composerAbsent \<Rightarrow> ([], composerAbsent))"

section \<open>Markers of collapsed pastes\<close>

record paste_key =
  pk_index :: int
  pk_lines :: int

definition no_key :: paste_key where
  "no_key = \<lparr>pk_index = 0, pk_lines = 0\<rparr>"

definition numberAfter :: "string \<Rightarrow> char \<Rightarrow> int" where
  "numberAfter s marker =
     (case dropWhile (\<lambda>c. c \<noteq> marker) s of
        [] \<Rightarrow> 0
      | _ # rest \<Rightarrow>
          let ds = takeWhile is_digit rest
          in if 6 < length ds then 0 else foldl (\<lambda>n c. n * 10 + (byte c - 48)) 0 ds)"

definition marker_key :: "golib \<Rightarrow> string \<Rightarrow> paste_key option" where
  "marker_key lib inside =
     (let lower = ToLower lib inside
      in if \<not> (CHR ''#'' \<in> set inside \<and> list_ex is_digit lower) \<and> \<not> str_contains lower ''line'' then None
         else Some \<lparr>pk_index = numberAfter inside CHR ''#'', pk_lines = numberAfter inside CHR ''+''\<rparr>)"

lemma bracket_shorter: "dropWhile P s = c # t \<Longrightarrow> length (dropWhile Q t) < length s"
proof -
  assume "dropWhile P s = c # t"
  then have "length t < length s" using length_dropWhile_le [of P s] by simp
  moreover have "length (dropWhile Q t) \<le> length t" by (rule length_dropWhile_le)
  ultimately show ?thesis by simp
qed

text \<open>The bracketed texts of one row that are markers, in order.\<close>

function bracketed :: "golib \<Rightarrow> string \<Rightarrow> paste_key list" where
  "bracketed lib rest =
     (case dropWhile (\<lambda>c. c \<noteq> CHR ''['') rest of
        [] \<Rightarrow> []
      | _ # after_open \<Rightarrow>
          if CHR '']'' \<notin> set after_open then []
          else (case marker_key lib (takeWhile (\<lambda>c. c \<noteq> CHR '']'') after_open) of None \<Rightarrow> [] | Some k \<Rightarrow> [k]) @
               bracketed lib (dropWhile (\<lambda>c. c \<noteq> CHR '']'') after_open))"
  by pat_completeness auto

termination
  by (relation "measure (\<lambda>(lib, s). length s)") (auto intro: bracket_shorter)

declare bracketed.simps [simp del]

text \<open>\<open>markerCounts\<close> as the list of its markers: the count of a key is how often it occurs.\<close>

definition markerCounts :: "golib \<Rightarrow> string \<Rightarrow> paste_key list" where
  "markerCounts lib painted =
     concat (map (\<lambda>line. case str_index line composerRuneMarker of None \<Rightarrow> [] | Some i \<Rightarrow> bracketed lib (drop i line))
       (split_on (CHR 0x0A) painted))"

definition gained :: "paste_key list \<Rightarrow> paste_key list \<Rightarrow> paste_key option" where
  "gained before after =
     (case filter (\<lambda>k. count_list before k < count_list after k) (remdups after) of [k] \<Rightarrow> Some k | _ \<Rightarrow> None)"

definition composerHoldsCollapsedPaste :: "golib \<Rightarrow> string \<Rightarrow> bool" where
  "composerHoldsCollapsedPaste lib painted = (0 < length (remdups (markerCounts lib painted)))"

definition composerMarkers :: "golib \<Rightarrow> screen \<Rightarrow> paste_key list" where
  "composerMarkers lib sc =
     (case composerRegion sc of
        (rows, composerAbsent) \<Rightarrow> [] | (rows, _) \<Rightarrow> markerCounts lib (join [CHR 0x0A] rows))"

text \<open>\<open>[Pasted text #3 +12 lines]\<close>: the number of lines, \<open>0\<close> when none is given.\<close>

definition take_number :: "string \<Rightarrow> string \<times> string" where
  "take_number s = (takeWhile is_digit s, dropWhile is_digit s)"

definition parsePastedTextMarker :: "string \<Rightarrow> int option" where
  "parsePastedTextMarker s =
     (let s = TrimSpace s
      in if \<not> has_prefix s ''[Pasted text #'' then None
         else let (ds, rest) = take_number (drop 14 s)
           in if ds = [] then None
              else if rest = '']'' then Some 0
              else if \<not> has_prefix rest '' +'' then None
              else let (ns, rest) = take_number (drop 2 rest)
                in if ns = [] \<or> rest \<notin> {'' line]'', '' lines]''} then None
                   else Some (foldl (\<lambda>n c. wrap64 (n * 10 + (byte c - 48))) 0 ns))"

section \<open>What is pasted\<close>

definition control_rune :: "rune \<Rightarrow> bool" where
  "control_rune r = (r < 0x20 \<and> r \<noteq> 10 \<and> r \<noteq> 9 \<or> in_range 0x7F 0x9F r)"

definition sanitizeForBracketedPaste :: "string \<Rightarrow> string" where
  "sanitizeForBracketedPaste text =
     (if \<not> list_ex control_rune (runes text) then text
      else of_runes (filter (\<lambda>r. \<not> control_rune r) (runes text)))"

section \<open>Whether a delivery has landed\<close>

datatype landed_by = landedNone | landedByRegion | landedByMarker | landedByClippedTail | landedByNeedle | landedByOwnMarker

record land_check =
  lc_before :: "paste_key list"
  lc_strict :: bool
  lc_digest_verified :: bool
  lc_own_marker :: paste_key
  lc_own_marker_ok :: bool
  lc_session :: string

record landing =
  ln_ok :: bool
  ln_by :: landed_by
  ln_key :: paste_key
  ln_at_count :: nat
  ln_dialog :: bool
  ln_preempted :: bool

definition no_landing :: landing where
  "no_landing = \<lparr>ln_ok = False, ln_by = landedNone, ln_key = no_key, ln_at_count = 0, ln_dialog = False, ln_preempted = False\<rparr>"

definition landed :: "landed_by \<Rightarrow> landing" where
  "landed how = no_landing\<lparr>ln_ok := True, ln_by := how\<rparr>"

definition composerRegionMatch :: "screen \<Rightarrow> string \<Rightarrow> bool \<Rightarrow> bool" where
  "composerRegionMatch sc text allowSuffix =
     (case composerSegments sc of
        (segs, composerFound _ _) \<Rightarrow>
          if segs = [] then False
          else if segmentsMatchText segs text False then True
          else allowSuffix \<and> segmentsMatchText segs text True
      | _ \<Rightarrow> False)"

definition landArgs :: "string \<Rightarrow> land_check \<Rightarrow> string \<times> bool" where
  "landArgs text c =
     (let needle = TrimSpace text;
          needle = rev (takeWhile (\<lambda>ch. ch \<noteq> CHR 0x0A) (rev needle));
          needle = (if 24 < length needle then drop (length needle - 24) needle else needle)
      in (needle, \<not> lc_strict c \<or> lc_digest_verified c))"

definition newlines :: "string \<Rightarrow> nat" where
  "newlines s = length (filter (\<lambda>c. c = CHR 0x0A) s)"

definition markerLinesFit :: "int \<Rightarrow> string \<Rightarrow> bool" where
  "markerLinesFit lines text \<longleftrightarrow>
     lines = int (newlines text) \<or> lines = int (newlines (trim_right_chars [CHR 0x0A] text))"

text \<open>A resumed delivery is attributed only by its text or by its own marker standing alone.\<close>

definition own_marker_landing :: "golib \<Rightarrow> screen \<Rightarrow> string \<Rightarrow> land_check \<Rightarrow> landing option" where
  "own_marker_landing lib sc text c =
     (case composerSegments sc of
        ([seg], _) \<Rightarrow>
          if parsePastedTextMarker seg = None then None
          else
            let keys = markerCounts lib (composerRuneMarker @ '' '' @ seg)
            in (case filter (\<lambda>k. count_list keys k = 1 \<and> markerLinesFit (pk_lines k) text \<and>
                       (lc_digest_verified c \<or> k = lc_own_marker c)) (remdups keys) of
                  [] \<Rightarrow> None
                | k # _ \<Rightarrow> Some ((landed landedByOwnMarker)\<lparr>ln_key := k, ln_at_count := 1\<rparr>))
      | _ \<Rightarrow> None)"

definition landedOn :: "golib \<Rightarrow> screen \<Rightarrow> string \<Rightarrow> string \<Rightarrow> bool \<Rightarrow> land_check \<Rightarrow> landing option" where
  "landedOn lib sc text needle allowSuffix c =
     (if composerRegionMatch sc text allowSuffix then Some (landed landedByRegion)
      else
        let (rows, scan) = composerRegion sc
        in if lc_strict c then
             (if (case scan of composerFound _ _ \<Rightarrow> lc_own_marker_ok c \<or> lc_digest_verified c | _ \<Rightarrow> False)
              then own_marker_landing lib sc text c else None)
           else if (case scan of composerFound _ _ \<Rightarrow> str_contains (join [CHR 0x0A] rows) needle | _ \<Rightarrow> False)
           then Some (landed landedByNeedle)
           else if scan = composerClipped \<and> segmentsMatchText (filter (\<lambda>seg. seg \<noteq> []) (map collapseSpace rows)) text True
           then Some (landed landedByClippedTail)
           else
             let keys = composerMarkers lib sc
             in (case gained (lc_before c) keys of
                   Some k \<Rightarrow> Some ((landed landedByMarker)\<lparr>ln_key := k, ln_at_count := count_list keys k\<rparr>)
                 | None \<Rightarrow> None))"

section \<open>A match is exact\<close>

definition seg_ok :: "string \<Rightarrow> bool" where
  "seg_ok s = (s \<noteq> [] \<and> hd s \<noteq> CHR '' '')"

text \<open>Segments joined again, each after its gap.\<close>

definition weave :: "string list \<Rightarrow> string list \<Rightarrow> string" where
  "weave gaps segs = concat (map2 (@) gaps segs)"

definition gaps_ok :: "string list \<Rightarrow> string list \<Rightarrow> bool" where
  "gaps_ok gaps segs = (length gaps = length segs \<and> list_all (\<lambda>g. g = [] \<or> g = '' '') gaps)"

lemma weave_Cons [simp]: "weave (g # gs) (s # ss) = g @ s @ weave gs ss"
  by (simp add: weave_def)

lemma gaps_ok_Cons: "gaps_ok gaps (s # ss) \<longleftrightarrow> (\<exists>g gs. gaps = g # gs \<and> (g = [] \<or> g = '' '') \<and> gaps_ok gs ss)"
  by (cases gaps) (auto simp: gaps_ok_def)

lemma match_rest_iff:
  "list_all seg_ok segs \<Longrightarrow> match_rest segs t \<longleftrightarrow> (\<exists>gaps. gaps_ok gaps segs \<and> t = weave gaps segs)"
proof (induction segs arbitrary: t)
  case Nil
  then show ?case by (auto simp: gaps_ok_def weave_def)
next
  case (Cons s ss)
  then have s: "s \<noteq> []" "hd s \<noteq> CHR '' ''" and IH: "\<And>t. match_rest ss t \<longleftrightarrow> (\<exists>gaps. gaps_ok gaps ss \<and> t = weave gaps ss)"
    by (auto simp: seg_ok_def)
  have direct: "\<not> (has_prefix t '' '' \<and> has_prefix t s)"
    using s by (cases s; cases t) (auto simp: has_prefix_def)
  show ?case (is "?l \<longleftrightarrow> ?r")
  proof
    assume l: ?l
    let ?t = "if has_prefix t '' '' \<and> has_prefix (drop 1 t) s then drop 1 t else t"
    have m: "has_prefix ?t s" "match_rest ss (drop (length s) ?t)" using l by (auto simp: Let_def split: if_splits)
    then obtain gaps where g: "gaps_ok gaps ss" "drop (length s) ?t = weave gaps ss" using IH by blast
    from m(1) obtain u where "?t = s @ u" unfolding has_prefix_iff by blast
    with g(2) have t: "?t = s @ weave gaps ss" by simp
    show ?r
    proof (cases "has_prefix t '' '' \<and> has_prefix (drop 1 t) s")
      case True
      then have "t = '' '' @ ?t" by (cases t) (auto simp: has_prefix_def)
      with t g(1) show ?thesis by (intro exI [of _ "'' '' # gaps"]) (auto simp: gaps_ok_def)
    next
      case False
      with t g(1) show ?thesis by (intro exI [of _ "[] # gaps"]) (auto simp: gaps_ok_def)
    qed
  next
    assume ?r
    then obtain gaps where gaps: "gaps_ok gaps (s # ss)" "t = weave gaps (s # ss)" by blast
    then obtain g gs where "gaps = g # gs" and g: "g = [] \<or> g = '' ''" "gaps_ok gs ss"
      by (auto simp: gaps_ok_Cons)
    with gaps have g: "g = [] \<or> g = '' ''" "gaps_ok gs ss" "t = g @ s @ weave gs ss" by simp_all
    have "match_rest ss (weave gs ss)" using IH g(2) by blast
    then show ?l using g(1,3) direct by (auto simp: has_prefix_append Let_def has_prefix_def)
  qed
qed

lemma matchSegmentsFrom_iff:
  assumes "list_all seg_ok segs" and "segs \<noteq> []"
  shows "matchSegmentsFrom segs t 0 \<longleftrightarrow> (\<exists>gaps. gaps_ok gaps (tl segs) \<and> t = hd segs @ weave gaps (tl segs))"
proof -
  obtain s ss where s: "segs = s # ss" using assms(2) by (cases segs) auto
  have "has_prefix t s \<and> match_rest ss (drop (length s) t) \<longleftrightarrow> (\<exists>gaps. gaps_ok gaps ss \<and> t = s @ weave gaps ss)"
    using match_rest_iff [of ss] assms(1) s by (auto simp: has_prefix_iff)
  then show ?thesis by (cases "has_prefix t s") (simp_all add: matchSegmentsFrom_def s)
qed

lemma encode_rune_starts: "r \<noteq> 0x20 \<Longrightarrow> encode_rune r \<noteq> [] \<and> hd (encode_rune r) \<noteq> CHR '' ''"
proof -
  have c: "(char_of (x :: int) = CHR '' '') \<longleftrightarrow> x mod 256 = 32" for x
  proof
    assume "char_of x = CHR '' ''"
    then have "of_char (char_of x) = (of_char CHR '' '' :: int)" by (rule arg_cong)
    then show "x mod 256 = 32" by simp
  next
    assume "x mod 256 = 32"
    then have "(of_char (char_of x) :: int) = of_char CHR '' ''" by simp
    then show "char_of x = CHR '' ''" by (rule of_char_eqI)
  qed
  show "r \<noteq> 0x20 \<Longrightarrow> ?thesis"
    by (auto simp: encode_rune_def Let_def RuneError_def in_range_def c)
qed

lemma collapse_starts: "collapse_runes space False rs = r # rs' \<Longrightarrow> \<not> is_space r"
  by (induction rs arbitrary: space) (auto split: if_splits)

lemma collapse_seg_ok: "collapseSpace s \<noteq> [] \<Longrightarrow> seg_ok (collapseSpace s)"
proof -
  assume ne: "collapseSpace s \<noteq> []"
  then obtain r rs where c: "collapse_runes False False (runes (composeNFCLite s)) = r # rs"
    by (cases "collapse_runes False False (runes (composeNFCLite s))") (auto simp: collapseSpace_def of_runes_def)
  then have "r \<noteq> 0x20" using collapse_starts by (auto simp: is_space_def)
  with encode_rune_starts [of r] c show ?thesis
    by (auto simp: seg_ok_def collapseSpace_def of_runes_def)
qed

lemma composerSegments_ok: "list_all seg_ok (fst (composerSegments s))"
  by (auto simp: composerSegments_def list_all_iff intro!: collapse_seg_ok split: composer_span.split)

text \<open>
  C20: The exact comparison of a composer with a text (no suffix allowed) holds exactly when the composer
  shows rows and these, joined with or without a blank at every wrap, are the text with its white
  space collapsed. No other text passes it, and a text passes wherever the runtime has wrapped it.
  (A delivery may land in other ways as well: by its tail, by a marker, by its last line, by a digest.)
\<close>

theorem composer_match_is_exact:
  "segmentsMatchText (fst (composerSegments s)) text False \<longleftrightarrow>
     fst (composerSegments s) \<noteq> [] \<and>
     (\<exists>gaps. gaps_ok gaps (tl (fst (composerSegments s))) \<and>
        collapseSpace text = hd (fst (composerSegments s)) @ weave gaps (tl (fst (composerSegments s))))"
proof (cases "fst (composerSegments s)")
  case (Cons x xs)
  have ok: "list_all seg_ok (x # xs)" using composerSegments_ok [of s] Cons by simp
  then have "x \<noteq> []" by (simp add: seg_ok_def)
  then show ?thesis
    using matchSegmentsFrom_iff [OF ok] Cons by (auto simp: segmentsMatchText_def Let_def)
qed (simp add: segmentsMatchText_def)

section \<open>A paste cannot end itself\<close>

text \<open>
  C21: Whatever a caller sends, what is pasted is read, rune by rune, as the text without its control
  characters: newlines, tabs, and all else from the blank on stay, in order, but DEL and the C1 range.
  So no escape, no carriage return and no one-rune form of CSI (U+009B) is in it: a text cannot close the
  bracketed paste it travels in, nor press a key of its own.
\<close>

theorem pasted_text_has_no_controls:
  "runes (sanitizeForBracketedPaste text) =
     filter (\<lambda>r. r = 0x0A \<or> r = 0x09 \<or> 0x20 \<le> r \<and> r < 0x7F \<or> 0xA0 \<le> r) (runes text)"
proof -
  have "(\<not> control_rune r) = (r = 0x0A \<or> r = 0x09 \<or> 0x20 \<le> r \<and> r < 0x7F \<or> 0xA0 \<le> r)" for r
    by (auto simp: control_rune_def in_range_def)
  then have kept: "filter (\<lambda>r. \<not> control_rune r) rs = filter (\<lambda>r. r = 0x0A \<or> r = 0x09 \<or> 0x20 \<le> r \<and> r < 0x7F \<or> 0xA0 \<le> r) rs" for rs
    by simp
  show ?thesis
  proof (cases "list_ex control_rune (runes text)")
    case False
    then show ?thesis unfolding kept [symmetric]
      by (simp add: sanitizeForBracketedPaste_def list_ex_iff filter_id_conv)
  next
    case True
    have "list_all code_point (filter (\<lambda>r. \<not> control_rune r) (runes text))"
      using runes_code_points unfolding list_all_iff by auto
    with True show ?thesis unfolding kept [symmetric] by (simp add: sanitizeForBracketedPaste_def runes_of_runes)
  qed
qed

end
