(* ===== verification/Transcript.thy ===== *)
theory Transcript
  imports DraftText
begin

text \<open>
  What a runtime's own transcript says of a delivery (\<open>terminalpath2_transcript.go\<close> of
  \<open>internal/drivers/tmux\<close>): the entries of its lines that are messages or commands a person or this
  driver sent, whether one of them is the text that was sent, and the scan of the lines written since.
  A transcript is one JSON object per line; decoding a line is a parameter, its result a map.
\<close>

section \<open>Decoded lines\<close>

datatype json = JNull | JBool bool | JNumber int | JString string | JArray "json list" | JObject "(string \<times> json) list"

type_synonym json_map = "(string \<times> json) list"

definition truthy :: "json option \<Rightarrow> bool" where
  "truthy v = (v = Some (JBool True))"

text \<open>\<open>s, _ := v.(string)\<close>: the empty string when it is none.\<close>

definition json_string :: "json option \<Rightarrow> string" where
  "json_string v = (case v of Some (JString s) \<Rightarrow> s | _ \<Rightarrow> [])"

definition field :: "json_map \<Rightarrow> string \<Rightarrow> json option" where
  "field obj k = map_of obj k"

definition between :: "string \<Rightarrow> string \<Rightarrow> string \<Rightarrow> string" where
  "between s opn shut =
     (case str_index s opn of
        None \<Rightarrow> []
      | Some i \<Rightarrow>
          let s = drop (i + length opn) s
          in case str_index s shut of Some j \<Rightarrow> take j s | None \<Rightarrow> [])"

definition commandLine :: "string \<Rightarrow> string" where
  "commandLine entry =
     (let name = TrimSpace (between entry ''<command-name>'' ''</command-name>'');
          args = TrimSpace (between entry ''<command-args>'' ''</command-args>'')
      in if args = [] then name else name @ '' '' @ args)"

definition localCommandLine :: "json_map \<Rightarrow> string option" where
  "localCommandLine obj =
     (case field obj ''commandRun'' of
        Some (JObject run) \<Rightarrow>
          let name = trim_prefix (TrimSpace (json_string (field run ''command''))) ''/'';
              args = TrimSpace (json_string (field run ''args''))
          in if name = [] then None
             else Some (''/'' @ name @ (if args \<noteq> [] then '' '' @ args else []))
      | _ \<Rightarrow>
          let content = TrimSpace (json_string (field obj ''content''))
          in if \<not> has_prefix content ''<command-name>'' then None
             else if has_prefix (commandLine content) ''/'' then Some (commandLine content) else None)"

text \<open>The text of a message: a string, or the text blocks of a list.\<close>

definition block_text :: "json \<Rightarrow> string" where
  "block_text b =
     (case b of
        JObject block \<Rightarrow>
          let bt = json_string (field block ''type'')
          in if bt \<noteq> [] \<and> bt \<noteq> ''text'' then [] else json_string (field block ''text'')
      | _ \<Rightarrow> [])"

definition message_text :: "json_map \<Rightarrow> string option" where
  "message_text obj =
     (case field obj ''message'' of
        Some (JObject msg) \<Rightarrow>
          let role = json_string (field msg ''role'')
          in if role \<noteq> [] \<and> role \<noteq> ''user'' then None
             else Some (case field msg ''content'' of
                 Some (JString s) \<Rightarrow> s | Some (JArray bs) \<Rightarrow> concat (map block_text bs) | _ \<Rightarrow> [])
      | _ \<Rightarrow> Some [])"

definition foreign_origin :: "json_map \<Rightarrow> bool" where
  "foreign_origin obj =
     (case field obj ''origin'' of
        Some (JObject origin) \<Rightarrow>
          let k = json_string (field origin ''kind'') in k \<noteq> [] \<and> k \<noteq> ''human''
      | _ \<Rightarrow> False)"

definition promptSources :: "string list" where
  "promptSources = [[], ''typed'', ''queued'']"

record candidate =
  ca_kind :: string
  ca_text :: string
  ca_source :: string

definition user_candidate :: "json_map \<Rightarrow> candidate option" where
  "user_candidate obj =
     (let source = json_string (field obj ''promptSource'')
      in if foreign_origin obj \<or> source \<notin> set promptSources then None
         else case message_text obj of
             None \<Rightarrow> None
           | Some text \<Rightarrow>
               if text = [] then None
               else let trimmed = TrimSpace text
                 in if has_prefix trimmed ''<command-name>''
                    then Some \<lparr>ca_kind = ''command'', ca_text = commandLine trimmed, ca_source = source\<rparr>
                    else if has_prefix trimmed ''<local-command-'' \<or> has_prefix trimmed ''<bash-'' then None
                    else Some \<lparr>ca_kind = ''user'', ca_text = text, ca_source = source\<rparr>)"

definition enqueue_candidate :: "json_map \<Rightarrow> candidate option" where
  "enqueue_candidate obj =
     (let text = json_string (field obj ''content'');
          text = (if text = [] then json_string (field obj ''text'') else text)
      in if text = [] then None else Some \<lparr>ca_kind = ''queue-operation'', ca_text = text, ca_source = []\<rparr>)"

definition extractTranscriptCandidate :: "json_map \<Rightarrow> candidate option" where
  "extractTranscriptCandidate obj =
     (let t = json_string (field obj ''type'')
      in if truthy (field obj ''isMeta'') \<or> truthy (field obj ''isCompactSummary'') \<or> truthy (field obj ''isSidechain'') then None
         else if t = ''system'' then
           (if json_string (field obj ''subtype'') = ''local_command''
            then map_option (\<lambda>line. \<lparr>ca_kind = ''command'', ca_text = line, ca_source = []\<rparr>) (localCommandLine obj)
            else None)
         else if t = ''user'' then user_candidate obj
         else if t = ''queue-operation'' \<and> json_string (field obj ''operation'') = ''enqueue'' then enqueue_candidate obj
         else None)"

section \<open>Whether an entry is the text sent\<close>

text \<open>Tags the runtime wraps around pasted text; a matcher gives the length of a match at the start.\<close>

definition tag_id :: "string \<Rightarrow> nat option" where
  "tag_id s =
     (let blanks = length (takeWhile (\<lambda>c. c \<in> {CHR '' '', CHR 0x09, CHR 0x0A, CHR 0x0C, CHR 0x0D}) s);
          rest = drop blanks s;
          value = takeWhile (\<lambda>c. c \<noteq> CHR 0x22) (drop 4 rest)
      in if blanks = 0 \<or> \<not> has_prefix rest (''id='' @ [CHR 0x22]) \<or> length (drop 4 rest) = length value then None
         else Some (blanks + 4 + length value + 1))"

definition open_tag :: "string \<Rightarrow> nat option" where
  "open_tag s =
     (if \<not> has_prefix s ''<pasted_content'' then None
      else case tag_id (drop 15 s) of
          None \<Rightarrow> None
        | Some n \<Rightarrow> if has_prefix (drop (15 + n) s) ''>'' then Some (15 + n + 1) else None)"

definition close_tag :: "string \<Rightarrow> nat option" where
  "close_tag s =
     (if \<not> has_prefix s ''</pasted_content'' then None
      else let n = (case tag_id (drop 16 s) of None \<Rightarrow> 0 | Some n \<Rightarrow> n)
        in if has_prefix (drop (16 + n) s) ''>'' then Some (16 + n + 1) else None)"

fun remove_matches :: "(string \<Rightarrow> nat option) \<Rightarrow> string \<Rightarrow> string" where
  "remove_matches m [] = []"
| "remove_matches m (c # s) =
     (case m (c # s) of Some n \<Rightarrow> remove_matches m (drop (n - 1) s) | None \<Rightarrow> c # remove_matches m s)"

definition normalizeTranscriptText :: "string \<Rightarrow> string" where
  "normalizeTranscriptText s =
     (let s = remove_matches close_tag (remove_matches open_tag s);
          s = concat (map (\<lambda>c. if c = CHR 0x09 then ''    '' else [c]) s)
      in normalizeForMatch (trim_suffix s '' ''))"

definition transcriptTurnMatches :: "string \<Rightarrow> string \<Rightarrow> bool" where
  "transcriptTurnMatches recordedText sent =
     (if normalizeForMatch sent = [] then False
      else if normalizeTranscriptText recordedText = normalizeForMatch sent then True
      else case parsePastedTextMarker recordedText of
          Some lines \<Rightarrow> lines = int (newlines sent)
        | None \<Rightarrow> False)"

definition cut_blank :: "string \<Rightarrow> string \<times> string" where
  "cut_blank s = (takeWhile (\<lambda>c. c \<noteq> CHR '' '') s, drop 1 (dropWhile (\<lambda>c. c \<noteq> CHR '' '') s))"

definition commandMatches :: "string \<Rightarrow> string \<Rightarrow> bool" where
  "commandMatches recorded sent =
     (let sent = collapseSpace sent; recorded = collapseSpace recorded
      in if \<not> has_prefix sent ''/'' \<or> recorded = [] then False
         else let (sentName, sentArgs) = cut_blank sent; (recName, recArgs) = cut_blank recorded
           in if sentName \<noteq> recName then False else recArgs = [] \<or> recArgs = sentArgs)"

section \<open>The scan\<close>

datatype scan_result = ScanSilent | ScanMatched | ScanDifferentTurn

text \<open>
  The lines since the delivery, in order; a queued message is recorded when it is enqueued and again when
  its turn begins, and the second record of an enqueue seen here is what \<open>queueDepth\<close> allows.
\<close>

fun scan_lines :: "(string \<Rightarrow> json_map option) \<Rightarrow> string \<Rightarrow> string list \<Rightarrow> nat \<Rightarrow> bool \<Rightarrow> scan_result \<times> bool" where
  "scan_lines parse sent [] depth different = ((if different then ScanDifferentTurn else ScanSilent), False)"
| "scan_lines parse sent (line # lines) depth different =
     (case (if blank line then None else Option.bind (parse line) extractTranscriptCandidate) of
        None \<Rightarrow> scan_lines parse sent lines depth different
      | Some c \<Rightarrow>
          if ca_kind c = ''command'' then
            (if commandMatches (ca_text c) sent then (ScanMatched, False) else scan_lines parse sent lines depth different)
          else if ca_kind c = ''queue-operation'' then
            (if transcriptTurnMatches (ca_text c) sent then (ScanMatched, True)
             else scan_lines parse sent lines (Suc depth) different)
          else if ca_source c = ''queued'' \<and> depth = 0 then scan_lines parse sent lines depth different
          else if transcriptTurnMatches (ca_text c) sent then (ScanMatched, False)
          else scan_lines parse sent lines (if ca_source c = ''queued'' then depth - 1 else depth) True)"

text \<open>
  \<open>transcriptTailScanKind\<close>: the file may not open, and reading may fail after some lines. The last
  component is whether there was an error.
\<close>

type_synonym transcript_tail = "(string list \<times> bool) option"

definition transcriptTailScanKind :: "(string \<Rightarrow> json_map option) \<Rightarrow> transcript_tail \<Rightarrow> string \<Rightarrow> scan_result \<times> bool \<times> bool" where
  "transcriptTailScanKind parse file sent =
     (case file of
        None \<Rightarrow> (ScanSilent, False, True)
      | Some (lines, fails) \<Rightarrow>
          (case scan_lines parse sent lines 0 False of
             (ScanMatched, enqueued) \<Rightarrow> (ScanMatched, enqueued, False)
           | (r, _) \<Rightarrow> if fails then (ScanSilent, False, True) else (r, False, False)))"

definition transcriptTailScan :: "(string \<Rightarrow> json_map option) \<Rightarrow> transcript_tail \<Rightarrow> string \<Rightarrow> scan_result \<times> bool" where
  "transcriptTailScan parse file sent = (case transcriptTailScanKind parse file sent of (r, _, err) \<Rightarrow> (r, err))"

definition transcriptUserTurnSince :: "(string \<Rightarrow> json_map option) \<Rightarrow> transcript_tail \<Rightarrow> string \<Rightarrow> bool" where
  "transcriptUserTurnSince parse file sent =
     (case file of
        None \<Rightarrow> False
      | Some (lines, _) \<Rightarrow>
          list_ex (\<lambda>line. case (if blank line then None else Option.bind (parse line) extractTranscriptCandidate) of
              None \<Rightarrow> False
            | Some c \<Rightarrow> ca_kind c = ''user'' \<and> transcriptTurnMatches (ca_text c) sent) lines)"

section \<open>An inbox message in a transcript\<close>

text \<open>
  \<open>inbox_confirm.go\<close>: a message written to a session's inbox is recorded by its receiver with the
  envelope it was written in, or as a peer's message with its body.
\<close>

record inbox_probe =
  ip_envelope_digest :: string
  ip_body_digest :: string

definition digestHex :: "golib \<Rightarrow> string \<Rightarrow> string" where
  "digestHex lib s = lib_sha256_hex lib s"

definition newInboxProbe :: "golib \<Rightarrow> string \<Rightarrow> string \<Rightarrow> inbox_probe" where
  "newInboxProbe lib envelope body =
     \<lparr>ip_envelope_digest = digestHex lib envelope, ip_body_digest = digestHex lib (normalizeForMatch body)\<rparr>"

definition inboxEnvelopeOpen :: string where "inboxEnvelopeOpen = ''<cross-session-message''"
definition inboxEnvelopeClose :: string where "inboxEnvelopeClose = ''</cross-session-message>''"

text \<open>\<open>walkStrings\<close>: every string inside a value.\<close>

fun json_strings :: "json \<Rightarrow> string list" where
  "json_strings (JString s) = [s]"
| "json_strings (JArray vs) = concat (map json_strings vs)"
| "json_strings (JObject kvs) = concat (map (\<lambda>(k, v). json_strings v) kvs)"
| "json_strings _ = []"

function envelopes :: "string \<Rightarrow> string list" where
  "envelopes s =
     (case str_index s inboxEnvelopeOpen of
        None \<Rightarrow> []
      | Some i \<Rightarrow>
          (case str_index (drop i s) inboxEnvelopeClose of
             None \<Rightarrow> []
           | Some j \<Rightarrow> take (j + length inboxEnvelopeClose) (drop i s) # envelopes (drop (i + length inboxEnvelopeOpen) s)))"
  by pat_completeness auto

termination
  by (relation "measure length") (auto dest!: str_index_SomeD simp: inboxEnvelopeOpen_def)

declare envelopes.simps [simp del]

definition entryHoldsEnvelope :: "golib \<Rightarrow> json_map \<Rightarrow> string \<Rightarrow> bool" where
  "entryHoldsEnvelope lib obj want =
     list_ex (\<lambda>s. list_ex (\<lambda>e. digestHex lib e = want) (envelopes s)) (json_strings (JObject obj))"

definition block_texts :: "json \<Rightarrow> string list" where
  "block_texts b =
     (case b of
        JObject m \<Rightarrow> (case field m ''text'' of Some (JString s) \<Rightarrow> [s] | _ \<Rightarrow> [])
      | _ \<Rightarrow> [])"

definition messageText :: "json_map \<Rightarrow> string" where
  "messageText obj =
     (case field obj ''message'' of
        Some (JObject msg) \<Rightarrow>
          (case field msg ''content'' of
             Some (JString s) \<Rightarrow> s
           | Some (JArray bs) \<Rightarrow> join [CHR 0x0A] (concat (map block_texts bs))
           | _ \<Rightarrow> [])
      | _ \<Rightarrow> [])"

definition entryIsPeerBody :: "golib \<Rightarrow> json_map \<Rightarrow> string \<Rightarrow> bool" where
  "entryIsPeerBody lib obj wantDigest =
     (if json_string (field obj ''type'') \<noteq> ''user'' then False
      else case field obj ''origin'' of
          Some (JObject origin) \<Rightarrow>
            (let kind = json_string (field origin ''kind''); text = messageText obj
             in if kind = [] \<or> kind = ''human'' \<or> text = [] then False
                else digestHex lib (normalizeForMatch text) = wantDigest)
        | _ \<Rightarrow> False)"

datatype inbox_scan = inboxScanSilent | inboxScanByEnvelope | inboxScanByOriginBody

definition inbox_entry :: "golib \<Rightarrow> inbox_probe \<Rightarrow> json_map \<Rightarrow> inbox_scan" where
  "inbox_entry lib p obj =
     (if truthy (field obj ''isCompactSummary'') \<or> truthy (field obj ''isSidechain'') then inboxScanSilent
      else if ip_envelope_digest p \<noteq> [] \<and> entryHoldsEnvelope lib obj (ip_envelope_digest p) then inboxScanByEnvelope
      else if truthy (field obj ''isMeta'') then inboxScanSilent
      else if ip_body_digest p \<noteq> [] \<and> entryIsPeerBody lib obj (ip_body_digest p) then inboxScanByOriginBody
      else inboxScanSilent)"

fun inbox_lines :: "golib \<Rightarrow> (string \<Rightarrow> json_map option) \<Rightarrow> inbox_probe \<Rightarrow> string list \<Rightarrow> inbox_scan" where
  "inbox_lines lib parse p [] = inboxScanSilent"
| "inbox_lines lib parse p (line # lines) =
     (case (if blank line then None else parse line) of
        None \<Rightarrow> inbox_lines lib parse p lines
      | Some obj \<Rightarrow> if inbox_entry lib p obj \<noteq> inboxScanSilent then inbox_entry lib p obj else inbox_lines lib parse p lines)"

definition inboxTailScan :: "golib \<Rightarrow> (string \<Rightarrow> json_map option) \<Rightarrow> transcript_tail \<Rightarrow> inbox_probe \<Rightarrow> inbox_scan \<times> bool" where
  "inboxTailScan lib parse file p =
     (case file of
        None \<Rightarrow> (inboxScanSilent, True)
      | Some (lines, fails) \<Rightarrow>
          (let r = inbox_lines lib parse p lines in (r, r = inboxScanSilent \<and> fails)))"

section \<open>What confirms a delivery\<close>

definition entry_of :: "(string \<Rightarrow> json_map option) \<Rightarrow> string \<Rightarrow> candidate option" where
  "entry_of parse line = (if blank line then None else Option.bind (parse line) extractTranscriptCandidate)"

definition enqueues :: "(string \<Rightarrow> json_map option) \<Rightarrow> string list \<Rightarrow> nat" where
  "enqueues parse lines = length (filter (\<lambda>l. map_option ca_kind (entry_of parse l) = Some ''queue-operation'') lines)"

text \<open>
  An entry that shows the text was taken; a replay of the queue only after that many enqueues. A command is
  its first word and what follows it; an entry that records no arguments stands for any. A text is
  the same when it is, white space, composing form and the runtime's own tags apart; and a marker of
  collapsed text stands for any text of as many lines.
\<close>

definition command_line :: "string \<Rightarrow> string \<Rightarrow> string \<Rightarrow> bool" where
  "command_line line name args \<longleftrightarrow> CHR '' '' \<notin> set name \<and> (line = name \<and> args = [] \<or> line = name @ '' '' @ args)"

definition same_command :: "string \<Rightarrow> string \<Rightarrow> bool" where
  "same_command recorded sent \<longleftrightarrow>
     (\<exists>name args args'. command_line (collapseSpace sent) (CHR ''/'' # name) args \<and>
        command_line (collapseSpace recorded) (CHR ''/'' # name) args' \<and> (args' = [] \<or> args' = args))"

definition same_text :: "string \<Rightarrow> string \<Rightarrow> bool" where
  "same_text recorded sent \<longleftrightarrow> normalizeForMatch sent \<noteq> [] \<and>
     (normalizeTranscriptText recorded = normalizeForMatch sent \<or>
      parsePastedTextMarker recorded = Some (int (newlines sent)))"

definition attests :: "candidate \<Rightarrow> string \<Rightarrow> bool \<Rightarrow> nat \<Rightarrow> bool" where
  "attests c sent via queued =
     (if ca_kind c = ''command'' then same_command (ca_text c) sent \<and> \<not> via
      else same_text (ca_text c) sent \<and> via = (ca_kind c = ''queue-operation'') \<and>
        (via \<or> ca_source c \<noteq> ''queued'' \<or> 0 < queued))"

lemma turn_matches: "transcriptTurnMatches recorded sent \<longleftrightarrow> same_text recorded sent"
  by (auto simp: transcriptTurnMatches_def same_text_def split: option.split)

lemma cut_blank_line: "command_line line (fst (cut_blank line)) (snd (cut_blank line))"
proof (cases "CHR '' '' \<in> set line")
  case True
  then obtain p q where "line = p @ CHR '' '' # q" "CHR '' '' \<notin> set p" by (meson split_list_first)
  then show ?thesis by (simp add: command_line_def cut_blank_def cut_at_char)
next
  case False
  then have "takeWhile (\<lambda>c. c \<noteq> CHR '' '') line = line" "dropWhile (\<lambda>c. c \<noteq> CHR '' '') line = []"
    by (auto simp: takeWhile_eq_all_conv dropWhile_eq_Nil_conv)
  then show ?thesis using False by (simp only: command_line_def cut_blank_def fst_conv snd_conv drop_Nil simp_thms)
qed

lemma command_matches:
  assumes "commandMatches recorded sent"
  shows "same_command recorded sent"
proof -
  let ?s = "cut_blank (collapseSpace sent)" and ?r = "cut_blank (collapseSpace recorded)"
  have m: "has_prefix (collapseSpace sent) ''/''" "fst ?s = fst ?r" "snd ?r = [] \<or> snd ?r = snd ?s"
    using assms by (auto simp: commandMatches_def Let_def split: prod.splits if_splits)
  from m(1) obtain rest where "collapseSpace sent = CHR ''/'' # rest" by (auto simp: has_prefix_iff)
  then obtain name where "fst ?s = CHR ''/'' # name" by (simp add: cut_blank_def)
  then show ?thesis
    using m(2,3) cut_blank_line [of "collapseSpace sent"] cut_blank_line [of "collapseSpace recorded"]
    unfolding same_command_def by metis
qed

lemma attests_mono: "attests c sent via n \<Longrightarrow> n \<le> m \<Longrightarrow> attests c sent via m"
  by (auto simp: attests_def split: if_splits)

lemma scan_lines_matched:
  "scan_lines parse sent lines depth different = (ScanMatched, via) \<Longrightarrow>
     \<exists>pre line post c. lines = pre @ line # post \<and> entry_of parse line = Some c \<and> attests c sent via (depth + enqueues parse pre)"
proof (induction lines arbitrary: depth different)
  case (Cons line lines)
  note scan = Cons.prems
  have later: ?case if "scan_lines parse sent lines d' f' = (ScanMatched, via)" "d' \<le> depth + enqueues parse [line]" for d' f'
  proof -
    from Cons.IH [OF that(1)] obtain pre l post c where w: "lines = pre @ l # post" "entry_of parse l = Some c"
      "attests c sent via (d' + enqueues parse pre)" by blast
    have "d' + enqueues parse pre \<le> depth + enqueues parse (line # pre)"
      using that(2) by (auto simp: enqueues_def split: if_splits)
    with w attests_mono show ?thesis by (metis append_Cons)
  qed
  have now: ?case if "entry_of parse line = Some c" "attests c sent via depth" for c
    using that by (intro exI [of _ "[]"] exI [of _ line] exI [of _ lines] exI [of _ c]) (simp add: enqueues_def)
  show ?case
  proof (cases "entry_of parse line")
    case None
    then show ?thesis using scan later [of depth different] by (simp add: entry_of_def)
  next
    case (Some c)
    then have e: "(if blank line then None else Option.bind (parse line) extractTranscriptCandidate) = Some c"
      by (simp add: entry_of_def)
    consider (command) "ca_kind c = ''command''" | (enqueue) "ca_kind c = ''queue-operation''"
      | (turn) "ca_kind c \<noteq> ''command''" "ca_kind c \<noteq> ''queue-operation''" by blast
    then show ?thesis
    proof cases
      case command
      show ?thesis
      proof (cases "commandMatches (ca_text c) sent")
        case True
        then have "attests c sent via depth" using scan e command command_matches by (simp add: attests_def)
        then show ?thesis by (rule now [OF Some])
      next
        case False
        then show ?thesis using scan e command later [of depth different] by simp
      qed
    next
      case enqueue
      have n: "enqueues parse [line] = 1" using Some enqueue by (simp add: enqueues_def)
      show ?thesis
      proof (cases "transcriptTurnMatches (ca_text c) sent")
        case True
        then have "attests c sent via depth" using scan e enqueue turn_matches by (auto simp: attests_def)
        then show ?thesis by (rule now [OF Some])
      next
        case False
        then show ?thesis using scan e enqueue n later [of "Suc depth" different] by simp
      qed
    next
      case turn
      show ?thesis
      proof (cases "ca_source c = ''queued'' \<and> depth = 0")
        case True
        then show ?thesis using scan e turn later [of depth different] by simp
      next
        case no: False
        show ?thesis
        proof (cases "transcriptTurnMatches (ca_text c) sent")
          case True
          then have "attests c sent via depth" using scan e turn no turn_matches by (auto simp: attests_def)
        then show ?thesis by (rule now [OF Some])
        next
          case False
          then show ?thesis using scan e turn no later [of "if ca_source c = ''queued'' then depth - 1 else depth" True]
            by (auto split: if_splits)
        qed
      qed
    qed
  qed
qed (simp split: if_splits)

text \<open>
  C22: A transcript confirms a delivery only by an entry written since: a command with the name that was sent
  and with its arguments or none, or a message of a person's or of the queue that is the text sent,
  white space, composing form and the runtime's own tags apart, or that is nothing but a marker of
  collapsed text with as many lines as the text has newlines (any text of as many lines would do). A
  turn replayed from the queue counts only after an enqueue was seen, and no error met the reading.
\<close>

theorem transcript_confirms_only_the_text:
  assumes "transcriptTailScanKind parse file sent = (ScanMatched, via, err)"
  shows "\<not> err \<and> (\<exists>pre line post fails c. file = Some (pre @ line # post, fails) \<and> entry_of parse line = Some c \<and>
    attests c sent via (enqueues parse pre))"
proof -
  obtain lines fails where f: "file = Some (lines, fails)" "scan_lines parse sent lines 0 False = (ScanMatched, via)" "\<not> err"
    using assms by (auto simp: transcriptTailScanKind_def split: option.splits prod.splits scan_result.splits if_splits)
  from scan_lines_matched [OF f(2)] f show ?thesis by auto
qed

definition demo_parse :: "string \<Rightarrow> json_map option" where
  "demo_parse line =
     (if line = ''q'' then Some [(''type'', JString ''queue-operation''), (''operation'', JString ''enqueue''), (''content'', JString ''b'')]
      else if line = ''u'' then Some [(''type'', JString ''user''), (''promptSource'', JString ''queued''),
        (''message'', JObject [(''role'', JString ''user''), (''content'', JString ''a'')])]
      else None)"

lemma demo_matches: "transcriptTurnMatches ''a'' ''a''" "\<not> transcriptTurnMatches ''b'' ''a''"
  by code_simp+

lemma demo_entries:
  "entry_of demo_parse ''u'' = Some \<lparr>ca_kind = ''user'', ca_text = ''a'', ca_source = ''queued''\<rparr>"
  "entry_of demo_parse ''q'' = Some \<lparr>ca_kind = ''queue-operation'', ca_text = ''b'', ca_source = []\<rparr>"
  by code_simp+

lemma transcript_confirms_only_the_text_witness:
  "\<exists>c. entry_of demo_parse ''u'' = Some c \<and> attests c ''a'' False 1"
proof -
  have "transcriptTailScanKind demo_parse (Some ([''u'', ''q'', ''u''], False)) ''a'' = (ScanMatched, False, False)"
    using demo_entries demo_matches by (simp add: transcriptTailScanKind_def entry_of_def)
  from transcript_confirms_only_the_text [OF this] obtain pre line post c where
    w: "[''u'', ''q'', ''u''] = pre @ line # post" "entry_of demo_parse line = Some c" "attests c ''a'' False (enqueues demo_parse pre)"
    by auto
  have "enqueues demo_parse pre \<le> enqueues demo_parse [''u'', ''q'', ''u'']"
    unfolding w(1) by (simp add: enqueues_def)
  also have "\<dots> = 1" using demo_entries by (simp add: enqueues_def)
  finally have "attests c ''a'' False 1" using w(3) attests_mono by blast
  moreover have "line = ''u'' \<or> line = ''q''" using w(1) by (auto simp: Cons_eq_append_conv)
  moreover have "line \<noteq> ''q''" using w(2) demo_entries(2) \<open>attests c ''a'' False 1\<close> by (auto simp: attests_def)
  ultimately show ?thesis using w(2) by auto
qed

end
