(* ===== verification/PreviewPane.thy ===== *)
theory PreviewPane
  imports Screen Fleet
begin

text \<open>
  The parts of a dialog beside its options (\<open>internal/drivers/tmux/previewpane.go\<close>): the bordered
  preview pane, the tab bar with its highlighted tab, and the single-question chip.
\<close>

section \<open>The pane\<close>

definition minPaneBorder :: nat where "minPaneBorder = 4"
definition maxPaneRows :: nat where "maxPaneRows = 40"
definition paneFooterSlack :: nat where "paneFooterSlack = 14"
definition previewHeaderRows :: nat where "previewHeaderRows = 10"

definition isPaneLeftEdge :: "rune \<Rightarrow> bool" where
  "isPaneLeftEdge r = (r = 0x250C \<or> r = 0x2502 \<or> r = 0x251C \<or> r = 0x2514)"

definition isPaneRightEdge :: "rune \<Rightarrow> bool" where
  "isPaneRightEdge r = (r = 0x2510 \<or> r = 0x2502 \<or> r = 0x2524 \<or> r = 0x2518)"

definition paneFragment :: "rune list \<Rightarrow> bool" where
  "paneFragment cells =
     (if length cells < 2 then False
      else let l = hd cells; r = last cells; inner = butlast (tl cells)
           in if l = 0x250C \<and> r = 0x2510 \<or> l = 0x2514 \<and> r = 0x2518
              then minPaneBorder \<le> length inner \<and> list_all (\<lambda>c. c = ruleRune) inner
              else l = 0x2502 \<and> r = 0x2502 \<or> l = 0x251C \<and> r = 0x2524)"

text \<open>The prefix and the fragment are returned as runes, which is how every caller counts them.\<close>

definition splitPaneRow :: "string \<Rightarrow> (rune list \<times> rune list) option" where
  "splitPaneRow line =
     (let rs = runes (trailing line)
      in if rs = [] then None
         else if \<not> isPaneRightEdge (last rs) then None
         else map_option (\<lambda>i. (take i rs, drop i rs))
           (find (\<lambda>i. isPaneLeftEdge (rs ! i) \<and> 2 \<le> i \<and> rs ! (i - 1) = 0x20 \<and> rs ! (i - 2) = 0x20 \<and>
                    paneFragment (drop i rs)) [0 ..< length rs]))"

definition optionBeside :: "string list \<Rightarrow> nat \<Rightarrow> nat \<Rightarrow> bool" where
  "optionBeside lines t b =
     list_ex (\<lambda>i. case splitPaneRow (lines ! i) of
                None \<Rightarrow> False
              | Some (pre, _) \<Rightarrow> numberedOption (after_prompt (of_runes pre)) \<noteq> None) [t ..< Suc b]"

text \<open>The walk from the bottom border upwards; the last argument is one more than the row looked at.\<close>

fun pane_top :: "string list \<Rightarrow> nat \<Rightarrow> nat \<Rightarrow> nat \<Rightarrow> nat option" where
  "pane_top lines b width 0 = None"
| "pane_top lines b width (Suc t) =
     (if t + maxPaneRows < b then None
      else case splitPaneRow (lines ! t) of
          None \<Rightarrow> None
        | Some (_, f) \<Rightarrow>
            if hd f = 0x250C then
              (if length f \<noteq> width \<or> \<not> optionBeside lines t b then None else Some t)
            else if hd f \<noteq> 0x2502 \<and> hd f \<noteq> 0x251C then None
            else pane_top lines b width t)"

definition pane_at :: "string list \<Rightarrow> nat \<Rightarrow> (nat \<times> nat) option" where
  "pane_at lines b =
     (case splitPaneRow (lines ! b) of
        None \<Rightarrow> None
      | Some (_, frag) \<Rightarrow>
          if hd frag \<noteq> 0x2514 then None
          else map_option (\<lambda>t. (t, b)) (pane_top lines b (length frag) b))"

fun first_some :: "('a \<Rightarrow> 'b option) \<Rightarrow> 'a list \<Rightarrow> 'b option" where
  "first_some f [] = None"
| "first_some f (x # xs) = (case f x of None \<Rightarrow> first_some f xs | Some y \<Rightarrow> Some y)"

definition findPreviewPane :: "string list \<Rightarrow> (nat \<times> nat) option" where
  "findPreviewPane lines =
     first_some (pane_at lines) (rev [length lines - paneFooterSlack ..< length lines])"

section \<open>Tab bars and chips\<close>

definition box_open :: string where "box_open = [CHR 0xE2, CHR 0x98, CHR 0x90]"
definition box_done :: string where "box_done = [CHR 0xE2, CHR 0x98, CHR 0x92]"
definition check_mark :: string where "check_mark = [CHR 0xE2, CHR 0x9C, CHR 0x94]"
definition arrow_left :: string where "arrow_left = [CHR 0xE2, CHR 0x86, CHR 0x90]"
definition arrow_right :: string where "arrow_right = [CHR 0xE2, CHR 0x86, CHR 0x92]"

definition submitTab :: string where
  "submitTab = check_mark @ '' Submit''"

definition isDialogTabBar :: "string \<Rightarrow> bool" where
  "isDialogTabBar line = (has_prefix line arrow_left \<and> has_suffix line arrow_right \<and> str_contains line submitTab)"

definition isDialogChip :: "string \<Rightarrow> bool" where
  "isDialogChip line =
     (let t = TrimSpace line
      in if \<not> has_prefix t (box_open @ '' '') \<and> \<not> has_prefix t (box_done @ '' '') then False
         else str_count box_open t + str_count box_done t = 1 \<and> \<not> contains_any t [arrow_left, arrow_right, check_mark])"

definition headerTabs :: "string \<Rightarrow> string list" where
  "headerTabs plain =
     (let t = TrimSpace plain;
          t = TrimSpace (trim_suffix (trim_prefix t arrow_left) arrow_right)
      in filter (\<lambda>tab. tab \<noteq> []) (map TrimSpace (split_str ''  '' t)))"

text \<open>\<open>sgrHighlightAfter\<close>: the state after one attribute sequence; \<open>38\<close> and \<open>48\<close> skip their colour.\<close>

function sgr_loop :: "string list \<Rightarrow> bool \<Rightarrow> bool" where
  "sgr_loop [] on = on"
| "sgr_loop (p # ps) on =
     (case parse_int64 p of
        None \<Rightarrow> sgr_loop ps on
      | Some n \<Rightarrow>
          if n = 0 \<or> n = 27 \<or> n = 49 then sgr_loop ps False
          else if n = 7 \<or> in_range 40 47 n \<or> in_range 100 107 n then sgr_loop ps True
          else if n = 38 \<or> n = 48 then
            sgr_loop (drop (if ps \<noteq> [] \<and> hd ps = ''2'' then 4 else 2) ps) (n = 48 \<or> on)
          else sgr_loop ps on)"
  by pat_completeness auto

termination by (relation "measure (\<lambda>(ps, on). length ps)") auto

definition sgrHighlightAfter :: "string \<Rightarrow> bool \<Rightarrow> bool" where
  "sgrHighlightAfter params on = (if params = [] then False else sgr_loop (split_on (CHR '';'') params) on)"

text \<open>\<open>paintedRuns\<close>: the visible text and the highlighted runs, each with its offset in it.\<close>

record painter =
  pp_visible :: string
  pp_cur :: string
  pp_on :: bool
  pp_start :: nat
  pp_runs :: "(string \<times> nat) list"

definition flush_run :: "painter \<Rightarrow> painter" where
  "flush_run p =
     p\<lparr>pp_cur := [],
       pp_runs := (if TrimSpace (pp_cur p) \<noteq> [] then pp_runs p @ [(TrimSpace (pp_cur p), pp_start p)] else pp_runs p)\<rparr>"

definition painter_sgr :: "string \<Rightarrow> painter \<Rightarrow> painter" where
  "painter_sgr params p =
     (let was = pp_on p; on = sgrHighlightAfter params was;
          p = p\<lparr>pp_on := on\<rparr>;
          p = (if \<not> was \<and> on then p\<lparr>pp_start := length (pp_visible p)\<rparr> else p)
      in if was \<and> \<not> on then flush_run p else p)"

definition painter_byte :: "char \<Rightarrow> painter \<Rightarrow> painter" where
  "painter_byte c p =
     p\<lparr>pp_visible := pp_visible p @ [c], pp_cur := (if pp_on p then pp_cur p @ [c] else pp_cur p)\<rparr>"

definition csi_param :: "char \<Rightarrow> bool" where
  "csi_param c = (byte c < 0x40 \<or> 0x7E < byte c)"

lemma dropWhile_shorter: "dropWhile P (tl s) = f # rest \<Longrightarrow> length rest < Suc (length s)"
  using length_dropWhile_le [of P "tl s"] by simp

function painter_loop :: "string \<Rightarrow> painter \<Rightarrow> painter" where
  "painter_loop [] p = flush_run p"
| "painter_loop (c # s) p =
     (if c = CHR 0x1B \<and> s \<noteq> [] \<and> hd s = CHR ''['' then
        (case dropWhile csi_param (tl s) of
           [] \<Rightarrow> flush_run p
         | f # rest \<Rightarrow> painter_loop rest (if f = CHR ''m'' then painter_sgr (takeWhile csi_param (tl s)) p else p))
      else painter_loop s (painter_byte c p))"
  by pat_completeness auto

termination by (relation "measure (\<lambda>(s, p). length s)") (auto dest: dropWhile_shorter)

definition paintedRuns :: "string \<Rightarrow> string \<times> (string \<times> nat) list" where
  "paintedRuns raw =
     (let p = painter_loop raw \<lparr>pp_visible = [], pp_cur = [], pp_on = False, pp_start = 0, pp_runs = []\<rparr>
      in (pp_visible p, pp_runs p))"

definition tabsBefore :: "string \<Rightarrow> nat \<Rightarrow> nat" where
  "tabsBefore visible a =
     (let s = take a visible in str_count box_open s + str_count box_done s + str_count check_mark s)"

definition activeTab :: "string \<Rightarrow> nat option" where
  "activeTab raw =
     (case paintedRuns raw of
        (visible, [(_, a)]) \<Rightarrow>
          let i = tabsBefore visible a in if i < length (headerTabs visible) then Some i else None
      | _ \<Rightarrow> None)"

text \<open>The highlighted question's position among the questions (\<open>0\<close>: unread), and their number.\<close>

record tab_position =
  tp_at :: nat
  tp_of :: nat

definition dialogTabPosition :: "string \<Rightarrow> tab_position" where
  "dialogTabPosition raw =
     (let (visible, rs) = paintedRuns raw;
          tabs = headerTabs visible;
          questions = (\<lambda>ts. length (filter (\<lambda>t. t \<noteq> submitTab) ts));
          pos = \<lparr>tp_at = 0, tp_of = questions tabs\<rparr>
      in case rs of
           [(_, a)] \<Rightarrow>
             let i = tabsBefore visible a
             in if length tabs \<le> i \<or> tabs ! i = submitTab then pos else pos\<lparr>tp_at := questions (take (Suc i) tabs)\<rparr>
         | _ \<Rightarrow> pos)"

text \<open>One tab: its state by its box; \<open>None\<close> is a tab that is neither.\<close>

definition read_tab :: "string \<Rightarrow> prompt_tab option" where
  "read_tab tab =
     (if has_prefix tab box_done then Some \<lparr>pt_header = TrimSpace (trim_prefix tab box_done), pt_state = ''answered''\<rparr>
      else if has_prefix tab box_open then Some \<lparr>pt_header = TrimSpace (trim_prefix tab box_open), pt_state = ''pending''\<rparr>
      else None)"

fun read_tabs :: "nat \<Rightarrow> (nat \<times> string) list \<Rightarrow> prompt_tab list \<Rightarrow> nat option \<Rightarrow> (prompt_tab list \<times> nat option) option" where
  "read_tabs a [] tabs current = Some (tabs, current)"
| "read_tabs a ((i, tab) # rest) tabs current =
     (if tab = submitTab then read_tabs a rest tabs current
      else case read_tab tab of
          None \<Rightarrow> None
        | Some t \<Rightarrow>
            if i = a then read_tabs a rest (tabs @ [t\<lparr>pt_state := ''current''\<rparr>]) (Some (length tabs))
            else read_tabs a rest (tabs @ [t]) current)"

definition dialogTabs :: "string \<Rightarrow> (prompt_tab list \<times> nat option) option" where
  "dialogTabs raw =
     (let all_tabs = headerTabs (fst (paintedRuns raw))
      in case activeTab raw of
           None \<Rightarrow> None
         | Some a \<Rightarrow>
             (case read_tabs a (List.enumerate 0 all_tabs) [] None of
                None \<Rightarrow> None
              | Some (tabs, current) \<Rightarrow> if length tabs < 2 then None else Some (tabs, current)))"

end
