(* ===== verification/FeedbackCard.thy ===== *)
theory FeedbackCard
  imports Screen Fleet
begin

text \<open>
  The runtime's feedback-draft card, its panel and its question over the composer
  (\<open>internal/drivers/tmux/feedbackcard.go\<close>): what is recognised, what may be answered with a
  key, and what a caller is told. A column counts runes. The masking of an error reason, which only
  the packs of captured screens use, is left out.
\<close>

section \<open>The texts of the card\<close>

definition feedbackCardItems :: "(string \<times> string) list" where
  "feedbackCardItems = [(''1'', ''review''), (''2'', ''send''), (''0'', ''dismiss'')]"

definition feedbackCardMaxBody :: nat where "feedbackCardMaxBody = 8"
definition feedbackCardMaxStatus :: nat where "feedbackCardMaxStatus = 4"
definition feedbackCardMaxGap :: nat where "feedbackCardMaxGap = 4"
definition feedbackCardQuestionMax :: nat where "feedbackCardQuestionMax = 200"
definition feedbackCardBottomRows :: nat where "feedbackCardBottomRows = 4"

definition feedbackFooter :: string where
  "feedbackFooter = ''1 to review '' @ mid_dot @ '' 2 to send '' @ mid_dot @ '' 0 to dismiss''"

definition feedbackConfirmText :: string where
  "feedbackConfirmText =
     ''Send without reviewing (full draft + env, no transcript)? 2 to send '' @ mid_dot @ '' Esc to back''"

definition feedbackSendingText :: string where
  "feedbackSendingText = ''Sending'' @ ellipsis"

definition feedbackErrorHead :: string where
  "feedbackErrorHead = [CHR 0xE2, CHR 0x9C, CHR 0x98] @ '' Couldn't send feedback''"

definition feedbackErrorTail :: string where
  "feedbackErrorTail = ''1 to review & retry '' @ mid_dot @ '' Esc to dismiss''"

definition feedbackQuestionRow :: string where
  "feedbackQuestionRow = ''Turn off Claude-drafted feedback? 0 to turn off '' @ mid_dot @ '' Esc to keep''"

definition feedbackPanelTitle :: string where
  "feedbackPanelTitle = ''Feedback drafts''"

datatype feedbackState = feedbackKeys | feedbackConfirm | feedbackSending | feedbackError

fun feedback_state_string :: "feedbackState \<Rightarrow> string" where
  "feedback_state_string feedbackKeys = ''card''"
| "feedback_state_string feedbackConfirm = ''confirm''"
| "feedback_state_string feedbackSending = ''sending''"
| "feedback_state_string feedbackError = ''error''"

definition parseFeedbackFooter :: "string \<Rightarrow> string option" where
  "parseFeedbackFooter inner =
     (let inner = TrimSpace inner
      in if \<not> has_prefix inner feedbackFooter then None
         else let rest = TrimSpace (trim_prefix inner feedbackFooter)
              in if rest = [] then Some []
                 else let rest = TrimSpace (trim_prefix rest mid_dot)
                      in if \<not> has_prefix rest ''+'' \<or> \<not> has_suffix rest '' more queued'' then None
                         else let digits = trim_suffix (trim_prefix rest ''+'') '' more queued''
                              in if digits = [] \<or> \<not> list_all is_digit digits then None else Some rest)"

definition parseFeedbackStatus :: "string \<Rightarrow> (feedbackState \<times> string) option" where
  "parseFeedbackStatus joined =
     (let joined = join '' '' (Fields joined)
      in if joined = feedbackConfirmText then Some (feedbackConfirm, [])
         else if joined = feedbackSendingText then Some (feedbackSending, [])
         else if has_prefix joined feedbackErrorHead \<and> has_suffix joined ('' '' @ feedbackErrorTail) \<and>
                 length feedbackErrorHead + length feedbackErrorTail + 2 < length joined
              then Some (feedbackError, [])
         else map_option (\<lambda>q. (feedbackKeys, q)) (parseFeedbackFooter joined))"

section \<open>The box\<close>

definition leadingBlanks :: "string \<Rightarrow> nat" where
  "leadingBlanks line = length (takeWhile (\<lambda>c. c = CHR '' '' \<or> c = CHR 0x09) line)"

definition borderRow :: "string \<Rightarrow> nat \<Rightarrow> rune \<Rightarrow> rune \<Rightarrow> bool" where
  "borderRow line col left right =
     (let r = runes (trailing line)
      in if length r < col + 5 \<or> r ! col \<noteq> left \<or> last r \<noteq> right then False
         else list_all (\<lambda>c. c = ruleRune) (butlast (drop (Suc col) r)))"

definition boxRowInner :: "string \<Rightarrow> nat \<Rightarrow> string option" where
  "boxRowInner line col =
     (let r = runes (trailing line)
      in if length r < col + 2 \<or> r ! col \<noteq> 0x2502 \<or> last r \<noteq> 0x2502 then None
         else Some (TrimSpace (of_runes (butlast (drop (Suc col) r)))))"

text \<open>The rows of a box from its bottom border up; the last argument is one more than the row looked at.\<close>

fun box_rows :: "string list \<Rightarrow> nat \<Rightarrow> string list \<Rightarrow> nat \<Rightarrow> (nat \<times> string list) option" where
  "box_rows lines col rows 0 = None"
| "box_rows lines col rows (Suc i) =
     (if borderRow (lines ! i) col 0x256D 0x256E then Some (i, rows)
      else case boxRowInner (lines ! i) col of
          None \<Rightarrow> None
        | Some inner \<Rightarrow>
            if feedbackCardMaxBody + feedbackCardMaxStatus \<le> length rows then None
            else box_rows lines col (inner # rows) i)"

record card_box =
  cb_top :: nat
  cb_first :: nat
  cb_bottom :: nat
  cb_col :: nat
  cb_body :: "string list"
  cb_state :: feedbackState
  cb_status :: string
  cb_queued :: string

text \<open>How many rows at the bottom of the box are its status: the first count that reads as one.\<close>

fun status_rows :: "string list \<Rightarrow> nat list \<Rightarrow> (nat \<times> string \<times> feedbackState \<times> string) option" where
  "status_rows rows [] = None"
| "status_rows rows (k # ks) =
     (let status = join '' '' (drop (length rows - k) rows)
      in case parseFeedbackStatus status of
           None \<Rightarrow> status_rows rows ks
         | Some (state, queued) \<Rightarrow> Some (k, status, state, queued))"

definition feedbackCardBoxAt :: "string list \<Rightarrow> nat \<Rightarrow> card_box option" where
  "feedbackCardBoxAt lines bottom =
     (if bottom < 2 \<or> length lines \<le> bottom then None
      else let col = leadingBlanks (lines ! bottom)
        in if \<not> borderRow (lines ! bottom) col 0x2570 0x256F then None
           else case box_rows lines col [] bottom of
               None \<Rightarrow> None
             | Some (tp, rows) \<Rightarrow>
                 if length rows < 2 then None
                 else case status_rows rows (filter (\<lambda>k. k < length rows) [1 ..< Suc feedbackCardMaxStatus]) of
                     None \<Rightarrow> None
                   | Some (k, status, state, queued) \<Rightarrow>
                       let body = take (length rows - k) rows
                       in if feedbackCardMaxBody < length body then None
                          else Some \<lparr>cb_top = tp, cb_first = bottom - k, cb_bottom = bottom, cb_col = col, cb_body = body,
                                 cb_state = state, cb_status = join '' '' (Fields status), cb_queued = queued\<rparr>)"

definition findFeedbackCardBox :: "string list \<Rightarrow> card_box option" where
  "findFeedbackCardBox lines =
     (case find (\<lambda>i. feedbackCardBoxAt lines i \<noteq> None) (rev [2 ..< length lines]) of
        None \<Rightarrow> None | Some i \<Rightarrow> feedbackCardBoxAt lines i)"

section \<open>The card over the composer\<close>

text \<open>\<open>fc_prompt\<close> is \<open>None\<close> when the card pushes the prompt row off the pane (\<open>promptHidden\<close>).\<close>

record feedback_card =
  fc_box :: card_box
  fc_fence :: nat
  fc_prompt :: "nat option"
  fc_composer_found :: bool
  fc_row_empty :: bool
  fc_row_text :: string
  fc_prompt_is_last :: bool

definition answerable :: "feedback_card \<Rightarrow> bool" where
  "answerable c = (cb_state (fc_box c) = feedbackKeys \<and> \<not> fc_composer_found c \<and> fc_row_empty c \<and> fc_prompt_is_last c)"

definition feedbackAnchor :: "screen \<Rightarrow> (nat \<times> nat option \<times> bool) option" where
  "feedbackAnchor s =
     (let lines = sc_lines s; n = length lines;
          anchor =
            (if n < 4 then None
             else case composerSpan s of
                 composerFound p _ \<Rightarrow> map_option (\<lambda>f. (f, Some p, True)) (firstNonBlankAbove lines p)
               | _ \<Rightarrow>
                   (case find (\<lambda>i. isRule (lines ! i) \<or> marked (lines ! i)) (rev [n - feedbackCardBottomRows ..< n]) of
                      None \<Rightarrow> None
                    | Some i \<Rightarrow>
                        if isRule (lines ! i) then (if i = n - 1 then Some (i, None, False) else None)
                        else map_option (\<lambda>f. (f, Some i, False)) (firstNonBlankAbove lines i)))
      in case anchor of
           None \<Rightarrow> None
         | Some (fence, prompt, found) \<Rightarrow>
             if \<not> isRule (lines ! fence) \<or> fence < sc_visible_top s \<or>
                (case prompt of None \<Rightarrow> False | Some p \<Rightarrow> p < sc_visible_top s) then None
             else Some (fence, prompt, found))"

definition corner_low :: string where "corner_low = [CHR 0xE2, CHR 0x95, CHR 0xB0]"
definition corner_high :: string where "corner_high = [CHR 0xE2, CHR 0x95, CHR 0xAD]"
definition rail :: string where "rail = [CHR 0xE2, CHR 0x94, CHR 0x82]"

text \<open>The bottom border of a card at most a few rows above the fence, with nothing else in between.\<close>

definition card_bottom :: "string list \<Rightarrow> nat \<Rightarrow> nat option" where
  "card_bottom lines fence =
     (case find (\<lambda>j. let line = TrimSpace (lines ! j)
                 in has_prefix line corner_low \<or> isRule line \<or> has_prefix line rail \<or> has_prefix line corner_high \<or>
                    has_prefix line responseBullet)
            (rev [fence - (feedbackCardMaxGap + 1) ..< fence]) of
        None \<Rightarrow> None
      | Some j \<Rightarrow> if has_prefix (TrimSpace (lines ! j)) corner_low then Some j else None)"

definition card_edge :: "string \<Rightarrow> bool" where
  "card_edge line =
     (has_prefix line corner_low \<or> isRule line \<or> has_prefix line rail \<or> has_prefix line corner_high \<or>
      has_prefix line responseBullet)"

lemma card_bottom_code [code]:
  "card_bottom lines fence =
     (case find (row_is (trimmed_row card_edge) lines) (rev [fence - (feedbackCardMaxGap + 1) ..< fence]) of
        None \<Rightarrow> None
      | Some j \<Rightarrow> if has_prefix (TrimSpace (lines ! j)) corner_low then Some j else None)"
  by (simp add: card_bottom_def row_is_def [abs_def] card_edge_def [abs_def] trimmed_row_def [abs_def] Let_def)

definition liveFeedbackCard :: "screen \<Rightarrow> feedback_card option" where
  "liveFeedbackCard s =
     (let lines = sc_lines s
      in case feedbackAnchor s of
           None \<Rightarrow> None
         | Some (fence, prompt, found) \<Rightarrow>
             (case card_bottom lines fence of
                None \<Rightarrow> None
              | Some bottom \<Rightarrow>
                  if bottom < sc_visible_top s then None
                  else case feedbackCardBoxAt lines bottom of
                      None \<Rightarrow> None
                    | Some box \<Rightarrow>
                        if cb_col box \<noteq> leadingBlanks (lines ! fence) \<or> cb_top box < sc_visible_top s then None
                        else case prompt of
                            None \<Rightarrow>
                              Some \<lparr>fc_box = box, fc_fence = fence, fc_prompt = None, fc_composer_found = found,
                                fc_row_empty = False, fc_row_text = [], fc_prompt_is_last = False\<rparr>
                          | Some p \<Rightarrow>
                              let dim = (p < length (sc_raw s) \<and> allDim (afterMarker (sc_raw s ! p)));
                                  text = (if dim then [] else after_prompt (lines ! p))
                              in Some \<lparr>fc_box = box, fc_fence = fence, fc_prompt = Some p, fc_composer_found = found,
                                   fc_row_empty = (dim \<or> text = []), fc_row_text = text,
                                   fc_prompt_is_last = (p = length lines - 1)\<rparr>))"

section \<open>What a card says\<close>

definition card_question :: "golib \<Rightarrow> feedback_card \<Rightarrow> string" where
  "card_question lib c =
     (case cb_body (fc_box c) of
        [] \<Rightarrow> []
      | row # _ \<Rightarrow>
          of_runes (take feedbackCardQuestionMax (dropWhile (\<lambda>r. \<not> uc_letter lib r \<and> \<not> uc_digit lib r) (runes row))))"

definition nul :: string where "nul = [CHR 0x00]"

definition hash16 :: "golib \<Rightarrow> string \<Rightarrow> string" where
  "hash16 lib s = take 16 (lib_sha256_hex lib s)"

definition card_nonce :: "golib \<Rightarrow> feedback_card \<Rightarrow> string" where
  "card_nonce lib c =
     (let box = fc_box c;
          rows = (case cb_body box of [] \<Rightarrow> [] | _ # rest \<Rightarrow> card_question lib c # rest)
      in hash16 lib (''feedback-review'' @ concat (map (\<lambda>row. nul @ row) rows) @ nul @ [CHR 0x02] @ cb_queued box @
           (if cb_state box \<noteq> feedbackKeys then nul @ [CHR 0x03] @ feedback_state_string (cb_state box) else [])))"

definition card_prompt :: "golib \<Rightarrow> feedback_card \<Rightarrow> session_prompt" where
  "card_prompt lib c =
     \<lparr>sp_question = card_question lib c, sp_options = map snd feedbackCardItems, sp_selected = 0, sp_multi_select = False,
      sp_free_text = False, sp_tabs = [], sp_tab = None, sp_kind = ''feedback-review'', sp_nonce = card_nonce lib c\<rparr>"

definition feedbackCardShortcuts :: "string list" where
  "feedbackCardShortcuts = map fst feedbackCardItems"

fun waitsOn :: "feedbackState \<Rightarrow> string" where
  "waitsOn feedbackConfirm =
     ''asking to confirm sending the draft (2 to send '' @ mid_dot @ '' Esc to back), which is the runtime's own second guard and a person's to give''"
| "waitsOn feedbackSending =
     ''sending the draft (\"Sending'' @ ellipsis @ ''\"): the request is in flight, and becomes the send error if it fails''"
| "waitsOn feedbackError =
     ''showing that sending the draft failed (the draft stays queued) and offering to review and retry or to dismiss, which is a person's to choose''"
| "waitsOn feedbackKeys = ''offering the draft it wrote (review, send or dismiss)''"

definition hides :: "feedback_card \<Rightarrow> string" where
  "hides c =
     (if fc_composer_found c then []
      else if fc_prompt c = None then
        ''the card pushes the composer, its '' @ composerRuneMarker @ '' row included, off the bottom of this pane''
      else if \<not> fc_row_empty c then
        ''the composer row holds text this driver cannot read in full, and a key delivered now would be appended to it''
      else ''the card pushes the composer's closing rule off the bottom of this pane'')"

definition card_evidence :: "feedback_card \<Rightarrow> string" where
  "card_evidence c =
     ''the runtime's feedback-draft card is '' @ waitsOn (cb_state (fc_box c)) @ ''; '' @ hides c @
     '', so the composer beneath it cannot be read as a whole''"

text \<open>A refusal to deliver: its text begins the last sentence with a capital.\<close>

definition card_refusal :: "feedback_card \<Rightarrow> string" where
  "card_refusal c =
     (if answerable c then
        ''the session is showing the runtime's feedback-draft card over its composer: the card pushes the composer's '' @
        ''closing rule off the bottom of this pane, so input cannot be delivered or confirmed until a person answers the '' @
        ''card (respond) or the pane is made taller. Nothing was written''
      else
        ''the session is showing the runtime's feedback-draft card over its composer; the card is '' @
        waitsOn (cb_state (fc_box c)) @ ''. T'' @ drop 1 (hides c) @ ''. Nothing was written'')"

definition feedbackCardRefusal :: "screen \<Rightarrow> string option" where
  "feedbackCardRefusal s =
     (case liveFeedbackCard s of
        None \<Rightarrow> None | Some c \<Rightarrow> if fc_composer_found c then None else Some (card_refusal c))"

section \<open>The panel and the question\<close>

definition heavyRule :: "string \<Rightarrow> bool" where
  "heavyRule line = (let r = runes (trailing line) in 20 \<le> length r \<and> list_all (\<lambda>c. c = 0x2594) r)"

definition liveFeedbackPanel :: "screen \<Rightarrow> (nat \<times> nat) option" where
  "liveFeedbackPanel s =
     (let lines = sc_lines s; n = length lines
      in case find (\<lambda>i. heavyRule (lines ! i)) (rev [sc_visible_top s ..< n]) of
           None \<Rightarrow> None
         | Some rule \<Rightarrow>
             (case find (\<lambda>j. \<not> blank (lines ! j)) [Suc rule ..< min n (rule + 4)] of
                None \<Rightarrow> None
              | Some title \<Rightarrow>
                  if trailing (lines ! title) \<noteq> ''   '' @ feedbackPanelTitle then None
                  else if list_ex isRule (drop (Suc title) lines) then None
                  else Some (rule, title)))"

definition feedbackPanelEvidence :: string where
  "feedbackPanelEvidence =
     ''the runtime's feedback panel is open over the composer (its list of queued drafts or a draft's editor): a person '' @
     ''is deciding what to do with a draft, and there is no composer to deliver into until it is closed''"

definition feedbackPanelRefusal :: "screen \<Rightarrow> string option" where
  "feedbackPanelRefusal s =
     (if liveFeedbackPanel s = None then None
      else Some (''the session has the runtime's feedback panel open (its list of queued drafts or a draft's editor), which '' @
        ''replaces the composer: a person is deciding what to do with a draft, and a key delivered now could open, edit, '' @
        ''discard or send one. Nothing was written. Escape closes the panel''))"

definition feedbackNoticeRefusal :: "screen \<Rightarrow> string option" where
  "feedbackNoticeRefusal s = (case feedbackCardRefusal s of Some r \<Rightarrow> Some r | None \<Rightarrow> feedbackPanelRefusal s)"

definition liveFeedbackQuestion :: "screen \<Rightarrow> bool" where
  "liveFeedbackQuestion s =
     (case feedbackAnchor s of
        None \<Rightarrow> False
      | Some (fence, _, _) \<Rightarrow>
          (case find (\<lambda>j. \<not> blank (sc_lines s ! j)) (rev [fence - (feedbackCardMaxGap + 1) ..< fence]) of
             None \<Rightarrow> False | Some j \<Rightarrow> TrimSpace (sc_lines s ! j) = feedbackQuestionRow))"

definition feedbackNoticeOnScreen :: "screen \<Rightarrow> bool" where
  "feedbackNoticeOnScreen s = (if liveFeedbackCard s \<noteq> None then True else liveFeedbackQuestion s)"

definition loneDigit :: "string \<Rightarrow> bool" where
  "loneDigit text = (let t = TrimSpace text in if length t \<noteq> 1 then False else t \<in> set (map fst feedbackCardItems))"

definition feedbackEscapeNote :: "screen \<Rightarrow> string" where
  "feedbackEscapeNote s =
     (if liveFeedbackPanel s \<noteq> None then
        '' (on the runtime's feedback panel Escape closes the panel, or steps back from a draft to the list)''
      else case liveFeedbackCard s of
          Some c \<Rightarrow>
            (if fc_row_text c \<noteq> [] then []
             else case cb_state (fc_box c) of
                 feedbackConfirm \<Rightarrow>
                   '' (on the runtime's send confirmation Escape goes back to the card; nothing was sent)''
               | feedbackSending \<Rightarrow> []
               | _ \<Rightarrow>
                   '' (on the runtime's feedback-draft card Escape dismisses the notice; the draft stays queued, and '' @
                   ''/feedback still lists it)'')
        | None \<Rightarrow>
            if liveFeedbackQuestion s
            then '' (on the runtime's question about turning drafts off Escape keeps them on)'' else [])"

end
