(* ===== verification/PromptMenu.thy ===== *)
theory PromptMenu
  imports PreviewPane FeedbackCard
begin

text \<open>
  Reading the question a session is blocked on from its screen (\<open>parsePromptShape\<close> of
  \<open>internal/drivers/tmux/classify.go\<close>): numbered options with a highlight, a runtime footer, the
  question above them, a dialog's tab bar or chip, a menu without numbers, and the feedback card.
\<close>

section \<open>The parts of a menu\<close>

definition selectFooter :: string where "selectFooter = ''Enter to select''"
definition confirmFooter :: string where "confirmFooter = ''Enter to confirm''"
definition amendFooter :: string where "amendFooter = ''Tab to amend''"

definition footer_row :: "string \<Rightarrow> bool" where
  "footer_row line = contains_any line [selectFooter, confirmFooter, amendFooter]"

definition maxPromptOptions :: nat where "maxPromptOptions = 32"
definition unanchoredQuestionRows :: nat where "unanchoredQuestionRows = 3"
definition maxQuestionRows :: nat where "maxQuestionRows = 32"

definition promptFooterPresent :: "screen \<Rightarrow> bool" where
  "promptFooterPresent s =
     list_ex (\<lambda>raw. footer_row (TrimSpace raw)) (drop (length (sc_lines s) - promptScanDepth) (sc_lines s))"

definition questionRow :: "string \<Rightarrow> string" where
  "questionRow line = TrimSpace (trim_prefix (TrimSpace line) rail)"

lemma footer_rows_code [code_unfold]: "(\<lambda>i. footer_row (TrimSpace (lines ! i))) = row_is (trimmed_row footer_row) lines"
  by (simp add: fun_eq_iff row_is_def trimmed_row_def)

text \<open>Where a dialog that begins above the scanned rows begins.\<close>

definition opens_dialog :: "string \<Rightarrow> bool" where
  "opens_dialog line = (numberedOption (TrimSpace (trim_prefix line composerRuneMarker)) \<noteq> None \<or> footer_row line)"

fun dialog_opens :: "string list \<Rightarrow> bool option" where
  "dialog_opens [] = Some False"
| "dialog_opens (raw # rest) =
     (let line = TrimSpace raw
      in if line = [] then dialog_opens rest
         else if isRule line then None
         else if opens_dialog line then Some True
         else dialog_opens rest)"

definition dialogTop :: "string list \<Rightarrow> nat \<Rightarrow> nat" where
  "dialogTop lines from =
     (if from = 0 then from
      else case dialog_opens (drop from lines) of
          None \<Rightarrow> from
        | Some opens \<Rightarrow>
            if \<not> opens then from
            else case find_up (\<lambda>i. isRule (TrimSpace (lines ! i))) from of None \<Rightarrow> from | Some i \<Rightarrow> Suc i)"

definition checkboxClear :: string where "checkboxClear = ''[ ] ''"
definition checkboxTicked :: string where "checkboxTicked = ''['' @ check_mark @ ''] ''"

text \<open>The label of an option, whether it is ticked, whether it has a box.\<close>

definition checkboxLabel :: "string \<Rightarrow> string \<times> bool \<times> bool" where
  "checkboxLabel opt =
     (if has_prefix opt checkboxClear then (trim_prefix opt checkboxClear, False, True)
      else if has_prefix opt checkboxTicked then (trim_prefix opt checkboxTicked, True, True)
      else (opt, False, False))"

definition normalisedAffordance :: "golib \<Rightarrow> string \<Rightarrow> string" where
  "normalisedAffordance lib label = trim_suffix (ToLower lib (TrimSpace label)) ''.''"

definition isFreeTextLabel :: "golib \<Rightarrow> string \<Rightarrow> bool" where
  "isFreeTextLabel lib label = (normalisedAffordance lib label = ''type something'')"

definition isChatLabel :: "golib \<Rightarrow> string \<Rightarrow> bool" where
  "isChatLabel lib label = (normalisedAffordance lib label = ''chat about this'')"

definition isEscapeAffordance :: "golib \<Rightarrow> string \<Rightarrow> bool" where
  "isEscapeAffordance lib label = (isFreeTextLabel lib label \<or> isChatLabel lib label)"

definition optionsAreContiguous :: "string list \<Rightarrow> bool" where
  "optionsAreContiguous opts = list_all (\<lambda>opt. opt \<noteq> []) opts"

text \<open>\<open>freeTextRow\<close>: the row number of the free-text option, \<open>0\<close> without one.\<close>

definition freeTextRow :: "golib \<Rightarrow> string list \<Rightarrow> nat" where
  "freeTextRow lib opts =
     (case find (\<lambda>i. isFreeTextLabel lib (fst (checkboxLabel (opts ! i)))) [0 ..< length opts] of
        None \<Rightarrow> 0 | Some i \<Rightarrow> Suc i)"

definition boxed_answer :: "golib \<Rightarrow> string \<Rightarrow> bool" where
  "boxed_answer lib opt = (case checkboxLabel opt of (label, _, box) \<Rightarrow> box \<and> \<not> isEscapeAffordance lib label)"

definition multiSelectBoxes :: "golib \<Rightarrow> string list \<Rightarrow> nat" where
  "multiSelectBoxes lib opts =
     (if \<not> optionsAreContiguous opts then 0
      else let boxes = length (takeWhile (boxed_answer lib) opts)
        in if boxes = 0 \<or> boxes = length opts then 0
           else if list_all (\<lambda>opt. isEscapeAffordance lib (fst (checkboxLabel opt))) (drop boxes opts) then boxes
           else 0)"

definition promptTicks :: "string list \<Rightarrow> nat \<Rightarrow> bool list" where
  "promptTicks opts boxes =
     map (\<lambda>i. if i < length opts then fst (snd (checkboxLabel (opts ! i))) else False) [0 ..< boxes]"

record menu_shape =
  ms_unnumbered :: bool
  ms_preview :: bool
  ms_tab :: tab_position
  ms_shortcuts :: "string list"

definition no_shape :: menu_shape where
  "no_shape = \<lparr>ms_unnumbered = False, ms_preview = False, ms_tab = \<lparr>tp_at = 0, tp_of = 0\<rparr>, ms_shortcuts = []\<rparr>"

definition freeTextOffered :: "golib \<Rightarrow> session_prompt \<Rightarrow> menu_shape \<Rightarrow> bool" where
  "freeTextOffered lib p shape =
     (if ms_unnumbered shape \<or> ms_preview shape then False
      else let opts = sp_options p; idx = freeTextRow lib opts
        in if idx = 0 \<or> \<not> optionsAreContiguous opts then False
           else if \<not> list_ex (\<lambda>opt. snd (snd (checkboxLabel opt))) opts then True
           else sp_multi_select p \<and> idx = Suc (multiSelectBoxes lib opts))"

section \<open>Nonces\<close>

definition prompt_text :: "session_prompt \<Rightarrow> string" where
  "prompt_text p = sp_question p @ concat (map (\<lambda>opt. nul @ opt) (sp_options p))"

definition promptNonce :: "golib \<Rightarrow> session_prompt \<Rightarrow> string" where
  "promptNonce lib p = hash16 lib (prompt_text p)"

definition promptNonceWithHeader :: "golib \<Rightarrow> session_prompt \<Rightarrow> string \<Rightarrow> tab_position \<Rightarrow> string" where
  "promptNonceWithHeader lib p header tab =
     hash16 lib (prompt_text p @ nul @ [CHR 0x01] @ TrimSpace header @ nul @ show_nat (tp_at tab))"

section \<open>A menu without numbers\<close>

definition leading_spaces :: "string \<Rightarrow> nat" where
  "leading_spaces raw = length (takeWhile (\<lambda>c. c = CHR '' '') raw)"

definition highlighted_row :: "string \<Rightarrow> bool" where
  "highlighted_row raw = has_prefix (dropWhile (\<lambda>c. c = CHR '' '') raw) composerRuneMarker"

text \<open>The column the texts of a menu stand in, from its highlighted row; \<open>None\<close> without a gap.\<close>

definition text_column :: "string \<Rightarrow> nat option" where
  "text_column raw =
     (let gap = leading_spaces (drop (leading_spaces raw + length composerRuneMarker) raw)
      in if gap = 0 then None else Some (leading_spaces raw + 1 + gap))"

fun menu_texts :: "nat \<Rightarrow> string list \<Rightarrow> string list option" where
  "menu_texts col [] = Some []"
| "menu_texts col (raw # rest) =
     (let text = (if highlighted_row raw then after_prompt raw else TrimSpace raw)
      in if isRule raw \<or> (\<not> highlighted_row raw \<and> leading_spaces raw \<noteq> col) \<or> text = [] \<or> numberedOption text \<noteq> None
         then None else map_option ((#) text) (menu_texts col rest))"

definition menu_block :: "string list \<Rightarrow> (nat \<times> string list) option" where
  "menu_block lines =
     (case find_up (\<lambda>i. footer_row (TrimSpace (lines ! i))) (length lines) of
        None \<Rightarrow> None
      | Some footer \<Rightarrow>
          (case firstNonBlankAbove lines footer of
             None \<Rightarrow> None
           | Some lst \<Rightarrow>
               let start = (case find_up (\<lambda>i. blank (lines ! i) \<or> isRule (lines ! i)) lst of None \<Rightarrow> 0 | Some i \<Rightarrow> Suc i)
               in Some (start, take (Suc lst - start) (drop start lines))))"

fun unnumbered_question :: "string list \<Rightarrow> nat \<Rightarrow> string list \<Rightarrow> string list" where
  "unnumbered_question lines 0 question = question"
| "unnumbered_question lines (Suc i) question =
     (if 3 \<le> length question then question
      else if isRule (lines ! i) then question
      else if blank (lines ! i) then unnumbered_question lines i question
      else unnumbered_question lines i (TrimSpace (lines ! i) # question))"

definition unnumberedMenu :: "string list \<Rightarrow> session_prompt option" where
  "unnumberedMenu lines =
     (case menu_block lines of
        None \<Rightarrow> None
      | Some (start, block) \<Rightarrow>
          if length block < 2 \<or> maxPromptOptions < length block then None
          else case filter (\<lambda>i. highlighted_row (block ! i)) [0 ..< length block] of
              [marker] \<Rightarrow>
                (case text_column (block ! marker) of
                   None \<Rightarrow> None
                 | Some col \<Rightarrow>
                     map_option (\<lambda>opts.
                       \<lparr>sp_question = join '' '' (unnumbered_question lines start []), sp_options = opts,
                        sp_selected = int marker + 1, sp_multi_select = False, sp_free_text = False, sp_tabs = [],
                        sp_tab = None, sp_kind = [], sp_nonce = []\<rparr>) (menu_texts col block))
            | _ \<Rightarrow> None)"

section \<open>The scan of the rows\<close>

record menu_scan =
  mn_options :: "string list"
  mn_selected :: int
  mn_footer :: bool
  mn_tab_bar :: bool
  mn_question :: "string list"
  mn_header :: "(string \<times> nat) option"
  mn_after_rule :: bool

definition scan_start :: menu_scan where
  "scan_start = \<lparr>mn_options = [], mn_selected = 0, mn_footer = False, mn_tab_bar = False, mn_question = [],
     mn_header = None, mn_after_rule = False\<rparr>"

text \<open>Row \<open>n\<close> of the options: earlier rows that are missing are filled with empty ones.\<close>

definition put_option :: "nat \<Rightarrow> string \<Rightarrow> string list \<Rightarrow> string list" where
  "put_option n text opts =
     (let opts = opts @ replicate (n - 1 - length opts) []
      in if length opts = n - 1 then opts @ [text] else if n - 1 < length opts then opts[n - 1 := text] else opts)"

definition scan_line :: "nat \<Rightarrow> string \<Rightarrow> menu_scan \<Rightarrow> menu_scan" where
  "scan_line idx line m =
     (let wasRule = mn_after_rule m;
          m = m\<lparr>mn_after_rule := isRule line\<rparr>
      in case numberedOption (TrimSpace (trim_prefix line composerRuneMarker)) of
           Some (n, text) \<Rightarrow>
             if int maxPromptOptions < n then m
             else m\<lparr>mn_options := put_option (nat n) text (mn_options m),
                    mn_selected := (if has_prefix line composerRuneMarker then n else mn_selected m)\<rparr>
         | None \<Rightarrow>
             if footer_row line then m\<lparr>mn_footer := True\<rparr>
             else if mn_options m = [] \<and> (isDialogTabBar line \<or> (wasRule \<and> isDialogChip line)) then
               m\<lparr>mn_tab_bar := mn_tab_bar m \<or> isDialogTabBar line, mn_header := Some (line, idx), mn_question := []\<rparr>
             else if mn_options m = [] \<and> \<not> isRule line then
               (let row = questionRow line in if row \<noteq> [] then m\<lparr>mn_question := mn_question m @ [row]\<rparr> else m)
             else m)"

text \<open>
  One row: the rows of the composer are masked, a row of the preview pane counts by its prefix, and a
  prefix that starts no option continues the last one.
\<close>

definition scan_row :: "(nat \<times> nat) option \<Rightarrow> (nat \<times> nat) option \<Rightarrow> nat \<times> string \<Rightarrow> menu_scan \<Rightarrow> menu_scan" where
  "scan_row hidden pane = (\<lambda>(idx, raw) m.
     if (case hidden of None \<Rightarrow> False | Some (p, l) \<Rightarrow> p \<le> idx \<and> idx \<le> l) then m
     else
       let inside = (case pane of None \<Rightarrow> False | Some (t, b) \<Rightarrow> t \<le> idx \<and> idx \<le> b);
           line = (if inside then (case splitPaneRow raw of None \<Rightarrow> [] | Some (pre, _) \<Rightarrow> TrimSpace (of_runes pre))
                   else TrimSpace raw)
       in if line = [] then m
          else if inside \<and> numberedOption (TrimSpace (trim_prefix line composerRuneMarker)) = None \<and> mn_options m \<noteq> []
          then m\<lparr>mn_options := butlast (mn_options m) @ [last (mn_options m) @ '' '' @ line]\<rparr>
          else scan_line idx line m)"

lemma scan_row_code [code]:
  "scan_row hidden pane (idx, raw) m =
     (if (case hidden of None \<Rightarrow> False | Some (p, l) \<Rightarrow> p \<le> idx \<and> idx \<le> l) then m
      else
        let inside = (case pane of None \<Rightarrow> False | Some (t, b) \<Rightarrow> t \<le> idx \<and> idx \<le> b);
            line = (if inside then (case splitPaneRow raw of None \<Rightarrow> [] | Some (pre, _) \<Rightarrow> TrimSpace (of_runes pre))
                    else TrimSpace raw)
        in if line = [] then m
           else if inside \<and> numberedOption (TrimSpace (trim_prefix line composerRuneMarker)) = None \<and> mn_options m \<noteq> []
           then m\<lparr>mn_options := butlast (mn_options m) @ [last (mn_options m) @ '' '' @ line]\<rparr>
           else scan_line idx line m)"
  by (simp add: scan_row_def)

definition scan_from :: "screen \<Rightarrow> (nat \<times> nat) option \<Rightarrow> nat" where
  "scan_from s pane =
     (let from = length (sc_lines s) - promptScanDepth
      in case pane of
           Some (t, _) \<Rightarrow> (if t < from + previewHeaderRows then t - previewHeaderRows else from)
         | None \<Rightarrow> dialogTop (sc_lines s) from)"

definition scan_rows :: "screen \<Rightarrow> menu_scan" where
  "scan_rows s =
     (let pane = findPreviewPane (sc_lines s);
          from = scan_from s pane;
          hidden = (case composerSpan s of composerFound p l \<Rightarrow> if pane = None then Some (p, l) else None | _ \<Rightarrow> None)
      in fold (scan_row hidden pane) (List.enumerate from (drop from (sc_lines s))) scan_start)"

definition last_rows :: "nat \<Rightarrow> 'a list \<Rightarrow> 'a list" where
  "last_rows n xs = drop (length xs - n) xs"

definition menu_question :: "menu_scan \<Rightarrow> string" where
  "menu_question m =
     join '' '' (last_rows (if mn_header m \<noteq> None then maxQuestionRows else unanchoredQuestionRows) (mn_question m))"

definition bare_prompt :: "menu_scan \<Rightarrow> session_prompt" where
  "bare_prompt m =
     \<lparr>sp_question = menu_question m, sp_options = mn_options m, sp_selected = mn_selected m, sp_multi_select = False,
      sp_free_text = False, sp_tabs = [], sp_tab = None, sp_kind = [], sp_nonce = []\<rparr>"

definition finish_menu :: "golib \<Rightarrow> screen \<Rightarrow> bool \<Rightarrow> menu_scan \<Rightarrow> session_prompt \<times> menu_shape" where
  "finish_menu lib s preview m =
     (let p = bare_prompt m;
          shape = no_shape\<lparr>ms_preview := preview\<rparr>;
          (p, shape) =
            (case mn_header m of
               None \<Rightarrow> (p\<lparr>sp_nonce := promptNonce lib p\<rparr>, shape)
             | Some (header, row) \<Rightarrow>
                 let rawHeader = (if row < length (sc_raw s) then sc_raw s ! row else header);
                     tab = dialogTabPosition rawHeader;
                     p = (if isDialogTabBar header then
                            (case dialogTabs rawHeader of
                               None \<Rightarrow> p | Some (tabs, cur) \<Rightarrow> p\<lparr>sp_tabs := tabs, sp_tab := cur\<rparr>)
                          else p)
                 in (p\<lparr>sp_nonce := promptNonceWithHeader lib p header tab\<rparr>, shape\<lparr>ms_tab := tab\<rparr>));
          p = p\<lparr>sp_multi_select := mn_tab_bar m \<and> 0 < multiSelectBoxes lib (sp_options p)\<rparr>
      in (p\<lparr>sp_free_text := freeTextOffered lib p shape\<rparr>, shape))"

definition parseMenuShape :: "golib \<Rightarrow> screen \<Rightarrow> (session_prompt \<times> menu_shape) option" where
  "parseMenuShape lib s =
     (let pane = findPreviewPane (sc_lines s);
          m = scan_rows s;
          opts = mn_options m
      in if opts = [] \<and> mn_footer m then
           map_option (\<lambda>menu. (menu\<lparr>sp_nonce := promptNonce lib menu\<rparr>, no_shape\<lparr>ms_unnumbered := True\<rparr>))
             (unnumberedMenu (drop (scan_from s pane) (sc_lines s)))
         else if \<not> (2 \<le> length opts \<and> 0 < mn_selected m \<and> optionsAreContiguous opts) \<and> \<not> (mn_footer m \<and> 1 \<le> length opts)
         then None
         else Some (finish_menu lib s (pane \<noteq> None) m))"

definition parsePromptShape :: "golib \<Rightarrow> screen \<Rightarrow> (session_prompt \<times> menu_shape) option" where
  "parsePromptShape lib s =
     (case parseMenuShape lib s of
        Some r \<Rightarrow> Some r
      | None \<Rightarrow>
          (case liveFeedbackCard s of
             None \<Rightarrow> None
           | Some c \<Rightarrow>
               if answerable c then Some (card_prompt lib c, no_shape\<lparr>ms_shortcuts := feedbackCardShortcuts\<rparr>) else None))"

definition parsePrompt :: "golib \<Rightarrow> screen \<Rightarrow> session_prompt option" where
  "parsePrompt lib s = map_option fst (parsePromptShape lib s)"

text \<open>\<open>selectionPrompt\<close>: the highlighted option of a prompt, empty without a highlight.\<close>

definition selectionPrompt :: "golib \<Rightarrow> screen \<Rightarrow> string option" where
  "selectionPrompt lib s =
     map_option (\<lambda>p. if 0 < sp_selected p \<and> sp_selected p \<le> int (length (sp_options p))
        then show_int (sp_selected p) @ ''. '' @ sp_options p ! nat (sp_selected p - 1) else []) (parsePrompt lib s)"

definition awaitingSelection :: "golib \<Rightarrow> screen \<Rightarrow> bool" where
  "awaitingSelection lib s = (selectionPrompt lib s \<noteq> None)"

definition reviewQuestion :: string where
  "reviewQuestion = ''Ready to submit your answers?''"

definition reviewOptions :: "string list" where
  "reviewOptions = [''Submit answers'', ''Cancel'']"

definition reviewScreenPrompt :: "session_prompt \<Rightarrow> bool" where
  "reviewScreenPrompt p =
     (if sp_options p \<noteq> reviewOptions then False
      else sp_question p = reviewQuestion \<or> has_suffix (sp_question p) ('' '' @ reviewQuestion))"

text \<open>\<open>classifyPromptKind\<close>; the empty kind is a prompt this driver does not know.\<close>

definition has_option :: "string list \<Rightarrow> string list \<Rightarrow> bool" where
  "has_option lower needles = list_ex (\<lambda>opt. list_all (str_contains opt) needles) lower"

definition classifyPromptKind :: "golib \<Rightarrow> session_prompt \<Rightarrow> string" where
  "classifyPromptKind lib p =
     (if sp_options p = [] then []
      else if sp_kind p \<noteq> [] then sp_kind p
      else
        let lower = map (\<lambda>opt. ToLower lib (fst (checkboxLabel opt))) (sp_options p)
        in if list_ex (\<lambda>opt. has_prefix opt ''type something'' \<or> has_prefix opt ''chat about'') lower then []
           else if has_option lower [''resume'', ''summary''] then ''resume-chooser''
           else if has_option lower [''trust'', ''folder''] then ''folder-trust''
           else if has_option lower [''trust'', ''settings''] then ''settings-trust''
           else if has_option lower [''allow'', ''external'', ''imports''] \<and> has_option lower [''disable'', ''external'', ''imports'']
             then ''external-imports''
           else if has_option lower [''don't ask again''] \<or> has_option lower [''allow this''] then ''tool-permission''
           else [])"

end
