(* ===== verification/Classify.thy ===== *)
theory Classify
  imports PromptMenu NfcLite
begin

text \<open>
  What a session is doing, read from one capture of its pane: \<open>classifyCaptureRemembering\<close> of
  \<open>internal/drivers/tmux/classify.go\<close> with the footer's control channel, permission mode and
  warnings (\<open>controlchannel.go\<close>, \<open>permissionmode.go\<close>, \<open>warning.go\<close>). A slice out of
  range is a run-time panic, the value \<open>None\<close>.
\<close>

section \<open>The footer\<close>

fun strip_rules_down :: "string list \<Rightarrow> string list" where
  "strip_rules_down [] = []"
| "strip_rules_down (l # ls) = (if isRule l then strip_rules_down ls else l # ls)"

definition has_marker :: "string \<Rightarrow> bool" where
  "has_marker line = str_contains line composerRuneMarker"

lemma marker_rows_code [code_unfold]: "(\<lambda>i. str_contains (lines ! i) composerRuneMarker) = row_is has_marker lines"
  by (simp add: fun_eq_iff row_is_def has_marker_def)

definition footerLines :: "screen \<Rightarrow> string list" where
  "footerLines s =
     (case find_up (\<lambda>i. str_contains (sc_lines s ! i) composerRuneMarker) (length (sc_lines s)) of
        None \<Rightarrow> []
      | Some marker \<Rightarrow> strip_rules_down (drop (Suc marker) (sc_lines s)))"

definition controlLabel :: string where
  "controlLabel = ''/rc''"

definition controlStates :: "(string \<times> string) list" where
  "controlStates = [(''failed'', ''failed''), (''reconnecting'', ''reconnecting''), (''active'', ''active''),
     (''connecting'', ''connecting'')]"

fun cut_any :: "string list \<Rightarrow> string \<Rightarrow> string" where
  "cut_any ps [] = []"
| "cut_any ps (c # s) = (if list_ex (has_prefix (c # s)) ps then [] else c # cut_any ps s)"

definition controlStateIn :: "golib \<Rightarrow> string \<Rightarrow> string option" where
  "controlStateIn lib line =
     (case str_index line controlLabel of
        None \<Rightarrow> None
      | Some idx \<Rightarrow>
          let rest = trim_left_chars '' '' (drop (idx + length controlLabel) line);
              word = cut_any ['' '', mid_dot, ellipsis, ''.''] rest
          in if word = [] then Some ''active'' else map_of controlStates (ToLower lib word))"

definition controlChannelOf :: "golib \<Rightarrow> screen \<Rightarrow> control_channel option" where
  "controlChannelOf lib s =
     map_option (\<lambda>st. \<lparr>cc_state = st, cc_reason = []\<rparr>) (first_some (controlStateIn lib) (footerLines s))"

definition permissionModeLabels :: "(string \<times> string) list" where
  "permissionModeLabels = [(''manual mode on'', ''default''), (''accept edits on'', ''acceptEdits''),
     (''plan mode on'', ''plan''), (''auto mode on'', ''auto''), (''bypass permissions on'', ''bypass'')]"

definition permissionModeOf :: "golib \<Rightarrow> screen \<Rightarrow> string" where
  "permissionModeOf lib s =
     (case composerSpan s of
        composerFound _ closing \<Rightarrow>
          let texts = filter (\<lambda>t. t \<noteq> []) (map (\<lambda>l. ToLower lib (TrimSpace l)) (drop (Suc closing) (sc_lines s)));
              seen = map snd (filter (\<lambda>(label, _). list_ex (\<lambda>t. str_contains t label) texts) permissionModeLabels)
          in if texts = [] then [] else (case seen of [m] \<Rightarrow> m | _ \<Rightarrow> ''unknown'')
      | _ \<Rightarrow> [])"

section \<open>The status line\<close>

definition hasSpinnerGlyph :: "golib \<Rightarrow> string \<Rightarrow> bool" where
  "hasSpinnerGlyph lib line =
     (if line = [] then False
      else let (r, n) = decode_rune line
        in if r = RuneError then False
           else if \<not> uc_symbol lib r \<and> \<not> uc_punct lib r then False
           else if r < 0x80 then False
           else if in_range 0x2500 0x259F r \<or> in_range 0x25A0 0x25FF r then False
           else has_prefix (drop n line) '' '')"

text \<open>\<open>statusLine\<close>: whether the line is one, and of a turn that still runs.\<close>

definition statusLine :: "golib \<Rightarrow> string \<Rightarrow> bool option" where
  "statusLine lib line =
     (if \<not> hasSpinnerGlyph lib line then None
      else let rest = trim_left_chars '' '' (drop (snd (decode_rune line)) line)
        in if \<not> uc_upper lib (fst (decode_rune rest)) then None
           else if str_contains rest ellipsis then Some True
           else if str_contains rest '' for '' then Some False
           else None)"

definition status_at :: "golib \<Rightarrow> string list \<Rightarrow> nat \<Rightarrow> bool option" where
  "status_at lib lines i = statusLine lib (TrimSpace (lines ! i))"

lemma status_rows_code [code_unfold]: "(\<lambda>i. statusLine lib (TrimSpace (lines ! i))) = status_at lib lines"
  by (simp add: fun_eq_iff status_at_def)

definition spinner :: "golib \<Rightarrow> screen \<Rightarrow> bool option" where
  "spinner lib s =
     (let tp = (case composerSpan s of composerFound _ l \<Rightarrow> Suc l | _ \<Rightarrow> length (sc_lines s))
      in first_some (\<lambda>i. statusLine lib (TrimSpace (sc_lines s ! i))) (rev [0 ..< tp]))"

definition warningKindOf :: "string \<Rightarrow> string" where
  "warningKindOf line = (if str_contains line ''Transcript writes are failing'' then ''transcript-unreliable'' else [])"

definition warningsOf :: "golib \<Rightarrow> screen \<Rightarrow> warning list" where
  "warningsOf lib s =
     map (\<lambda>line. \<lparr>wn_kind = warningKindOf line, wn_text = line\<rparr>)
       (filter (\<lambda>line. line \<noteq> [] \<and> statusLine lib line \<noteq> None) (map TrimSpace (footerLines s)))"

section \<open>Limits and failed turns\<close>

fun strip_rules_up :: "string list \<Rightarrow> nat \<Rightarrow> nat" where
  "strip_rules_up lines 0 = 0"
| "strip_rules_up lines (Suc e) = (if isRule (lines ! e) then strip_rules_up lines e else Suc e)"

text \<open>Where the content above the composer, and above a card over it, ends.\<close>

definition content_end :: "screen \<Rightarrow> nat" where
  "content_end s =
     (let lines = sc_lines s; n = length lines;
          e = (case find (\<lambda>i. str_contains (lines ! i) composerRuneMarker) (rev [n - promptScanDepth ..< n]) of
                 None \<Rightarrow> n | Some i \<Rightarrow> strip_rules_up lines i)
      in case liveFeedbackCard s of
           Some c \<Rightarrow> (if cb_top (fc_box c) < e then cb_top (fc_box c) else e)
         | None \<Rightarrow> e)"

definition hint_after :: "string \<Rightarrow> string \<Rightarrow> string option" where
  "hint_after line marker = map_option (\<lambda>k. take 40 (TrimSpace (drop (k + length marker) line))) (str_index line marker)"

definition resetHintIn :: "string \<Rightarrow> string option" where
  "resetHintIn line = first_some (hint_after line) [''resets '', ''try again '', ''available again '']"

definition limit_notice :: "string \<Rightarrow> bool" where
  "limit_notice line =
     (str_contains line ''limit'' \<and>
        (str_contains line ''hit your'' \<or> str_contains line ''reached'' \<or> str_contains line ''usage'') \<or>
      str_contains line ''/usage-credits'')"

definition liveTail :: nat where "liveTail = 8"

fun usage_scan :: "golib \<Rightarrow> string list \<Rightarrow> nat \<Rightarrow> nat \<Rightarrow> string \<Rightarrow> bool \<Rightarrow> string \<times> bool" where
  "usage_scan lib lines 0 seen hint found = (hint, found)"
| "usage_scan lib lines (Suc i) seen hint found =
     (if liveTail \<le> seen then (hint, found)
      else let line = ToLower lib (TrimSpace (lines ! i))
        in if line = [] \<or> isRule (lines ! i) then usage_scan lib lines i seen hint found
           else if has_prefix line responseBullet then ([], False)
           else if \<not> limit_notice line then usage_scan lib lines i (Suc seen) hint found
           else usage_scan lib lines i (Suc seen)
                  (if hint \<noteq> [] then hint else case resetHintIn line of Some h \<Rightarrow> h | None \<Rightarrow> hint) True)"

definition usageLimit :: "golib \<Rightarrow> screen \<Rightarrow> string \<times> bool" where
  "usageLimit lib s = usage_scan lib (sc_lines s) (content_end s) 0 [] False"

definition retryableWords :: "string \<Rightarrow> bool" where
  "retryableWords lower = (str_contains lower ''temporary'' \<or> str_contains lower ''try again'')"

definition trimToSentence :: "string \<Rightarrow> nat \<Rightarrow> string" where
  "trimToSentence s m =
     (let s = TrimSpace s;
          cut = length (takeWhile (\<lambda>c. c \<noteq> CHR ''.'' \<and> c \<noteq> CHR 0x0A) s)
      in take m (if 0 < cut \<and> cut < length s then take cut s else s))"

fun last_rows_shown :: "string list \<Rightarrow> nat \<Rightarrow> string list \<Rightarrow> string list" where
  "last_rows_shown lines 0 seen = seen"
| "last_rows_shown lines (Suc i) seen =
     (if 6 \<le> length seen then seen
      else if blank (lines ! i) \<or> isRule (lines ! i) then last_rows_shown lines i seen
      else last_rows_shown lines i (TrimSpace (lines ! i) # seen))"

text \<open>
  \<open>lastTurnFailed\<close>: the position of the banner is found in the lower-cased text and used to cut the
  text itself, which panics when it lies beyond its end.
\<close>

definition turn_text :: "screen \<Rightarrow> string" where
  "turn_text s = join '' '' (last_rows_shown (sc_lines s) (content_end s) [])"

definition lastTurnFailed :: "golib \<Rightarrow> screen \<Rightarrow> turn_end option option" where
  "lastTurnFailed lib s =
     (let joined = turn_text s;
          lower = ToLower lib joined
      in case str_index lower ''api error'' of
           None \<Rightarrow> Some None
         | Some k \<Rightarrow>
             if length joined < k then None
             else Some (Some \<lparr>te_outcome = ''failed'', te_reason = trimToSentence (drop k joined) 120,
                           te_retryable = retryableWords lower\<rparr>))"

section \<open>Classification\<close>

definition screenDigest :: "golib \<Rightarrow> string \<Rightarrow> string" where
  "screenDigest lib raw = take 16 (lib_sha256_hex lib raw)"

definition composerTextDigest :: "golib \<Rightarrow> string \<Rightarrow> string" where
  "composerTextDigest lib pending = screenDigest lib (collapseSpace pending)"

definition legacyComposerDigest :: "golib \<Rightarrow> string \<Rightarrow> string" where
  "legacyComposerDigest lib pending = screenDigest lib pending"

definition composerDigestMatches :: "golib \<Rightarrow> string \<Rightarrow> string \<Rightarrow> bool" where
  "composerDigestMatches lib claimed pending =
     (if claimed = [] then False
      else claimed = composerTextDigest lib pending \<or> claimed = legacyComposerDigest lib pending)"

datatype ambiguity = ambNone | ambNoSpinnerEmpty | ambNoSpinnerPending | ambUnrecognisedPrompt

definition read_prompt :: "golib \<Rightarrow> screen \<Rightarrow> session_prompt option" where
  "read_prompt lib s = map_option (\<lambda>p. p\<lparr>sp_kind := classifyPromptKind lib p\<rparr>) (parsePrompt lib s)"

definition prompt_evidence :: "string \<Rightarrow> session_prompt option \<Rightarrow> string" where
  "prompt_evidence opt prompt =
     (if map_option sp_kind prompt = Some ''feedback-review'' then
        ''the runtime is showing its feedback-draft card over the composer, which pushes the composer's closing rule '' @
        ''off the bottom of this pane: nothing can be delivered until a person answers the card (review, send or '' @
        ''dismiss) or the pane is made taller''
      else ''blocked on a prompt awaiting a keypress'' @ (if opt \<noteq> [] then ''; highlighted option: '' @ opt else []))"

definition unrecognised :: "screen \<Rightarrow> session_prompt option \<Rightarrow> bool" where
  "unrecognised s prompt =
     (case prompt of
        None \<Rightarrow> False
      | Some p \<Rightarrow> sp_kind p = [] \<and> \<not> promptFooterPresent s \<and> \<not> reviewScreenPrompt p)"

definition waiting_prompt :: "golib \<Rightarrow> screen \<Rightarrow> string \<Rightarrow> session_state \<times> ambiguity" where
  "waiting_prompt lib s opt =
     (let prompt = read_prompt lib s
      in ((InferredState ''waiting_input'' (prompt_evidence opt prompt) None)
            \<lparr>st_waiting_on := ''prompt'', st_prompt := prompt\<rparr>,
          if unrecognised s prompt then ambUnrecognisedPrompt else ambNone))"

definition quota_blocked :: "string \<Rightarrow> session_state" where
  "quota_blocked hint =
     (InferredState ''quota_blocked'' (''blocked by a usage limit'' @ (if hint \<noteq> [] then ''; resets '' @ hint else [])) None)
       \<lparr>st_quota := Some \<lparr>qb_since = zero_time, qb_reset_hint = hint\<rparr>\<rparr>"

text \<open>The status line against the composer, once no prompt, limit, card or panel is on the screen.\<close>

definition classify_composer :: "golib \<Rightarrow> screen \<Rightarrow> bool \<Rightarrow> (session_state \<times> ambiguity) option" where
  "classify_composer lib s young =
     (case (spinner lib s, composerText s) of
        (Some True, _) \<Rightarrow> Some (InferredState ''working'' ''spinner line in running form'' None, ambNone)
      | (Some False, Holds pending) \<Rightarrow>
          if pending \<noteq> [] then
            Some ((InferredState ''waiting_input'' ''turn finished; composer holds unsent input'' None)
                    \<lparr>st_waiting_on := ''unsent-input'', st_composer_digest := composerTextDigest lib pending\<rparr>, ambNone)
          else
            map_option (\<lambda>failed.
                (let st = InferredState ''idle'' ''spinner line in finished form; composer empty'' None
                 in case failed of
                      None \<Rightarrow> st
                    | Some turn \<Rightarrow>
                        st\<lparr>st_last_turn := Some turn,
                           st_evidence := ''turn ended in an error; session is up and will accept input''\<rparr>, ambNone))
              (lastTurnFailed lib s)
      | (Some False, Clipped) \<Rightarrow>
          Some (UnknownState ''inferred''
            (''turn finished; composer '' @ composerClippedCause s @ '', cannot confirm it is empty''), ambNone)
      | (Some False, HasNone) \<Rightarrow>
          Some (UnknownState ''inferred''
            (''turn finished; no composer found in the pane, cannot confirm the session will '' @
             ''take input (a full-screen interface has none of its own to paint)''), ambNone)
      | (None, Clipped) \<Rightarrow>
          Some (UnknownState ''inferred''
            (''no spinner line; composer '' @ composerClippedCause s @ '', cannot confirm it is empty''), ambNone)
      | (None, Holds pending) \<Rightarrow>
          if pending = [] then
            Some (if young then (InferredState ''idle'' ''interface painted, composer empty, no turn yet'' None, ambNone)
                  else (UnknownState ''inferred'' ''no spinner line; composer present and empty'', ambNoSpinnerEmpty))
          else
            Some ((UnknownState ''inferred'' ''no spinner line; composer holds unsent input'')
                    \<lparr>st_composer_digest := composerTextDigest lib pending\<rparr>, ambNoSpinnerPending)
      | (None, HasNone) \<Rightarrow>
          Some (if young then (InferredState ''starting'' ''no TUI composer yet; session is young enough to still be starting'' None, ambNone)
                else (UnknownState ''inferred''
                  (''no TUI composer found in pane; this may be a full-screen interface '' @
                   ''with no composer of its own (a dialog, for one), or the pane may '' @
                   ''not be running the expected runtime '' @ em_dash @ '' composer absence alone '' @
                   ''cannot tell those apart''), ambNone)))"

definition classify_screen :: "golib \<Rightarrow> screen \<Rightarrow> bool \<Rightarrow> (session_state \<times> ambiguity) option" where
  "classify_screen lib s young =
     (if sc_lines s = [] then Some (UnknownState ''inferred'' ''pane captured empty'', ambNone)
      else case selectionPrompt lib s of
          Some opt \<Rightarrow> Some (waiting_prompt lib s opt)
        | None \<Rightarrow>
            (case usageLimit lib s of
               (hint, True) \<Rightarrow> Some (quota_blocked hint, ambNone)
             | (_, False) \<Rightarrow>
                 (case liveFeedbackCard s of
                    Some c \<Rightarrow>
                      if \<not> fc_composer_found c \<and> \<not> answerable c
                      then Some (UnknownState ''inferred'' (card_evidence c), ambNone)
                      else if liveFeedbackPanel s \<noteq> None
                      then Some (UnknownState ''inferred'' feedbackPanelEvidence, ambNone)
                      else classify_composer lib s young
                  | None \<Rightarrow>
                      if liveFeedbackPanel s \<noteq> None
                      then Some (UnknownState ''inferred'' feedbackPanelEvidence, ambNone)
                      else classify_composer lib s young)))"

text \<open>The deferred stamp of the footer's facts on whatever was returned.\<close>

definition stamp_footer :: "golib \<Rightarrow> screen \<Rightarrow> session_state \<Rightarrow> session_state" where
  "stamp_footer lib s st =
     st\<lparr>st_control_channel := controlChannelOf lib s, st_permission_mode := permissionModeOf lib s,
        st_warnings := warningsOf lib s\<rparr>"

definition classifyAgedDetailVisible ::
    "golib \<Rightarrow> string \<Rightarrow> int \<Rightarrow> bool \<Rightarrow> bool \<Rightarrow> (session_state \<times> ambiguity) option" where
  "classifyAgedDetailVisible lib raw paneHeight alive young =
     (if \<not> alive then Some (InferredState ''dead'' ''pane process not present in process table'' None, ambNone)
      else let s = newScreenVisible raw paneHeight
        in map_option (\<lambda>(st, amb). (stamp_footer lib s st, amb)) (classify_screen lib s young))"

definition classifyAged :: "golib \<Rightarrow> string \<Rightarrow> bool \<Rightarrow> bool \<Rightarrow> session_state option" where
  "classifyAged lib raw alive young = map_option fst (classifyAgedDetailVisible lib raw 0 alive young)"

section \<open>Two readings of one screen\<close>

record pane_memory =
  pm_known :: bool
  pm_digest :: string
  pm_at :: timestamp

definition spinnerPaintGrace :: duration where
  "spinnerPaintGrace = 2 * second"

text \<open>The screen is the one remembered, for at least the time a spinner needs to be painted.\<close>

definition unchanged :: "pane_memory \<Rightarrow> string \<Rightarrow> timestamp \<Rightarrow> bool" where
  "unchanged prior digest now \<longleftrightarrow>
     pm_known prior \<and> pm_digest prior = digest \<and> spinnerPaintGrace \<le> time_sub now (pm_at prior)"

definition resolveUnrecognisedPrompt :: "session_state \<Rightarrow> pane_memory \<Rightarrow> string \<Rightarrow> timestamp \<Rightarrow> session_state" where
  "resolveUnrecognisedPrompt st prior digest now =
     (if pm_known prior \<and> pm_digest prior = digest \<and> time_sub now (pm_at prior) \<ge> spinnerPaintGrace then st
      else UnknownState ''inferred''
        (''screen shows what looks like a selection prompt, but its kind was not '' @
         ''recognised and no runtime footer corroborates it; treated as '' @
         ''unrecognised evidence (#58) rather than a confident prompt until it '' @ ''is seen unchanged''))"

definition resolveAmbiguity ::
    "golib \<Rightarrow> session_state \<Rightarrow> ambiguity \<Rightarrow> pane_memory \<Rightarrow> string \<Rightarrow> timestamp \<Rightarrow> session_state" where
  "resolveAmbiguity lib st amb prior digest now =
     (if amb = ambUnrecognisedPrompt then resolveUnrecognisedPrompt st prior digest now
      else if amb = ambNone \<or> \<not> pm_known prior \<or> pm_digest prior \<noteq> digest then st
      else let stable = time_sub now (pm_at prior)
        in if stable < spinnerPaintGrace then st
           else let age = lib_show_duration lib stable
             in case amb of
                  ambNoSpinnerEmpty \<Rightarrow>
                    st\<lparr>st_status := ''idle'', st_confidence := ''inferred'',
                       st_evidence := ''no spinner, and the screen is unchanged after '' @ age @ '' '' @ em_dash @
                         '' a turn that had just begun would have painted one by now''\<rparr>
                | ambNoSpinnerPending \<Rightarrow>
                    st\<lparr>st_status := ''waiting_input'', st_confidence := ''inferred'',
                       st_evidence := ''composer holds unsent input; screen unchanged after '' @ age,
                       st_waiting_on := ''unsent-input''\<rparr>
                | _ \<Rightarrow> st)"

record pane_capture =
  pc_text :: string
  pc_height :: int

definition classifyCaptureRemembering ::
    "golib \<Rightarrow> pane_capture \<Rightarrow> bool \<Rightarrow> bool \<Rightarrow> bool \<Rightarrow> pane_memory \<Rightarrow> timestamp \<Rightarrow> (session_state \<times> string) option" where
  "classifyCaptureRemembering lib c captured alive young prior now =
     (if \<not> captured then
        Some (UnknownState ''inferred''
          (''driver failed to capture this pane's screen; this is a driver '' @
           ''malfunction, not an observation about the session''), [])
      else map_option (\<lambda>(st, amb).
          (let digest = screenDigest lib (pc_text c) in (resolveAmbiguity lib st amb prior digest now, digest)))
        (classifyAgedDetailVisible lib (pc_text c) (pc_height c) alive young))"

section \<open>What a verdict rests on\<close>

lemma stamp_footer_sel [simp]:
  "st_status (stamp_footer lib s st) = st_status st" "st_prompt (stamp_footer lib s st) = st_prompt st"
  by (simp_all add: stamp_footer_def)

lemma state_sel [simp]:
  "st_status (InferredState status evidence since) = status" "st_prompt (InferredState status evidence since) = None"
  "st_status (UnknownState conf evidence) = ''unknown''" "st_prompt (UnknownState conf evidence) = None"
  by (simp_all add: InferredState_def UnknownState_def ObservedState_def)

lemma classify_screen_cases:
  assumes "classify_screen lib s young = Some (st, amb)"
  obtains "sc_lines s = []" "st_status st = ''unknown''" "st_prompt st = None" "amb = ambNone"
  | opt where "sc_lines s \<noteq> []" "selectionPrompt lib s = Some opt" "(st, amb) = waiting_prompt lib s opt"
  | hint where "sc_lines s \<noteq> []" "selectionPrompt lib s = None" "usageLimit lib s = (hint, True)" "st = quota_blocked hint" "amb = ambNone"
  | "sc_lines s \<noteq> []" "selectionPrompt lib s = None" "\<not> snd (usageLimit lib s)" "st_status st = ''unknown''" "st_prompt st = None" "amb = ambNone"
    "liveFeedbackPanel s \<noteq> None \<or> (\<exists>c. liveFeedbackCard s = Some c \<and> \<not> fc_composer_found c \<and> \<not> answerable c)"
  | "sc_lines s \<noteq> []" "selectionPrompt lib s = None" "\<not> snd (usageLimit lib s)" "liveFeedbackPanel s = None"
    "classify_composer lib s young = Some (st, amb)"
    "\<not> (\<exists>c. liveFeedbackCard s = Some c \<and> \<not> fc_composer_found c \<and> \<not> answerable c)"
proof -
  let ?stuck = "\<exists>c. liveFeedbackCard s = Some c \<and> \<not> fc_composer_found c \<and> \<not> answerable c"
  show thesis
  proof (cases "sc_lines s = []")
    case True
    then show thesis using assms that(1) by (auto simp: classify_screen_def)
  next
    case ne: False
    show thesis
    proof (cases "selectionPrompt lib s")
      case (Some opt)
      then show thesis using assms ne that(2) by (simp add: classify_screen_def)
    next
      case None
      obtain hint limited where u: "usageLimit lib s = (hint, limited)" by (cases "usageLimit lib s")
      show thesis
      proof (cases limited)
        case True
        then show thesis using assms ne None u that(3) by (simp add: classify_screen_def)
      next
        case False
        have rest: "classify_screen lib s young =
            (if ?stuck then Some (UnknownState ''inferred'' (card_evidence (the (liveFeedbackCard s))), ambNone)
             else if liveFeedbackPanel s \<noteq> None then Some (UnknownState ''inferred'' feedbackPanelEvidence, ambNone)
             else classify_composer lib s young)"
          using ne None u False by (simp add: classify_screen_def del: not_None_eq split: option.split)
        show thesis
        proof (cases "?stuck \<or> liveFeedbackPanel s \<noteq> None")
          case True
          then have "st_status st = ''unknown'' \<and> st_prompt st = None \<and> amb = ambNone"
            using assms rest by (auto split: if_splits)
          then show thesis using that(4) ne None u False True by auto
        next
          case no: False
          then have "classify_composer lib s young = Some (st, amb)" using assms rest by (simp split: if_splits)
          then show thesis using that(5) ne None u False no by (cases "liveFeedbackPanel s") auto
        qed
      qed
    qed
  qed
qed

lemma waiting_prompt_sel:
  assumes "(st, amb) = waiting_prompt lib s opt"
  shows "st_status st = ''waiting_input''" and "amb \<noteq> ambNoSpinnerEmpty" and "amb \<noteq> ambNoSpinnerPending"
    and "st_prompt st = read_prompt lib s" and "amb = ambNone \<longleftrightarrow> \<not> unrecognised s (st_prompt st)"
  using assms by (simp_all add: waiting_prompt_def Let_def split: if_splits)

text \<open>The verdicts of the last stage, by what was read.\<close>

fun composer_verdict :: "bool option \<Rightarrow> composer_reading \<Rightarrow> bool \<Rightarrow> string \<times> ambiguity" where
  "composer_verdict (Some True) c young = (''working'', ambNone)"
| "composer_verdict (Some False) (Holds t) young = (if t = [] then ''idle'' else ''waiting_input'', ambNone)"
| "composer_verdict None (Holds t) young =
     (if t \<noteq> [] then (''unknown'', ambNoSpinnerPending)
      else if young then (''idle'', ambNone) else (''unknown'', ambNoSpinnerEmpty))"
| "composer_verdict None HasNone young = (if young then ''starting'' else ''unknown'', ambNone)"
| "composer_verdict r c young = (''unknown'', ambNone)"

lemma classify_composer_verdict:
  assumes "classify_composer lib s young = Some (st, amb)"
  shows "(st_status st, amb) = composer_verdict (spinner lib s) (composerText s) young" and "st_prompt st = None"
proof -
  show "(st_status st, amb) = composer_verdict (spinner lib s) (composerText s) young"
  proof (cases "spinner lib s")
    case None
    then show ?thesis using assms by (cases "composerText s") (auto simp: classify_composer_def split: if_splits)
  next
    case (Some running)
    then show ?thesis using assms
      by (cases running; cases "composerText s") (auto simp: classify_composer_def Let_def split: if_splits option.splits)
  qed
  show "st_prompt st = None"
  proof (cases "spinner lib s")
    case None
    then show ?thesis using assms by (cases "composerText s") (auto simp: classify_composer_def split: if_splits)
  next
    case (Some running)
    then show ?thesis using assms
      by (cases running; cases "composerText s") (auto simp: classify_composer_def Let_def split: if_splits option.splits)
  qed
qed

lemma resolve_none: "resolveAmbiguity lib st ambNone prior digest now = st"
  by (simp add: resolveAmbiguity_def)

lemma resolve_unrecognised:
  "resolveAmbiguity lib st ambUnrecognisedPrompt prior digest now = st \<and> unchanged prior digest now \<or>
   st_status (resolveAmbiguity lib st ambUnrecognisedPrompt prior digest now) = ''unknown'' \<and>
   st_prompt (resolveAmbiguity lib st ambUnrecognisedPrompt prior digest now) = None"
  by (simp add: resolveAmbiguity_def resolveUnrecognisedPrompt_def unchanged_def)

lemma resolve_composer:
  assumes "amb = ambNoSpinnerEmpty \<or> amb = ambNoSpinnerPending"
  shows "st_status (resolveAmbiguity lib st amb prior digest now) =
      (if unchanged prior digest now then (if amb = ambNoSpinnerEmpty then ''idle'' else ''waiting_input'') else st_status st)"
    and "st_prompt (resolveAmbiguity lib st amb prior digest now) = st_prompt st"
  using assms by (auto simp: resolveAmbiguity_def unchanged_def Let_def)

text \<open>The verdict on a capture in terms of the verdict on its screen.\<close>

lemma classify_capture_cases:
  assumes "classifyCaptureRemembering lib c captured alive young prior now = Some (st, d)"
  defines "s \<equiv> newScreenVisible (pc_text c) (pc_height c)" and "dg \<equiv> screenDigest lib (pc_text c)"
  obtains "\<not> captured" "st_status st = ''unknown''" "st_prompt st = None"
  | "captured" "\<not> alive" "st_status st = ''dead''" "st_prompt st = None"
  | st0 amb where "captured" "alive" "classify_screen lib s young = Some (st0, amb)"
      "st = resolveAmbiguity lib (stamp_footer lib s st0) amb prior dg now"
proof -
  show thesis
  proof (cases "captured \<and> alive")
    case True
    then show thesis
      using assms that(3) by (auto simp: classifyCaptureRemembering_def classifyAgedDetailVisible_def Let_def)
  next
    case False
    show thesis
    proof (cases captured)
      case True
      then have "st = InferredState ''dead'' ''pane process not present in process table'' None"
        using assms(1) False by (simp add: classifyCaptureRemembering_def classifyAgedDetailVisible_def Let_def resolve_none)
      then show thesis using that(2) True False by simp
    next
      case no: False
      have "st_status st = ''unknown'' \<and> st_prompt st = None"
        using assms(1) no by (auto simp: classifyCaptureRemembering_def)
      then show thesis using that(1) no by simp
    qed
  qed
qed

lemma quota_blocked_sel [simp]: "st_status (quota_blocked hint) = ''quota_blocked''" "st_prompt (quota_blocked hint) = None"
  by (simp_all add: quota_blocked_def)

lemma composer_verdict_idle:
  "composer_verdict r c young = (''idle'', amb) \<Longrightarrow> c = Holds [] \<and> (r = Some False \<or> r = None \<and> young)"
  "composer_verdict r c young = (status, ambNoSpinnerEmpty) \<Longrightarrow> c = Holds [] \<and> r = None"
  by (induction r c young rule: composer_verdict.induct) (auto split: if_splits)

lemma composer_verdict_amb: "snd (composer_verdict r c young) \<noteq> ambUnrecognisedPrompt"
  by (induction r c young rule: composer_verdict.induct) auto

text \<open>
  C6: The classifier calls a screen idle, the word on which callers deliver input, only when that is
  confirmed: the pane was captured and its process lives, no prompt, limit notice or panel is on the
  screen, the whole composer was read and is empty, and the last turn's status line is in its finished
  form, or the session is young and has had no turn, or the same screen has stood for the two seconds
  in which a turn that had begun would have painted its status line. (A listing may afterwards
  rewrite a session that the classifier called blocked by a limit to idle, when another session of the
  account works or the runtime's record shows a later turn: \<open>List\<close> in \<open>tmux.go\<close>.)
\<close>

theorem idle_is_confirmed:
  assumes "classifyCaptureRemembering lib c captured alive young prior now = Some (st, d)" and "st_status st = ''idle''"
  defines "s \<equiv> newScreenVisible (pc_text c) (pc_height c)"
  shows "captured \<and> alive \<and> selectionPrompt lib s = None \<and> \<not> snd (usageLimit lib s) \<and> liveFeedbackPanel s = None \<and>
    composerText s = Holds [] \<and>
    (spinner lib s = Some False \<or> spinner lib s = None \<and> (young \<or> unchanged prior (screenDigest lib (pc_text c)) now))"
  using assms(1)
proof (cases rule: classify_capture_cases)
  case (3 st0 amb)
  let ?dg = "screenDigest lib (pc_text c)"
  from 3(3) show ?thesis unfolding s_def [symmetric]
  proof (cases rule: classify_screen_cases)
    case (2 opt)
    note w = waiting_prompt_sel [OF 2(3)]
    have "st_status st \<noteq> ''idle''"
    proof (cases amb)
      case ambUnrecognisedPrompt
      then show ?thesis using resolve_unrecognised [of lib "stamp_footer lib s st0" prior ?dg now] w(1) 3(4)
        by (auto simp: s_def)
    qed (use w 3(4) in \<open>auto simp: resolve_none\<close>)
    then show ?thesis using assms(2) by simp
  next
    case 5
    note v = classify_composer_verdict [OF 5(5)]
    have amb: "amb \<noteq> ambUnrecognisedPrompt" using composer_verdict_amb v(1) by (metis snd_conv)
    have "st_status st0 = ''idle'' \<or> amb = ambNoSpinnerEmpty \<and> unchanged prior ?dg now"
      using assms(2) 3(4) amb resolve_composer(1) [of amb lib "stamp_footer lib s st0" prior ?dg now]
      by (cases amb) (auto simp: resolve_none s_def split: if_splits)
    then have "composerText s = Holds [] \<and>
        (spinner lib s = Some False \<or> spinner lib s = None \<and> (young \<or> unchanged prior ?dg now))"
      using v(1) composer_verdict_idle [of "spinner lib s" "composerText s" young] by metis
    then show ?thesis using 5 3(1,2) by blast
  qed (use assms(2) 3(4) in \<open>auto simp: resolve_none\<close>)
qed (use assms(2) in auto)

text \<open>
  C23: A prompt is published only on evidence: its kind is one this driver knows, or the runtime's own
  footer is on the screen, or it is the review of the answers, or the same screen has stood for at
  least two seconds.
\<close>

theorem prompts_are_corroborated:
  assumes "classifyCaptureRemembering lib c captured alive young prior now = Some (st, d)" and "st_prompt st = Some p"
  defines "s \<equiv> newScreenVisible (pc_text c) (pc_height c)"
  shows "captured \<and> alive \<and> st_status st = ''waiting_input'' \<and> read_prompt lib s = Some p \<and>
    (sp_kind p \<noteq> [] \<or> promptFooterPresent s \<or> reviewScreenPrompt p \<or> unchanged prior (screenDigest lib (pc_text c)) now)"
  using assms(1)
proof (cases rule: classify_capture_cases)
  case (3 st0 amb)
  let ?dg = "screenDigest lib (pc_text c)"
  from 3(3) show ?thesis unfolding s_def [symmetric]
  proof (cases rule: classify_screen_cases)
    case (2 opt)
    note w = waiting_prompt_sel [OF 2(3)]
    show ?thesis
    proof (cases amb)
      case ambNone
      then show ?thesis using w 3 assms(2) by (auto simp: resolve_none unrecognised_def s_def)
    next
      case ambUnrecognisedPrompt
      then show ?thesis
        using resolve_unrecognised [of lib "stamp_footer lib s st0" prior ?dg now] w 3 assms(2) by (auto simp: s_def)
    qed (use w in auto)
  next
    case 5
    note v = classify_composer_verdict [OF 5(5)]
    have amb: "amb \<noteq> ambUnrecognisedPrompt" using composer_verdict_amb v(1) by (metis snd_conv)
    have "st_prompt st = None"
      using 3(4) amb v(2) resolve_composer(2) [of amb lib "stamp_footer lib s st0" prior ?dg now]
      by (cases amb) (auto simp: resolve_none s_def)
    then show ?thesis using assms(2) by simp
  qed (use assms(2) 3(4) in \<open>auto simp: resolve_none\<close>)
qed (use assms(2) in auto)

text \<open>
  Reading a screen always gives a verdict unless lower-casing makes the rows above the composer
  longer: nothing else on a screen, and no history of it, makes the reader fail.
\<close>

theorem classification_answers:
  assumes "length (ToLower lib (turn_text (newScreenVisible (pc_text c) (pc_height c)))) \<le>
    length (turn_text (newScreenVisible (pc_text c) (pc_height c)))"
  shows "\<exists>st d. classifyCaptureRemembering lib c captured alive young prior now = Some (st, d)"
proof -
  let ?s = "newScreenVisible (pc_text c) (pc_height c)"
  have turn: "lastTurnFailed lib ?s \<noteq> None"
  proof (cases "str_index (ToLower lib (turn_text ?s)) ''api error''")
    case (Some k)
    then have "k \<le> length (turn_text ?s)" using str_index_SomeD [OF Some] assms by simp
    then show ?thesis using Some by (simp add: lastTurnFailed_def Let_def)
  qed (simp add: lastTurnFailed_def Let_def)
  have "classify_composer lib ?s young \<noteq> None"
  proof (cases "spinner lib ?s")
    case None
    then show ?thesis by (cases "composerText ?s") (auto simp: classify_composer_def)
  next
    case (Some running)
    then show ?thesis using turn
      by (cases running; cases "composerText ?s") (auto simp: classify_composer_def)
  qed
  then have "classify_screen lib ?s young \<noteq> None"
    by (auto simp: classify_screen_def split: option.splits prod.splits bool.splits)
  then show ?thesis
    by (auto simp: classifyCaptureRemembering_def classifyAgedDetailVisible_def Let_def)
qed

section \<open>Demonstrations\<close>

definition demo_lib :: golib where
  "demo_lib = \<lparr>uc_symbol = (\<lambda>r. r = 0x273B), uc_punct = (\<lambda>r. False), uc_upper = in_range 65 90, uc_letter = in_range 65 122,
     uc_digit = in_range 48 57, uc_lower = (\<lambda>r. if in_range 65 90 r then r + 32 else if r = 0x23A then 0x2C65 else r),
     lib_sha256_hex = take 4, lib_show_duration = (\<lambda>d. show_int (d div second) @ ''s'')\<rparr>"

definition finished_line :: string where
  "finished_line = [CHR 0xE2, CHR 0x9C, CHR 0xBB] @ '' Worked for 2s''"

definition capture :: "string list \<Rightarrow> pane_capture" where
  "capture rows = \<lparr>pc_text = paint rows, pc_height = 0\<rparr>"

definition demo_idle :: pane_capture where
  "demo_idle = capture ([finished_line, demo_rule] @ composer_rows [] @ [demo_rule])"

text \<open>A capital whose lower-case form is one byte longer, twelve times, before a banner.\<close>

definition demo_banner :: string where
  "demo_banner = concat (replicate 12 [CHR 0xC8, CHR 0xBA]) @ '' api error''"

definition demo_failed :: pane_capture where
  "demo_failed = capture ([finished_line, demo_banner, demo_rule] @ composer_rows [] @ [demo_rule])"

definition demo_prompt :: pane_capture where
  "demo_prompt = capture [''Ready?'', composerRuneMarker @ '' 1. Yes'', ''  2. No'']"

definition remembered :: "pane_capture \<Rightarrow> pane_memory" where
  "remembered c = \<lparr>pm_known = True, pm_digest = screenDigest demo_lib (pc_text c), pm_at = 0\<rparr>"

definition no_memory :: pane_memory where
  "no_memory = \<lparr>pm_known = False, pm_digest = [], pm_at = zero_time\<rparr>"

definition shown :: "pane_capture \<Rightarrow> screen" where
  "shown c = newScreenVisible (pc_text c) (pc_height c)"

definition verdict :: "pane_capture \<Rightarrow> pane_memory \<Rightarrow> (session_state \<times> string) option" where
  "verdict c prior = classifyCaptureRemembering demo_lib c True True False prior (3 * second)"

lemma verdict_eq:
  "verdict c prior =
     map_option (\<lambda>(st, amb). (resolveAmbiguity demo_lib (stamp_footer demo_lib (shown c) st) amb prior
          (screenDigest demo_lib (pc_text c)) (3 * second), screenDigest demo_lib (pc_text c)))
       (classify_screen demo_lib (shown c) False)"
  by (cases "classify_screen demo_lib (shown c) False")
    (auto simp: verdict_def shown_def classifyCaptureRemembering_def classifyAgedDetailVisible_def Let_def)

lemma classify_reads_composer:
  assumes "sc_lines s \<noteq> []" and "selectionPrompt lib s = None" and "usageLimit lib s = ([], False)"
    and "liveFeedbackCard s = None" and "liveFeedbackPanel s = None"
  shows "classify_screen lib s young = classify_composer lib s young"
  using assms by (simp add: classify_screen_def)

lemma demo_idle_read:
  "sc_lines (shown demo_idle) = [finished_line, demo_rule] @ composer_rows [] @ [demo_rule]"
  "selectionPrompt demo_lib (shown demo_idle) = None" "usageLimit demo_lib (shown demo_idle) = ([], False)"
  "liveFeedbackCard (shown demo_idle) = None" "liveFeedbackPanel (shown demo_idle) = None"
  "spinner demo_lib (shown demo_idle) = Some False" "composerText (shown demo_idle) = Holds []"
  "turn_text (shown demo_idle) = finished_line"
  by code_simp+

lemma demo_failed_read:
  "sc_lines (shown demo_failed) = [finished_line, demo_banner, demo_rule] @ composer_rows [] @ [demo_rule]"
  "selectionPrompt demo_lib (shown demo_failed) = None" "usageLimit demo_lib (shown demo_failed) = ([], False)"
  "liveFeedbackCard (shown demo_failed) = None" "liveFeedbackPanel (shown demo_failed) = None"
  "spinner demo_lib (shown demo_failed) = Some False" "composerText (shown demo_failed) = Holds []"
  "lastTurnFailed demo_lib (shown demo_failed) = None"
  by code_simp+

lemma demo_prompt_read:
  "sc_lines (shown demo_prompt) \<noteq> []" "selectionPrompt demo_lib (shown demo_prompt) = Some ''1. Yes''"
  "map_option sp_question (read_prompt demo_lib (shown demo_prompt)) = Some ''Ready?''"
  by code_simp+

lemma demo_lower: "length (ToLower demo_lib finished_line) \<le> length finished_line"
  "lastTurnFailed demo_lib (shown demo_idle) = Some None"
  by code_simp+

lemma demo_idle_classified:
  "classify_screen demo_lib (shown demo_idle) False =
     Some (InferredState ''idle'' ''spinner line in finished form; composer empty'' None, ambNone)"
  using demo_idle_read demo_lower
  by (simp add: classify_reads_composer [OF _ demo_idle_read(2-5)] classify_composer_def)

lemma demo_idle_verdict:
  "\<exists>st d. verdict demo_idle no_memory = Some (st, d) \<and> st_status st = ''idle''"
  by (simp add: verdict_eq demo_idle_classified resolve_none)

lemma idle_is_confirmed_witness:
  "selectionPrompt demo_lib (shown demo_idle) = None \<and> composerText (shown demo_idle) = Holds []"
proof -
  obtain st d where "classifyCaptureRemembering demo_lib demo_idle True True False no_memory (3 * second) = Some (st, d)"
    and "st_status st = ''idle''"
    using demo_idle_verdict by (auto simp: verdict_def)
  from idle_is_confirmed [OF this] show ?thesis by (simp add: shown_def)
qed

lemma demo_prompt_verdict:
  "\<exists>st d p. verdict demo_prompt (remembered demo_prompt) = Some (st, d) \<and> st_prompt st = Some p \<and> sp_question p = ''Ready?''"
proof -
  obtain p where p: "read_prompt demo_lib (shown demo_prompt) = Some p" "sp_question p = ''Ready?''"
    using demo_prompt_read(3) by auto
  obtain st amb where w: "waiting_prompt demo_lib (shown demo_prompt) ''1. Yes'' = (st, amb)" by fastforce
  note sel = waiting_prompt_sel [OF w [symmetric]]
  have c: "classify_screen demo_lib (shown demo_prompt) False = Some (st, amb)"
    using demo_prompt_read(1,2) w by (simp add: classify_screen_def)
  have "unchanged (remembered demo_prompt) (screenDigest demo_lib (pc_text demo_prompt)) (3 * second)"
    by (simp add: unchanged_def remembered_def spinnerPaintGrace_def time_sub_def second_def)
  then have "st_prompt (resolveAmbiguity demo_lib (stamp_footer demo_lib (shown demo_prompt) st) amb (remembered demo_prompt)
      (screenDigest demo_lib (pc_text demo_prompt)) (3 * second)) = Some p"
    using sel p(1)
    by (cases amb) (auto simp: resolve_none resolveAmbiguity_def resolveUnrecognisedPrompt_def unchanged_def)
  then show ?thesis using c p(2) by (simp add: verdict_eq)
qed

lemma prompts_are_corroborated_witness:
  "\<exists>p. read_prompt demo_lib (shown demo_prompt) = Some p \<and> sp_question p = ''Ready?'' \<and>
     (sp_kind p \<noteq> [] \<or> promptFooterPresent (shown demo_prompt) \<or> reviewScreenPrompt p \<or>
      unchanged (remembered demo_prompt) (screenDigest demo_lib (pc_text demo_prompt)) (3 * second))"
proof -
  obtain st d p where v: "classifyCaptureRemembering demo_lib demo_prompt True True False (remembered demo_prompt) (3 * second) = Some (st, d)"
    "st_prompt st = Some p" "sp_question p = ''Ready?''"
    using demo_prompt_verdict by (auto simp: verdict_def)
  from prompts_are_corroborated [OF v(1,2)] v(3) show ?thesis by (auto simp: shown_def)
qed

lemma classification_answers_witness: "\<exists>st d. verdict demo_idle no_memory = Some (st, d)"
  unfolding verdict_def
  by (rule classification_answers) (use demo_lower demo_idle_read(8) in \<open>simp add: shown_def\<close>)

text \<open>The failure that is left: the banner is looked for in a longer text than the one that is cut.\<close>

lemma failed_turn_panics: "verdict demo_failed prior = None"
proof -
  have "classify_screen demo_lib (shown demo_failed) False = None"
    using demo_failed_read
    by (simp add: classify_reads_composer [OF _ demo_failed_read(2-5)] classify_composer_def)
  then show ?thesis by (simp add: verdict_eq)
qed

text \<open>A prompt that is not yet believed is published without the facts its footer showed.\<close>

lemma doubted_prompt_loses_footer:
  assumes "\<not> unchanged prior digest now"
  shows "st_control_channel (resolveAmbiguity lib (stamp_footer lib s st) ambUnrecognisedPrompt prior digest now) = None"
    and "st_permission_mode (resolveAmbiguity lib (stamp_footer lib s st) ambUnrecognisedPrompt prior digest now) = []"
    and "st_warnings (resolveAmbiguity lib (stamp_footer lib s st) ambUnrecognisedPrompt prior digest now) = []"
  using assms
  by (auto simp: resolveAmbiguity_def resolveUnrecognisedPrompt_def unchanged_def UnknownState_def ObservedState_def)

end
