(* ===== verification/Retention.thy ===== *)
theory Retention
  imports Prelude
begin

text \<open>
  The contract of a table whose entries are trusted for a time: a sweep drops what is older and nothing
  else. The driver's idempotency keys, stranded deliveries, delivery marks and futile clears are such
  tables; the theory of each interprets the contract on its own sweep.
\<close>

locale retained =
  fixes table :: "'s \<Rightarrow> (string, 'r) gomap"
    and sweep :: "timestamp \<Rightarrow> 's \<Rightarrow> 's"
    and stamp :: "'r \<Rightarrow> timestamp"
    and keep :: "'s \<Rightarrow> duration"
  assumes sweep_get: "gm_wf (table s) \<Longrightarrow> map_of (table (sweep now s)) k =
      (case map_of (table s) k of None \<Rightarrow> None | Some r \<Rightarrow> if keep s < time_sub now (stamp r) then None else Some r)"
    and sweep_wf: "gm_wf (table s) \<Longrightarrow> gm_wf (table (sweep now s))"
    and sweep_keep: "keep (sweep now s) = keep s"
begin

lemma swept_recent:
  "gm_wf (table s) \<Longrightarrow> map_of (table (sweep now s)) k = Some r \<Longrightarrow> time_sub now (stamp r) \<le> keep s"
  by (auto simp: sweep_get split: option.splits if_splits)

lemma swept_known: "gm_wf (table s) \<Longrightarrow> map_of (table (sweep now s)) k = Some r \<Longrightarrow> map_of (table s) k = Some r"
  by (auto simp: sweep_get split: option.splits if_splits)

lemma sweep_keeps:
  "gm_wf (table s) \<Longrightarrow> map_of (table s) k = Some r \<Longrightarrow> time_sub now (stamp r) \<le> keep s \<Longrightarrow>
    map_of (table (sweep now s)) k = Some r"
  by (simp add: sweep_get)

lemma sweep_twice:
  "gm_wf (table s) \<Longrightarrow> now \<le> now' \<Longrightarrow>
    map_of (table (sweep now' (sweep now s))) k = map_of (table (sweep now' s)) k"
  using time_sub_mono [of now now']
  by (auto simp: sweep_get sweep_wf sweep_keep split: option.split dest: order.strict_trans2)

end

end
