(* ===== verification/DraftRecords.thy ===== *)
theory DraftRecords
  imports Transcript Classify Retention
begin

text \<open>
  What the tmux driver remembers of the texts it put into composers (\<open>tmux.go\<close> 6240-6950,
  \<open>draftrule.go\<close>, the ledger of \<open>route.go\<close>): deliveries stranded in a composer, what is left of
  those that lapsed, inbox messages not yet confirmed, the mark of the last delivery, and clears that
  made no progress. All but the last survive a restart. A text found in a composer may be cleared or
  sent on only if these records prove it to be the driver's own.
\<close>

section \<open>Records\<close>

record stranded_record =
  sd_text :: string
  sd_cwd :: string
  sd_at :: timestamp
  sd_composer_digest :: string
  sd_transcript_path :: string
  sd_transcript_offset :: int
  sd_paste_index :: int
  sd_paste_lines :: int
  sd_paste_landed :: bool
  sd_never_rendered :: bool

record stranded_tombstone =
  tb_text :: string
  tb_cwd :: string
  tb_composer_digest :: string
  tb_at :: timestamp
  tb_provisional :: bool
  tb_transcript_path :: string
  tb_transcript_offset :: int

record unconfirmed_entry =
  ue_key :: string
  ue_cwd :: string
  ue_at :: timestamp
  ue_transcript_path :: string
  ue_transcript_offset :: int
  ue_probe :: inbox_probe
  ue_partial :: bool
  ue_module :: string
  ue_lane_key :: string
  ue_send_id :: string

record delivery_mark =
  mk_cwd :: string
  mk_at :: timestamp
  mk_count :: int
  mk_size :: int

record futile_clear =
  fu_cwd :: string
  fu_residue_digest :: string
  fu_attempts :: nat
  fu_at :: timestamp

record stranded_file =
  sf_records :: "(string, stranded_record) gomap"
  sf_tombstones :: "(string, stranded_tombstone list) gomap"
  sf_unconfirmed :: "(string, unconfirmed_entry list) gomap"

text \<open>
  The driver's memory and its two documents on the disk, \<open>None\<close> before they are first written. A save
  may fail, and its failure is ignored: \<open>dm_disk\<close> says whether saves succeed; \<open>dm_store\<close> whether
  there is a store at all.
\<close>

record draft_memory =
  dm_stranded :: "(string, stranded_record) gomap"
  dm_tombstones :: "(string, stranded_tombstone list) gomap"
  dm_unconfirmed :: "(string, unconfirmed_entry list) gomap"
  dm_delivered :: "(string, delivery_mark) gomap"
  dm_futile :: "(string, futile_clear) gomap"
  dm_store :: bool
  dm_disk :: bool
  dm_stranded_doc :: "stranded_file option"
  dm_delivery_doc :: "(string, delivery_mark) gomap option"

definition strandedRetention :: duration where "strandedRetention = 30 * minute"
definition futileClearRetention :: duration where "futileClearRetention = 30 * minute"
definition deliveryMarkRetention :: duration where "deliveryMarkRetention = 24 * hour"
definition tombstoneRetention :: duration where "tombstoneRetention = 24 * hour"
definition tombstonesPerSession :: nat where "tombstonesPerSession = 8"
definition unconfirmedPerSession :: nat where "unconfirmedPerSession = 8"

section \<open>Documents\<close>

definition saveStrandedLocked :: "draft_memory \<Rightarrow> draft_memory" where
  "saveStrandedLocked d =
     (if \<not> dm_store d \<or> \<not> dm_disk d then d
      else d\<lparr>dm_stranded_doc := Some \<lparr>sf_records = dm_stranded d, sf_tombstones = dm_tombstones d,
             sf_unconfirmed = dm_unconfirmed d\<rparr>\<rparr>)"

definition saveDeliveryLocked :: "draft_memory \<Rightarrow> draft_memory" where
  "saveDeliveryLocked d =
     (if \<not> dm_store d \<or> \<not> dm_disk d then d else d\<lparr>dm_delivery_doc := Some (dm_delivered d)\<rparr>)"

section \<open>Tombstones\<close>

definition newest :: "nat \<Rightarrow> 'a list \<Rightarrow> 'a list" where
  "newest n xs = drop (length xs - n) xs"

definition buryLocked :: "timestamp \<Rightarrow> string \<Rightarrow> stranded_record \<Rightarrow> draft_memory \<Rightarrow> draft_memory" where
  "buryLocked now i rec d =
     d\<lparr>dm_tombstones := gm_put i (newest tombstonesPerSession (the_default [] (map_of (dm_tombstones d) i) @
         [\<lparr>tb_text = sd_text rec, tb_cwd = sd_cwd rec, tb_composer_digest = sd_composer_digest rec, tb_at = now,
           tb_provisional = False, tb_transcript_path = [], tb_transcript_offset = 0\<rparr>])) (dm_tombstones d)\<rparr>"

definition kept_list :: "('a \<Rightarrow> bool) \<Rightarrow> (string, 'a list) gomap \<Rightarrow> (string, 'a list) gomap" where
  "kept_list P m = filter (\<lambda>(i, l). l \<noteq> []) (map (\<lambda>(i, l). (i, filter P l)) m)"

definition sweepTombstonesLocked :: "timestamp \<Rightarrow> draft_memory \<Rightarrow> draft_memory" where
  "sweepTombstonesLocked now d =
     d\<lparr>dm_tombstones := kept_list (\<lambda>t. time_sub now (tb_at t) \<le> tombstoneRetention) (dm_tombstones d)\<rparr>"

section \<open>Stranded records\<close>

definition stranded_lapsed :: "timestamp \<Rightarrow> stranded_record \<Rightarrow> bool" where
  "stranded_lapsed now rec = (time_sub now (sd_at rec) > strandedRetention)"

definition sweepStrandedLocked :: "timestamp \<Rightarrow> draft_memory \<Rightarrow> draft_memory" where
  "sweepStrandedLocked now d =
     (fold (\<lambda>(i, rec). buryLocked now i rec) (filter (\<lambda>(i, rec). stranded_lapsed now rec) (dm_stranded d)) d)
       \<lparr>dm_stranded := filter (\<lambda>(i, rec). \<not> stranded_lapsed now rec) (dm_stranded d)\<rparr>"

definition noteStrandedLanding ::
    "timestamp \<Rightarrow> string \<Rightarrow> string \<Rightarrow> string \<Rightarrow> string \<Rightarrow> (string \<times> int) option \<Rightarrow> landing \<Rightarrow> bool \<Rightarrow> draft_memory \<Rightarrow> draft_memory" where
  "noteStrandedLanding now i cwd text composerDigest src l neverRendered d =
     (let d = (case map_of (dm_stranded d) i of
                 Some prior \<Rightarrow> if sd_text prior \<noteq> text \<or> sd_cwd prior \<noteq> cwd then buryLocked now i prior d else d
               | None \<Rightarrow> d);
          marker = (ln_ok l \<and> ln_by l = landedByMarker);
          rec = \<lparr>sd_text = text, sd_cwd = cwd, sd_at = now, sd_composer_digest = composerDigest,
            sd_transcript_path = (case src of Some (p, _) \<Rightarrow> p | None \<Rightarrow> []),
            sd_transcript_offset = (case src of Some (_, off) \<Rightarrow> off | None \<Rightarrow> 0),
            sd_paste_index = (if marker then pk_index (ln_key l) else 0),
            sd_paste_lines = (if marker then pk_lines (ln_key l) else 0),
            sd_paste_landed = marker, sd_never_rendered = neverRendered\<rparr>
      in saveStrandedLocked (d\<lparr>dm_stranded := gm_put i rec (dm_stranded d)\<rparr>))"

definition noteStrandedWithTranscript ::
    "timestamp \<Rightarrow> string \<Rightarrow> string \<Rightarrow> string \<Rightarrow> string \<Rightarrow> (string \<times> int) option \<Rightarrow> draft_memory \<Rightarrow> draft_memory" where
  "noteStrandedWithTranscript now i cwd text digest src d = noteStrandedLanding now i cwd text digest src no_landing False d"

definition noteStranded :: "timestamp \<Rightarrow> string \<Rightarrow> string \<Rightarrow> string \<Rightarrow> string \<Rightarrow> draft_memory \<Rightarrow> draft_memory" where
  "noteStranded now i cwd text digest d = noteStrandedWithTranscript now i cwd text digest None d"

definition sd_paste_key :: "stranded_record \<Rightarrow> paste_key" where
  "sd_paste_key r = \<lparr>pk_index = sd_paste_index r, pk_lines = sd_paste_lines r\<rparr>"

definition strandedRecordFor :: "timestamp \<Rightarrow> string \<Rightarrow> string \<Rightarrow> draft_memory \<Rightarrow> stranded_record option \<times> draft_memory" where
  "strandedRecordFor now i cwd d =
     (let d = sweepStrandedLocked now d
      in (case map_of (dm_stranded d) i of
            Some prior \<Rightarrow> if sd_cwd prior \<noteq> cwd then None else Some prior
          | None \<Rightarrow> None, d))"

definition strandedMatches :: "timestamp \<Rightarrow> string \<Rightarrow> string \<Rightarrow> string \<Rightarrow> draft_memory \<Rightarrow> bool \<times> draft_memory" where
  "strandedMatches now i cwd text d =
     (let d = sweepStrandedLocked now d
      in (case map_of (dm_stranded d) i of Some prior \<Rightarrow> sd_text prior = text \<and> sd_cwd prior = cwd | None \<Rightarrow> False, d))"

definition terminalUnconfirmed :: "timestamp \<Rightarrow> string \<Rightarrow> string \<Rightarrow> draft_memory \<Rightarrow> bool \<times> draft_memory" where
  "terminalUnconfirmed now i labelled d =
     (let d = sweepStrandedLocked now d
      in (case map_of (dm_stranded d) i of Some rec \<Rightarrow> sd_text rec = labelled | None \<Rightarrow> False, d))"

definition forgetStranded :: "string \<Rightarrow> draft_memory \<Rightarrow> draft_memory" where
  "forgetStranded i d = saveStrandedLocked (d\<lparr>dm_stranded := gm_del i (dm_stranded d)\<rparr>)"

definition noteProvisional :: "timestamp \<Rightarrow> string \<Rightarrow> string \<Rightarrow> string \<Rightarrow> (string \<times> int) option \<Rightarrow> draft_memory \<Rightarrow> draft_memory" where
  "noteProvisional now i cwd text src d =
     (let t = \<lparr>tb_text = text, tb_cwd = cwd, tb_composer_digest = [], tb_at = now, tb_provisional = True,
            tb_transcript_path = (case src of Some (p, _) \<Rightarrow> p | None \<Rightarrow> []),
            tb_transcript_offset = (case src of Some (_, off) \<Rightarrow> off | None \<Rightarrow> 0)\<rparr>;
          old = filter (\<lambda>b. \<not> (tb_provisional b \<and> tb_cwd b = cwd \<and> tb_text b = text)) (the_default [] (map_of (dm_tombstones d) i))
      in saveStrandedLocked (d\<lparr>dm_tombstones := gm_put i (newest tombstonesPerSession (old @ [t])) (dm_tombstones d)\<rparr>))"

section \<open>Proof that a draft is the driver's own\<close>

definition expectProves :: "golib \<Rightarrow> string \<Rightarrow> string \<Rightarrow> bool" where
  "expectProves lib expect pending = (expect \<noteq> [] \<and> composerDigestMatches lib expect pending)"

definition recordProves :: "golib \<Rightarrow> stranded_record \<Rightarrow> string \<Rightarrow> screen \<Rightarrow> bool" where
  "recordProves lib rec pending sc \<longleftrightarrow>
     composerDigestMatches lib (sd_composer_digest rec) pending \<or> composerMatchesText sc (sd_text rec) False"

text \<open>
  The transcripts a driver reads: the lines of a file from an offset, and how they decode.
\<close>

record transcripts =
  tr_parse :: "string \<Rightarrow> json_map option"
  tr_tail :: "string \<Rightarrow> int \<Rightarrow> transcript_tail"

definition tombstone_proves :: "golib \<Rightarrow> transcripts \<Rightarrow> string \<Rightarrow> string \<Rightarrow> screen \<Rightarrow> stranded_tombstone \<Rightarrow> bool" where
  "tombstone_proves lib tr cwd pending sc t \<longleftrightarrow>
     tb_cwd t = cwd \<and>
     (composerDigestMatches lib (tb_composer_digest t) pending \<or> composerMatchesText sc (tb_text t) False) \<and>
     \<not> (tb_provisional t \<and> tb_transcript_path t \<noteq> [] \<and>
        transcriptUserTurnSince (tr_parse tr) (tr_tail tr (tb_transcript_path t) (tb_transcript_offset t)) (tb_text t))"

definition tombstoneProvesKind ::
    "golib \<Rightarrow> transcripts \<Rightarrow> timestamp \<Rightarrow> string \<Rightarrow> string \<Rightarrow> string \<Rightarrow> screen \<Rightarrow> draft_memory \<Rightarrow> (bool \<times> bool) \<times> draft_memory" where
  "tombstoneProvesKind lib tr now i cwd pending sc d =
     (let d = sweepTombstonesLocked now d
      in (case find (tombstone_proves lib tr cwd pending sc) (the_default [] (map_of (dm_tombstones d) i)) of
            None \<Rightarrow> (False, False) | Some t \<Rightarrow> (True, tb_provisional t), d))"

definition tombstoneProves ::
    "golib \<Rightarrow> transcripts \<Rightarrow> timestamp \<Rightarrow> string \<Rightarrow> string \<Rightarrow> string \<Rightarrow> screen \<Rightarrow> draft_memory \<Rightarrow> bool \<times> draft_memory" where
  "tombstoneProves lib tr now i cwd pending sc d =
     (case tombstoneProvesKind lib tr now i cwd pending sc d of ((ok, _), d) \<Rightarrow> (ok, d))"

definition ownDeliveryLocked ::
    "golib \<Rightarrow> transcripts \<Rightarrow> timestamp \<Rightarrow> string \<Rightarrow> string \<Rightarrow> screen option \<Rightarrow> draft_memory \<Rightarrow> bool \<times> draft_memory" where
  "ownDeliveryLocked lib tr now i cwd captured d =
     (case captured of
        None \<Rightarrow> (False, d)
      | Some sc \<Rightarrow>
          (case composerText sc of
             Holds pending \<Rightarrow>
               if pending = [] then (False, d)
               else
                 let d = sweepStrandedLocked now d
                 in (case map_of (dm_stranded d) i of
                       Some rec \<Rightarrow>
                         if sd_cwd rec = cwd \<and> recordProves lib rec pending sc then (True, d)
                         else tombstoneProves lib tr now i cwd pending sc d
                     | None \<Rightarrow> tombstoneProves lib tr now i cwd pending sc d)
           | _ \<Rightarrow> (False, d)))"

datatype draft_proof = proofNone | proofRecord | proofTombstone | proofExpect

definition mayClearUnrecorded ::
    "golib \<Rightarrow> transcripts \<Rightarrow> timestamp \<Rightarrow> string \<Rightarrow> string \<Rightarrow> string \<Rightarrow> screen \<Rightarrow> string \<Rightarrow> draft_memory \<Rightarrow>
       (draft_proof \<times> bool) \<times> draft_memory" where
  "mayClearUnrecorded lib tr now i cwd pending sc expect d =
     (if expectProves lib expect pending then ((proofExpect, False), d)
      else case tombstoneProves lib tr now i cwd pending sc d of
          (ok, d) \<Rightarrow> ((if ok then (proofTombstone, False) else (proofNone, expect \<noteq> [])), d))"

section \<open>The ledger of unconfirmed inbox messages\<close>

definition noteUnconfirmed :: "timestamp \<Rightarrow> string \<Rightarrow> unconfirmed_entry \<Rightarrow> draft_memory \<Rightarrow> draft_memory" where
  "noteUnconfirmed now i e d =
     (let others = filter (\<lambda>old. ue_key old \<noteq> ue_key e) (the_default [] (map_of (dm_unconfirmed d) i))
      in saveStrandedLocked (d\<lparr>dm_unconfirmed :=
           gm_put i (newest unconfirmedPerSession (others @ [e\<lparr>ue_at := now\<rparr>])) (dm_unconfirmed d)\<rparr>))"

definition sweepUnconfirmedLocked :: "timestamp \<Rightarrow> draft_memory \<Rightarrow> draft_memory" where
  "sweepUnconfirmedLocked now d =
     d\<lparr>dm_unconfirmed := filter (\<lambda>(i, l). l \<noteq> [] \<or> map_of (dm_unconfirmed d) i = Some [])
         (map (\<lambda>(i, l). (i, filter (\<lambda>e. time_sub now (ue_at e) \<le> strandedRetention) l)) (dm_unconfirmed d))\<rparr>"

definition unconfirmedFor :: "timestamp \<Rightarrow> string \<Rightarrow> string \<Rightarrow> draft_memory \<Rightarrow> unconfirmed_entry option \<times> draft_memory" where
  "unconfirmedFor now i key d =
     (let d = sweepUnconfirmedLocked now d
      in (find (\<lambda>e. ue_key e = key) (the_default [] (map_of (dm_unconfirmed d) i)), d))"

definition dropUnconfirmed :: "string \<Rightarrow> string \<Rightarrow> draft_memory \<Rightarrow> draft_memory" where
  "dropUnconfirmed i key d =
     (let l = the_default [] (map_of (dm_unconfirmed d) i);
          kept = filter (\<lambda>e. ue_key e \<noteq> key) l
      in if length kept = length l then d
         else saveStrandedLocked (d\<lparr>dm_unconfirmed :=
           (if kept = [] then gm_del i (dm_unconfirmed d) else gm_put i kept (dm_unconfirmed d))\<rparr>))"

section \<open>Marks and futile clears\<close>

definition noteFutile :: "timestamp \<Rightarrow> string \<Rightarrow> string \<Rightarrow> string \<Rightarrow> draft_memory \<Rightarrow> draft_memory" where
  "noteFutile now i cwd residueDigest d =
     (let attempts = (case map_of (dm_futile d) i of
            Some prior \<Rightarrow> if fu_cwd prior = cwd \<and> fu_residue_digest prior = residueDigest then fu_attempts prior + 1 else 1
          | None \<Rightarrow> 1)
      in d\<lparr>dm_futile := gm_put i \<lparr>fu_cwd = cwd, fu_residue_digest = residueDigest, fu_attempts = attempts, fu_at = now\<rparr>
             (dm_futile d)\<rparr>)"

definition sweepFutileLocked :: "timestamp \<Rightarrow> draft_memory \<Rightarrow> draft_memory" where
  "sweepFutileLocked now d =
     d\<lparr>dm_futile := filter (\<lambda>(i, r). \<not> time_sub now (fu_at r) > futileClearRetention) (dm_futile d)\<rparr>"

definition futileClearAttempts :: "timestamp \<Rightarrow> string \<Rightarrow> string \<Rightarrow> string \<Rightarrow> draft_memory \<Rightarrow> nat \<times> draft_memory" where
  "futileClearAttempts now i cwd residueDigest d =
     (let d = sweepFutileLocked now d
      in (case map_of (dm_futile d) i of
            Some prior \<Rightarrow> if fu_cwd prior \<noteq> cwd \<or> fu_residue_digest prior \<noteq> residueDigest then 0 else fu_attempts prior
          | None \<Rightarrow> 0, d))"

definition forgetFutile :: "string \<Rightarrow> draft_memory \<Rightarrow> draft_memory" where
  "forgetFutile i d = d\<lparr>dm_futile := gm_del i (dm_futile d)\<rparr>"

definition noteDelivery :: "timestamp \<Rightarrow> string \<Rightarrow> string \<Rightarrow> draft_memory \<Rightarrow> draft_memory" where
  "noteDelivery now i cwd d =
     saveDeliveryLocked (d\<lparr>dm_delivered := gm_put i \<lparr>mk_cwd = cwd, mk_at = now, mk_count = 0, mk_size = 0\<rparr> (dm_delivered d)\<rparr>)"

definition sweepDeliveryLocked :: "timestamp \<Rightarrow> draft_memory \<Rightarrow> draft_memory" where
  "sweepDeliveryLocked now d =
     d\<lparr>dm_delivered := filter (\<lambda>(i, r). \<not> time_sub now (mk_at r) > deliveryMarkRetention) (dm_delivered d)\<rparr>"

definition deliveryMarkFor :: "timestamp \<Rightarrow> string \<Rightarrow> string \<Rightarrow> draft_memory \<Rightarrow> delivery_mark option \<times> draft_memory" where
  "deliveryMarkFor now i cwd d =
     (let d = sweepDeliveryLocked now d
      in (case map_of (dm_delivered d) i of
            Some prior \<Rightarrow> if mk_cwd prior \<noteq> cwd then None else Some prior
          | None \<Rightarrow> None, d))"

definition updateDeliveryMarkCount :: "string \<Rightarrow> string \<Rightarrow> timestamp \<Rightarrow> int \<Rightarrow> int \<Rightarrow> draft_memory \<Rightarrow> draft_memory" where
  "updateDeliveryMarkCount i cwd at count sz d =
     (case map_of (dm_delivered d) i of
        Some prior \<Rightarrow>
          if mk_cwd prior \<noteq> cwd \<or> mk_at prior \<noteq> at then d
          else saveDeliveryLocked (d\<lparr>dm_delivered := gm_put i (prior\<lparr>mk_count := count, mk_size := sz\<rparr>) (dm_delivered d)\<rparr>)
      | None \<Rightarrow> d)"

definition forgetDelivery :: "string \<Rightarrow> draft_memory \<Rightarrow> draft_memory" where
  "forgetDelivery i d = saveDeliveryLocked (d\<lparr>dm_delivered := gm_del i (dm_delivered d)\<rparr>)"

section \<open>Renames and restarts\<close>

definition move_key :: "string \<Rightarrow> string \<Rightarrow> (string, 'a) gomap \<Rightarrow> (string, 'a) gomap" where
  "move_key from to m = (case map_of m from of None \<Rightarrow> m | Some r \<Rightarrow> gm_put to r (gm_del from m))"

definition merge_key :: "nat \<Rightarrow> string \<Rightarrow> string \<Rightarrow> (string, 'a list) gomap \<Rightarrow> (string, 'a list) gomap" where
  "merge_key n from to m =
     (case map_of m from of
        None \<Rightarrow> m
      | Some l \<Rightarrow> let m = gm_del from m in gm_put to (newest n (the_default [] (map_of m to) @ l)) m)"

definition rekeySessionState :: "string \<Rightarrow> string \<Rightarrow> draft_memory \<Rightarrow> draft_memory" where
  "rekeySessionState from to d =
     (let d = saveStrandedLocked (d\<lparr>dm_stranded := move_key from to (dm_stranded d),
            dm_tombstones := merge_key tombstonesPerSession from to (dm_tombstones d),
            dm_unconfirmed := merge_key unconfirmedPerSession from to (dm_unconfirmed d)\<rparr>)
      in saveDeliveryLocked (d\<lparr>dm_delivered := move_key from to (dm_delivered d)\<rparr>))"

definition loadStranded :: "timestamp \<Rightarrow> draft_memory \<Rightarrow> draft_memory" where
  "loadStranded now d =
     (case (if dm_store d then dm_stranded_doc d else None) of
        None \<Rightarrow> d
      | Some f \<Rightarrow>
          if sf_records f = [] \<and> sf_tombstones f = [] \<and> sf_unconfirmed f = [] then d
          else saveStrandedLocked (sweepUnconfirmedLocked now (sweepStrandedLocked now (sweepTombstonesLocked now
            (d\<lparr>dm_stranded := sf_records f, dm_tombstones := sf_tombstones f, dm_unconfirmed := sf_unconfirmed f\<rparr>)))))"

definition loadDelivery :: "timestamp \<Rightarrow> draft_memory \<Rightarrow> draft_memory" where
  "loadDelivery now d =
     (case (if dm_store d then dm_delivery_doc d else None) of
        None \<Rightarrow> d
      | Some f \<Rightarrow>
          if f = [] then d else saveDeliveryLocked (sweepDeliveryLocked now (d\<lparr>dm_delivered := f\<rparr>)))"

definition fresh_memory :: "bool \<Rightarrow> draft_memory" where
  "fresh_memory store =
     \<lparr>dm_stranded = [], dm_tombstones = [], dm_unconfirmed = [], dm_delivered = [], dm_futile = [], dm_store = store,
      dm_disk = True, dm_stranded_doc = None, dm_delivery_doc = None\<rparr>"

text \<open>A new process over the documents of the old one.\<close>

definition restart_drafts :: "timestamp \<Rightarrow> draft_memory \<Rightarrow> draft_memory" where
  "restart_drafts now d =
     loadDelivery now (loadStranded now ((fresh_memory (dm_store d))
       \<lparr>dm_disk := dm_disk d, dm_stranded_doc := dm_stranded_doc d, dm_delivery_doc := dm_delivery_doc d\<rparr>))"

end
