(* ===== verification/PaneWorld.thy ===== *)
theory PaneWorld
  imports DraftRecords "HOL-Library.State_Monad"
begin

text \<open>
  The world a delivery acts in, and what it may ask of it. Every question to the multiplexer, the process
  table, the clock or the file system and every key it presses is an event with its answer; the world is a
  record of functions that answer from the events so far, so it may answer anything, change between any
  two questions and react to what was typed. Operations are state monads over the events, the driver's
  memory of drafts and the trace of the delivery (\<open>captureForClassify\<close>, \<open>foreground.go\<close>,
  \<open>pasteBracketed\<close> of \<open>terminalpath2.go\<close>). The last section is a small calculus of weakest
  preconditions for them.
\<close>

section \<open>Events and the world\<close>

datatype event =
    Listed bool
  | Captured string "screen option"
  | Clock timestamp
  | Slept duration bool
  | Cancelled bool
  | Preempted bool
  | Foreground string bool
  | PasteFlag string "string option"
  | Staged bool
  | Pasted string string bool
  | Keys string "string list" bool
  | Source "(string \<times> int) option"
  | Scanned scan_result bool bool

type_synonym events = "event list"

record pane_target =
  pt_session :: string
  pt_pane :: string
  pt_cwd :: string
  pt_created :: timestamp
  pt_dead :: bool

text \<open>
  The events are given latest first. \<open>w_sleep\<close> and \<open>w_cancelled\<close> tell whether the caller's context
  has ended. The fuel is the number of rounds a polling loop is followed for.
\<close>

record world =
  w_lib :: golib
  w_fuel :: nat
  w_enumerate :: "events \<Rightarrow> (pane_target list \<times> (string \<Rightarrow> pane_capture)) option"
  w_nonce :: "events \<Rightarrow> string"
  w_capture :: "events \<Rightarrow> string \<Rightarrow> string \<Rightarrow> string option"
  w_now :: "events \<Rightarrow> timestamp"
  w_sleep :: "events \<Rightarrow> duration \<Rightarrow> bool"
  w_cancelled :: "events \<Rightarrow> bool"
  w_preempted :: "events \<Rightarrow> string \<Rightarrow> bool"
  w_foreground :: "events \<Rightarrow> string \<Rightarrow> string option"
  w_ps :: "events \<Rightarrow> string \<Rightarrow> string option"
  w_paste_flag :: "events \<Rightarrow> string \<Rightarrow> string option"
  w_stage :: "events \<Rightarrow> bool"
  w_paste :: "events \<Rightarrow> string \<Rightarrow> string \<Rightarrow> bool"
  w_keys :: "events \<Rightarrow> string \<Rightarrow> string list \<Rightarrow> bool"
  w_source :: "events \<Rightarrow> string \<Rightarrow> (string \<times> int) option"
  w_transcripts :: "events \<Rightarrow> transcripts"

datatype signal = SignalNone | SignalTranscript | SignalScreen | SignalModule

record send_trace =
  tr_stranded :: bool
  tr_resumed :: bool
  tr_draft_kept :: bool
  tr_busy :: bool
  tr_confirmed_by :: signal

record send_state =
  ss_log :: events
  ss_memory :: draft_memory
  ss_trace :: send_trace
  ss_spent :: bool

type_synonym 'a op = "(send_state, 'a) state"

abbreviation ret :: "'a \<Rightarrow> 'a op" where
  "ret \<equiv> State_Monad.return"

text \<open>One question with its answer.\<close>

definition ask :: "(events \<Rightarrow> 'a) \<Rightarrow> ('a \<Rightarrow> event) \<Rightarrow> 'a op" where
  "ask q mk = State (\<lambda>s. (q (ss_log s), s\<lparr>ss_log := mk (q (ss_log s)) # ss_log s\<rparr>))"

definition observe_log :: "(events \<Rightarrow> 'a) \<Rightarrow> 'a op" where
  "observe_log q = State (\<lambda>s. (q (ss_log s), s))"

definition clock :: "world \<Rightarrow> timestamp op" where
  "clock w = ask (w_now w) Clock"

text \<open>An operation on the driver's memory reads the clock itself.\<close>

definition memory :: "world \<Rightarrow> (timestamp \<Rightarrow> draft_memory \<Rightarrow> 'a \<times> draft_memory) \<Rightarrow> 'a op" where
  "memory w f =
     do {
       now \<leftarrow> clock w;
       State (\<lambda>s. case f now (ss_memory s) of (x, d) \<Rightarrow> (x, s\<lparr>ss_memory := d\<rparr>))
     }"

definition trace :: "(send_trace \<Rightarrow> send_trace) \<Rightarrow> unit op" where
  "trace f = State (\<lambda>s. ((), s\<lparr>ss_trace := f (ss_trace s)\<rparr>))"

text \<open>A polling loop followed for longer than its fuel.\<close>

definition spent :: "unit op" where
  "spent = State (\<lambda>s. ((), s\<lparr>ss_spent := True\<rparr>))"

definition press :: "world \<Rightarrow> string \<Rightarrow> string list \<Rightarrow> bool op" where
  "press w pane ks = ask (\<lambda>l. w_keys w l pane ks) (Keys pane ks)"

text \<open>\<open>if d.now().After(deadline) || ctx.Err() != nil\<close>, and the wait for the next round.\<close>

definition expired :: "world \<Rightarrow> timestamp \<Rightarrow> bool op" where
  "expired w deadline =
     do {
       now \<leftarrow> clock w;
       if deadline < now then ret True else ask (w_cancelled w) Cancelled
     }"

definition wait :: "world \<Rightarrow> duration \<Rightarrow> bool op" where
  "wait w d = ask (\<lambda>l. w_sleep w l d) (Slept d)"

section \<open>Captures\<close>

definition last_line :: "string \<Rightarrow> string \<times> string" where
  "last_line body =
     (let l = rev (takeWhile (\<lambda>c. c \<noteq> CHR 0x0A) (rev body)) in (take (length body - length l) body, l))"

definition splitHeightTrailer :: "string \<Rightarrow> string \<Rightarrow> pane_capture" where
  "splitHeightTrailer out mark =
     (let (rows, lst) = last_line (trim_suffix out [CHR 0x0A])
      in if \<not> has_prefix lst mark then \<lparr>pc_text = out, pc_height = 0\<rparr>
         else \<lparr>pc_text = rows, pc_height =
             (case parse_int64 (TrimSpace (trim_prefix lst mark)) of Some h \<Rightarrow> if 0 < h then h else 0 | None \<Rightarrow> 0)\<rparr>)"

definition capture_screen :: "pane_capture \<Rightarrow> screen" where
  "capture_screen c = newScreenVisible (pc_text c) (pc_height c)"

definition pane_screen :: "world \<Rightarrow> string \<Rightarrow> events \<Rightarrow> screen option" where
  "pane_screen w pane l =
     (let mark = w_nonce w l @ ''H''
      in map_option (\<lambda>out. capture_screen (splitHeightTrailer out mark)) (w_capture w l pane mark))"

definition captureForClassify :: "world \<Rightarrow> string \<Rightarrow> screen option op" where
  "captureForClassify w pane = ask (pane_screen w pane) (Captured pane)"

section \<open>The process in the foreground\<close>

definition interactiveShells :: "string list" where
  "interactiveShells = [''sh'', ''bash'', ''zsh'', ''fish'', ''dash'', ''ksh'', ''mksh'', ''tcsh'', ''csh'', ''nu'',
     ''xonsh'', ''elvish'', ''pwsh'', ''login'']"

text \<open>\<open>path.Base\<close>.\<close>

definition path_base :: "string \<Rightarrow> string" where
  "path_base p =
     (if p = [] then ''.''
      else let q = rev (dropWhile (\<lambda>c. c = CHR ''/'') (rev p))
        in if q = [] then ''/'' else rev (takeWhile (\<lambda>c. c \<noteq> CHR ''/'') (rev q)))"

definition isShellName :: "string \<Rightarrow> bool" where
  "isShellName name = (path_base (trim_prefix (TrimSpace name) ''-'') \<in> set interactiveShells)"

record fg_process =
  fp_pid :: int
  fp_comm :: string
  fp_leader :: bool

definition foreground_line :: "string \<Rightarrow> fg_process option" where
  "foreground_line line =
     (case Fields line of
        pid # pgid # tpgid # comm # comms \<Rightarrow>
          (case (parse_int64 pid, parse_int64 pgid, parse_int64 tpgid) of
             (Some p, Some g, Some t) \<Rightarrow>
               if g \<noteq> t then None
               else Some \<lparr>fp_pid = p, fp_comm = join '' '' (comm # comms), fp_leader = (p = g)\<rparr>
           | _ \<Rightarrow> None)
      | _ \<Rightarrow> None)"

definition parseForegroundGroup :: "string \<Rightarrow> fg_process list" where
  "parseForegroundGroup out = List.map_filter foreground_line (split_on (CHR 0x0A) out)"

definition foregroundGroup :: "(string \<Rightarrow> string option) \<Rightarrow> string \<Rightarrow> fg_process list option" where
  "foregroundGroup ps tty =
     (let tty = trim_prefix (TrimSpace tty) ''/dev/''
      in if tty = [] then None else map_option parseForegroundGroup (ps tty))"

text \<open>\<open>strings.SplitN(s, "|", 3)\<close> when it has three parts: the last two.\<close>

definition split_three :: "string \<Rightarrow> (string \<times> string) option" where
  "split_three s =
     (let p = (\<lambda>c. c \<noteq> CHR ''|'') in
      case dropWhile p s of
        [] \<Rightarrow> None
      | _ # rest \<Rightarrow>
          (case dropWhile p rest of
             [] \<Rightarrow> None
           | _ # command \<Rightarrow> Some (takeWhile p rest, command)))"

datatype foreground_doubt = Unanswered | Unparsed | ShellForeground string | ShellLeader string

text \<open>Why the pane's foreground process may not be typed into; \<open>None\<close> when nothing speaks against it.\<close>

definition foreground_doubt_of :: "string option \<Rightarrow> (string \<Rightarrow> string option) \<Rightarrow> foreground_doubt option" where
  "foreground_doubt_of out ps =
     (case out of
        None \<Rightarrow> Some Unanswered
      | Some answer \<Rightarrow>
          (case split_three (TrimSpace answer) of
             None \<Rightarrow> Some Unparsed
           | Some (tty, command) \<Rightarrow>
               if isShellName command then Some (ShellForeground command)
               else (case foregroundGroup ps tty of
                   None \<Rightarrow> None
                 | Some procs \<Rightarrow>
                     map_option (\<lambda>p. ShellLeader (fp_comm p)) (find (\<lambda>p. fp_leader p \<and> isShellName (fp_comm p)) procs))))"

definition foregroundIsRuntime :: "world \<Rightarrow> pane_target \<Rightarrow> foreground_doubt option op" where
  "foregroundIsRuntime w t =
     ask (\<lambda>l. foreground_doubt_of (w_foreground w l (pt_pane t)) (w_ps w l)) (\<lambda>why. Foreground (pt_pane t) (why = None))"

section \<open>Pasting\<close>

datatype paste_failure = FlagUnknown | FlagOff | StagingFailed | DeliveringFailed

definition bracketPasteFlag :: "world \<Rightarrow> string \<Rightarrow> bool option op" where
  "bracketPasteFlag w pane =
     do {
       out \<leftarrow> ask (\<lambda>l. w_paste_flag w l pane) (PasteFlag pane);
       ret (map_option (\<lambda>out. TrimSpace out = ''1'') out)
     }"

definition pasteBracketed :: "world \<Rightarrow> string \<Rightarrow> string \<Rightarrow> paste_failure option op" where
  "pasteBracketed w pane text =
     do {
       flag \<leftarrow> bracketPasteFlag w pane;
       case flag of
         None \<Rightarrow> ret (Some FlagUnknown)
       | Some False \<Rightarrow> ret (Some FlagOff)
       | Some True \<Rightarrow>
           do {
             staged \<leftarrow> ask (w_stage w) Staged;
             if \<not> staged then ret (Some StagingFailed)
             else do {
               ok \<leftarrow> ask (\<lambda>l. w_paste w l pane (sanitizeForBracketedPaste text)) (Pasted pane (sanitizeForBracketedPaste text));
               ret (if ok then None else Some DeliveringFailed)
             }
           }
     }"

section \<open>Weakest preconditions\<close>

definition wp :: "'a op \<Rightarrow> ('a \<Rightarrow> send_state \<Rightarrow> bool) \<Rightarrow> send_state \<Rightarrow> bool" where
  "wp m Q s = (case run_state m s of (x, s') \<Rightarrow> Q x s')"

named_theorems wp_rules

lemma wp_ret [wp_rules]: "wp (ret x) Q s = Q x s"
  by (simp add: wp_def)

lemma wp_bind [wp_rules]: "wp (m \<bind> f) Q s = wp m (\<lambda>x. wp (f x) Q) s"
  by (simp add: wp_def split: prod.splits)

lemma wp_if [wp_rules]: "wp (if b then m else n) Q s = (if b then wp m Q s else wp n Q s)"
  by simp

lemma wp_ask [wp_rules]: "wp (ask q mk) Q s = Q (q (ss_log s)) (s\<lparr>ss_log := mk (q (ss_log s)) # ss_log s\<rparr>)"
  by (simp add: wp_def ask_def)

lemma wp_trace [wp_rules]: "wp (trace f) Q s = Q () (s\<lparr>ss_trace := f (ss_trace s)\<rparr>)"
  by (simp add: wp_def trace_def)

lemma wp_spent [wp_rules]: "wp spent Q s = Q () (s\<lparr>ss_spent := True\<rparr>)"
  by (simp add: wp_def spent_def)

lemma wp_clock [wp_rules]:
  "wp (clock w) Q s = Q (w_now w (ss_log s)) (s\<lparr>ss_log := Clock (w_now w (ss_log s)) # ss_log s\<rparr>)"
  by (simp add: clock_def wp_ask)

lemma wp_capture [wp_rules]:
  "wp (captureForClassify w pane) Q s =
     Q (pane_screen w pane (ss_log s)) (s\<lparr>ss_log := Captured pane (pane_screen w pane (ss_log s)) # ss_log s\<rparr>)"
  by (simp add: captureForClassify_def wp_ask)

lemma wp_foreground [wp_rules]:
  "wp (foregroundIsRuntime w t) Q s =
     (let doubt = foreground_doubt_of (w_foreground w (ss_log s) (pt_pane t)) (w_ps w (ss_log s))
      in Q doubt (s\<lparr>ss_log := Foreground (pt_pane t) (doubt = None) # ss_log s\<rparr>))"
  by (simp add: foregroundIsRuntime_def wp_ask Let_def)

lemma wp_any: "wp m (\<lambda>x s'. True) s"
  by (simp add: wp_def split: prod.split)

lemma wp_mono: "wp m P s \<Longrightarrow> (\<And>x s'. P x s' \<Longrightarrow> Q x s') \<Longrightarrow> wp m Q s"
  by (auto simp: wp_def split: prod.splits)

lemma wp_conj: "wp m P s \<Longrightarrow> wp m Q s \<Longrightarrow> wp m (\<lambda>x s'. P x s' \<and> Q x s') s"
  by (auto simp: wp_def split: prod.splits)

lemma wp_run: "wp m Q s \<Longrightarrow> run_state m s = (x, s') \<Longrightarrow> Q x s'"
  by (simp add: wp_def)

lemma wp_memory [wp_rules]:
  "wp (memory w f) Q s =
     (case f (w_now w (ss_log s)) (ss_memory s) of
        (x, d) \<Rightarrow> Q x (s\<lparr>ss_log := Clock (w_now w (ss_log s)) # ss_log s, ss_memory := d\<rparr>))"
  by (simp add: memory_def wp_bind wp_clock) (simp add: wp_def split: prod.splits)

lemma wp_observe [wp_rules]: "wp (observe_log q) Q s = Q (q (ss_log s)) s"
  by (simp add: wp_def observe_log_def)

lemma wp_option [wp_rules]:
  "wp (case x of None \<Rightarrow> m | Some y \<Rightarrow> f y) Q s = (case x of None \<Rightarrow> wp m Q s | Some y \<Rightarrow> wp (f y) Q s)"
  by (simp split: option.split)

lemma wp_prod [wp_rules]: "wp (case p of (x, y) \<Rightarrow> f x y) Q s = (case p of (x, y) \<Rightarrow> wp (f x y) Q s)"
  by (simp split: prod.split)

lemma wp_bindI: "wp m P s \<Longrightarrow> (\<And>x s'. P x s' \<Longrightarrow> wp (f x) Q s') \<Longrightarrow> wp (m \<bind> f) Q s"
  unfolding wp_bind by (rule wp_mono)

section \<open>What operations keep\<close>

definition keeps :: "(send_state \<Rightarrow> bool) \<Rightarrow> 'a op \<Rightarrow> bool" where
  "keeps I m = (\<forall>s. I s \<longrightarrow> wp m (\<lambda>x. I) s)"

named_theorems keep_rules

lemma keepsD: "keeps I m \<Longrightarrow> I s \<Longrightarrow> wp m (\<lambda>x. I) s"
  by (simp add: keeps_def)

lemma keeps_ret [keep_rules]: "keeps I (ret x)"
  by (simp add: keeps_def wp_ret)

lemma keeps_bind [keep_rules]: "keeps I m \<Longrightarrow> (\<And>x. keeps I (f x)) \<Longrightarrow> keeps I (m \<bind> f)"
  unfolding keeps_def wp_bind by (blast intro: wp_mono)

lemma keeps_if [keep_rules]: "(b \<Longrightarrow> keeps I m) \<Longrightarrow> (\<not> b \<Longrightarrow> keeps I n) \<Longrightarrow> keeps I (if b then m else n)"
  by simp

lemma keeps_option [keep_rules]:
  "keeps I m \<Longrightarrow> (\<And>y. keeps I (f y)) \<Longrightarrow> keeps I (case x of None \<Rightarrow> m | Some y \<Rightarrow> f y)"
  by (simp split: option.split)

lemma keeps_prod [keep_rules]: "(\<And>x y. keeps I (f x y)) \<Longrightarrow> keeps I (case p of (x, y) \<Rightarrow> f x y)"
  by (simp split: prod.split)

lemma keeps_sum [keep_rules]:
  "(\<And>x. keeps I (f x)) \<Longrightarrow> (\<And>y. keeps I (g y)) \<Longrightarrow> keeps I (case x of Inl x \<Rightarrow> f x | Inr y \<Rightarrow> g y)"
  by (simp split: sum.split)

lemma keeps_bool [keep_rules]: "keeps I m \<Longrightarrow> keeps I n \<Longrightarrow> keeps I (case b of True \<Rightarrow> m | False \<Rightarrow> n)"
  by (simp split: bool.split)

lemma keeps_observe [keep_rules]: "keeps I (observe_log q)"
  by (simp add: keeps_def wp_observe)

lemma keeps_Let [keep_rules]: "(\<And>x. keeps I (f x)) \<Longrightarrow> keeps I (Let y f)"
  by (simp add: Let_def)

text \<open>
  An invariant of the events that every event but some leaves alone: what only asks keeps it. An
  invariant that does not look at the driver's memory is kept by every change of it as well.
\<close>

locale event_invariant =
  fixes I :: "send_state \<Rightarrow> bool" and loud :: "event \<Rightarrow> bool"
  assumes quiet_event: "I s \<Longrightarrow> \<not> loud e \<Longrightarrow> I (s\<lparr>ss_log := e # ss_log s\<rparr>)"
    and any_trace: "I s \<Longrightarrow> I (s\<lparr>ss_trace := t\<rparr>)"
    and any_fuel: "I s \<Longrightarrow> I (s\<lparr>ss_spent := True\<rparr>)"
    and only_writes_loud: "loud e \<Longrightarrow> (\<exists>p ks ok. e = Keys p ks ok) \<or> (\<exists>p b ok. e = Pasted p b ok)"
begin

lemma keeps_ask: "(\<And>x. \<not> loud (mk x)) \<Longrightarrow> keeps I (ask q mk)"
  by (simp add: keeps_def wp_ask quiet_event)

lemma keeps_question [keep_rules]:
  "keeps I (clock w)" "keeps I (expired w deadline)" "keeps I (wait w d)" "keeps I (captureForClassify w pane)"
  "keeps I (foregroundIsRuntime w t)" "keeps I (bracketPasteFlag w pane)" "keeps I (ask (w_cancelled w) Cancelled)"
  "keeps I (ask ps Preempted)" "keeps I (ask (w_stage w) Staged)" "keeps I (ask src Source)" "keeps I (ask (w_enumerate w) (\<lambda>a. Listed (a \<noteq> None)))"
  unfolding clock_def expired_def wait_def captureForClassify_def foregroundIsRuntime_def bracketPasteFlag_def
  by (intro keep_rules keeps_ask; use only_writes_loud in force)+

lemma keeps_trace [keep_rules]: "keeps I (trace f)"
  by (simp add: keeps_def wp_trace any_trace)

lemma keeps_spent [keep_rules]: "keeps I spent"
  by (simp add: keeps_def wp_spent any_fuel)

end

locale event_only_invariant = event_invariant +
  assumes any_memory: "I s \<Longrightarrow> I (s\<lparr>ss_memory := d\<rparr>)"
begin

lemma keeps_memory [keep_rules]: "keeps I (memory w f)"
proof -
  have "I s \<Longrightarrow> I (s\<lparr>ss_log := Clock t # ss_log s, ss_memory := d\<rparr>)" for s t d
    using any_memory [OF quiet_event [of s "Clock t"]] only_writes_loud by fastforce
  then show ?thesis by (simp add: keeps_def wp_memory split: prod.split)
qed

end

end
