(* ===== verification/Deliver.thy ===== *)
theory Deliver
  imports PaneWorld
begin

text \<open>
  How the tmux driver puts a text into a session's composer and submits it: \<open>deliverViaPane\<close> of
  \<open>tmux.go\<close> (2464-3311) with what it calls: the wait for a composer, the proof of what the composer
  holds, the clearing of the driver's own residue, the paste, the check that it landed, the check just
  before the submit and the confirmation after it (\<open>terminalpath2.go\<close>,
  \<open>terminalpath2_transcript.go\<close>). The reasons of a receipt are values of a datatype, one for each
  text of the code.
\<close>

section \<open>Receipts\<close>

datatype outcome = OutcomeSubmitted | OutcomeQueued | OutcomeRefused | OutcomeUnknown | OutcomeDelivered
  | OutcomeHeld | OutcomeDenied | OutcomeExpired | OutcomeDropped

datatype pre_submit = preSubmitOK | preSubmitDialog | preSubmitNotHeld | preSubmitNotRuntime | preSubmitPreempted

datatype submit_evidence = NoTranscript | TurnRecorded | DifferentTurnComposerEmptied | DifferentTurn
  | CancelledWaiting | ScreenAfterSilence | SilenceOnBoth

datatype reason =
    NoSuchSession | ProcessExited | MenuShown | FeedbackNotice string | StillStarting | NoComposer
  | ComposerCut string | LoneDigit
  | ConfirmedOnEmptyComposer | EmptyComposerUnconfirmed
  | ResumeDigestDiffers string | ResumeNotLanded | ResumeUnconfirmed submit_evidence | ResumeSubmitted
  | StrandedTextChanged string | StrandedSameText | StrandedOtherText string
  | UnprovenDraft string | ExpectDiffers string | HandedBackUnsent | HoldsUnsentInput string
  | ClearProvenFutile string | ClearNoProgress bool | ClearIncomplete bool string
  | NotTheRuntime foreground_doubt | NoBracketedPaste paste_failure
  | PlacedNotSubmitted | NotLandedPreempted | NotLandedDialog | NotLanded
  | NotSubmitted pre_submit bool
  | DifferentTurnAfterSubmit | SubmitUnconfirmed submit_evidence | SubmitRegistered submit_evidence bool

record receipt =
  re_outcome :: outcome
  re_reason :: reason

datatype send_error = EnumerateFailed | KeysFailed | ContextEnded | PasteFailed paste_failure

type_synonym answer = "send_error + receipt"

definition refused :: "reason \<Rightarrow> answer" where
  "refused r = Inr \<lparr>re_outcome = OutcomeRefused, re_reason = r\<rparr>"

definition queued :: "reason \<Rightarrow> answer" where
  "queued r = Inr \<lparr>re_outcome = OutcomeQueued, re_reason = r\<rparr>"

definition unknown :: "reason \<Rightarrow> answer" where
  "unknown r = Inr \<lparr>re_outcome = OutcomeUnknown, re_reason = r\<rparr>"

record send_options =
  so_submit :: bool
  so_resume :: bool
  so_replace :: bool
  so_expect :: string

definition change :: "world \<Rightarrow> (timestamp \<Rightarrow> draft_memory \<Rightarrow> draft_memory) \<Rightarrow> unit op" where
  "change w f = memory w (\<lambda>now d. ((), f now d))"

section \<open>Waiting for a composer\<close>

definition sendReceptiveWindow :: duration where "sendReceptiveWindow = 2 * second"
definition sendReceptiveInterval :: duration where "sendReceptiveInterval = 200 * millisecond"
definition submitConfirmWindow :: duration where "submitConfirmWindow = 4 * second"
definition submitConfirmInterval :: duration where "submitConfirmInterval = 150 * millisecond"
definition promptClearInterval :: duration where "promptClearInterval = 200 * millisecond"
definition startingWindow :: duration where "startingWindow = 90 * second"

definition receptive_on :: "golib \<Rightarrow> screen option \<Rightarrow> bool \<times> bool" where
  "receptive_on lib captured =
     (case captured of
        None \<Rightarrow> (False, False)
      | Some sc \<Rightarrow> if selectionPrompt lib sc \<noteq> None then (False, True) else (composerText sc \<noteq> HasNone, False))"

definition receptive :: "world \<Rightarrow> string \<Rightarrow> (bool \<times> bool) op" where
  "receptive w pane = do { captured \<leftarrow> captureForClassify w pane; ret (receptive_on (w_lib w) captured) }"

fun receptive_rounds :: "nat \<Rightarrow> world \<Rightarrow> string \<Rightarrow> timestamp \<Rightarrow> (bool \<times> bool) op" where
  "receptive_rounds 0 w pane deadline = do { spent; ret (False, False) }"
| "receptive_rounds (Suc n) w pane deadline =
     do {
       (ready, blocked) \<leftarrow> receptive w pane;
       if ready \<or> blocked then ret (ready, blocked)
       else do {
         late \<leftarrow> expired w deadline;
         if late then ret (False, False)
         else do {
           done \<leftarrow> wait w sendReceptiveInterval;
           if done then ret (False, False) else receptive_rounds n w pane deadline
         }
       }
     }"

definition awaitReceptive :: "world \<Rightarrow> string \<Rightarrow> (bool \<times> bool) op" where
  "awaitReceptive w pane =
     do { now \<leftarrow> clock w; receptive_rounds (w_fuel w) w pane (now + sendReceptiveWindow) }"

definition feedbackCardRefusalFor :: "world \<Rightarrow> string \<Rightarrow> string option op" where
  "feedbackCardRefusalFor w pane =
     do { captured \<leftarrow> captureForClassify w pane; ret (Option.bind captured feedbackNoticeRefusal) }"

section \<open>Whether the text has landed\<close>

definition preempted :: "world \<Rightarrow> string \<Rightarrow> bool op" where
  "preempted w i = (if i = [] then ret False else ask (\<lambda>l. w_preempted w l i) Preempted)"

text \<open>What one capture says about the text: a dialog, or that it is held.\<close>

definition held_on :: "golib \<Rightarrow> screen \<Rightarrow> string \<Rightarrow> land_check \<Rightarrow> landing option" where
  "held_on lib sc text c = (case landArgs text c of (needle, allowSuffix) \<Rightarrow> landedOn lib sc text needle allowSuffix c)"

definition land_sight :: "golib \<Rightarrow> string \<Rightarrow> land_check \<Rightarrow> screen option \<Rightarrow> landing option" where
  "land_sight lib text c captured =
     (case captured of
        None \<Rightarrow> None
      | Some sc \<Rightarrow> if awaitingSelection lib sc then Some (no_landing\<lparr>ln_dialog := True\<rparr>) else held_on lib sc text c)"

fun land_rounds :: "nat \<Rightarrow> world \<Rightarrow> string \<Rightarrow> string \<Rightarrow> land_check \<Rightarrow> timestamp \<Rightarrow> landing op" where
  "land_rounds 0 w pane text c deadline = do { spent; ret no_landing }"
| "land_rounds (Suc n) w pane text c deadline =
     do {
       priority \<leftarrow> preempted w (lc_session c);
       if priority then ret (no_landing\<lparr>ln_preempted := True\<rparr>)
       else do {
         captured \<leftarrow> captureForClassify w pane;
         case land_sight (w_lib w) text c captured of
           Some l \<Rightarrow> ret l
         | None \<Rightarrow>
             do {
               late \<leftarrow> expired w deadline;
               if late then ret no_landing
               else do {
                 done \<leftarrow> wait w submitConfirmInterval;
                 if done then ret no_landing else land_rounds n w pane text c deadline
               }
             }
       }
     }"

definition landV2 :: "world \<Rightarrow> string \<Rightarrow> string \<Rightarrow> land_check \<Rightarrow> landing op" where
  "landV2 w pane text c =
     (if TrimSpace text = [] then ret (no_landing\<lparr>ln_ok := True\<rparr>)
      else do { now \<leftarrow> clock w; land_rounds (w_fuel w) w pane text c (now + submitConfirmWindow) })"

definition pre_submit_on :: "golib \<Rightarrow> string \<Rightarrow> land_check \<Rightarrow> screen option \<Rightarrow> pre_submit" where
  "pre_submit_on lib text c captured =
     (case captured of
        None \<Rightarrow> preSubmitNotHeld
      | Some sc \<Rightarrow>
          if awaitingSelection lib sc then preSubmitDialog
          else if held_on lib sc text c = None then preSubmitNotHeld
          else preSubmitOK)"

definition preSubmitCheck :: "world \<Rightarrow> pane_target \<Rightarrow> string \<Rightarrow> land_check \<Rightarrow> pre_submit op" where
  "preSubmitCheck w t text c =
     do {
       priority \<leftarrow> preempted w (lc_session c);
       if priority then ret preSubmitPreempted
       else do {
         doubt \<leftarrow> foregroundIsRuntime w t;
         if doubt \<noteq> None then ret preSubmitNotRuntime
         else do {
           captured \<leftarrow> captureForClassify w (pt_pane t);
           ret (pre_submit_on (w_lib w) text c captured)
         }
       }
     }"

text \<open>The check and the key right after it: what spoke against it, or whether the key was sent.\<close>

definition submitKeys :: "string list" where
  "submitKeys = [''Space'', ''C-m'']"

definition checked_submit :: "world \<Rightarrow> pane_target \<Rightarrow> string \<Rightarrow> land_check \<Rightarrow> (pre_submit + bool) op" where
  "checked_submit w t text c =
     do {
       v \<leftarrow> preSubmitCheck w t text c;
       if v \<noteq> preSubmitOK then ret (Inl v)
       else do { ok \<leftarrow> press w (pt_pane t) submitKeys; ret (Inr ok) }
     }"

section \<open>Whether the submit registered\<close>

text \<open>The composer is empty, or holds fewer copies of the marker this delivery landed as.\<close>

definition submitted_on :: "golib \<Rightarrow> paste_key \<Rightarrow> nat \<Rightarrow> screen option \<Rightarrow> bool" where
  "submitted_on lib key atCount captured =
     (case captured of
        None \<Rightarrow> False
      | Some sc \<Rightarrow> composerText sc = Holds [] \<or> 0 < atCount \<and> count_list (composerMarkers lib sc) key < atCount)"

fun confirm_rounds :: "nat \<Rightarrow> world \<Rightarrow> string \<Rightarrow> paste_key \<Rightarrow> nat \<Rightarrow> timestamp \<Rightarrow> bool op" where
  "confirm_rounds 0 w pane key atCount deadline = do { spent; ret False }"
| "confirm_rounds (Suc n) w pane key atCount deadline =
     do {
       captured \<leftarrow> captureForClassify w pane;
       if submitted_on (w_lib w) key atCount captured then ret True
       else do {
         late \<leftarrow> expired w deadline;
         if late then ret False
         else do {
           done \<leftarrow> wait w submitConfirmInterval;
           if done then ret False else confirm_rounds n w pane key atCount deadline
         }
       }
     }"

definition confirmSubmitted :: "world \<Rightarrow> string \<Rightarrow> paste_key \<Rightarrow> nat \<Rightarrow> bool op" where
  "confirmSubmitted w pane key atCount =
     do { now \<leftarrow> clock w; confirm_rounds (w_fuel w) w pane key atCount (now + submitConfirmWindow) }"

record confirmation =
  cf_confirmed :: bool
  cf_evidence :: submit_evidence
  cf_signal :: signal
  cf_turn_proven :: bool

definition not_confirmed :: "submit_evidence \<Rightarrow> confirmation" where
  "not_confirmed e = \<lparr>cf_confirmed = False, cf_evidence = e, cf_signal = SignalNone, cf_turn_proven = False\<rparr>"

definition on_screen :: "submit_evidence \<Rightarrow> confirmation" where
  "on_screen e = \<lparr>cf_confirmed = True, cf_evidence = e, cf_signal = SignalScreen, cf_turn_proven = False\<rparr>"

text \<open>One scan of the transcript from its offset.\<close>

definition scan_transcript :: "world \<Rightarrow> string \<times> int \<Rightarrow> string \<Rightarrow> (scan_result \<times> bool \<times> bool) op" where
  "scan_transcript w src sent =
     ask (\<lambda>l. transcriptTailScanKind (tr_parse (w_transcripts w l)) (tr_tail (w_transcripts w l) (fst src) (snd src)) sent)
       (\<lambda>(r, via, err). Scanned r via err)"

fun scan_rounds :: "nat \<Rightarrow> world \<Rightarrow> string \<Rightarrow> string \<times> int \<Rightarrow> string \<Rightarrow> timestamp \<Rightarrow> confirmation option op" where
  "scan_rounds 0 w pane src sent deadline = do { spent; ret None }"
| "scan_rounds (Suc n) w pane src sent deadline =
     do {
       (result, viaEnqueue, err) \<leftarrow> scan_transcript w src sent;
       case result of
         ScanMatched \<Rightarrow>
           ret (Some \<lparr>cf_confirmed = True, cf_evidence = TurnRecorded, cf_signal = SignalTranscript,
             cf_turn_proven = (\<not> viaEnqueue)\<rparr>)
       | ScanDifferentTurn \<Rightarrow>
           do {
             captured \<leftarrow> captureForClassify w pane;
             ret (Some (not_confirmed
               (if map_option composerText captured = Some (Holds []) then DifferentTurnComposerEmptied else DifferentTurn)))
           }
       | ScanSilent \<Rightarrow>
           do {
             late \<leftarrow> expired w deadline;
             if late then ret None
             else do {
               done \<leftarrow> wait w submitConfirmInterval;
               if done then ret (Some (not_confirmed CancelledWaiting)) else scan_rounds n w pane src sent deadline
             }
           }
     }"

definition confirmSubmittedFromSourceTurn ::
    "world \<Rightarrow> pane_target \<Rightarrow> string \<Rightarrow> paste_key \<Rightarrow> nat \<Rightarrow> (string \<times> int) option \<Rightarrow> confirmation op" where
  "confirmSubmittedFromSourceTurn w t sent key atCount source =
     (case source of
        None \<Rightarrow>
          do {
            confirmed \<leftarrow> confirmSubmitted w (pt_pane t) key atCount;
            ret (if confirmed then on_screen NoTranscript else not_confirmed NoTranscript)
          }
      | Some src \<Rightarrow>
          do {
            now \<leftarrow> clock w;
            seen \<leftarrow> scan_rounds (w_fuel w) w (pt_pane t) src sent (now + submitConfirmWindow);
            case seen of
              Some c \<Rightarrow> ret c
            | None \<Rightarrow>
                do {
                  confirmed \<leftarrow> confirmSubmitted w (pt_pane t) key atCount;
                  ret (if confirmed then on_screen ScreenAfterSilence else not_confirmed SilenceOnBoth)
                }
          })"

section \<open>Clearing a composer\<close>

definition clearPressMargin :: nat where "clearPressMargin = 5"
definition maxClearPresses :: nat where "maxClearPresses = 120"
definition stallPresses :: nat where "stallPresses = 3"
definition composerLineEndKey :: string where "composerLineEndKey = ''End''"

text \<open>The string of \<open>composerText\<close>, empty when the composer could not be read.\<close>

definition reading :: "composer_reading \<Rightarrow> string" where
  "reading r = (case r of Holds s \<Rightarrow> s | _ \<Rightarrow> [])"

text \<open>What a pass knows of the composer it presses into.\<close>

record clear_state =
  cs_left :: string
  cs_rows :: nat
  cs_blank :: bool
  cs_stall :: nat
  cs_alt :: bool
  cs_moved :: bool

definition row_blank :: "screen \<Rightarrow> bool" where
  "row_blank sc = (case composerCursorRowBlank sc of (b, composerFound _ _) \<Rightarrow> b | _ \<Rightarrow> False)"

definition clear_start :: "string \<Rightarrow> screen \<Rightarrow> clear_state" where
  "clear_start pending sc =
     \<lparr>cs_left = pending, cs_rows = fst (composerVisualLines sc), cs_blank = row_blank sc, cs_stall = 0,
      cs_alt = False, cs_moved = False\<rparr>"

definition clear_keys :: "clear_state \<Rightarrow> string list" where
  "clear_keys c = (if cs_blank c \<noteq> cs_alt c then [''BSpace''] else [composerLineEndKey, ''C-u''])"

definition clear_observe :: "screen \<Rightarrow> clear_state \<Rightarrow> clear_state" where
  "clear_observe sc c =
     (let got = reading (composerText sc); rows = fst (composerVisualLines sc)
      in if got \<noteq> cs_left c \<or> rows \<noteq> cs_rows c
         then \<lparr>cs_left = got, cs_rows = rows, cs_blank = row_blank sc, cs_stall = 0, cs_alt = False, cs_moved = True\<rparr>
         else c\<lparr>cs_blank := row_blank sc, cs_stall := (if cs_moved c then cs_stall c + 1 else cs_stall c),
                cs_alt := (\<not> cs_alt c)\<rparr>)"

text \<open>The text left, whether anything moved, and whether the composer was seen empty.\<close>

type_synonym clear_result = "send_error + (string \<times> bool \<times> bool)"

definition clear_finish :: "world \<Rightarrow> string \<Rightarrow> string \<Rightarrow> string \<Rightarrow> clear_state \<Rightarrow> clear_result op" where
  "clear_finish w i cwd pending c =
     (if \<not> cs_moved c then
        do {
          change w (\<lambda>now. noteFutile now i cwd (composerTextDigest (w_lib w) pending));
          ret (Inr (cs_left c, False, False))
        }
      else ret (Inr (cs_left c, True, False)))"

fun clear_rounds :: "nat \<Rightarrow> world \<Rightarrow> string \<Rightarrow> string \<Rightarrow> string \<Rightarrow> string \<Rightarrow> clear_state \<Rightarrow> clear_result op" where
  "clear_rounds 0 w pane i cwd pending c = clear_finish w i cwd pending c"
| "clear_rounds (Suc presses) w pane i cwd pending c =
     do {
       ok \<leftarrow> press w pane (clear_keys c);
       if \<not> ok then ret (Inl KeysFailed)
       else do {
         captured \<leftarrow> captureForClassify w pane;
         if map_option composerText captured = Some (Holds []) then
           do { change w (\<lambda>now. forgetFutile i); ret (Inr ([], cs_moved c, True)) }
         else
           (let c = (case captured of None \<Rightarrow> c | Some sc \<Rightarrow> clear_observe sc c) in
            if cs_moved c \<and> stallPresses \<le> cs_stall c then clear_finish w i cwd pending c
            else do {
              stop \<leftarrow> ask (w_cancelled w) Cancelled;
              if stop \<or> presses = 0 then clear_finish w i cwd pending c
              else do {
                done \<leftarrow> wait w promptClearInterval;
                if done then ret (Inl ContextEnded) else clear_rounds presses w pane i cwd pending c
              }
            })
       }
     }"

definition clear_presses :: "nat \<Rightarrow> nat" where
  "clear_presses expectedLines = min maxClearPresses (max 1 (expectedLines + clearPressMargin))"

definition clearComposer ::
    "world \<Rightarrow> string \<Rightarrow> string \<Rightarrow> string \<Rightarrow> string \<Rightarrow> nat \<Rightarrow> screen \<Rightarrow> clear_result op" where
  "clearComposer w pane i cwd pending expectedLines sc =
     clear_rounds (clear_presses expectedLines) w pane i cwd pending (clear_start pending sc)"

text \<open>
  \<open>tryReplaceStranded\<close> and \<open>tryClearUnrecordedComposer\<close>: \<open>None\<close> when the composer is clear. Only the
  first forgets the record.
\<close>

definition clear_or_refuse ::
    "world \<Rightarrow> string \<Rightarrow> pane_target \<Rightarrow> string \<Rightarrow> screen \<Rightarrow> (string \<Rightarrow> bool \<Rightarrow> reason) \<Rightarrow> answer option op" where
  "clear_or_refuse w i t pending sc why =
     do {
       attempts \<leftarrow> memory w (\<lambda>now. futileClearAttempts now i (pt_cwd t) (composerTextDigest (w_lib w) pending));
       if 0 < attempts then ret (Some (refused (ClearProvenFutile (composerTextDigest (w_lib w) pending))))
       else do {
         r \<leftarrow> clearComposer w (pt_pane t) i (pt_cwd t) pending (fst (composerVisualLines sc)) sc;
         case r of
           Inl e \<Rightarrow> ret (Some (Inl e))
         | Inr (left, moved, cleared) \<Rightarrow> ret (if cleared then None else Some (refused (why left moved)))
       }
     }"

definition tryReplaceStranded :: "world \<Rightarrow> string \<Rightarrow> pane_target \<Rightarrow> string \<Rightarrow> screen \<Rightarrow> answer option op" where
  "tryReplaceStranded w i t pending sc =
     do {
       r \<leftarrow> clear_or_refuse w i t pending sc (\<lambda>left moved. if \<not> moved then ClearNoProgress True else ClearIncomplete True left);
       case r of
         Some a \<Rightarrow> ret (Some a)
       | None \<Rightarrow> do { change w (\<lambda>now. forgetStranded i); ret None }
     }"

definition tryClearUnrecordedComposer :: "world \<Rightarrow> string \<Rightarrow> pane_target \<Rightarrow> string \<Rightarrow> screen \<Rightarrow> answer option op" where
  "tryClearUnrecordedComposer w i t pending sc =
     clear_or_refuse w i t pending sc (\<lambda>left moved. if \<not> moved then ClearNoProgress False else ClearIncomplete False left)"

definition currentComposerDigest :: "world \<Rightarrow> string \<Rightarrow> string op" where
  "currentComposerDigest w pane =
     do {
       captured \<leftarrow> captureForClassify w pane;
       ret (case map_option composerText captured of
              Some (Holds pending) \<Rightarrow> if pending = [] then [] else composerTextDigest (w_lib w) pending
            | _ \<Rightarrow> [])
     }"

section \<open>Resuming a stranded delivery\<close>

definition kept_draft :: "unit op" where
  "kept_draft = trace (\<lambda>tr. tr\<lparr>tr_draft_kept := True\<rparr>)"

definition record_of :: "world \<Rightarrow> string \<Rightarrow> pane_target \<Rightarrow> stranded_record option op" where
  "record_of w i t = memory w (\<lambda>now. strandedRecordFor now i (pt_cwd t))"

text \<open>\<open>resumeIfStranded\<close> finds the composer empty; \<open>None\<close> when the text is to be pasted.\<close>

definition resume_empty :: "world \<Rightarrow> string \<Rightarrow> pane_target \<Rightarrow> string \<Rightarrow> answer option op" where
  "resume_empty w i t text =
     do {
       rec \<leftarrow> record_of w i t;
       case rec of
         None \<Rightarrow> ret None
       | Some r \<Rightarrow>
           if sd_text r \<noteq> text then ret None
           else do {
             accepted \<leftarrow>
               (if sd_transcript_path r = [] then ret False
                else do {
                  (result, via, err) \<leftarrow> scan_transcript w (sd_transcript_path r, sd_transcript_offset r) text;
                  ret (result = ScanMatched)
                });
             if accepted then
               do {
                 change w (\<lambda>now. forgetStranded i);
                 trace (\<lambda>tr. tr\<lparr>tr_resumed := True\<rparr>);
                 ret (Some (queued ConfirmedOnEmptyComposer))
               }
             else if sd_never_rendered r then do { trace (\<lambda>tr. tr\<lparr>tr_resumed := True\<rparr>); ret None }
             else ret (Some (unknown EmptyComposerUnconfirmed))
           }
     }"

definition resume_check :: "string \<Rightarrow> stranded_record \<Rightarrow> land_check" where
  "resume_check i r =
     \<lparr>lc_before = [], lc_strict = True, lc_digest_verified = (sd_composer_digest r \<noteq> []),
      lc_own_marker = sd_paste_key r, lc_own_marker_ok = sd_paste_landed r, lc_session = i\<rparr>"

text \<open>The composer still holds the text of the record: submit it.\<close>

definition resume_confirm ::
    "world \<Rightarrow> string \<Rightarrow> pane_target \<Rightarrow> string \<Rightarrow> landing \<Rightarrow> (string \<times> int) option \<Rightarrow> answer op" where
  "resume_confirm w i t text land source =
     do {
       c \<leftarrow> confirmSubmittedFromSourceTurn w t text (ln_key land) (ln_at_count land) source;
       trace (\<lambda>tr. tr\<lparr>tr_confirmed_by := cf_signal c\<rparr>);
       if \<not> cf_confirmed c then ret (unknown (ResumeUnconfirmed (cf_evidence c)))
       else do {
         change w (\<lambda>now. forgetStranded i);
         (if cf_turn_proven c then ret () else change w (\<lambda>now. noteProvisional now i (pt_cwd t) text source));
         trace (\<lambda>tr. tr\<lparr>tr_resumed := True\<rparr>);
         ret (queued ResumeSubmitted)
       }
     }"

definition resume_held :: "world \<Rightarrow> string \<Rightarrow> pane_target \<Rightarrow> string \<Rightarrow> stranded_record \<Rightarrow> answer op" where
  "resume_held w i t text r =
     do {
       land \<leftarrow> landV2 w (pt_pane t) text (resume_check i r);
       if \<not> ln_ok land then ret (unknown ResumeNotLanded)
       else do {
         source \<leftarrow> ask (\<lambda>l. w_source w l i) Source;
         pressed \<leftarrow> checked_submit w t text (resume_check i r);
         case pressed of
           Inl v \<Rightarrow> ret (unknown (NotSubmitted v True))
         | Inr ok \<Rightarrow> if \<not> ok then ret (Inl KeysFailed) else resume_confirm w i t text land source
       }
     }"

definition resume_same_text :: "world \<Rightarrow> string \<Rightarrow> pane_target \<Rightarrow> string \<Rightarrow> string \<Rightarrow> screen \<Rightarrow> stranded_record \<Rightarrow> answer op" where
  "resume_same_text w i t text pending sc r =
     (if sd_composer_digest r \<noteq> [] \<and> \<not> composerDigestMatches (w_lib w) (sd_composer_digest r) pending \<and>
         \<not> composerMatchesText sc text False
      then do { kept_draft; ret (refused (ResumeDigestDiffers (composerTextDigest (w_lib w) pending))) }
      else resume_held w i t text r)"

section \<open>A composer that holds something\<close>

text \<open>A record says the driver put a text there: \<open>None\<close> when the composer was cleared.\<close>

definition recorded_draft ::
    "world \<Rightarrow> string \<Rightarrow> pane_target \<Rightarrow> string \<Rightarrow> send_options \<Rightarrow> string \<Rightarrow> screen \<Rightarrow> stranded_record \<Rightarrow> answer option op" where
  "recorded_draft w i t text opts pending sc r =
     (let digest = composerTextDigest (w_lib w) pending in
      if so_replace opts then
        (if \<not> recordProves (w_lib w) r pending sc \<and> \<not> expectProves (w_lib w) (so_expect opts) pending
         then do { kept_draft; ret (Some (refused (StrandedTextChanged digest))) }
         else tryReplaceStranded w i t pending sc)
      else if sd_text r = text then ret (Some (refused StrandedSameText))
      else ret (Some (refused (StrandedOtherText digest))))"

definition unrecorded_draft ::
    "world \<Rightarrow> string \<Rightarrow> pane_target \<Rightarrow> send_options \<Rightarrow> string \<Rightarrow> screen \<Rightarrow> answer option op" where
  "unrecorded_draft w i t opts pending sc =
     do {
       tr \<leftarrow> observe_log (w_transcripts w);
       (proof, mismatch) \<leftarrow>
         memory w (\<lambda>now. mayClearUnrecorded (w_lib w) tr now i (pt_cwd t) pending sc (so_expect opts));
       (if proof = proofTombstone
        then do { memory w (\<lambda>now. tombstoneProvesKind (w_lib w) tr now i (pt_cwd t) pending sc); ret () }
        else ret ());
       if proof = proofNone then
         do {
           kept_draft;
           ret (Some (refused ((if mismatch then ExpectDiffers else UnprovenDraft) (composerTextDigest (w_lib w) pending))))
         }
       else tryClearUnrecordedComposer w i t pending sc
     }"

definition unexplained_draft :: "world \<Rightarrow> string \<Rightarrow> pane_target \<Rightarrow> string \<Rightarrow> screen \<Rightarrow> answer op" where
  "unexplained_draft w i t pending sc =
     do {
       kept_draft;
       tr \<leftarrow> observe_log (w_transcripts w);
       (proved, provisional) \<leftarrow> memory w (\<lambda>now. tombstoneProvesKind (w_lib w) tr now i (pt_cwd t) pending sc);
       ret (refused (if proved then HandedBackUnsent else HoldsUnsentInput (composerTextDigest (w_lib w) pending)))
     }"

definition occupied_other ::
    "world \<Rightarrow> string \<Rightarrow> pane_target \<Rightarrow> string \<Rightarrow> send_options \<Rightarrow> string \<Rightarrow> screen \<Rightarrow> answer option op" where
  "occupied_other w i t text opts pending sc =
     do {
       rec \<leftarrow> record_of w i t;
       case rec of
         Some r \<Rightarrow> recorded_draft w i t text opts pending sc r
       | None \<Rightarrow>
           if so_replace opts \<or> so_resume opts then unrecorded_draft w i t opts pending sc
           else do { a \<leftarrow> unexplained_draft w i t pending sc; ret (Some a) }
     }"

definition occupied_composer ::
    "world \<Rightarrow> string \<Rightarrow> pane_target \<Rightarrow> string \<Rightarrow> send_options \<Rightarrow> string \<Rightarrow> screen \<Rightarrow> answer option op" where
  "occupied_composer w i t text opts pending sc =
     do {
       mine \<leftarrow> record_of w i t;
       case (if so_resume opts then mine else None) of
         Some r \<Rightarrow>
           if sd_text r = text
           then do { a \<leftarrow> resume_same_text w i t text pending sc r; ret (Some a) }
           else occupied_other w i t text opts pending sc
       | None \<Rightarrow> occupied_other w i t text opts pending sc
     }"

section \<open>Input the runtime reads as its own\<close>

text \<open>
  \<open>inputguard.go\<close>. The tables behind the cutset other than white space and control characters are
  the parameter \<open>ignorable\<close>.
\<close>

definition runtimeTrimCutset :: "(rune \<Rightarrow> bool) \<Rightarrow> rune \<Rightarrow> bool" where
  "runtimeTrimCutset ignorable r = (is_space r \<or> in_range 0 0x1F r \<or> in_range 0x7F 0x9F r \<or> ignorable r)"

text \<open>\<open>strings.TrimLeftFunc\<close>.\<close>

function trim_left_func :: "(rune \<Rightarrow> bool) \<Rightarrow> string \<Rightarrow> string" where
  "trim_left_func P s =
     (if s = [] \<or> \<not> P (fst (decode_rune s)) then s else trim_left_func P (drop (snd (decode_rune s)) s))"
  by pat_completeness auto

termination
proof (relation "measure (\<lambda>(P, s). length s)")
  fix P and s :: string
  assume s: "\<not> (s = [] \<or> \<not> P (fst (decode_rune s)))"
  with decode_rune_size [of s] show "((P, drop (snd (decode_rune s)) s), (P, s)) \<in> measure (\<lambda>(P, s). length s)"
    by (cases s) auto
qed simp

declare trim_left_func.simps [simp del]

definition sessionSlashCommands :: "string list" where
  "sessionSlashCommands = [''/rename'', ''/rc'', ''/remote-control'']"

text \<open>The word a command begins with.\<close>

definition command_name :: "string \<Rightarrow> string" where
  "command_name body = takeWhile (\<lambda>c. c \<noteq> CHR '' '' \<and> c \<noteq> CHR 0x0A \<and> c \<noteq> CHR 0x09) body"

definition isSessionCommand :: "(rune \<Rightarrow> bool) \<Rightarrow> string \<Rightarrow> bool" where
  "isSessionCommand ignorable text =
     (command_name (trim_left_func (runtimeTrimCutset ignorable) text) \<in> set sessionSlashCommands)"

datatype syntax_refusal = BashMode | SlashCommand string

definition refuseSlashCommand :: "string \<Rightarrow> bool \<Rightarrow> syntax_refusal option" where
  "refuseSlashCommand body humanRelay =
     (if \<not> has_prefix body ''/'' \<or> humanRelay then None
      else if command_name body \<in> set sessionSlashCommands then None
      else Some (SlashCommand (command_name body)))"

definition refuseAsRuntimeSyntax :: "(rune \<Rightarrow> bool) \<Rightarrow> string \<Rightarrow> bool \<Rightarrow> syntax_refusal option" where
  "refuseAsRuntimeSyntax ignorable text humanRelay =
     (let body = trim_left_func (runtimeTrimCutset ignorable) text
      in if has_prefix body ''!'' then Some BashMode else refuseSlashCommand body humanRelay)"

section \<open>The delivery\<close>

definition fresh_check :: "string \<Rightarrow> paste_key list \<Rightarrow> land_check" where
  "fresh_check i before =
     \<lparr>lc_before = before, lc_strict = False, lc_digest_verified = False, lc_own_marker = no_key,
      lc_own_marker_ok = False, lc_session = i\<rparr>"

text \<open>The text did not land: what is left is recorded.\<close>

definition strand_unlanded :: "world \<Rightarrow> string \<Rightarrow> pane_target \<Rightarrow> string \<Rightarrow> landing \<Rightarrow> answer op" where
  "strand_unlanded w i t text land =
     do {
       source \<leftarrow> ask (\<lambda>l. w_source w l i) Source;
       digest \<leftarrow> currentComposerDigest w (pt_pane t);
       change w (\<lambda>now. noteStrandedLanding now i (pt_cwd t) text digest source land (digest = []));
       ret (unknown (if ln_preempted land then NotLandedPreempted
                     else if ln_dialog land then NotLandedDialog
                     else NotLanded))
     }"

text \<open>The text landed but was not submitted, or not with certainty.\<close>

definition strand_landed :: "world \<Rightarrow> string \<Rightarrow> pane_target \<Rightarrow> string \<Rightarrow> landing \<Rightarrow> (string \<times> int) option \<Rightarrow> unit op" where
  "strand_landed w i t text land source =
     do {
       digest \<leftarrow> currentComposerDigest w (pt_pane t);
       change w (\<lambda>now. noteStrandedLanding now i (pt_cwd t) text digest source land False)
     }"

definition confirm_landed ::
    "world \<Rightarrow> string \<Rightarrow> pane_target \<Rightarrow> string \<Rightarrow> landing \<Rightarrow> (string \<times> int) option \<Rightarrow> answer op" where
  "confirm_landed w i t text land source =
     do {
       cf \<leftarrow> confirmSubmittedFromSourceTurn w t text (ln_key land) (ln_at_count land) source;
       trace (\<lambda>tr. tr\<lparr>tr_confirmed_by := cf_signal cf\<rparr>);
       if \<not> cf_confirmed cf then
         do {
           strand_landed w i t text land source;
           ret (unknown (if cf_evidence cf = DifferentTurnComposerEmptied then DifferentTurnAfterSubmit
                         else SubmitUnconfirmed (cf_evidence cf)))
         }
       else do {
         change w (\<lambda>now. forgetStranded i);
         (if cf_turn_proven cf then ret () else change w (\<lambda>now. noteProvisional now i (pt_cwd t) text source));
         ret (queued (SubmitRegistered (cf_evidence cf) (cf_turn_proven cf)))
       }
     }"

definition submit_landed :: "world \<Rightarrow> string \<Rightarrow> pane_target \<Rightarrow> string \<Rightarrow> land_check \<Rightarrow> landing \<Rightarrow> answer op" where
  "submit_landed w i t text c land =
     do {
       source \<leftarrow> ask (\<lambda>l. w_source w l i) Source;
       pressed \<leftarrow> checked_submit w t text c;
       case pressed of
         Inl v \<Rightarrow> do { strand_landed w i t text land source; ret (unknown (NotSubmitted v False)) }
       | Inr ok \<Rightarrow>
           if \<not> ok then do { strand_landed w i t text land source; ret (Inl KeysFailed) }
           else confirm_landed w i t text land source
     }"

definition after_paste ::
    "world \<Rightarrow> (rune \<Rightarrow> bool) \<Rightarrow> string \<Rightarrow> pane_target \<Rightarrow> string \<Rightarrow> send_options \<Rightarrow> paste_key list \<Rightarrow> answer op" where
  "after_paste w ignorable i t text opts before =
     do {
       (if isSessionCommand ignorable text then ret () else change w (\<lambda>now. noteDelivery now i (pt_cwd t)));
       if \<not> so_submit opts then ret (queued PlacedNotSubmitted)
       else do {
         land \<leftarrow> landV2 w (pt_pane t) text (fresh_check i before);
         if \<not> ln_ok land then strand_unlanded w i t text land
         else submit_landed w i t text (fresh_check i before) land
       }
     }"

definition paste_now :: "world \<Rightarrow> (rune \<Rightarrow> bool) \<Rightarrow> string \<Rightarrow> pane_target \<Rightarrow> string \<Rightarrow> send_options \<Rightarrow> answer op" where
  "paste_now w ignorable i t text opts =
     do {
       captured \<leftarrow> captureForClassify w (pt_pane t);
       failure \<leftarrow> pasteBracketed w (pt_pane t) text;
       case failure of
         Some f \<Rightarrow> ret (if f \<in> {FlagUnknown, FlagOff} then refused (NoBracketedPaste f) else Inl (PasteFailed f))
       | None \<Rightarrow>
           after_paste w ignorable i t text opts
             (case captured of Some sc \<Rightarrow> composerMarkers (w_lib w) sc | None \<Rightarrow> [])
     }"

definition paste_and_submit :: "world \<Rightarrow> (rune \<Rightarrow> bool) \<Rightarrow> string \<Rightarrow> pane_target \<Rightarrow> string \<Rightarrow> send_options \<Rightarrow> answer op" where
  "paste_and_submit w ignorable i t text opts =
     do {
       doubt \<leftarrow> foregroundIsRuntime w t;
       case doubt of
         Some why \<Rightarrow> ret (refused (NotTheRuntime why))
       | None \<Rightarrow> paste_now w ignorable i t text opts
     }"

text \<open>What the screen says before anything is typed; \<open>None\<close> when the text may be pasted.\<close>

definition before_paste ::
    "world \<Rightarrow> string \<Rightarrow> pane_target \<Rightarrow> string \<Rightarrow> send_options \<Rightarrow> screen \<Rightarrow> answer option op" where
  "before_paste w i t text opts sc =
     (if awaitingSelection (w_lib w) sc then
        ret (Some (refused (case feedbackNoticeRefusal sc of Some r \<Rightarrow> FeedbackNotice r | None \<Rightarrow> MenuShown)))
      else
        case composerText sc of
          Clipped \<Rightarrow>
            ret (Some (refused (case feedbackNoticeRefusal sc of Some r \<Rightarrow> FeedbackNotice r
                                | None \<Rightarrow> ComposerCut (composerClippedCause sc))))
        | HasNone \<Rightarrow> ret None
        | Holds pending \<Rightarrow>
            if pending = [] then
              (if loneDigit text \<and> feedbackNoticeOnScreen sc then ret (Some (refused LoneDigit))
               else if so_resume opts then resume_empty w i t text
               else ret None)
            else occupied_composer w i t text opts pending sc)"

definition not_receptive :: "world \<Rightarrow> pane_target \<Rightarrow> bool \<Rightarrow> answer op" where
  "not_receptive w t blocked =
     do {
       notice \<leftarrow> feedbackCardRefusalFor w (pt_pane t);
       case notice of
         Some r \<Rightarrow> ret (refused (FeedbackNotice r))
       | None \<Rightarrow>
           if blocked then ret (refused MenuShown)
           else do {
             now \<leftarrow> clock w;
             ret (refused (if time_sub now (pt_created t) < startingWindow then StillStarting else NoComposer))
           }
     }"

definition deliver_on ::
    "world \<Rightarrow> (rune \<Rightarrow> bool) \<Rightarrow> string \<Rightarrow> pane_target \<Rightarrow> string \<Rightarrow> send_options \<Rightarrow> screen \<Rightarrow> answer op" where
  "deliver_on w ignorable i t text opts sc =
     do {
       decided \<leftarrow> before_paste w i t text opts sc;
       case decided of
         Some a \<Rightarrow> ret a
       | None \<Rightarrow> paste_and_submit w ignorable i t text opts
     }"

definition deliver_to ::
    "world \<Rightarrow> (rune \<Rightarrow> bool) \<Rightarrow> string \<Rightarrow> pane_target \<Rightarrow> (string \<Rightarrow> pane_capture) \<Rightarrow> string \<Rightarrow> send_options \<Rightarrow> answer op" where
  "deliver_to w ignorable i t captures text opts =
     do {
       (ready, blocked) \<leftarrow> awaitReceptive w (pt_pane t);
       if \<not> ready then not_receptive w t blocked
       else do {
         captured \<leftarrow> captureForClassify w (pt_pane t);
         deliver_on w ignorable i t text opts
           (case captured of Some sc \<Rightarrow> sc | None \<Rightarrow> capture_screen (captures (pt_pane t)))
       }
     }"

definition deliverViaPane :: "world \<Rightarrow> (rune \<Rightarrow> bool) \<Rightarrow> string \<Rightarrow> string \<Rightarrow> send_options \<Rightarrow> answer op" where
  "deliverViaPane w ignorable i text opts =
     do {
       listed \<leftarrow> ask (w_enumerate w) (\<lambda>a. Listed (a \<noteq> None));
       case listed of
         None \<Rightarrow> ret (Inl EnumerateFailed)
       | Some (rows, captures) \<Rightarrow>
           (case find (\<lambda>r. pt_session r = i) rows of
              None \<Rightarrow> ret (refused NoSuchSession)
            | Some t \<Rightarrow>
                if pt_dead t then ret (refused ProcessExited) else deliver_to w ignorable i t captures text opts)
     }"

end
