(* ===== verification/DeliverProof.thy ===== *)
theory DeliverProof
  imports Deliver
begin

text \<open>
  What a delivery may rely on: the submit is pressed once and only over the text it is meant for, a
  paste only goes into a composer read as free, a person's draft is not cleared, and the receipt tells
  what happened. The proofs run over the events of a delivery, whatever the world answers.
\<close>

section \<open>What the operations keep\<close>

context event_invariant
begin

lemma keeps_receptive_rounds: "keeps I (receptive_rounds n w pane deadline)"
  by (induction n) (auto simp: receptive_def intro!: keep_rules)

lemma keeps_preempted [keep_rules]: "keeps I (preempted w i)"
  unfolding preempted_def by (intro keep_rules)

lemma keeps_land_rounds: "keeps I (land_rounds n w pane text c deadline)"
  by (induction n) (auto intro!: keep_rules)

lemma keeps_confirm_rounds: "keeps I (confirm_rounds n w pane key atCount deadline)"
  by (induction n) (auto intro!: keep_rules)

lemma keeps_scan [keep_rules]: "keeps I (scan_transcript w src sent)"
  unfolding scan_transcript_def by (rule keeps_ask) (use only_writes_loud in \<open>force split: prod.splits\<close>)

lemma keeps_scan_case [keep_rules]:
  "keeps I a \<Longrightarrow> keeps I b \<Longrightarrow> keeps I c \<Longrightarrow>
     keeps I (case r of ScanSilent \<Rightarrow> a | ScanMatched \<Rightarrow> b | ScanDifferentTurn \<Rightarrow> c)"
  by (cases r) simp_all

lemma keeps_scan_rounds: "keeps I (scan_rounds n w pane src sent deadline)"
  by (induction n) (auto intro!: keep_rules)

lemma keeps_waits [keep_rules]:
  "keeps I (awaitReceptive w pane)" "keeps I (feedbackCardRefusalFor w pane)" "keeps I (landV2 w pane text c)"
  "keeps I (preSubmitCheck w t text c)" "keeps I (confirmSubmitted w pane key atCount)"
  "keeps I (currentComposerDigest w pane)" "keeps I (not_receptive w t blocked)"
  unfolding awaitReceptive_def feedbackCardRefusalFor_def landV2_def preSubmitCheck_def confirmSubmitted_def
    currentComposerDigest_def not_receptive_def
  by (intro keep_rules keeps_receptive_rounds keeps_land_rounds keeps_confirm_rounds)+

lemma keeps_confirmSource [keep_rules]: "keeps I (confirmSubmittedFromSourceTurn w t sent key atCount source)"
  unfolding confirmSubmittedFromSourceTurn_def by (intro keep_rules keeps_scan_rounds keeps_waits)

lemma keeps_kept_draft [keep_rules]: "keeps I kept_draft"
  unfolding kept_draft_def by (rule keep_rules)

end

context event_only_invariant
begin

lemma keeps_change [keep_rules]: "keeps I (change w f)"
  unfolding change_def by (rule keep_rules)

lemma keeps_record_of [keep_rules]: "keeps I (record_of w i t)"
  unfolding record_of_def by (rule keep_rules)

lemma keeps_strands [keep_rules]:
  "keeps I (strand_unlanded w i t text land)" "keeps I (strand_landed w i t text land source)"
  "keeps I (resume_empty w i t text)" "keeps I (unexplained_draft w i t pending sc)"
  unfolding strand_unlanded_def strand_landed_def resume_empty_def unexplained_draft_def
  by (intro keep_rules)+

lemma keeps_press: "(\<And>ok. \<not> loud (Keys pane ks ok)) \<Longrightarrow> keeps I (press w pane ks)"
  unfolding press_def by (rule keeps_ask)

lemma clear_keys_not_submit: "clear_keys c \<noteq> submitKeys"
  by (simp add: clear_keys_def submitKeys_def composerLineEndKey_def)

text \<open>Clearing, where its keys are quiet.\<close>

lemma keeps_clear_rounds:
  assumes "\<And>ks ok. ks \<noteq> submitKeys \<Longrightarrow> \<not> loud (Keys pane ks ok)"
  shows "keeps I (clear_rounds n w pane i cwd pending c)"
proof -
  have finish: "keeps I (clear_finish w i cwd pending c)" for c
    unfolding clear_finish_def by (intro keep_rules)
  show ?thesis
  proof (induction n arbitrary: c)
    case (Suc n)
    have "keeps I (press w pane (clear_keys c))" by (intro keeps_press assms clear_keys_not_submit)
    then show ?case by (auto intro!: keep_rules finish Suc.IH)
  qed (simp add: finish)
qed

lemma keeps_clear_or_refuse:
  assumes "\<And>ks ok. ks \<noteq> submitKeys \<Longrightarrow> \<not> loud (Keys (pt_pane t) ks ok)"
  shows "keeps I (clear_or_refuse w i t pending sc why)"
  unfolding clear_or_refuse_def clearComposer_def by (intro keep_rules keeps_clear_rounds assms)

lemma keeps_occupied_other:
  assumes "\<And>ks ok. ks \<noteq> submitKeys \<Longrightarrow> \<not> loud (Keys (pt_pane t) ks ok)"
  shows "keeps I (occupied_other w i t text opts pending sc)"
  unfolding occupied_other_def recorded_draft_def unrecorded_draft_def tryReplaceStranded_def tryClearUnrecordedComposer_def
  by (intro keep_rules keeps_clear_or_refuse assms)

text \<open>Everything after the key that submits.\<close>

lemma keeps_confirms [keep_rules]:
  "keeps I (resume_confirm w i t text land source)" "keeps I (confirm_landed w i t text land source)"
  unfolding resume_confirm_def confirm_landed_def by (intro keep_rules)+

lemma keeps_submits:
  assumes "\<And>ok. \<not> loud (Keys (pt_pane t) submitKeys ok)"
  shows "keeps I (resume_held w i t text r)" and "keeps I (submit_landed w i t text c land)"
  unfolding resume_held_def submit_landed_def checked_submit_def by (intro keep_rules keeps_press assms)+

lemma keeps_before_paste:
  assumes "\<And>ks ok. ks \<noteq> submitKeys \<Longrightarrow> \<not> loud (Keys (pt_pane t) ks ok)"
    and "\<And>r. keeps I (resume_held w i t text r)"
  shows "keeps I (before_paste w i t text opts sc)"
proof -
  have "keeps I (resume_same_text w i t text pending sc r)" for pending r
    unfolding resume_same_text_def by (intro keep_rules assms)
  then have "keeps I (occupied_composer w i t text opts pending sc)" for pending
    unfolding occupied_composer_def by (intro keep_rules keeps_occupied_other assms)
  then show ?thesis
    unfolding before_paste_def by (cases "composerText sc") (auto intro!: keep_rules)
qed

lemma keeps_pasteBracketed:
  assumes "\<And>b ok. \<not> loud (Pasted pane b ok)"
  shows "keeps I (pasteBracketed w pane text)"
  unfolding pasteBracketed_def by (intro keep_rules keeps_ask assms)

lemma keeps_after_paste:
  assumes "\<And>c land. keeps I (submit_landed w i t text c land)"
  shows "keeps I (after_paste w ignorable i t text opts before)"
  unfolding after_paste_def by (intro keep_rules assms)

lemma keeps_paste_and_submit:
  assumes "\<And>b ok. \<not> loud (Pasted (pt_pane t) b ok)"
    and "\<And>c land. keeps I (submit_landed w i t text c land)"
  shows "keeps I (paste_and_submit w ignorable i t text opts)"
  unfolding paste_and_submit_def paste_now_def by (intro keep_rules keeps_pasteBracketed keeps_after_paste assms)

lemma keeps_deliver_to:
  assumes "\<And>ks ok. ks \<noteq> submitKeys \<Longrightarrow> \<not> loud (Keys (pt_pane t) ks ok)"
    and "\<And>r. keeps I (resume_held w i t text r)"
    and "\<And>b ok. \<not> loud (Pasted (pt_pane t) b ok)"
    and "\<And>c land. keeps I (submit_landed w i t text c land)"
  shows "keeps I (deliver_to w ignorable i t captures text opts)"
  unfolding deliver_to_def deliver_on_def by (intro keep_rules keeps_before_paste keeps_paste_and_submit assms)

end

section \<open>Keys that are pressed once\<close>

text \<open>
  A kind of event that must be allowed by the events before it; \<open>times\<close> is how often it happened.
\<close>

fun guarded_by :: "(event \<Rightarrow> bool) \<Rightarrow> (event \<Rightarrow> events \<Rightarrow> bool) \<Rightarrow> events \<Rightarrow> bool" where
  "guarded_by loud allowed [] = True"
| "guarded_by loud allowed (e # l) = (guarded_by loud allowed l \<and> (loud e \<longrightarrow> allowed e l))"

definition times :: "(event \<Rightarrow> bool) \<Rightarrow> events \<Rightarrow> nat" where
  "times loud l = length (filter loud l)"

abbreviation happened :: "(event \<Rightarrow> bool) \<Rightarrow> (event \<Rightarrow> events \<Rightarrow> bool) \<Rightarrow> nat \<Rightarrow> send_state \<Rightarrow> bool" where
  "happened loud allowed n \<equiv> \<lambda>s. guarded_by loud allowed (ss_log s) \<and> times loud (ss_log s) = n"

definition one_shot :: "(event \<Rightarrow> bool) \<Rightarrow> (event \<Rightarrow> events \<Rightarrow> bool) \<Rightarrow> 'a op \<Rightarrow> bool" where
  "one_shot loud allowed m \<longleftrightarrow>
     (\<forall>s. happened loud allowed 0 s \<longrightarrow>
        wp m (\<lambda>x s'. guarded_by loud allowed (ss_log s') \<and> times loud (ss_log s') \<le> 1) s)"

text \<open>An operation that may answer the call; when it does not, nothing has happened yet and \<open>P\<close> holds.\<close>

definition decides :: "(event \<Rightarrow> bool) \<Rightarrow> (event \<Rightarrow> events \<Rightarrow> bool) \<Rightarrow> (send_state \<Rightarrow> bool) \<Rightarrow> 'a option op \<Rightarrow> send_state \<Rightarrow> bool" where
  "decides loud allowed P m s \<longleftrightarrow>
     wp m (\<lambda>r s'. guarded_by loud allowed (ss_log s') \<and> times loud (ss_log s') \<le> 1 \<and>
       (r = None \<longrightarrow> times loud (ss_log s') = 0 \<and> P s')) s"

locale single_event =
  fixes loud :: "event \<Rightarrow> bool" and allowed :: "event \<Rightarrow> events \<Rightarrow> bool"
  assumes only_writes: "loud e \<Longrightarrow> (\<exists>p ks ok. e = Keys p ks ok) \<or> (\<exists>p b ok. e = Pasted p b ok)"

sublocale single_event \<subseteq> counted: event_only_invariant "happened loud allowed n" loud for n
  by unfold_locales (use only_writes in \<open>auto simp: times_def\<close>)

context single_event
begin

lemma one_shot_keeps: "keeps (happened loud allowed 0) m \<Longrightarrow> one_shot loud allowed m"
  unfolding one_shot_def keeps_def by (fastforce elim: wp_mono)

lemma one_shot_later:
  "keeps (happened loud allowed 0) m \<Longrightarrow> (\<And>x. one_shot loud allowed (f x)) \<Longrightarrow> one_shot loud allowed (m \<bind> f)"
  unfolding one_shot_def keeps_def wp_bind by (blast intro: wp_mono)

lemma after_one:
  assumes "wp m (\<lambda>x s'. guarded_by loud allowed (ss_log s') \<and> times loud (ss_log s') \<le> 1) s"
    and "\<And>n x. keeps (happened loud allowed n) (f x)"
  shows "wp (m \<bind> f) (\<lambda>x s'. guarded_by loud allowed (ss_log s') \<and> times loud (ss_log s') \<le> 1) s"
  using assms(1)
proof (rule wp_bindI)
  fix x and s' :: send_state assume s': "guarded_by loud allowed (ss_log s') \<and> times loud (ss_log s') \<le> 1"
  show "wp (f x) (\<lambda>x s'. guarded_by loud allowed (ss_log s') \<and> times loud (ss_log s') \<le> 1) s'"
    by (rule wp_mono [OF keepsD [OF assms(2) [of "times loud (ss_log s')"]]]) (use s' in auto)
qed

lemma one_shot_before:
  "one_shot loud allowed m \<Longrightarrow> (\<And>n x. keeps (happened loud allowed n) (f x)) \<Longrightarrow> one_shot loud allowed (m \<bind> f)"
  unfolding one_shot_def by (blast intro: after_one)

lemma one_shot_cases:
  "one_shot loud allowed m \<Longrightarrow> one_shot loud allowed n \<Longrightarrow> one_shot loud allowed (if b then m else n)"
  "one_shot loud allowed m \<Longrightarrow> (\<And>x. one_shot loud allowed (f x)) \<Longrightarrow>
     one_shot loud allowed (case y of None \<Rightarrow> m | Some x \<Rightarrow> f x)"
  "(\<And>x z. one_shot loud allowed (g x z)) \<Longrightarrow> one_shot loud allowed (case p of (x, z) \<Rightarrow> g x z)"
  by (simp_all split: option.split prod.split)

lemma decides_keeps:
  assumes "keeps (happened loud allowed 0) m" and "happened loud allowed 0 s" and "wp m (\<lambda>r s'. r = None \<longrightarrow> P s') s"
  shows "decides loud allowed P m s"
  unfolding decides_def by (rule wp_mono [OF wp_conj [OF keepsD [OF assms(1,2)] assms(3)]]) auto

lemma decides_answer:
  "one_shot loud allowed m \<Longrightarrow> happened loud allowed 0 s \<Longrightarrow>
     decides loud allowed P (do { a \<leftarrow> m; ret (Some (f a)) }) s"
  unfolding decides_def one_shot_def wp_bind wp_ret by (fastforce elim: wp_mono)

lemma decides_later:
  assumes "keeps (happened loud allowed 0) m" and "happened loud allowed 0 s"
    and "\<And>x s'. happened loud allowed 0 s' \<Longrightarrow> decides loud allowed P (f x) s'"
  shows "decides loud allowed P (m \<bind> f) s"
  unfolding decides_def
  by (rule wp_bindI [OF keepsD [OF assms(1,2)]]) (rule assms(3) [unfolded decides_def])

lemma decides_cases:
  "decides loud allowed P m s \<Longrightarrow> decides loud allowed P n s \<Longrightarrow> decides loud allowed P (if b then m else n) s"
  "decides loud allowed P m s \<Longrightarrow> (\<And>x. decides loud allowed P (f x) s) \<Longrightarrow>
     decides loud allowed P (case y of None \<Rightarrow> m | Some x \<Rightarrow> f x) s"
  by (simp_all split: option.split)

lemma decides_then:
  assumes "decides loud allowed P m s"
    and "\<And>s. happened loud allowed 0 s \<Longrightarrow> P s \<Longrightarrow>
      wp n (\<lambda>x s'. guarded_by loud allowed (ss_log s') \<and> times loud (ss_log s') \<le> 1) s"
  shows "wp (do { r \<leftarrow> m; case r of Some a \<Rightarrow> ret a | None \<Rightarrow> n })
      (\<lambda>x s'. guarded_by loud allowed (ss_log s') \<and> times loud (ss_log s') \<le> 1) s"
  using assms(1) unfolding decides_def
  by (rule wp_bindI) (use assms(2) in \<open>auto simp: wp_ret split: option.split\<close>)

end

section \<open>The submit\<close>

definition submit_event :: "event \<Rightarrow> bool" where
  "submit_event e = (case e of Keys pane ks ok \<Rightarrow> ks = submitKeys | _ \<Rightarrow> False)"

text \<open>
  The check that belongs to this delivery. Its text was pasted before, and the markers it is counted
  against are those on the screen just before that paste; or it resumes one of the records \<open>R\<close>.
\<close>

definition marks_on :: "golib \<Rightarrow> screen option \<Rightarrow> paste_key list" where
  "marks_on lib snap = (case snap of Some sc \<Rightarrow> composerMarkers lib sc | None \<Rightarrow> [])"

definition pasted_own :: "golib \<Rightarrow> string \<Rightarrow> string \<Rightarrow> string \<Rightarrow> events \<Rightarrow> land_check \<Rightarrow> bool" where
  "pasted_own lib i msg pane l c \<longleftrightarrow>
     (\<exists>mid flag snap tail. l = mid @ Pasted pane (sanitizeForBracketedPaste msg) True # Staged True #
          PasteFlag pane flag # Captured pane snap # tail \<and> c = fresh_check i (marks_on lib snap))"

definition own_check :: "golib \<Rightarrow> string \<Rightarrow> string \<Rightarrow> string \<Rightarrow> stranded_record set \<Rightarrow> events \<Rightarrow> land_check \<Rightarrow> bool" where
  "own_check lib i msg pane R l c \<longleftrightarrow>
     pasted_own lib i msg pane l c \<or> (\<exists>r \<in> R. sd_text r = msg \<and> c = resume_check i r)"

lemma own_check_later: "own_check lib i msg pane R l c \<Longrightarrow> own_check lib i msg pane R (e # l) c"
  unfolding own_check_def pasted_own_def by (metis append_Cons)

text \<open>
  The runtime was in the foreground and the capture that followed showed this delivery's text in the
  composer and no dialog.
\<close>

definition shows_own_text :: "golib \<Rightarrow> string \<Rightarrow> string \<Rightarrow> string \<Rightarrow> stranded_record set \<Rightarrow> event \<Rightarrow> events \<Rightarrow> bool" where
  "shows_own_text lib i msg pane R e l \<longleftrightarrow>
     (\<exists>ks ok sc c rest. e = Keys pane ks ok \<and> l = Captured pane (Some sc) # Foreground pane True # rest \<and>
        \<not> awaitingSelection lib sc \<and> own_check lib i msg pane R rest c \<and> held_on lib sc msg c \<noteq> None)"

interpretation submitting: single_event submit_event "shows_own_text lib i msg pane R" for lib i msg pane R
  by unfold_locales (auto simp: submit_event_def split: event.splits)

interpretation owning: event_only_invariant "\<lambda>s. own_check lib i msg pane R (ss_log s) c" "\<lambda>e. False" for lib i msg pane R c
  by unfold_locales (simp_all add: own_check_later)

interpretation unchanged: event_invariant "\<lambda>s. ss_memory s = d" "\<lambda>e. False" for d
  by unfold_locales auto

text \<open>An operation that presses at most once where \<open>J\<close> holds.\<close>

definition one_shot_if :: "(send_state \<Rightarrow> bool) \<Rightarrow> (event \<Rightarrow> bool) \<Rightarrow> (event \<Rightarrow> events \<Rightarrow> bool) \<Rightarrow> 'a op \<Rightarrow> bool" where
  "one_shot_if J loud allowed m \<longleftrightarrow>
     (\<forall>s. happened loud allowed 0 s \<longrightarrow> J s \<longrightarrow>
        wp m (\<lambda>x s'. guarded_by loud allowed (ss_log s') \<and> times loud (ss_log s') \<le> 1) s)"

lemma one_shot_if_weaken: "one_shot loud allowed m \<Longrightarrow> one_shot_if J loud allowed m"
  by (simp add: one_shot_def one_shot_if_def)

lemma one_shot_if_always: "one_shot_if J loud allowed m \<Longrightarrow> (\<And>s. J s) \<Longrightarrow> one_shot loud allowed m"
  by (simp add: one_shot_def one_shot_if_def)

lemma one_shot_if_later:
  "keeps (happened loud allowed 0) m \<Longrightarrow> keeps J m \<Longrightarrow> (\<And>x. one_shot_if J loud allowed (f x)) \<Longrightarrow>
     one_shot_if J loud allowed (m \<bind> f)"
  unfolding one_shot_if_def keeps_def wp_bind by (blast intro: wp_mono [OF wp_conj])

lemma one_shot_if_cases:
  "one_shot_if J loud allowed m \<Longrightarrow> one_shot_if J loud allowed n \<Longrightarrow> one_shot_if J loud allowed (if b then m else n)"
  "(\<And>x z. one_shot_if J loud allowed (g x z)) \<Longrightarrow> one_shot_if J loud allowed (case p of (x, z) \<Rightarrow> g x z)"
  by (simp_all split: prod.split)

lemma one_shot_if_before:
  fixes loud allowed
  assumes "single_event loud" and "one_shot_if J loud allowed m" and "\<And>n x. keeps (happened loud allowed n) (f x)"
  shows "one_shot_if J loud allowed (m \<bind> f)"
  unfolding one_shot_if_def
proof (intro allI impI)
  fix s :: send_state assume "happened loud allowed 0 s" "J s"
  with assms(2) have "wp m (\<lambda>x s'. guarded_by loud allowed (ss_log s') \<and> times loud (ss_log s') \<le> 1) s"
    by (simp add: one_shot_if_def)
  from single_event.after_one [OF assms(1) this assms(3)]
  show "wp (m \<bind> f) (\<lambda>x s'. guarded_by loud allowed (ss_log s') \<and> times loud (ss_log s') \<le> 1) s" .
qed

abbreviation own_now :: "world \<Rightarrow> string \<Rightarrow> string \<Rightarrow> pane_target \<Rightarrow> stranded_record set \<Rightarrow> land_check \<Rightarrow> send_state \<Rightarrow> bool" where
  "own_now w i msg t R c \<equiv> \<lambda>s. own_check (w_lib w) i msg (pt_pane t) R (ss_log s) c"

lemma submitting_event: "single_event submit_event"
  by unfold_locales (auto simp: submit_event_def split: event.splits)

lemma preSubmit_shows:
  fixes s :: send_state
  assumes "own_now w i text t R c s" and "happened submit_event (shows_own_text (w_lib w) i text (pt_pane t) R) n s"
  shows "wp (preSubmitCheck w t text c) (\<lambda>v s'. happened submit_event (shows_own_text (w_lib w) i text (pt_pane t) R) n s' \<and>
    (v = preSubmitOK \<longrightarrow> (\<forall>ks ok. shows_own_text (w_lib w) i text (pt_pane t) R (Keys (pt_pane t) ks ok) (ss_log s')))) s"
proof (rule wp_conj)
  let ?S = "shows_own_text (w_lib w) i text (pt_pane t) R"
  show "wp (preSubmitCheck w t text c) (\<lambda>v. happened submit_event ?S n) s"
    by (rule keepsD [OF submitting.counted.keeps_waits(4) assms(2)])
  have *: "\<exists>sc. captured = Some sc \<and> \<not> awaitingSelection (w_lib w) sc \<and> held_on (w_lib w) sc text c \<noteq> None"
    if "pre_submit_on (w_lib w) text c captured = preSubmitOK" for captured
    using that by (auto simp: pre_submit_on_def split: option.splits if_splits)
  have own: "own_now w i text t R c s1 \<Longrightarrow> wp (if p then ret preSubmitPreempted else do {
      doubt \<leftarrow> foregroundIsRuntime w t;
      if doubt \<noteq> None then ret preSubmitNotRuntime
      else do { captured \<leftarrow> captureForClassify w (pt_pane t); ret (pre_submit_on (w_lib w) text c captured) } })
      (\<lambda>v s'. v = preSubmitOK \<longrightarrow> (\<forall>ks ok. ?S (Keys (pt_pane t) ks ok) (ss_log s'))) s1" for s1 p
    by (auto simp: wp_rules Let_def shows_own_text_def dest!: *)
  show "wp (preSubmitCheck w t text c) (\<lambda>v s'. v = preSubmitOK \<longrightarrow> (\<forall>ks ok. ?S (Keys (pt_pane t) ks ok) (ss_log s'))) s"
    unfolding preSubmitCheck_def by (rule wp_bindI [OF keepsD [OF owning.keeps_preempted assms(1)] own])
qed

lemma checked_submit_once:
  "one_shot_if (own_now w i text t R c) submit_event (shows_own_text (w_lib w) i text (pt_pane t) R) (checked_submit w t text c)"
  unfolding one_shot_if_def checked_submit_def
proof (intro allI impI)
  let ?S = "shows_own_text (w_lib w) i text (pt_pane t) R"
  fix s :: send_state assume s: "happened submit_event ?S 0 s" and own: "own_now w i text t R c s"
  show "wp (do {
      v \<leftarrow> preSubmitCheck w t text c;
      if v \<noteq> preSubmitOK then ret (Inl v) else do { ok \<leftarrow> press w (pt_pane t) submitKeys; ret (Inr ok) }
    }) (\<lambda>x s'. guarded_by submit_event ?S (ss_log s') \<and> times submit_event (ss_log s') \<le> 1) s"
    by (rule wp_bindI [OF preSubmit_shows [OF own s]]) (auto simp: wp_rules press_def times_def submit_event_def)
qed

lemma quiet_clears: "ks \<noteq> submitKeys \<Longrightarrow> \<not> submit_event (Keys pane ks ok)" "\<not> submit_event (Pasted pane b ok)"
  by (simp_all add: submit_event_def)

lemma resume_held_once:
  assumes "r \<in> R" and "sd_text r = text"
  shows "one_shot submit_event (shows_own_text (w_lib w) i text (pt_pane t) R) (resume_held w i t text r)"
proof -
  have "own_now w i text t R (resume_check i r) s" for s using assms by (auto simp: own_check_def)
  note submit = one_shot_if_always [OF checked_submit_once this]
  show ?thesis
    unfolding resume_held_def
    by (rule submitting.one_shot_later, intro keep_rules, rule submitting.one_shot_cases(1), rule submitting.one_shot_keeps,
        intro keep_rules, rule submitting.one_shot_later, intro keep_rules, rule submitting.one_shot_before,
        rule submit, intro keep_rules)
qed

lemma submit_landed_once:
  "one_shot_if (own_now w i text t R (fresh_check i before)) submit_event (shows_own_text (w_lib w) i text (pt_pane t) R)
     (submit_landed w i t text (fresh_check i before) land)"
  unfolding submit_landed_def
  by (rule one_shot_if_later, intro keep_rules, intro keep_rules, rule one_shot_if_before [OF submitting_event],
      rule checked_submit_once, intro keep_rules)

text \<open>The records that may be resumed: those the driver holds for this session and directory.\<close>

definition resumable :: "send_options \<Rightarrow> string \<Rightarrow> pane_target \<Rightarrow> draft_memory \<Rightarrow> stranded_record set" where
  "resumable opts i t d = {r. so_resume opts \<and> (i, r) \<in> set (dm_stranded d) \<and> sd_cwd r = pt_cwd t}"

lemma record_of_resumable:
  assumes "ss_memory s = d"
  shows "wp (record_of w i t) (\<lambda>r s'. \<forall>rec. r = Some rec \<longrightarrow> so_resume opts \<longrightarrow> rec \<in> resumable opts i t d) s"
  using assms
  by (auto simp: record_of_def wp_memory strandedRecordFor_def sweepStrandedLocked_def resumable_def Let_def
      dest!: map_of_SomeD split: option.splits)

lemma before_paste_decides:
  assumes "happened submit_event (shows_own_text (w_lib w) i text (pt_pane t) (resumable opts i t d)) 0 s" and "ss_memory s = d"
  shows "decides submit_event (shows_own_text (w_lib w) i text (pt_pane t) (resumable opts i t d)) (\<lambda>s. True)
    (before_paste w i t text opts sc) s"
proof -
  let ?S = "shows_own_text (w_lib w) i text (pt_pane t) (resumable opts i t d)"
  have kept: "decides submit_event ?S (\<lambda>s. True) m s" if "keeps (happened submit_event ?S 0) m" "happened submit_event ?S 0 s"
    for m :: "answer option op" and s
    by (rule submitting.decides_keeps [OF that]) (simp add: wp_any)
  have other: "keeps (happened submit_event ?S 0) (occupied_other w i t text opts pending sc)" for pending
    by (intro submitting.counted.keeps_occupied_other quiet_clears)
  have same: "one_shot submit_event ?S (resume_same_text w i t text pending sc r)"
    if "r \<in> resumable opts i t d" "sd_text r = text" for pending r
    unfolding resume_same_text_def
    by (rule submitting.one_shot_cases(1), rule submitting.one_shot_keeps, intro keep_rules, rule resume_held_once [OF that])
  have "decides submit_event ?S (\<lambda>s. True) (occupied_composer w i t text opts pending sc) s" for pending
    unfolding occupied_composer_def decides_def
  proof (rule wp_bindI [OF wp_conj [OF keepsD [OF submitting.counted.keeps_record_of assms(1)] record_of_resumable [OF assms(2)]]])
    fix r :: "stranded_record option" and s1 :: send_state
    assume "happened submit_event ?S 0 s1 \<and> (\<forall>rec. r = Some rec \<longrightarrow> so_resume opts \<longrightarrow> rec \<in> resumable opts i t d)"
    then have s1: "happened submit_event ?S 0 s1" and mem: "\<And>rec. r = Some rec \<Longrightarrow> so_resume opts \<Longrightarrow> rec \<in> resumable opts i t d"
      by auto
    have one: "decides submit_event ?S (\<lambda>s. True)
        (if sd_text rec = text then do { a \<leftarrow> resume_same_text w i t text pending sc rec; ret (Some a) }
         else occupied_other w i t text opts pending sc) s1" if "rec \<in> resumable opts i t d" for rec
    proof (cases "sd_text rec = text")
      case True
      show ?thesis by (simp only: if_P [OF True]) (rule submitting.decides_answer [OF same [OF that True] s1])
    next
      case False
      show ?thesis by (simp only: if_not_P [OF False]) (rule kept [OF other s1])
    qed
    have "decides submit_event ?S (\<lambda>s. True) (case (if so_resume opts then r else None) of
        None \<Rightarrow> occupied_other w i t text opts pending sc
      | Some r \<Rightarrow> if sd_text r = text then do { a \<leftarrow> resume_same_text w i t text pending sc r; ret (Some a) }
          else occupied_other w i t text opts pending sc) s1"
      using one mem kept [OF other s1] by (cases r; cases "so_resume opts"; simp only: if_True if_False option.case)
    then show "wp (case (if so_resume opts then r else None) of
        None \<Rightarrow> occupied_other w i t text opts pending sc
      | Some r \<Rightarrow> if sd_text r = text then do { a \<leftarrow> resume_same_text w i t text pending sc r; ret (Some a) }
          else occupied_other w i t text opts pending sc)
      (\<lambda>r s'. guarded_by submit_event ?S (ss_log s') \<and> times submit_event (ss_log s') \<le> 1 \<and>
         (r = None \<longrightarrow> times submit_event (ss_log s') = 0 \<and> True)) s1"
      unfolding decides_def .
  qed
  then show ?thesis
    using assms(1) unfolding before_paste_def
    by (cases "composerText sc") (auto simp del: One_nat_def intro!: kept keep_rules)
qed

lemma after_paste_submits_once:
  "one_shot_if (own_now w i text t R (fresh_check i before)) submit_event (shows_own_text (w_lib w) i text (pt_pane t) R)
     (after_paste w ignorable i t text opts before)"
proof -
  let ?S = "shows_own_text (w_lib w) i text (pt_pane t) R" and ?J = "own_now w i text t R (fresh_check i before)"
  have quiet: "one_shot_if ?J submit_event ?S m" if "keeps (happened submit_event ?S 0) m" for m :: "answer op"
    by (rule one_shot_if_weaken [OF submitting.one_shot_keeps [OF that]])
  show ?thesis
    unfolding after_paste_def
    by (intro one_shot_if_later one_shot_if_cases quiet [OF keeps_ret] quiet [OF submitting.counted.keeps_strands(1)]
        submit_landed_once keep_rules)
qed

lemma pasted_is_own:
  assumes "ss_log s = Captured (pt_pane t) snap # l"
  shows "wp (pasteBracketed w (pt_pane t) text) (\<lambda>f s'. f = None \<longrightarrow>
    own_now w i text t R (fresh_check i (marks_on (w_lib w) snap)) s') s"
  using assms
  by (auto simp: pasteBracketed_def bracketPasteFlag_def wp_rules own_check_def pasted_own_def
      split: option.split bool.split) (metis append_Nil)+

lemma paste_submits_once:
  "one_shot submit_event (shows_own_text (w_lib w) i text (pt_pane t) R) (paste_and_submit w ignorable i t text opts)"
proof -
  let ?S = "shows_own_text (w_lib w) i text (pt_pane t) R"
  note quiet = submitting.counted.keeps_pasteBracketed [OF quiet_clears(2)]
  have "one_shot submit_event ?S (paste_now w ignorable i t text opts)"
    unfolding one_shot_def paste_now_def marks_on_def [symmetric] wp_bind wp_capture
  proof (intro allI impI, rule wp_mono)
    fix s :: send_state assume s: "happened submit_event ?S 0 s"
    let ?snap = "pane_screen w (pt_pane t) (ss_log s)"
    let ?s = "s\<lparr>ss_log := Captured (pt_pane t) ?snap # ss_log s\<rparr>"
    have "happened submit_event ?S 0 ?s" using s by (simp add: times_def submit_event_def)
    then show "wp (pasteBracketed w (pt_pane t) text) (\<lambda>f s'. happened submit_event ?S 0 s' \<and>
        (f = None \<longrightarrow> own_now w i text t R (fresh_check i (marks_on (w_lib w) ?snap)) s')) ?s"
      by (rule wp_conj [OF keepsD [OF quiet] pasted_is_own]) simp
    fix f :: "paste_failure option" and s' :: send_state
    assume "happened submit_event ?S 0 s' \<and> (f = None \<longrightarrow> own_now w i text t R (fresh_check i (marks_on (w_lib w) ?snap)) s')"
    then show "wp (case f of Some f \<Rightarrow> ret (if f \<in> {FlagUnknown, FlagOff} then refused (NoBracketedPaste f) else Inl (PasteFailed f))
        | None \<Rightarrow> after_paste w ignorable i t text opts (marks_on (w_lib w) ?snap))
      (\<lambda>x s'. guarded_by submit_event ?S (ss_log s') \<and> times submit_event (ss_log s') \<le> 1) s'"
      using after_paste_submits_once [unfolded one_shot_if_def]
      by (cases f) (auto simp: wp_ret)
  qed
  then show ?thesis
    unfolding paste_and_submit_def
    by (intro submitting.one_shot_later submitting.one_shot_cases submitting.one_shot_keeps [OF keeps_ret] keep_rules)
qed

lemma deliver_on_submits_once:
  "one_shot_if (\<lambda>s. ss_memory s = d) submit_event (shows_own_text (w_lib w) i text (pt_pane t) (resumable opts i t d))
     (deliver_on w ignorable i t text opts sc)"
  unfolding one_shot_if_def deliver_on_def
  by (intro allI impI submitting.decides_then [OF before_paste_decides])
    (use paste_submits_once in \<open>auto simp only: one_shot_def\<close>)

lemma deliver_to_submits_once:
  "one_shot_if (\<lambda>s. ss_memory s = d) submit_event (shows_own_text (w_lib w) i text (pt_pane t) (resumable opts i t d))
     (deliver_to w ignorable i t captures text opts)"
proof -
  let ?S = "shows_own_text (w_lib w) i text (pt_pane t) (resumable opts i t d)"
  have quiet: "one_shot_if J submit_event ?S (not_receptive w t blocked)" for J blocked
    by (rule one_shot_if_weaken [OF submitting.one_shot_keeps [OF submitting.counted.keeps_waits(7)]])
  show ?thesis
    unfolding deliver_to_def
    by (intro one_shot_if_later one_shot_if_cases deliver_on_submits_once quiet keep_rules)
qed

lemma times_split: "times loud (later @ e # before) = times loud later + (if loud e then 1 else 0) + times loud before"
  by (simp add: times_def)

lemma guarded_split: "guarded_by loud allowed (later @ l) \<Longrightarrow> guarded_by loud allowed l"
  by (induction later) simp_all

lemma once_event:
  assumes "guarded_by loud allowed (later @ e # before)" and "times loud (later @ e # before) \<le> 1" and "loud e"
  shows "\<not> (\<exists>e \<in> set later \<union> set before. loud e) \<and> allowed e before"
  using assms guarded_split [OF assms(1)] by (auto simp: times_split) (auto simp: times_def filter_empty_conv)

lemma listed_delivery:
  assumes "ss_log s = []" and "run_state (deliverViaPane w ignorable i text opts) s = (a, s')"
    and "ss_log s' = later @ e # before" and "\<not> (\<exists>b. e = Listed b)"
  obtains rows captures t where "w_enumerate w [] = Some (rows, captures)" and "find (\<lambda>r. pt_session r = i) rows = Some t"
    and "\<not> pt_dead t" and "run_state (deliver_to w ignorable i t captures text opts) (s\<lparr>ss_log := [Listed True]\<rparr>) = (a, s')"
proof -
  have quiet: thesis if "ss_log s' = [Listed b]" for b
    using assms(3,4) that by (cases later) auto
  have "wp (deliverViaPane w ignorable i text opts) (\<lambda>a s'. ss_log s' = [Listed (w_enumerate w [] \<noteq> None)] \<or>
      (\<exists>rows captures t. w_enumerate w [] = Some (rows, captures) \<and> find (\<lambda>r. pt_session r = i) rows = Some t \<and>
        \<not> pt_dead t \<and> run_state (deliver_to w ignorable i t captures text opts) (s\<lparr>ss_log := [Listed True]\<rparr>) = (a, s'))) s"
    unfolding deliverViaPane_def wp_bind wp_ask assms(1)
    by (auto simp: wp_ret split: option.split) (auto simp: wp_def split: prod.split)
  from wp_run [OF this assms(2)] show thesis using quiet that by blast
qed

text \<open>
  C1: A delivery presses the keys that submit at most once, into the pane its session was listed with, and
  right after two answers: the agent's runtime is the process in the pane's foreground, and the capture
  that followed shows no dialog and, in the composer, this delivery's text. The text is this
  delivery's own: the call has pasted it itself, and the check counts paste markers against those on
  the screen just before that paste; or the caller asked to resume and the driver holds a record of
  this very text for this session and directory. (The check takes for the text its rows in the
  composer, their tail, the end of its last line, or the one marker that was gained.)
\<close>

theorem submit_is_guarded:
  assumes "run_state (deliverViaPane w ignorable i text opts) s = (a, s')" and "ss_log s = []"
    and "ss_log s' = later @ Keys pane [''Space'', ''C-m''] ok # before"
  shows "\<not> (\<exists>e \<in> set later \<union> set before. submit_event e) \<and>
    (\<exists>rows captures t sc c rest. w_enumerate w [] = Some (rows, captures) \<and>
      find (\<lambda>r. pt_session r = i) rows = Some t \<and> pane = pt_pane t \<and>
      before = Captured pane (Some sc) # Foreground pane True # rest \<and> \<not> awaitingSelection (w_lib w) sc \<and>
      held_on (w_lib w) sc text c \<noteq> None \<and>
      ((\<exists>mid flag snap tail. rest = mid @ Pasted pane (sanitizeForBracketedPaste text) True # Staged True #
          PasteFlag pane flag # Captured pane snap # tail \<and>
          c = fresh_check i (case snap of Some sc \<Rightarrow> composerMarkers (w_lib w) sc | None \<Rightarrow> [])) \<or>
       (\<exists>r. so_resume opts \<and> (i, r) \<in> set (dm_stranded (ss_memory s)) \<and> sd_cwd r = pt_cwd t \<and> sd_text r = text \<and>
          c = resume_check i r)))"
proof -
  obtain rows captures t where t: "w_enumerate w [] = Some (rows, captures)" "find (\<lambda>r. pt_session r = i) rows = Some t"
    and run: "run_state (deliver_to w ignorable i t captures text opts) (s\<lparr>ss_log := [Listed True]\<rparr>) = (a, s')"
    by (rule listed_delivery [OF assms(2,1,3)]; simp)
  let ?S = "shows_own_text (w_lib w) i text (pt_pane t) (resumable opts i t (ss_memory s))"
  have "happened submit_event ?S 0 (s\<lparr>ss_log := [Listed True]\<rparr>)" by (simp add: submit_event_def times_def)
  with deliver_to_submits_once [where d = "ss_memory s"]
  have "wp (deliver_to w ignorable i t captures text opts)
      (\<lambda>x s'. guarded_by submit_event ?S (ss_log s') \<and> times submit_event (ss_log s') \<le> 1) (s\<lparr>ss_log := [Listed True]\<rparr>)"
    unfolding one_shot_if_def by simp
  from wp_run [OF this run] once_event [of submit_event ?S later "Keys pane [''Space'', ''C-m''] ok" before]
  have once: "\<not> (\<exists>e \<in> set later \<union> set before. submit_event e)" and "?S (Keys pane [''Space'', ''C-m''] ok) before"
    using assms(3) by (auto simp: submit_event_def submitKeys_def)
  from this(2) t have "\<exists>rows captures t sc c rest. w_enumerate w [] = Some (rows, captures) \<and>
      find (\<lambda>r. pt_session r = i) rows = Some t \<and> pane = pt_pane t \<and>
      before = Captured pane (Some sc) # Foreground pane True # rest \<and> \<not> awaitingSelection (w_lib w) sc \<and>
      held_on (w_lib w) sc text c \<noteq> None \<and>
      (pasted_own (w_lib w) i text pane rest c \<or> (\<exists>r \<in> resumable opts i t (ss_memory s). sd_text r = text \<and> c = resume_check i r))"
    unfolding shows_own_text_def own_check_def by blast
  with once show ?thesis by (simp add: pasted_own_def marks_on_def resumable_def)
qed

section \<open>The paste\<close>

definition paste_event :: "event \<Rightarrow> bool" where
  "paste_event e = (case e of Pasted pane bytes ok \<Rightarrow> True | _ \<Rightarrow> False)"

text \<open>The latest capture, and the screen decided on: the one listed with the panes when it failed.\<close>

fun latest_capture :: "events \<Rightarrow> screen option option" where
  "latest_capture [] = None"
| "latest_capture (e # l) = (case e of Captured pane x \<Rightarrow> Some x | _ \<Rightarrow> latest_capture l)"

definition read_free :: "screen \<Rightarrow> events \<Rightarrow> bool" where
  "read_free listed l \<longleftrightarrow>
     (\<exists>x. latest_capture l = Some x \<and> composerText (the_default listed x) \<in> {Holds [], HasNone})"

definition over_nothing :: "string \<Rightarrow> string \<Rightarrow> screen \<Rightarrow> event \<Rightarrow> events \<Rightarrow> bool" where
  "over_nothing text pane listed e l \<longleftrightarrow>
     (\<exists>ok x out seen. e = Pasted pane (sanitizeForBracketedPaste text) ok \<and>
        l = Staged True # PasteFlag pane (Some out) # Captured pane x # Foreground pane True # seen \<and>
        TrimSpace out = ''1'' \<and> read_free listed seen)"

interpretation pasting: single_event paste_event "over_nothing msg pane listed" for msg pane listed
  by unfold_locales (auto simp: paste_event_def split: event.splits)

lemma quiet_keys: "\<not> paste_event (Keys pane ks ok)"
  by (simp add: paste_event_def)

lemma paste_and_submit_pastes_once:
  assumes "happened paste_event (over_nothing text (pt_pane t) listed) 0 s" and "read_free listed (ss_log s)"
  shows "wp (paste_and_submit w ignorable i t text opts)
    (\<lambda>x s'. guarded_by paste_event (over_nothing text (pt_pane t) listed) (ss_log s') \<and> times paste_event (ss_log s') \<le> 1) s"
proof -
  let ?O = "over_nothing text (pt_pane t) listed"
  have after: "keeps (happened paste_event ?O n) (submit_landed w i t text c land)" for n c land
    by (intro pasting.counted.keeps_submits quiet_keys)
  have paste: "wp (pasteBracketed w (pt_pane t) text)
      (\<lambda>x s'. guarded_by paste_event ?O (ss_log s') \<and> times paste_event (ss_log s') \<le> 1) s1"
    if "ss_log s1 = Captured (pt_pane t) x # Foreground (pt_pane t) True # ss_log s" for s1 :: send_state and x
  proof -
    have "guarded_by paste_event ?O (ss_log s1)" "times paste_event (ss_log s1) = 0"
      using assms(1) that by (simp_all add: paste_event_def times_def)
    then show ?thesis
      using assms(2) that
      by (auto simp: pasteBracketed_def bracketPasteFlag_def wp_rules paste_event_def times_def over_nothing_def
          split: option.split bool.split)
  qed
  have rest: "keeps (happened paste_event ?O n) (after_paste w ignorable i t text opts before)" for n before
    by (intro pasting.counted.keeps_after_paste after)
  have go: "wp (do { failure \<leftarrow> pasteBracketed w (pt_pane t) text;
        case failure of Some f \<Rightarrow> ret (g f) | None \<Rightarrow> after_paste w ignorable i t text opts before })
      (\<lambda>x s'. guarded_by paste_event ?O (ss_log s') \<and> times paste_event (ss_log s') \<le> 1) s1"
    if "ss_log s1 = Captured (pt_pane t) x # Foreground (pt_pane t) True # ss_log s" for s1 :: send_state and x g before
    by (rule pasting.after_one [OF paste [OF that]]) (intro keep_rules rest)
  have now: "wp (paste_now w ignorable i t text opts)
      (\<lambda>x s'. guarded_by paste_event ?O (ss_log s') \<and> times paste_event (ss_log s') \<le> 1) s1"
    if "ss_log s1 = Foreground (pt_pane t) True # ss_log s" for s1 :: send_state
    unfolding paste_now_def
    by (rule wp_bindI [where P = "\<lambda>x s2. ss_log s2 = Captured (pt_pane t) x # Foreground (pt_pane t) True # ss_log s"])
      (simp add: wp_capture that, rule go)
  show ?thesis
    unfolding paste_and_submit_def wp_bind wp_foreground Let_def wp_option
    using assms(1) by (auto simp: wp_ret paste_event_def times_def split: option.split intro!: now [simplified times_def One_nat_def])
qed

section \<open>What is read before a paste\<close>

definition seen_empty :: "events \<Rightarrow> bool" where
  "seen_empty l \<longleftrightarrow> (\<exists>sc. latest_capture l = Some (Some sc) \<and> composerText sc = Holds [])"

definition clears :: "clear_result \<Rightarrow> bool" where
  "clears r = (case r of Inr (left, moved, cleared) \<Rightarrow> cleared | Inl e \<Rightarrow> False)"

lemma clears_simps [simp]: "clears (Inr (left, moved, c)) = c" "\<not> clears (Inl e)"
  by (simp_all add: clears_def)

lemma seen_empty_simps [simp]:
  "seen_empty (Clock t # l) = seen_empty l"
  "seen_empty (Captured pane x # l) = (map_option composerText x = Some (Holds []))"
  by (auto simp: seen_empty_def)

lemma wp_ret_fun: "wp (ret x) Q = Q x"
  by (simp add: fun_eq_iff wp_ret)

lemma wp_change [wp_rules]:
  "wp (change w f) Q s = Q () (s\<lparr>ss_log := Clock (w_now w (ss_log s)) # ss_log s, ss_memory := f (w_now w (ss_log s)) (ss_memory s)\<rparr>)"
  by (simp add: change_def wp_memory)

lemma finish_clears: "wp (clear_finish w i cwd pending c) (\<lambda>r s'. \<not> clears r) s"
  by (simp add: clear_finish_def wp_rules clears_def)

lemma clear_seen_empty: "wp (clear_rounds n w pane i cwd pending c) (\<lambda>r s'. clears r \<longrightarrow> seen_empty (ss_log s')) s"
proof (induction n arbitrary: c s)
  case 0
  show ?case by (simp add: wp_mono [OF finish_clears])
next
  case (Suc n)
  have fin: "wp (clear_finish w i cwd pending c) (\<lambda>r s'. clears r \<longrightarrow> seen_empty (ss_log s')) s" for c s
    by (rule wp_mono [OF finish_clears]) simp
  show ?case
    by (auto simp: wp_rules press_def wait_def Let_def fin Suc.IH)
qed

lemma cleared_seen_empty:
  "wp (clear_or_refuse w i t pending sc why) (\<lambda>r s'. r = None \<longrightarrow> seen_empty (ss_log s')) s"
  unfolding clear_or_refuse_def clearComposer_def
proof (rule wp_bindI [OF wp_any])
  fix attempts :: nat and s1
  have "wp (clear_rounds n w (pt_pane t) i (pt_cwd t) pending c \<bind>
      (\<lambda>r. case r of Inl e \<Rightarrow> ret (Some (Inl e)) | Inr (left, moved, cleared) \<Rightarrow>
        ret (if cleared then None else Some (refused (why left moved))))) (\<lambda>r s'. r = None \<longrightarrow> seen_empty (ss_log s')) s1" for n c
    by (rule wp_bindI [OF clear_seen_empty]) (auto simp: wp_ret split: sum.split)
  then show "wp (if 0 < attempts then ret (Some (refused (ClearProvenFutile (composerTextDigest (w_lib w) pending))))
      else clear_rounds (clear_presses (fst (composerVisualLines sc))) w (pt_pane t) i (pt_cwd t) pending (clear_start pending sc) \<bind>
      (\<lambda>r. case r of Inl e \<Rightarrow> ret (Some (Inl e)) | Inr (left, moved, cleared) \<Rightarrow>
        ret (if cleared then None else Some (refused (why left moved))))) (\<lambda>r s'. r = None \<longrightarrow> seen_empty (ss_log s')) s1"
    by (simp add: wp_ret)
qed

lemma replaced_seen_empty: "wp (tryReplaceStranded w i t pending sc) (\<lambda>r s'. r = None \<longrightarrow> seen_empty (ss_log s')) s"
  unfolding tryReplaceStranded_def
  by (rule wp_bindI [OF cleared_seen_empty]) (simp add: wp_rules split: option.split)

lemma occupied_seen_empty: "wp (occupied_composer w i t text opts pending sc) (\<lambda>r s'. r = None \<longrightarrow> seen_empty (ss_log s')) s"
proof -
  let ?Q = "\<lambda>r s'. r = None \<longrightarrow> seen_empty (ss_log s')"
  have rec: "wp (recorded_draft w i t text opts pending sc r) ?Q s" for r s
    by (simp add: recorded_draft_def Let_def kept_draft_def wp_rules replaced_seen_empty)
  have unrec: "wp (unrecorded_draft w i t opts pending sc) ?Q s" for s
    unfolding unrecorded_draft_def wp_bind wp_observe wp_prod wp_memory
    by (simp add: wp_rules kept_draft_def tryClearUnrecordedComposer_def cleared_seen_empty split: prod.split)
  have other: "wp (occupied_other w i t text opts pending sc) ?Q s" for s
    unfolding occupied_other_def
    by (rule wp_bindI [OF wp_any]) (simp add: rec unrec wp_bind wp_ret wp_ret_fun wp_any split: option.split)
  show ?thesis
    unfolding occupied_composer_def
    by (rule wp_bindI [OF wp_any]) (simp add: other wp_bind wp_ret_fun wp_any split: option.split)
qed

lemma seen_empty_free: "seen_empty l \<Longrightarrow> read_free listed l"
  by (auto simp: seen_empty_def read_free_def)

lemma read_free_quiet [simp]:
  "read_free listed (Clock t # l) = read_free listed l" "read_free listed (Scanned r v e # l) = read_free listed l"
  by (simp_all add: read_free_def)

lemma resume_empty_free: "read_free listed (ss_log s) \<Longrightarrow> wp (resume_empty w i t text) (\<lambda>r s'. r = None \<longrightarrow> read_free listed (ss_log s')) s"
  by (auto simp: resume_empty_def record_of_def scan_transcript_def wp_rules split: option.split prod.split)

lemma before_paste_free:
  assumes "latest_capture (ss_log s) = Some x" and "sc = the_default listed x"
  shows "wp (before_paste w i t text opts sc) (\<lambda>r s'. r = None \<longrightarrow> read_free listed (ss_log s')) s"
proof -
  have free: "read_free listed (ss_log s)" if "composerText sc \<in> {Holds [], HasNone}"
    using assms that by (simp add: read_free_def)
  have occ: "wp (occupied_composer w i t text opts pending sc) (\<lambda>r s'. r = None \<longrightarrow> read_free listed (ss_log s')) s" for pending
    by (rule wp_mono [OF occupied_seen_empty]) (simp add: seen_empty_free)
  show ?thesis
  proof (cases "composerText sc")
    case (Holds pending)
    then show ?thesis using free by (simp add: before_paste_def wp_ret resume_empty_free occ)
  qed (use free in \<open>simp_all add: before_paste_def wp_ret\<close>)
qed

lemma deliver_on_pastes_once:
  assumes "happened paste_event (over_nothing text (pt_pane t) listed) 0 s"
    and "latest_capture (ss_log s) = Some x" and "sc = the_default listed x"
  shows "wp (deliver_on w ignorable i t text opts sc)
    (\<lambda>a s'. guarded_by paste_event (over_nothing text (pt_pane t) listed) (ss_log s') \<and> times paste_event (ss_log s') \<le> 1) s"
  unfolding deliver_on_def
proof (rule pasting.decides_then [where P = "\<lambda>s. read_free listed (ss_log s)"])
  show "decides paste_event (over_nothing text (pt_pane t) listed) (\<lambda>s. read_free listed (ss_log s))
      (before_paste w i t text opts sc) s"
    by (rule pasting.decides_keeps [OF pasting.counted.keeps_before_paste assms(1) before_paste_free [OF assms(2,3)]])
      (intro quiet_keys pasting.counted.keeps_submits)+
qed (rule paste_and_submit_pastes_once)

lemma deliver_to_pastes_once:
  fixes s :: send_state
  assumes "happened paste_event (over_nothing text (pt_pane t) listed) 0 s" and "listed = capture_screen (captures (pt_pane t))"
  shows "wp (deliver_to w ignorable i t captures text opts)
    (\<lambda>a s'. guarded_by paste_event (over_nothing text (pt_pane t) listed) (ss_log s') \<and> times paste_event (ss_log s') \<le> 1) s"
proof -
  let ?O = "over_nothing text (pt_pane t) listed"
  have recap: "wp (do { captured \<leftarrow> captureForClassify w (pt_pane t); deliver_on w ignorable i t text opts
        (case captured of Some sc \<Rightarrow> sc | None \<Rightarrow> capture_screen (captures (pt_pane t))) })
      (\<lambda>a s'. guarded_by paste_event ?O (ss_log s') \<and> times paste_event (ss_log s') \<le> 1) s1"
    if s1: "happened paste_event ?O 0 s1" for s1 :: send_state
    unfolding wp_bind wp_capture
    by (rule deliver_on_pastes_once [where x = "pane_screen w (pt_pane t) (ss_log s1)"])
      (use s1 assms(2) in \<open>simp_all add: paste_event_def times_def the_default_def\<close>)
  have refuse: "wp (not_receptive w t blocked)
      (\<lambda>a s'. guarded_by paste_event ?O (ss_log s') \<and> times paste_event (ss_log s') \<le> 1) s1"
    if s1: "happened paste_event ?O 0 s1" for s1 blocked
    by (rule wp_mono [OF keepsD [OF pasting.counted.keeps_waits(7) s1]]) simp
  show ?thesis
    unfolding deliver_to_def
    by (rule wp_bindI [OF keepsD [OF pasting.counted.keeps_waits(1) assms(1)]])
      (auto simp del: One_nat_def split: prod.split intro!: recap refuse)
qed

text \<open>
  C2: A text is pasted at most once, as it was sent without its control characters, into the pane the session
  was listed with, and only when the screen the delivery decided on showed a composer that holds
  nothing, or no composer. That is the latest screen read before the foreground was asked for, or
  the listed one when that read failed. The runtime is then in the foreground and the pane has asked
  for bracketed paste. One more capture follows before the paste, to count the markers on it; what
  else it shows is not looked at, so a text typed at that moment is pasted over.
\<close>

theorem paste_is_over_nothing:
  assumes "run_state (deliverViaPane w ignorable i text opts) s = (a, s')" and "ss_log s = []"
    and "ss_log s' = later @ Pasted pane bytes ok # before"
  shows "bytes = sanitizeForBracketedPaste text \<and> \<not> (\<exists>e \<in> set later \<union> set before. paste_event e) \<and>
    (\<exists>rows captures t x out seen shown. w_enumerate w [] = Some (rows, captures) \<and>
      find (\<lambda>r. pt_session r = i) rows = Some t \<and> pane = pt_pane t \<and> \<not> pt_dead t \<and>
      before = Staged True # PasteFlag pane (Some out) # Captured pane x # Foreground pane True # seen \<and>
      TrimSpace out = ''1'' \<and> latest_capture seen = Some shown \<and>
      composerText (the_default (capture_screen (captures pane)) shown) \<in> {Holds [], HasNone})"
proof -
  obtain rows captures t where t: "w_enumerate w [] = Some (rows, captures)" "find (\<lambda>r. pt_session r = i) rows = Some t"
    "\<not> pt_dead t" and run: "run_state (deliver_to w ignorable i t captures text opts) (s\<lparr>ss_log := [Listed True]\<rparr>) = (a, s')"
    using listed_delivery [OF assms(2,1,3)] by auto
  define listed where "listed = capture_screen (captures (pt_pane t))"
  let ?O = "over_nothing text (pt_pane t) listed"
  have "happened paste_event ?O 0 (s\<lparr>ss_log := [Listed True]\<rparr>)" by (simp add: paste_event_def times_def)
  from wp_run [OF deliver_to_pastes_once [where captures = captures and t = t, OF this listed_def] run]
  have once: "guarded_by paste_event ?O (later @ Pasted pane bytes ok # before)" "times paste_event (later @ Pasted pane bytes ok # before) \<le> 1"
    using assms(3) by simp_all
  have p: "paste_event (Pasted pane bytes ok)" by (simp add: paste_event_def)
  with once(2) have "times paste_event later = 0" "times paste_event before = 0" by (simp_all add: times_split)
  then have none: "\<not> (\<exists>e \<in> set later \<union> set before. paste_event e)" by (auto simp: times_def filter_empty_conv)
  have "?O (Pasted pane bytes ok) before" using guarded_split [OF once(1)] p by simp
  with none t show ?thesis unfolding over_nothing_def read_free_def listed_def by fastforce
qed

end
