(* ===== verification/ReceiptProof.thy ===== *)
theory ReceiptProof
  imports DeliverProof
begin

text \<open>
  What the receipt of a delivery tells: refused means that nothing was written, unknown that the text is
  on record for a later attempt. \<open>QueuedProof\<close> is about queued.
\<close>

section \<open>Answers\<close>

definition says :: "outcome \<Rightarrow> answer \<Rightarrow> bool" where
  "says oc a = (case a of Inr r \<Rightarrow> re_outcome r = oc | Inl e \<Rightarrow> False)"

lemma says_simps [simp]:
  "says oc (refused r) = (oc = OutcomeRefused)" "says oc (queued r) = (oc = OutcomeQueued)"
  "says oc (unknown r) = (oc = OutcomeUnknown)" "\<not> says oc (Inl e)"
  by (auto simp: says_def refused_def queued_def unknown_def)

text \<open>Every answer of an operation has a property.\<close>

definition yields :: "('a \<Rightarrow> bool) \<Rightarrow> 'a op \<Rightarrow> bool" where
  "yields R m = (\<forall>s. wp m (\<lambda>a s'. R a) s)"

lemma yields_ret: "R x \<Longrightarrow> yields R (ret x)"
  by (simp add: yields_def wp_ret)

lemma yields_bind: "(\<And>x. yields R (f x)) \<Longrightarrow> yields R (m \<bind> f)"
  unfolding yields_def wp_bind by (auto intro: wp_mono [OF wp_any])

lemma yields_cases:
  "yields R m \<Longrightarrow> yields R n \<Longrightarrow> yields R (if b then m else n)"
  "yields R m \<Longrightarrow> (\<And>x. yields R (f x)) \<Longrightarrow> yields R (case y of None \<Rightarrow> m | Some x \<Rightarrow> f x)"
  "(\<And>x. yields R (g x)) \<Longrightarrow> (\<And>x. yields R (f x)) \<Longrightarrow> yields R (case z of Inl x \<Rightarrow> g x | Inr x \<Rightarrow> f x)"
  "(\<And>x y. yields R (h x y)) \<Longrightarrow> yields R (case p of (x, y) \<Rightarrow> h x y)"
  by (simp_all split: option.split sum.split prod.split)

lemmas yields_rules = yields_ret yields_bind yields_cases

section \<open>A refusal\<close>

definition write_event :: "event \<Rightarrow> bool" where
  "write_event e \<longleftrightarrow> paste_event e \<or> submit_event e"

interpretation writing: single_event write_event "\<lambda>e l. True"
  by unfold_locales (auto simp: write_event_def paste_event_def submit_event_def split: event.splits)

abbreviation unwritten :: "send_state \<Rightarrow> bool" where
  "unwritten \<equiv> happened write_event (\<lambda>e l. True) 0"

lemma quiet_clearing: "ks \<noteq> submitKeys \<Longrightarrow> \<not> write_event (Keys pane ks ok)"
  by (simp add: write_event_def paste_event_def submit_event_def)

text \<open>An answer that refuses is given while nothing is written.\<close>

definition honest :: "('a \<Rightarrow> bool) \<Rightarrow> 'a op \<Rightarrow> bool" where
  "honest R m = (\<forall>s. unwritten s \<longrightarrow> wp m (\<lambda>a s'. R a \<longrightarrow> unwritten s') s)"

lemma honest_keeps: "keeps unwritten m \<Longrightarrow> honest R m"
  unfolding honest_def keeps_def by (fastforce elim: wp_mono)

lemma honest_yields: "yields (\<lambda>a. \<not> R a) m \<Longrightarrow> honest R m"
  unfolding honest_def yields_def by (auto elim: wp_mono)

lemma honest_later: "keeps unwritten m \<Longrightarrow> (\<And>x. honest R (f x)) \<Longrightarrow> honest R (m \<bind> f)"
  unfolding honest_def keeps_def wp_bind by (blast intro: wp_mono)

lemma honest_cases:
  "honest R m \<Longrightarrow> honest R n \<Longrightarrow> honest R (if b then m else n)"
  "honest R m \<Longrightarrow> (\<And>x. honest R (f x)) \<Longrightarrow> honest R (case y of None \<Rightarrow> m | Some x \<Rightarrow> f x)"
  "(\<And>x y. honest R (h x y)) \<Longrightarrow> honest R (case p of (x, y) \<Rightarrow> h x y)"
  by (simp_all split: option.split prod.split)

lemma resume_held_answers: "yields (\<lambda>a. \<not> says OutcomeRefused a) (resume_held w i t text r)"
  unfolding resume_held_def resume_confirm_def by (intro yields_rules) simp_all

lemma after_paste_answers: "yields (\<lambda>a. \<not> says OutcomeRefused a) (after_paste w ignorable i t text opts before)"
  unfolding after_paste_def submit_landed_def confirm_landed_def strand_unlanded_def
  by (intro yields_rules) (auto split: if_split)

lemma resume_same_honest: "honest (says OutcomeRefused) (resume_same_text w i t text pending sc r)"
  unfolding resume_same_text_def
  by (rule honest_cases(1), rule honest_keeps, intro keep_rules, rule honest_yields, rule resume_held_answers)

text \<open>What is decided before the paste.\<close>

definition refuses :: "answer option \<Rightarrow> bool" where
  "refuses r = (case r of None \<Rightarrow> True | Some a \<Rightarrow> says OutcomeRefused a)"

lemma honest_some: "honest (says OutcomeRefused) m \<Longrightarrow> honest refuses (do { a \<leftarrow> m; ret (Some a) })"
  unfolding honest_def wp_bind wp_ret refuses_def by simp

lemma before_paste_honest: "honest refuses (before_paste w i t text opts sc)"
proof -
  have other: "honest refuses (occupied_other w i t text opts pending sc)" for pending
    by (intro honest_keeps writing.counted.keeps_occupied_other quiet_clearing)
  have occ: "honest refuses (occupied_composer w i t text opts pending sc)" for pending
    unfolding occupied_composer_def
    by (intro honest_later honest_cases other honest_some resume_same_honest keep_rules)
  have kept: "honest refuses m" if "keeps unwritten m" for m :: "answer option op"
    by (rule honest_keeps [OF that])
  show ?thesis
    unfolding before_paste_def using occ
    by (cases "composerText sc") (auto intro!: honest_cases kept keep_rules)
qed

lemma paste_now_honest: "honest (says OutcomeRefused) (paste_now w ignorable i t text opts)"
proof -
  have paste: "wp (pasteBracketed w (pt_pane t) text)
      (\<lambda>f s'. f = Some FlagUnknown \<or> f = Some FlagOff \<longrightarrow> unwritten s') s" if "unwritten s" for s
    using that by (auto simp: pasteBracketed_def bracketPasteFlag_def wp_rules write_event_def paste_event_def
        submit_event_def times_def split: option.split bool.split)
  have after: "wp (after_paste w ignorable i t text opts before) (\<lambda>a s'. says OutcomeRefused a \<longrightarrow> unwritten s') s" for before s
    by (rule wp_mono [OF spec [OF after_paste_answers [unfolded yields_def]]]) simp
  have "honest (says OutcomeRefused) (do { failure \<leftarrow> pasteBracketed w (pt_pane t) text;
      case failure of
        Some f \<Rightarrow> ret (if f \<in> {FlagUnknown, FlagOff} then refused (NoBracketedPaste f) else Inl (PasteFailed f))
      | None \<Rightarrow> after_paste w ignorable i t text opts before })" for before
    unfolding honest_def
  proof (intro allI impI)
    fix s assume s: "unwritten s"
    show "wp (do { failure \<leftarrow> pasteBracketed w (pt_pane t) text;
        case failure of
          Some f \<Rightarrow> ret (if f \<in> {FlagUnknown, FlagOff} then refused (NoBracketedPaste f) else Inl (PasteFailed f))
        | None \<Rightarrow> after_paste w ignorable i t text opts before }) (\<lambda>a s'. says OutcomeRefused a \<longrightarrow> unwritten s') s"
      by (rule wp_bindI [OF paste [OF s]])
        (auto simp: wp_ret after split: option.split)
  qed
  moreover have "keeps unwritten (captureForClassify w (pt_pane t))" by (intro keep_rules)
  ultimately show ?thesis unfolding paste_now_def by (intro honest_later [of "captureForClassify w (pt_pane t)"])
qed

lemma deliver_honest: "honest (says OutcomeRefused) (deliverViaPane w ignorable i text opts)"
proof -
  have paste: "honest (says OutcomeRefused) (paste_and_submit w ignorable i t text opts)" for t
    unfolding paste_and_submit_def
    by (intro honest_later honest_cases honest_keeps [OF keeps_ret] paste_now_honest keep_rules)
  have "honest (says OutcomeRefused) (deliver_on w ignorable i t text opts sc)" for t sc
    unfolding honest_def deliver_on_def
  proof (intro allI impI)
    fix s assume "unwritten s"
    then have "wp (before_paste w i t text opts sc) (\<lambda>a s'. refuses a \<longrightarrow> unwritten s') s"
      using before_paste_honest unfolding honest_def by blast
    then show "wp (do { decided \<leftarrow> before_paste w i t text opts sc;
        case decided of Some a \<Rightarrow> ret a | None \<Rightarrow> paste_and_submit w ignorable i t text opts })
        (\<lambda>a s'. says OutcomeRefused a \<longrightarrow> unwritten s') s"
      by (rule wp_bindI) (use paste [of t] in \<open>auto simp: wp_ret refuses_def honest_def split: option.split\<close>)
  qed
  then have "honest (says OutcomeRefused) (deliver_to w ignorable i t captures text opts)" for t captures
    unfolding deliver_to_def by (intro honest_later honest_cases honest_keeps [OF writing.counted.keeps_waits(7)] keep_rules)
  then show ?thesis
    unfolding deliverViaPane_def by (intro honest_later honest_cases honest_keeps [OF keeps_ret] keep_rules)
qed

text \<open>
  C15: A delivery that is refused has written nothing: no text was pasted and nothing was submitted,
  whichever of the reasons it is refused for.
\<close>

theorem refused_writes_nothing:
  assumes "run_state (deliverViaPane w ignorable i text opts) s = (Inr r, s')" and "ss_log s = []"
    and "re_outcome r = OutcomeRefused"
  shows "\<not> (\<exists>pane bytes ok. Pasted pane bytes ok \<in> set (ss_log s')) \<and>
    \<not> (\<exists>pane ok. Keys pane [''Space'', ''C-m''] ok \<in> set (ss_log s'))"
proof -
  have "unwritten s" using assms(2) by (simp add: times_def)
  with deliver_honest have "wp (deliverViaPane w ignorable i text opts) (\<lambda>a s'. says OutcomeRefused a \<longrightarrow> unwritten s') s"
    by (simp only: honest_def)
  from wp_run [OF this assms(1)] assms(3) have "times write_event (ss_log s') = 0" by (simp add: says_def)
  then show ?thesis
    by (auto simp: times_def filter_empty_conv write_event_def paste_event_def submit_event_def submitKeys_def)
qed

section \<open>An unknown outcome\<close>

definition recorded :: "string \<Rightarrow> string \<Rightarrow> string \<Rightarrow> send_state \<Rightarrow> bool" where
  "recorded i cwd msg s \<longleftrightarrow>
     (\<exists>r. map_of (dm_stranded (ss_memory s)) i = Some r \<and> sd_text r = msg \<and> sd_cwd r = cwd)"

interpretation recording: event_invariant "recorded i cwd msg" "\<lambda>e. False" for i cwd msg
  by unfold_locales (auto simp: recorded_def)

text \<open>After an answer of some kind the state has a property.\<close>

definition accounts :: "(send_state \<Rightarrow> bool) \<Rightarrow> ('a \<Rightarrow> bool) \<Rightarrow> 'a op \<Rightarrow> bool" where
  "accounts P R m = (\<forall>s. wp m (\<lambda>a s'. R a \<longrightarrow> P s') s)"

lemma accounts_yields: "yields (\<lambda>a. \<not> R a) m \<Longrightarrow> accounts P R m"
  unfolding accounts_def yields_def by (fastforce elim: wp_mono)

lemma accounts_bind: "(\<And>x. accounts P R (f x)) \<Longrightarrow> accounts P R (m \<bind> f)"
  unfolding accounts_def wp_bind by (auto intro: wp_mono [OF wp_any])

lemma accounts_cases:
  "accounts P R m \<Longrightarrow> accounts P R n \<Longrightarrow> accounts P R (if b then m else n)"
  "accounts P R m \<Longrightarrow> (\<And>x. accounts P R (f x)) \<Longrightarrow>
     accounts P R (case y of None \<Rightarrow> m | Some x \<Rightarrow> f x)"
  "(\<And>x. accounts P R (g x)) \<Longrightarrow> (\<And>x. accounts P R (f x)) \<Longrightarrow>
     accounts P R (case z of Inl x \<Rightarrow> g x | Inr x \<Rightarrow> f x)"
  "(\<And>x y. accounts P R (h x y)) \<Longrightarrow> accounts P R (case p of (x, y) \<Rightarrow> h x y)"
  by (simp_all split: option.split sum.split prod.split)

lemma accounts_ret: "\<not> R x \<Longrightarrow> accounts P R (ret x)"
  by (simp add: accounts_def wp_ret)

lemma accounts_recorded:
  assumes "\<And>s. wp m (\<lambda>x. P) s"
  shows "accounts P R (do { x \<leftarrow> m; ret (g x) })"
  unfolding accounts_def wp_bind wp_ret by (auto intro: wp_mono [OF assms])

lemma noted_recorded:
  "\<exists>r. map_of (dm_stranded (noteStrandedLanding now i cwd msg digest src l nr d)) i = Some r \<and> sd_text r = msg \<and> sd_cwd r = cwd"
  by (simp add: noteStrandedLanding_def saveStrandedLocked_def Let_def)

lemma strand_landed_recorded: "wp (strand_landed w i t text land source) (\<lambda>x. recorded i (pt_cwd t) text) s"
  unfolding strand_landed_def by (rule wp_bindI [OF wp_any]) (simp add: wp_rules recorded_def noted_recorded)

lemma strand_unlanded_accounts: "accounts (recorded i (pt_cwd t) text) R (strand_unlanded w i t text land)"
  unfolding strand_unlanded_def
  by (rule accounts_bind, rule accounts_bind, rule accounts_recorded) (simp add: wp_rules recorded_def noted_recorded)

lemma submit_landed_accounts: "accounts (recorded i (pt_cwd t) text) (says OutcomeUnknown) (submit_landed w i t text c land)"
  unfolding submit_landed_def confirm_landed_def
  by (intro accounts_bind accounts_cases accounts_recorded strand_landed_recorded accounts_ret) simp_all

text \<open>Resuming begins with the record and changes nothing of it before the submit is confirmed.\<close>

definition maintains :: "string \<Rightarrow> string \<Rightarrow> string \<Rightarrow> ('a \<Rightarrow> bool) \<Rightarrow> 'a op \<Rightarrow> bool" where
  "maintains i cwd msg R m = (\<forall>s. recorded i cwd msg s \<longrightarrow> wp m (\<lambda>a s'. R a \<longrightarrow> recorded i cwd msg s') s)"

lemma maintains_later:
  "keeps (recorded i cwd msg) m \<Longrightarrow> (\<And>x. maintains i cwd msg R (f x)) \<Longrightarrow> maintains i cwd msg R (m \<bind> f)"
  unfolding maintains_def keeps_def wp_bind by (blast intro: wp_mono)

lemma maintains_keeps: "keeps (recorded i cwd msg) m \<Longrightarrow> maintains i cwd msg R m"
  unfolding maintains_def keeps_def by (fastforce elim: wp_mono)

lemma maintains_accounts: "accounts (recorded i cwd msg) R m \<Longrightarrow> maintains i cwd msg R m"
  by (simp add: maintains_def accounts_def)

lemma maintains_cases:
  "maintains i cwd msg R m \<Longrightarrow> maintains i cwd msg R n \<Longrightarrow> maintains i cwd msg R (if b then m else n)"
  "(\<And>x. maintains i cwd msg R (g x)) \<Longrightarrow> (\<And>x. maintains i cwd msg R (f x)) \<Longrightarrow>
     maintains i cwd msg R (case z of Inl x \<Rightarrow> g x | Inr x \<Rightarrow> f x)"
  by (simp_all split: sum.split)

lemma resume_held_maintains: "maintains i cwd msg (says OutcomeUnknown) (resume_held w i t text r)"
proof -
  have press: "keeps (recorded i cwd msg) (checked_submit w t text c)" for c
    unfolding checked_submit_def press_def by (intro keep_rules recording.keeps_ask) simp
  have confirm: "maintains i cwd msg (says OutcomeUnknown) (resume_confirm w i t text land source)" for land source
    unfolding resume_confirm_def
    by (rule maintains_later, intro keep_rules, rule maintains_later, intro keep_rules, rule maintains_cases(1),
        rule maintains_keeps, intro keep_rules, rule maintains_accounts, rule accounts_yields, intro yields_rules) simp
  show ?thesis
    unfolding resume_held_def
    by (rule maintains_later, intro keep_rules, rule maintains_cases(1), rule maintains_keeps, intro keep_rules,
        rule maintains_later, intro keep_rules, rule maintains_later, rule press, rule maintains_cases(2),
        rule maintains_keeps, intro keep_rules, rule maintains_cases(1), rule maintains_keeps, intro keep_rules, rule confirm)
qed

lemma record_of_recorded:
  "wp (record_of w i t) (\<lambda>r s'. \<forall>rec. r = Some rec \<longrightarrow> recorded i (pt_cwd t) (sd_text rec) s') s"
  by (auto simp: record_of_def wp_memory strandedRecordFor_def Let_def recorded_def split: option.splits)

lemma resume_same_maintains:
  "maintains i cwd msg (says OutcomeUnknown) (resume_same_text w i t text pending sc r)"
  unfolding resume_same_text_def
  by (rule maintains_cases(1), rule maintains_keeps, intro keep_rules, rule resume_held_maintains)

definition unknowns :: "answer option \<Rightarrow> bool" where
  "unknowns r = (case r of None \<Rightarrow> False | Some a \<Rightarrow> says OutcomeUnknown a)"

lemma unknowns_simps [simp]: "\<not> unknowns None" "unknowns (Some a) = says OutcomeUnknown a"
  by (simp_all add: unknowns_def)

lemma clear_not_unknown: "yields (\<lambda>a. \<not> unknowns a) (clear_or_refuse w i t pending sc why)"
  unfolding clear_or_refuse_def by (intro yields_rules) simp_all

lemma yields_then: "yields R m \<Longrightarrow> (\<And>x. R x \<Longrightarrow> yields R' (f x)) \<Longrightarrow> yields R' (m \<bind> f)"
  unfolding yields_def wp_bind by (blast intro: wp_mono)

lemma occupied_other_not_unknown: "yields (\<lambda>a. \<not> unknowns a) (occupied_other w i t text opts pending sc)"
proof -
  have replace: "yields (\<lambda>a. \<not> unknowns a) (tryReplaceStranded w i t pending sc)"
    unfolding tryReplaceStranded_def
    by (rule yields_then [OF clear_not_unknown]) (auto intro!: yields_rules split: option.split)
  have none: "yields (\<lambda>a. \<not> says OutcomeUnknown a) (unexplained_draft w i t pending sc)"
    unfolding unexplained_draft_def by (intro yields_rules) simp
  have unexplained: "yields (\<lambda>a. \<not> unknowns a) (do { a \<leftarrow> unexplained_draft w i t pending sc; ret (Some a) })"
    by (rule yields_then [OF none]) (intro yields_ret, simp)
  have rec: "yields (\<lambda>a. \<not> unknowns a) (recorded_draft w i t text opts pending sc r)" for r
    unfolding recorded_draft_def Let_def using replace by (intro yields_rules) simp_all
  have unrec: "yields (\<lambda>a. \<not> unknowns a) (unrecorded_draft w i t opts pending sc)"
    unfolding unrecorded_draft_def tryClearUnrecordedComposer_def by (intro yields_rules clear_not_unknown) simp_all
  show ?thesis
    unfolding occupied_other_def by (intro yields_bind [where m = "record_of w i t"] yields_cases(1,2) unexplained rec unrec)
qed

lemma before_paste_accounts: "accounts (recorded i (pt_cwd t) text) unknowns (before_paste w i t text opts sc)"
proof -
  have other: "accounts (recorded i (pt_cwd t) text) unknowns (occupied_other w i t text opts pending sc)" for pending
    by (rule accounts_yields [OF occupied_other_not_unknown])
  have same: "wp (resume_same_text w i t text pending sc r) (\<lambda>a. wp (ret (Some a)) (\<lambda>a s'. unknowns a \<longrightarrow> recorded i cwd msg s')) s"
    if "recorded i cwd msg s" for pending r s cwd msg "text"
    unfolding wp_ret_fun unknowns_simps
    using resume_same_maintains that unfolding maintains_def by blast
  have occ: "accounts (recorded i (pt_cwd t) text) unknowns (occupied_composer w i t text opts pending sc)" for pending
    unfolding accounts_def occupied_composer_def
  proof
    fix s
    show "wp (do { mine \<leftarrow> record_of w i t;
        case (if so_resume opts then mine else None) of
          None \<Rightarrow> occupied_other w i t text opts pending sc
        | Some r \<Rightarrow> if sd_text r = text then do { a \<leftarrow> resume_same_text w i t text pending sc r; ret (Some a) }
            else occupied_other w i t text opts pending sc }) (\<lambda>a s'. unknowns a \<longrightarrow> recorded i (pt_cwd t) text s') s"
      by (rule wp_bindI [OF record_of_recorded])
        (use other [of pending] in \<open>auto simp: accounts_def wp_bind split: option.split intro!: same\<close>)
  qed
  have empty: "accounts (recorded i (pt_cwd t) text) unknowns (resume_empty w i t text)"
    unfolding accounts_def resume_empty_def
    by (intro allI, rule wp_bindI [OF record_of_recorded])
      (auto simp: wp_rules scan_transcript_def recorded_def split: option.split prod.split)
  show ?thesis
    using occ empty unfolding before_paste_def
    by (cases "composerText sc") (auto intro!: accounts_ret accounts_cases)
qed

lemma deliver_accounts:
  "accounts (recorded i (pt_cwd t) text) (says OutcomeUnknown) (deliver_to w ignorable i t captures text opts)"
proof -
  have "accounts (recorded i (pt_cwd t) text) (says OutcomeUnknown) (paste_and_submit w ignorable i t text opts)"
    unfolding paste_and_submit_def paste_now_def after_paste_def
    by (intro accounts_bind accounts_cases accounts_ret submit_landed_accounts strand_unlanded_accounts) simp_all
  then have "accounts (recorded i (pt_cwd t) text) (says OutcomeUnknown) (deliver_on w ignorable i t text opts sc)" for sc
    unfolding accounts_def deliver_on_def
    by (auto simp: wp_ret split: option.split
        intro!: wp_bindI [OF spec [OF before_paste_accounts [unfolded accounts_def]]])
  moreover have "accounts (recorded i (pt_cwd t) text) (says OutcomeUnknown) (not_receptive w t blocked)" for blocked
    unfolding not_receptive_def by (intro accounts_bind accounts_cases accounts_ret) simp_all
  ultimately show ?thesis
    unfolding deliver_to_def by (intro accounts_bind accounts_cases)
qed

text \<open>
  C7: When a delivery answers that its outcome is unknown, the text is on record for this session and
  directory, whatever happened to it: a later call can tell the text in the composer for the driver's
  own and finish it or clear it.
\<close>

theorem unknown_is_recorded:
  assumes "run_state (deliverViaPane w ignorable i text opts) s = (Inr r, s')" and "re_outcome r = OutcomeUnknown"
  shows "\<exists>rows captures t rec. w_enumerate w (ss_log s) = Some (rows, captures) \<and>
    find (\<lambda>r. pt_session r = i) rows = Some t \<and> map_of (dm_stranded (ss_memory s')) i = Some rec \<and>
    sd_text rec = text \<and> sd_cwd rec = pt_cwd t"
proof -
  have deliver: "wp (deliver_to w ignorable i t captures text opts)
      (\<lambda>a s'. says OutcomeUnknown a \<longrightarrow> recorded i (pt_cwd t) text s') s" for t captures s
    using deliver_accounts unfolding accounts_def by blast
  have "wp (deliverViaPane w ignorable i text opts) (\<lambda>a s'. says OutcomeUnknown a \<longrightarrow>
      (\<exists>rows captures t. w_enumerate w (ss_log s) = Some (rows, captures) \<and> find (\<lambda>r. pt_session r = i) rows = Some t \<and>
        recorded i (pt_cwd t) text s')) s"
    unfolding deliverViaPane_def wp_bind wp_ask
    by (auto simp: wp_ret split: option.split intro!: wp_mono [OF deliver])
  from wp_run [OF this assms(1)] assms(2) show ?thesis by (auto simp: says_def recorded_def)
qed

end
