(* ===== verification/EndProof.thy ===== *)
theory EndProof
  imports ReceiptProof
begin

section \<open>A delivery ends\<close>

text \<open>Time does not go backwards, and a wait that is not interrupted takes its time.\<close>

definition clock_runs :: "world \<Rightarrow> bool" where
  "clock_runs w \<longleftrightarrow> (\<forall>l e. w_now w l \<le> w_now w (e # l)) \<and> (\<forall>l d. w_now w l + d \<le> w_now w (Slept d False # l))"

definition now_of :: "world \<Rightarrow> send_state \<Rightarrow> timestamp" where
  "now_of w s = w_now w (ss_log s)"

abbreviation unspent :: "send_state \<Rightarrow> bool" where
  "unspent s \<equiv> \<not> ss_spent s"

text \<open>What takes time and spends no fuel.\<close>

definition passes :: "world \<Rightarrow> 'a op \<Rightarrow> bool" where
  "passes w m = (\<forall>s. wp m (\<lambda>x s'. now_of w s \<le> now_of w s' \<and> ss_spent s' = ss_spent s) s)"

lemma passes_ask: "clock_runs w \<Longrightarrow> passes w (ask q mk)"
  by (simp add: passes_def wp_ask clock_runs_def now_of_def)

lemma passes_ret: "passes w (ret x)"
  by (simp add: passes_def wp_ret)

lemma passes_bind: "passes w m \<Longrightarrow> (\<And>x. passes w (f x)) \<Longrightarrow> passes w (m \<bind> f)"
  unfolding passes_def
  by (intro allI, rule wp_bindI, blast) (fastforce elim: wp_mono)

lemma passes_if: "passes w m \<Longrightarrow> passes w n \<Longrightarrow> passes w (if b then m else n)"
  by simp

lemmas passes_rules = passes_ask passes_ret passes_bind passes_if

lemma expired_late:
  assumes "clock_runs w" and "unspent s" and "T \<le> now_of w s"
  shows "wp (expired w deadline) (\<lambda>late s'. unspent s' \<and> T \<le> now_of w s' \<and> (deadline < T \<longrightarrow> late)) s"
proof -
  have "T \<le> w_now w (e # ss_log s)" "T \<le> w_now w (e' # e # ss_log s)" for e e'
    using assms(1,3) unfolding clock_runs_def now_of_def by (meson order_trans)+
  then show ?thesis using assms by (auto simp: expired_def wp_rules now_of_def)
qed

lemma wait_passes:
  assumes "clock_runs w" and "unspent s" and "T \<le> now_of w s"
  shows "wp (wait w d) (\<lambda>fin s'. unspent s' \<and> (\<not> fin \<longrightarrow> T + d \<le> now_of w s')) s"
proof -
  have "T + d \<le> w_now w (Slept d False # ss_log s)"
    using assms(1,3) unfolding clock_runs_def now_of_def by (meson add_right_mono order_trans)
  then show ?thesis using assms by (auto simp: wait_def wp_rules now_of_def)
qed

text \<open>One round of a polling loop that is not over: its question, the clock, the wait, and the rest.\<close>

lemma round_ends:
  assumes clock: "clock_runs w" and s: "unspent s" and now: "T \<le> now_of w s"
    and rest: "\<And>s'. unspent s' \<Longrightarrow> T + d \<le> now_of w s' \<Longrightarrow> \<not> deadline < T \<Longrightarrow> wp next_round (\<lambda>x. unspent) s'"
  shows "wp (do {
      late \<leftarrow> expired w deadline;
      if late then ret a else do { fin \<leftarrow> wait w d; if fin then ret b else next_round } }) (\<lambda>x. unspent) s"
proof (rule wp_bindI [OF expired_late [OF clock s now]])
  fix late :: bool and s1 :: send_state assume s1: "unspent s1 \<and> T \<le> now_of w s1 \<and> (deadline < T \<longrightarrow> late)"
  show "wp (if late then ret a else do { fin \<leftarrow> wait w d; if fin then ret b else next_round }) (\<lambda>x. unspent) s1"
  proof (cases late)
    case False
    have "wp (do { fin \<leftarrow> wait w d; if fin then ret b else next_round }) (\<lambda>x. unspent) s1"
    proof (rule wp_bindI [OF wait_passes [OF clock]])
      show "unspent s1" "T \<le> now_of w s1" using s1 by auto
      fix fin :: bool and s2 :: send_state assume "unspent s2 \<and> (\<not> fin \<longrightarrow> T + d \<le> now_of w s2)"
      then show "wp (if fin then ret b else next_round) (\<lambda>x. unspent) s2"
        using rest [of s2] s1 False by (auto simp: wp_ret)
    qed
    then show ?thesis using False by simp
  qed (use s1 in \<open>simp add: wp_ret\<close>)
qed

lemma passes_now: "passes w m \<Longrightarrow> unspent s \<Longrightarrow> wp m (\<lambda>x s'. unspent s' \<and> now_of w s \<le> now_of w s') s"
  unfolding passes_def by (fastforce elim: wp_mono)

lemma passes_capture: "clock_runs w \<Longrightarrow> passes w (captureForClassify w pane)"
  unfolding captureForClassify_def by (rule passes_ask)

lemma receptive_ends:
  assumes clock: "clock_runs w"
  shows "unspent s \<Longrightarrow> deadline < now_of w s + int n * sendReceptiveInterval \<Longrightarrow>
    wp (receptive_rounds (Suc n) w pane deadline) (\<lambda>x. unspent) s"
proof (induction n arbitrary: s)
  case 0
  show ?case
    unfolding receptive_rounds.simps receptive_def wp_bind [of "_ \<bind> _"]
    by (rule wp_bindI [OF passes_now [OF passes_capture [OF clock] 0(1)]])
      (use 0(2) in \<open>auto simp: wp_ret receptive_on_def intro!: round_ends [OF clock] split: prod.split\<close>)
next
  case (Suc n)
  show ?case
    unfolding receptive_rounds.simps(2) [of "Suc n"] receptive_def wp_bind [of "_ \<bind> _"]
    by (rule wp_bindI [OF passes_now [OF passes_capture [OF clock] Suc(2)]])
      (use Suc(1,3) in \<open>auto simp: wp_ret algebra_simps intro!: round_ends [OF clock] split: prod.split\<close>)
qed

lemma land_ends:
  assumes clock: "clock_runs w"
  shows "unspent s \<Longrightarrow> deadline < now_of w s + int n * submitConfirmInterval \<Longrightarrow>
    wp (land_rounds (Suc n) w pane text c deadline) (\<lambda>x. unspent) s"
proof (induction n arbitrary: s)
  case 0
  have "passes w (preempted w i)" for i unfolding preempted_def by (intro passes_rules clock)
  then show ?case
    unfolding land_rounds.simps
    by (rule wp_bindI [OF passes_now [OF _ 0(1)]])
      (use 0(2) in \<open>auto simp: wp_ret intro!: wp_bindI [OF passes_now [OF passes_capture [OF clock]]] round_ends [OF clock]
        split: option.split\<close>)
next
  case (Suc n)
  have "passes w (preempted w i)" for i unfolding preempted_def by (intro passes_rules clock)
  then show ?case
    unfolding land_rounds.simps(2) [of "Suc n"]
    by (rule wp_bindI [OF passes_now [OF _ Suc(2)]])
      (use Suc(1,3) in \<open>auto simp: wp_ret algebra_simps intro!: wp_bindI [OF passes_now [OF passes_capture [OF clock]]]
        round_ends [OF clock] split: option.split\<close>)
qed

lemma confirm_ends:
  assumes clock: "clock_runs w"
  shows "unspent s \<Longrightarrow> deadline < now_of w s + int n * submitConfirmInterval \<Longrightarrow>
    wp (confirm_rounds (Suc n) w pane key atCount deadline) (\<lambda>x. unspent) s"
proof (induction n arbitrary: s)
  case 0
  show ?case
    unfolding confirm_rounds.simps
    by (rule wp_bindI [OF passes_now [OF passes_capture [OF clock] 0(1)]])
      (use 0(2) in \<open>auto simp: wp_ret intro!: round_ends [OF clock]\<close>)
next
  case (Suc n)
  show ?case
    unfolding confirm_rounds.simps(2) [of "Suc n"]
    by (rule wp_bindI [OF passes_now [OF passes_capture [OF clock] Suc(2)]])
      (use Suc(1,3) in \<open>auto simp: wp_ret algebra_simps intro!: round_ends [OF clock]\<close>)
qed

text \<open>The round of a scan: what is not silence answers at once.\<close>

lemma scan_round:
  assumes "\<And>err. wp silent (\<lambda>x. unspent) s" and "unspent s"
  shows "wp (case result of
      ScanMatched \<Rightarrow> ret a
    | ScanDifferentTurn \<Rightarrow> do { captured \<leftarrow> captureForClassify w pane; ret (f captured) }
    | ScanSilent \<Rightarrow> silent) (\<lambda>x. unspent) s"
  using assms by (cases result) (simp_all add: wp_ret wp_bind wp_capture)

lemma scan_ends:
  assumes clock: "clock_runs w"
  shows "unspent s \<Longrightarrow> deadline < now_of w s + int n * submitConfirmInterval \<Longrightarrow>
    wp (scan_rounds (Suc n) w pane src sent deadline) (\<lambda>x. unspent) s"
proof (induction n arbitrary: s)
  case 0
  have "passes w (scan_transcript w src sent)" unfolding scan_transcript_def by (rule passes_ask [OF clock])
  then show ?case
    unfolding scan_rounds.simps
    by (rule wp_bindI [OF passes_now [OF _ 0(1)]])
      (use 0(2) in \<open>auto simp: wp_prod intro!: scan_round round_ends [OF clock] split: prod.split\<close>)
next
  case (Suc n)
  have "passes w (scan_transcript w src sent)" unfolding scan_transcript_def by (rule passes_ask [OF clock])
  then show ?case
    unfolding scan_rounds.simps(2) [of "Suc n"]
    by (rule wp_bindI [OF passes_now [OF _ Suc(2)]])
      (use Suc(1,3) in \<open>auto simp: wp_prod algebra_simps intro!: scan_round round_ends [OF clock] split: prod.split\<close>)
qed

section \<open>The whole delivery\<close>

lemma keeps_unspent [keep_rules]:
  "keeps unspent (ask q mk)" "keeps unspent (clock w)" "keeps unspent (trace f)" "keeps unspent (memory w g)"
  "keeps unspent (change w h)" "keeps unspent (press w pane ks)" "keeps unspent (expired w deadline)"
  "keeps unspent (wait w d)" "keeps unspent (captureForClassify w pane)" "keeps unspent (foregroundIsRuntime w t)"
  by (simp_all add: keeps_def change_def press_def expired_def wait_def wp_rules Let_def split: prod.split)

lemma keeps_scan_step [keep_rules]: "keeps unspent (scan_transcript w src sent)"
  unfolding scan_transcript_def by (rule keep_rules)

text \<open>A world whose fuel covers every polling loop: 27 rounds of 150 ms outlast four seconds.\<close>

definition patient :: "world \<Rightarrow> bool" where
  "patient w \<longleftrightarrow> clock_runs w \<and> 28 \<le> w_fuel w"

lemma polls_end:
  assumes "patient w" and "window < 27 * interval" and "0 \<le> interval"
    and ends: "\<And>n s deadline. unspent s \<Longrightarrow> deadline < now_of w s + int n * interval \<Longrightarrow>
      wp (rounds (Suc n) deadline) (\<lambda>x. unspent) s"
  shows "keeps unspent (do { now \<leftarrow> clock w; rounds (w_fuel w) (now + window) })"
  unfolding keeps_def
proof (intro allI impI)
  fix s :: send_state assume s: "unspent s"
  obtain n where n: "w_fuel w = Suc n" "27 \<le> n" using assms(1) by (cases "w_fuel w") (auto simp: patient_def)
  have "27 * interval \<le> int n * interval" using n(2) assms(3) by (intro mult_right_mono) auto
  moreover have "w_now w (ss_log s) \<le> w_now w (e # ss_log s)" for e
    using assms(1) by (simp add: patient_def clock_runs_def)
  ultimately have "w_now w (ss_log s) + window < w_now w (e # ss_log s) + int n * interval" for e
    using assms(2) by (smt (verit))
  then show "wp (do { now \<leftarrow> clock w; rounds (w_fuel w) (now + window) }) (\<lambda>x. unspent) s"
    unfolding wp_bind wp_clock n(1) by (intro ends) (use s in \<open>simp_all add: now_of_def\<close>)
qed

lemma windows:
  "sendReceptiveWindow < 27 * sendReceptiveInterval" "0 \<le> sendReceptiveInterval"
  "submitConfirmWindow < 27 * submitConfirmInterval" "0 \<le> submitConfirmInterval"
  by (simp_all add: sendReceptiveWindow_def sendReceptiveInterval_def submitConfirmWindow_def submitConfirmInterval_def
      second_def millisecond_def)

lemma patient_runs: "patient w \<Longrightarrow> clock_runs w"
  by (simp add: patient_def)

lemma keeps_polls:
  assumes "patient w"
  shows "keeps unspent (awaitReceptive w pane)" and "keeps unspent (landV2 w pane text c)"
    and "keeps unspent (confirmSubmitted w pane key atCount)"
    and "keeps unspent (do { now \<leftarrow> clock w; scan_rounds (w_fuel w) w pane src sent (now + submitConfirmWindow) })"
proof -
  note runs = patient_runs [OF assms]
  show "keeps unspent (awaitReceptive w pane)"
    unfolding awaitReceptive_def
    by (rule polls_end [OF assms windows(1,2)]) (rule receptive_ends [OF runs])
  show "keeps unspent (landV2 w pane text c)"
    unfolding landV2_def
    by (rule keeps_if, rule keeps_ret, rule polls_end [OF assms windows(3,4)]) (rule land_ends [OF runs])
  show "keeps unspent (confirmSubmitted w pane key atCount)"
    unfolding confirmSubmitted_def
    by (rule polls_end [OF assms windows(3,4)]) (rule confirm_ends [OF runs])
  show "keeps unspent (do { now \<leftarrow> clock w; scan_rounds (w_fuel w) w pane src sent (now + submitConfirmWindow) })"
    by (rule polls_end [OF assms windows(3,4)]) (rule scan_ends [OF runs])
qed

lemma keeps_confirm_source:
  assumes "patient w"
  shows "keeps unspent (confirmSubmittedFromSourceTurn w t sent key atCount source)"
proof (cases source)
  case None
  then show ?thesis
    unfolding confirmSubmittedFromSourceTurn_def by (simp add: keeps_bind [OF keeps_polls(3) [OF assms]] keeps_ret)
next
  case (Some src)
  have assoc: "do { now \<leftarrow> m; seen \<leftarrow> g now; f seen } = do { seen \<leftarrow> do { now \<leftarrow> m; g now }; f seen }"
    for m :: "timestamp op" and g :: "timestamp \<Rightarrow> confirmation option op" and f :: "confirmation option \<Rightarrow> confirmation op"
    by (simp add: State_Monad.bind_assoc)
  have "keeps unspent (do {
      seen \<leftarrow> do { now \<leftarrow> clock w; scan_rounds (w_fuel w) w (pt_pane t) src sent (now + submitConfirmWindow) };
      case seen of
        Some c \<Rightarrow> ret c
      | None \<Rightarrow> do { confirmed \<leftarrow> confirmSubmitted w (pt_pane t) key atCount;
          ret (if confirmed then on_screen ScreenAfterSilence else not_confirmed SilenceOnBoth) } })"
    by (intro keeps_bind [OF keeps_polls(4) [OF assms]] keeps_option keeps_ret keeps_bind [OF keeps_polls(3) [OF assms]])
  then show ?thesis unfolding confirmSubmittedFromSourceTurn_def Some by (simp only: option.case assoc)
qed

text \<open>Every part of a delivery.\<close>

lemma keeps_clear_unspent: "keeps unspent (clear_rounds n w pane i cwd pending c)"
proof -
  have finish: "keeps unspent (clear_finish w i cwd pending c)" for c
    unfolding clear_finish_def by (intro keep_rules)
  show ?thesis
    by (induction n arbitrary: c) (auto intro!: keep_rules finish)
qed

lemma keeps_clear_or_refuse_unspent [keep_rules]: "keeps unspent (clear_or_refuse w i t pending sc why)"
  unfolding clear_or_refuse_def clearComposer_def by (intro keep_rules keeps_clear_unspent)

lemma keeps_occupied_unspent [keep_rules]: "keeps unspent (occupied_other w i t text opts pending sc)"
  unfolding occupied_other_def recorded_draft_def unrecorded_draft_def unexplained_draft_def tryReplaceStranded_def
    tryClearUnrecordedComposer_def record_of_def kept_draft_def
  by (intro keep_rules)

lemma keeps_check_unspent [keep_rules]:
  "keeps unspent (checked_submit w t text c)" "keeps unspent (resume_empty w i t text)"
  "keeps unspent (strand_unlanded w i t text land)" "keeps unspent (strand_landed w i t text land source)"
  "keeps unspent (pasteBracketed w pane text)" "keeps unspent (not_receptive w t blocked)"
  unfolding checked_submit_def preSubmitCheck_def preempted_def resume_empty_def record_of_def strand_unlanded_def
    strand_landed_def currentComposerDigest_def pasteBracketed_def bracketPasteFlag_def not_receptive_def
    feedbackCardRefusalFor_def
  by (intro keep_rules)+

lemma keeps_submits_unspent:
  assumes "patient w"
  shows "keeps unspent (resume_held w i t text r)" and "keeps unspent (submit_landed w i t text c land)"
  unfolding resume_held_def submit_landed_def resume_confirm_def confirm_landed_def
  by (intro keeps_polls(2) assms keeps_confirm_source keep_rules)+

lemma keeps_deliver_unspent:
  assumes "patient w"
  shows "keeps unspent (deliver_to w ignorable i t captures text opts)"
proof -
  have "keeps unspent (resume_same_text w i t text pending sc r)" for pending sc r
    unfolding resume_same_text_def kept_draft_def by (intro keep_rules keeps_submits_unspent assms)
  then have "keeps unspent (occupied_composer w i t text opts pending sc)" for pending sc
    unfolding occupied_composer_def record_of_def by (intro keep_rules)
  then have before: "keeps unspent (before_paste w i t text opts sc)" for sc
    unfolding before_paste_def by (cases "composerText sc") (auto intro!: keep_rules)
  have "keeps unspent (paste_and_submit w ignorable i t text opts)"
    unfolding paste_and_submit_def paste_now_def after_paste_def
    by (intro keeps_polls(2) keeps_submits_unspent assms keep_rules)
  then show ?thesis
    unfolding deliver_to_def deliver_on_def by (intro keeps_polls(1) before assms keep_rules)
qed

text \<open>
  C16: A delivery ends: in a world whose clock does not go backwards, and in which a wait that is not
  interrupted takes its time, no polling loop of a delivery goes round more than 28 times, whatever the
  pane shows and however often the multiplexer fails to answer.
\<close>

theorem delivery_ends:
  assumes "\<And>l e. w_now w l \<le> w_now w (e # l)" and "\<And>l d. w_now w l + d \<le> w_now w (Slept d False # l)"
    and "28 \<le> w_fuel w" and "run_state (deliverViaPane w ignorable i text opts) s = (a, s')" and "\<not> ss_spent s"
  shows "\<not> ss_spent s'"
proof -
  have "patient w" using assms(1-3) by (simp add: patient_def clock_runs_def)
  then have "keeps unspent (deliverViaPane w ignorable i text opts)"
    unfolding deliverViaPane_def by (intro keeps_deliver_unspent keep_rules)
  from wp_run [OF keepsD [OF this assms(5)] assms(4)] show ?thesis .
qed

end
