(* ===== verification/DraftProof.thy ===== *)
theory DraftProof
  imports DraftRecords
begin

text \<open>
  What the records of \<open>DraftRecords\<close> prove: over runs of everything the driver does to them, with saves
  that fail and restarts, only texts it placed are taken for its own, and those are not forgotten.
\<close>

section \<open>Retention\<close>

lemma buryLocked_sel [simp]:
  "dm_stranded (buryLocked now i r d) = dm_stranded d" "dm_unconfirmed (buryLocked now i r d) = dm_unconfirmed d"
  "dm_delivered (buryLocked now i r d) = dm_delivered d" "dm_futile (buryLocked now i r d) = dm_futile d"
  "dm_store (buryLocked now i r d) = dm_store d" "dm_disk (buryLocked now i r d) = dm_disk d"
  "dm_stranded_doc (buryLocked now i r d) = dm_stranded_doc d" "dm_delivery_doc (buryLocked now i r d) = dm_delivery_doc d"
  by (simp_all add: buryLocked_def)

lemma bury_fold_sel [simp]:
  "dm_stranded (fold (\<lambda>(i, r). buryLocked now i r) rs d) = dm_stranded d"
  "dm_store (fold (\<lambda>(i, r). buryLocked now i r) rs d) = dm_store d"
  "dm_disk (fold (\<lambda>(i, r). buryLocked now i r) rs d) = dm_disk d"
  "dm_stranded_doc (fold (\<lambda>(i, r). buryLocked now i r) rs d) = dm_stranded_doc d"
  by (induction rs arbitrary: d) auto

lemma sweepStranded_sel [simp]:
  "dm_stranded (sweepStrandedLocked now d) = filter (\<lambda>(i, rec). \<not> stranded_lapsed now rec) (dm_stranded d)"
  "dm_store (sweepStrandedLocked now d) = dm_store d" "dm_disk (sweepStrandedLocked now d) = dm_disk d"
  "dm_stranded_doc (sweepStrandedLocked now d) = dm_stranded_doc d"
  by (simp_all add: sweepStrandedLocked_def)

interpretation stranded_table: retained dm_stranded sweepStrandedLocked sd_at "\<lambda>d. strandedRetention"
  by unfold_locales (auto simp: map_of_filter_key gm_wf_filter stranded_lapsed_def split: option.split)

interpretation delivered_table: retained dm_delivered sweepDeliveryLocked mk_at "\<lambda>d. deliveryMarkRetention"
  by unfold_locales (auto simp: map_of_filter_key gm_wf_filter sweepDeliveryLocked_def split: option.split)

interpretation futile_table: retained dm_futile sweepFutileLocked fu_at "\<lambda>d. futileClearRetention"
  by unfold_locales (auto simp: map_of_filter_key gm_wf_filter sweepFutileLocked_def split: option.split)

section \<open>Only what was placed is claimed\<close>

type_synonym draft_claim = "string \<times> string \<times> string \<times> string"

definition claims_of :: "(string, stranded_record) gomap \<Rightarrow> (string, stranded_tombstone list) gomap \<Rightarrow> draft_claim set" where
  "claims_of S T =
     {(i, sd_cwd r, sd_text r, sd_composer_digest r) | i r. (i, r) \<in> set S} \<union>
     {(i, tb_cwd t, tb_text t, tb_composer_digest t) | i t l. (i, l) \<in> set T \<and> t \<in> set l}"

definition doc_claims :: "draft_memory \<Rightarrow> draft_claim set" where
  "doc_claims d = (case dm_stranded_doc d of None \<Rightarrow> {} | Some f \<Rightarrow> claims_of (sf_records f) (sf_tombstones f))"

definition claims :: "draft_memory \<Rightarrow> draft_claim set" where
  "claims d = claims_of (dm_stranded d) (dm_tombstones d) \<union> doc_claims d"

lemma claims_of_mono: "set S \<subseteq> set S' \<Longrightarrow> set T \<subseteq> set T' \<Longrightarrow> claims_of S T \<subseteq> claims_of S' T'"
  unfolding claims_of_def by blast

lemma set_newest: "set (newest n xs) \<subseteq> set xs"
  by (auto simp: newest_def dest: in_set_dropD)

lemma set_update: "set (gm_put k v m) \<subseteq> insert (k, v) (set m)"
  by (induction m) auto

lemma in_default: "x \<in> set (the_default [] (map_of m k)) \<Longrightarrow> \<exists>l. (k, l) \<in> set m \<and> x \<in> set l"
  by (cases "map_of m k") (auto dest: map_of_SomeD)

lemma claims_of_put: "claims_of (gm_put i r S) T \<subseteq> insert (i, sd_cwd r, sd_text r, sd_composer_digest r) (claims_of S T)"
  using set_update [of i r S] unfolding claims_of_def by blast

lemma claims_of_tombs:
  assumes "\<And>t. t \<in> set l \<Longrightarrow> t \<in> set (the_default [] (map_of T i)) \<or> (i, tb_cwd t, tb_text t, tb_composer_digest t) \<in> N"
  shows "claims_of S (gm_put i l T) \<subseteq> claims_of S T \<union> N"
proof
  fix x assume "x \<in> claims_of S (gm_put i l T)"
  then consider "x \<in> claims_of S []" | j t l' where "x = (j, tb_cwd t, tb_text t, tb_composer_digest t)" "(j, l') \<in> set (gm_put i l T)" "t \<in> set l'"
    unfolding claims_of_def by auto
  then show "x \<in> claims_of S T \<union> N"
  proof cases
    case 1
    then show ?thesis unfolding claims_of_def by auto
  next
    case (2 j t l')
    show ?thesis
    proof (cases "(j, l') \<in> set T")
      case True
      then show ?thesis using 2 unfolding claims_of_def by blast
    next
      case False
      then have "j = i" "l' = l" using 2(2) set_update [of i l T] by auto
      with assms [of t] 2 in_default [of t T i] show ?thesis unfolding claims_of_def by blast
    qed
  qed
qed

lemma claims_save: "claims (saveStrandedLocked d) \<subseteq> claims d"
  by (auto simp: claims_def saveStrandedLocked_def doc_claims_def split: option.splits)

lemma claims_save_delivery [simp]: "claims (saveDeliveryLocked d) = claims d"
  by (simp add: claims_def saveDeliveryLocked_def doc_claims_def)

lemma claims_bury:
  "claims (buryLocked now i r d) \<subseteq> insert (i, sd_cwd r, sd_text r, sd_composer_digest r) (claims d)"
proof -
  let ?N = "{(i, sd_cwd r, sd_text r, sd_composer_digest r)}"
  have "claims_of (dm_stranded d) (dm_tombstones (buryLocked now i r d)) \<subseteq> claims_of (dm_stranded d) (dm_tombstones d) \<union> ?N"
  proof -
    obtain t where t: "tb_cwd t = sd_cwd r" "tb_text t = sd_text r" "tb_composer_digest t = sd_composer_digest r"
      "dm_tombstones (buryLocked now i r d) =
        gm_put i (newest tombstonesPerSession (the_default [] (map_of (dm_tombstones d) i) @ [t])) (dm_tombstones d)"
      by (simp add: buryLocked_def) (metis stranded_tombstone.select_convs(1,2,3))
    show ?thesis unfolding t(4)
      by (rule claims_of_tombs) (use t(1-3) in \<open>auto dest!: set_newest [THEN subsetD]\<close>)
  qed
  then show ?thesis by (auto simp: claims_def doc_claims_def)
qed

lemma claims_bury_fold:
  "set rs \<subseteq> set (dm_stranded d) \<Longrightarrow> claims (fold (\<lambda>(i, r). buryLocked now i r) rs d) \<subseteq> claims d"
proof (induction rs arbitrary: d)
  case (Cons x rs)
  obtain i r where x: "x = (i, r)" by (cases x)
  have "claims (buryLocked now i r d) \<subseteq> claims d"
  proof -
    have "(i, sd_cwd r, sd_text r, sd_composer_digest r) \<in> claims d"
      using Cons.prems x by (auto simp: claims_def claims_of_def)
    then show ?thesis using claims_bury [of now i r d] by blast
  qed
  moreover have "claims (fold (\<lambda>(i, r). buryLocked now i r) rs (buryLocked now i r d)) \<subseteq> claims (buryLocked now i r d)"
    by (rule Cons.IH) (use Cons.prems in simp)
  ultimately show ?case using x by simp
qed simp

lemma claims_drop_stranded:
  "set S \<subseteq> set (dm_stranded d) \<Longrightarrow> claims (d\<lparr>dm_stranded := S\<rparr>) \<subseteq> claims d"
  using claims_of_mono [of S "dm_stranded d" "dm_tombstones d"] by (auto simp: claims_def doc_claims_def)

lemma claims_sweep_stranded: "claims (sweepStrandedLocked now d) \<subseteq> claims d"
proof -
  let ?rs = "filter (\<lambda>(i, r). stranded_lapsed now r) (dm_stranded d)"
  have "claims (sweepStrandedLocked now d) \<subseteq> claims (fold (\<lambda>(i, r). buryLocked now i r) ?rs d)"
    unfolding sweepStrandedLocked_def by (rule claims_drop_stranded) auto
  also have "\<dots> \<subseteq> claims d" by (rule claims_bury_fold) auto
  finally show ?thesis .
qed

lemma claims_sweep_tombstones: "claims (sweepTombstonesLocked now d) \<subseteq> claims d"
proof -
  have "claims_of (dm_stranded d) (dm_tombstones (sweepTombstonesLocked now d)) \<subseteq> claims_of (dm_stranded d) (dm_tombstones d)"
    unfolding claims_of_def sweepTombstonesLocked_def kept_list_def by fastforce
  then show ?thesis by (auto simp: claims_def doc_claims_def sweepTombstonesLocked_def)
qed

lemma claims_strand:
  "claims (noteStrandedLanding now i cwd text digest src l nr d) \<subseteq> insert (i, cwd, text, digest) (claims d)"
proof -
  let ?d = "case map_of (dm_stranded d) i of
      Some prior \<Rightarrow> if sd_text prior \<noteq> text \<or> sd_cwd prior \<noteq> cwd then buryLocked now i prior d else d | None \<Rightarrow> d"
  have d: "claims ?d \<subseteq> claims d"
  proof (cases "map_of (dm_stranded d) i")
    case (Some prior)
    then have "(i, sd_cwd prior, sd_text prior, sd_composer_digest prior) \<in> claims d"
      by (auto simp: claims_def claims_of_def dest!: map_of_SomeD)
    then show ?thesis using claims_bury [of now i prior d] Some by auto
  qed simp
  obtain rec where rec: "sd_cwd rec = cwd" "sd_text rec = text" "sd_composer_digest rec = digest"
    and eq: "noteStrandedLanding now i cwd text digest src l nr d = saveStrandedLocked (?d\<lparr>dm_stranded := gm_put i rec (dm_stranded ?d)\<rparr>)"
    by (simp add: noteStrandedLanding_def Let_def) (metis stranded_record.select_convs(1,2,4))
  have "claims (?d\<lparr>dm_stranded := gm_put i rec (dm_stranded ?d)\<rparr>) \<subseteq> insert (i, cwd, text, digest) (claims ?d)"
    using claims_of_put [of i rec "dm_stranded ?d" "dm_tombstones ?d"] rec by (auto simp: claims_def doc_claims_def)
  then show ?thesis using claims_save d unfolding eq by blast
qed

lemma claims_provisional: "claims (noteProvisional now i cwd text src d) \<subseteq> insert (i, cwd, text, []) (claims d)"
proof -
  obtain t P where t: "tb_cwd t = cwd" "tb_text t = text" "tb_composer_digest t = []"
    and eq: "noteProvisional now i cwd text src d = saveStrandedLocked (d\<lparr>dm_tombstones :=
        gm_put i (newest tombstonesPerSession (filter P (the_default [] (map_of (dm_tombstones d) i)) @ [t])) (dm_tombstones d)\<rparr>)"
    by (simp add: noteProvisional_def Let_def) (metis stranded_tombstone.select_convs(1,2,3))
  have "claims_of (dm_stranded d)
      (gm_put i (newest tombstonesPerSession (filter P (the_default [] (map_of (dm_tombstones d) i)) @ [t])) (dm_tombstones d)) \<subseteq>
      claims_of (dm_stranded d) (dm_tombstones d) \<union> {(i, cwd, text, [])}"
    by (rule claims_of_tombs) (use t in \<open>auto dest!: set_newest [THEN subsetD]\<close>)
  then show ?thesis unfolding eq using claims_save by (fastforce simp: claims_def doc_claims_def)
qed

lemma claims_forget: "claims (forgetStranded i d) \<subseteq> claims d"
proof -
  have "claims (d\<lparr>dm_stranded := gm_del i (dm_stranded d)\<rparr>) \<subseteq> claims d"
    by (rule claims_drop_stranded) (auto simp: set_gm_del)
  then show ?thesis unfolding forgetStranded_def using claims_save by blast
qed

definition renamed_claims :: "string \<Rightarrow> string \<Rightarrow> draft_claim set \<Rightarrow> draft_claim set" where
  "renamed_claims from to P = P \<union> {(to, c) | c. (from, c) \<in> P}"

lemma claims_ofI:
  "(i, r) \<in> set S \<Longrightarrow> (i, sd_cwd r, sd_text r, sd_composer_digest r) \<in> claims_of S T"
  "(i, l) \<in> set T \<Longrightarrow> t \<in> set l \<Longrightarrow> (i, tb_cwd t, tb_text t, tb_composer_digest t) \<in> claims_of S T"
  unfolding claims_of_def by blast+

lemma renamed_claimsI: "(j, c) \<in> P \<Longrightarrow> j = i \<or> j = from \<and> i = to \<Longrightarrow> (i, c) \<in> renamed_claims from to P"
  unfolding renamed_claims_def by blast

lemma claims_rekey: "claims (rekeySessionState from to d) \<subseteq> renamed_claims from to (claims d)"
proof -
  let ?S = "move_key from to (dm_stranded d)" and ?T = "merge_key tombstonesPerSession from to (dm_tombstones d)"
  have S: "\<exists>j. (j, r) \<in> set (dm_stranded d) \<and> (j = i \<or> j = from \<and> i = to)" if "(i, r) \<in> set ?S" for i r
    using that set_update [of to _ "gm_del from (dm_stranded d)"]
    by (fastforce simp: move_key_def set_gm_del split: option.splits dest: map_of_SomeD)
  have T: "\<exists>j l'. (j, l') \<in> set (dm_tombstones d) \<and> t \<in> set l' \<and> (j = i \<or> j = from \<and> i = to)"
    if "(i, l) \<in> set ?T" "t \<in> set l" for i l t
  proof (cases "map_of (dm_tombstones d) from")
    case None
    then show ?thesis using that by (auto simp: merge_key_def)
  next
    case (Some m)
    let ?m = "gm_del from (dm_tombstones d)"
    let ?l = "newest tombstonesPerSession (the_default [] (map_of ?m to) @ m)"
    have "(i, l) = (to, ?l) \<or> (i, l) \<in> set ?m"
      using that(1) Some set_update [of to ?l ?m] by (auto simp: merge_key_def Let_def)
    then show ?thesis
    proof
      assume il: "(i, l) = (to, ?l)"
      then have "t \<in> set (the_default [] (map_of ?m to)) \<or> t \<in> set m"
        using that(2) set_newest [of tombstonesPerSession "the_default [] (map_of ?m to) @ m"] by auto
      then show ?thesis
      proof
        assume "t \<in> set (the_default [] (map_of ?m to))"
        then obtain l' where "(to, l') \<in> set ?m" "t \<in> set l'" using in_default [of t ?m to] by blast
        then show ?thesis using il by (auto simp: set_gm_del)
      next
        assume "t \<in> set m"
        then show ?thesis using il map_of_SomeD [OF Some] by blast
      qed
    next
      assume "(i, l) \<in> set ?m"
      then show ?thesis using that(2) by (auto simp: set_gm_del)
    qed
  qed
  have "claims_of ?S ?T \<subseteq> renamed_claims from to (claims_of (dm_stranded d) (dm_tombstones d))"
  proof
    fix x assume "x \<in> claims_of ?S ?T"
    then consider i r where "x = (i, sd_cwd r, sd_text r, sd_composer_digest r)" "(i, r) \<in> set ?S"
      | i t l where "x = (i, tb_cwd t, tb_text t, tb_composer_digest t)" "(i, l) \<in> set ?T" "t \<in> set l"
      unfolding claims_of_def by blast
    then show "x \<in> renamed_claims from to (claims_of (dm_stranded d) (dm_tombstones d))"
    proof cases
      case 1
      from S [OF 1(2)] obtain j where "(j, r) \<in> set (dm_stranded d)" "j = i \<or> j = from \<and> i = to" by blast
      from renamed_claimsI [OF claims_ofI(1) [OF this(1)] this(2)] show ?thesis unfolding 1(1) .
    next
      case 2
      from T [OF 2(2,3)] obtain j l' where "(j, l') \<in> set (dm_tombstones d)" "t \<in> set l'" "j = i \<or> j = from \<and> i = to" by blast
      from renamed_claimsI [OF claims_ofI(2) [OF this(1,2)] this(3)] show ?thesis unfolding 2(1) .
    qed
  qed
  then have "claims (d\<lparr>dm_stranded := ?S, dm_tombstones := ?T, dm_unconfirmed := U\<rparr>) \<subseteq> renamed_claims from to (claims d)" for U
    by (auto simp: claims_def doc_claims_def renamed_claims_def)
  then have "claims (saveStrandedLocked (d\<lparr>dm_stranded := ?S, dm_tombstones := ?T, dm_unconfirmed := U\<rparr>)) \<subseteq> renamed_claims from to (claims d)" for U
    using claims_save by blast
  moreover have "claims (g\<lparr>dm_delivered := D\<rparr>) = claims g" for g :: draft_memory and D
    by (simp add: claims_def doc_claims_def)
  ultimately show ?thesis by (simp add: rekeySessionState_def Let_def)
qed

section \<open>Runs\<close>

text \<open>
  Everything the driver does to these records, in any order: \<open>Swept\<close> and \<open>SweptTombs\<close> are what every
  lookup does to them, \<open>Disk\<close> makes saves fail or succeed from then on, \<open>Restart\<close> is a new process.
\<close>

datatype draft_op =
    Strand timestamp string string string string "(string \<times> int) option" landing bool
  | Provisional timestamp string string string "(string \<times> int) option"
  | Forget string
  | Rekey string string
  | Swept timestamp
  | SweptTombs timestamp
  | Ledger timestamp string unconfirmed_entry
  | LedgerDrop string string
  | Mark timestamp string string
  | Disk bool
  | Restart timestamp

fun draft_step :: "draft_op \<Rightarrow> draft_memory \<Rightarrow> draft_memory" where
  "draft_step (Strand now i cwd text digest src l nr) d = noteStrandedLanding now i cwd text digest src l nr d"
| "draft_step (Provisional now i cwd text src) d = noteProvisional now i cwd text src d"
| "draft_step (Forget i) d = forgetStranded i d"
| "draft_step (Rekey from to) d = rekeySessionState from to d"
| "draft_step (Swept now) d = sweepStrandedLocked now d"
| "draft_step (SweptTombs now) d = sweepTombstonesLocked now d"
| "draft_step (Ledger now i e) d = noteUnconfirmed now i e d"
| "draft_step (LedgerDrop i key) d = dropUnconfirmed i key d"
| "draft_step (Mark now i cwd) d = noteDelivery now i cwd d"
| "draft_step (Disk ok) d = d\<lparr>dm_disk := ok\<rparr>"
| "draft_step (Restart now) d = restart_drafts now d"

definition run_drafts :: "draft_op list \<Rightarrow> draft_memory \<Rightarrow> draft_memory" where
  "run_drafts steps d = fold draft_step steps d"

text \<open>What the driver put into which session's composer, under every name that session has had since.\<close>

fun place :: "draft_op \<Rightarrow> draft_claim set \<Rightarrow> draft_claim set" where
  "place (Strand now i cwd text digest src l nr) P = insert (i, cwd, text, digest) P"
| "place (Provisional now i cwd text src) P = insert (i, cwd, text, []) P"
| "place (Rekey from to) P = renamed_claims from to P"
| "place _ P = P"

definition placed :: "draft_op list \<Rightarrow> draft_claim set" where
  "placed steps = fold place steps {}"

lemma claims_load: "claims (loadStranded now d) \<subseteq> claims d"
proof (cases "if dm_store d then dm_stranded_doc d else None")
  case (Some f)
  let ?d = "d\<lparr>dm_stranded := sf_records f, dm_tombstones := sf_tombstones f, dm_unconfirmed := sf_unconfirmed f\<rparr>"
  have "claims ?d \<subseteq> claims d" using Some by (auto simp: claims_def doc_claims_def split: if_splits)
  moreover have "claims (sweepUnconfirmedLocked now g) = claims g" for g
    by (simp add: claims_def doc_claims_def sweepUnconfirmedLocked_def)
  ultimately have "claims (saveStrandedLocked (sweepUnconfirmedLocked now (sweepStrandedLocked now (sweepTombstonesLocked now ?d)))) \<subseteq> claims d"
    using claims_save claims_sweep_stranded claims_sweep_tombstones by blast
  then show ?thesis using Some by (auto simp: loadStranded_def)
qed (simp add: loadStranded_def)

lemma claims_load_delivery [simp]: "claims (loadDelivery now d) = claims d"
  by (auto simp: loadDelivery_def claims_def doc_claims_def sweepDeliveryLocked_def saveDeliveryLocked_def split: option.split)

lemma claims_restart: "claims (restart_drafts now d) \<subseteq> claims d"
proof -
  have "claims ((fresh_memory (dm_store d))\<lparr>dm_disk := dm_disk d, dm_stranded_doc := dm_stranded_doc d,
      dm_delivery_doc := dm_delivery_doc d\<rparr>) \<subseteq> claims d"
    by (auto simp: claims_def doc_claims_def claims_of_def fresh_memory_def)
  then show ?thesis unfolding restart_drafts_def using claims_load by auto
qed

lemma claims_frame:
  "claims (noteUnconfirmed now i e d) \<subseteq> claims d" "claims (dropUnconfirmed i key d) \<subseteq> claims d"
  "claims (noteDelivery now i cwd d) = claims d" "claims (d\<lparr>dm_disk := ok\<rparr>) = claims d"
proof -
  have u: "claims (d\<lparr>dm_unconfirmed := U\<rparr>) = claims d" for U by (simp add: claims_def doc_claims_def)
  show "claims (noteUnconfirmed now i e d) \<subseteq> claims d"
    unfolding noteUnconfirmed_def Let_def using claims_save u by blast
  show "claims (dropUnconfirmed i key d) \<subseteq> claims d"
    unfolding dropUnconfirmed_def Let_def using claims_save u by auto
  show "claims (noteDelivery now i cwd d) = claims d"
    by (simp add: noteDelivery_def) (simp add: claims_def doc_claims_def)
  show "claims (d\<lparr>dm_disk := ok\<rparr>) = claims d" by (simp add: claims_def doc_claims_def)
qed

lemma renamed_claims_mono: "P \<subseteq> Q \<Longrightarrow> renamed_claims from to P \<subseteq> renamed_claims from to Q"
  by (auto simp: renamed_claims_def)

lemma claims_step:
  assumes "claims d \<subseteq> P"
  shows "claims (draft_step s d) \<subseteq> place s P"
proof (cases s)
  case (Rekey a b)
  then show ?thesis using claims_rekey [of a b d] renamed_claims_mono [OF assms, of a b] by simp
next
  case (Strand now i cwd t digest src l nr)
  then show ?thesis using claims_strand [of now i cwd t digest src l nr d] assms by auto
next
  case (Provisional now i cwd t src)
  then show ?thesis using claims_provisional [of now i cwd t src d] assms by auto
next
  case (Forget i)
  then show ?thesis using claims_forget [of i d] assms by simp
next
  case (Swept now)
  then show ?thesis using claims_sweep_stranded [of now d] assms by simp
next
  case (SweptTombs now)
  then show ?thesis using claims_sweep_tombstones [of now d] assms by simp
next
  case (Ledger now i e)
  then show ?thesis using claims_frame(1) [of now i e d] assms by simp
next
  case (LedgerDrop i key)
  then show ?thesis using claims_frame(2) [of i key d] assms by simp
next
  case (Restart now)
  then show ?thesis using claims_restart [of now d] assms by simp
qed (use assms in \<open>simp_all add: claims_frame\<close>)

lemma claims_run: "claims d \<subseteq> P \<Longrightarrow> claims (run_drafts steps d) \<subseteq> fold place steps P"
  unfolding run_drafts_def
proof (induction steps arbitrary: d P)
  case (Cons s steps)
  from claims_step [OF Cons.prems] Cons.IH show ?case by simp
qed simp

lemma claims_placed: "claims (run_drafts steps (fresh_memory store)) \<subseteq> placed steps"
  unfolding placed_def
  by (rule claims_run) (simp add: claims_def claims_of_def doc_claims_def fresh_memory_def)

lemma tombstoneProves_claim:
  assumes "fst (tombstoneProves lib tr now i cwd pending sc d)"
  obtains "text" digest where "(i, cwd, text, digest) \<in> claims d"
    "composerDigestMatches lib digest pending \<or> composerMatchesText sc text False"
proof -
  let ?d = "sweepTombstonesLocked now d"
  obtain t where t: "find (tombstone_proves lib tr cwd pending sc) (the_default [] (map_of (dm_tombstones ?d) i)) = Some t"
    using assms by (auto simp: tombstoneProves_def tombstoneProvesKind_def Let_def split: option.splits)
  then have p: "tombstone_proves lib tr cwd pending sc t" "t \<in> set (the_default [] (map_of (dm_tombstones ?d) i))"
    by (auto simp: find_Some_iff)
  from in_default [OF p(2)] have "(i, tb_cwd t, tb_text t, tb_composer_digest t) \<in> claims ?d"
    by (auto simp: claims_def claims_of_def)
  then have "(i, cwd, tb_text t, tb_composer_digest t) \<in> claims d"
    using claims_sweep_tombstones p(1) by (auto simp: tombstone_proves_def)
  with that p(1) show thesis by (auto simp: tombstone_proves_def)
qed

lemma ownDelivery_tombs:
  assumes "composerText sc = Holds pending" and "pending \<noteq> []"
    and "\<And>rec. map_of (dm_stranded (sweepStrandedLocked now d)) i = Some rec \<Longrightarrow> \<not> (sd_cwd rec = cwd \<and> recordProves lib rec pending sc)"
  shows "ownDeliveryLocked lib tr now i cwd (Some sc) d = tombstoneProves lib tr now i cwd pending sc (sweepStrandedLocked now d)"
proof (cases "map_of (dm_stranded (sweepStrandedLocked now d)) i")
  case None
  then show ?thesis using assms(1,2) by (simp only: ownDeliveryLocked_def Let_def option.case composer_reading.case if_False)
next
  case (Some rec)
  then show ?thesis using assms(1,2) assms(3) [OF Some]
    by (simp only: ownDeliveryLocked_def Let_def option.case composer_reading.case if_False)
qed

text \<open>
  C8: What the driver takes for its own in a session's composer, by a record or by a tombstone, is over any
  run of strands, lapses, renames, failed saves and restarts one of two things: a text that was noted
  as placed in that session and directory (or in the session it was renamed from), which the rows
  on the screen are; or content with the digest that was noted with such a text. That digest is of
  what the composer showed when the text was left behind: a person's text that stood there then is
  taken for the driver's own as well, and any other is not.
\<close>

theorem proved_drafts_were_placed:
  assumes "fst (ownDeliveryLocked lib tr now i cwd (Some sc) (run_drafts steps (fresh_memory store)))"
  shows "\<exists>pending text digest. composerText sc = Holds pending \<and> pending \<noteq> [] \<and> (i, cwd, text, digest) \<in> placed steps \<and>
    (composerDigestMatches lib digest pending \<or> composerMatchesText sc text False)"
proof -
  let ?d = "run_drafts steps (fresh_memory store)" and ?s = "sweepStrandedLocked now (run_drafts steps (fresh_memory store))"
  obtain pending where p: "composerText sc = Holds pending" "pending \<noteq> []"
    using assms by (auto simp: ownDeliveryLocked_def split: composer_reading.splits if_splits)
  have sub: "claims ?s \<subseteq> placed steps" using claims_sweep_stranded claims_placed by blast
  show ?thesis
  proof (cases "\<exists>rec. map_of (dm_stranded ?s) i = Some rec \<and> sd_cwd rec = cwd \<and> recordProves lib rec pending sc")
    case True
    then obtain rec where rec: "map_of (dm_stranded ?s) i = Some rec" "sd_cwd rec = cwd" "recordProves lib rec pending sc" by blast
    then have "(i, cwd, sd_text rec, sd_composer_digest rec) \<in> claims ?s"
      by (auto simp: claims_def claims_of_def dest!: map_of_SomeD)
    then show ?thesis using p sub rec(3) by (auto simp: recordProves_def)
  next
    case False
    have "ownDeliveryLocked lib tr now i cwd (Some sc) ?d = tombstoneProves lib tr now i cwd pending sc ?s"
    proof (rule ownDelivery_tombs [OF p])
      fix rec assume "map_of (dm_stranded ?s) i = Some rec"
      with False show "\<not> (sd_cwd rec = cwd \<and> recordProves lib rec pending sc)" by metis
    qed
    then have "fst (tombstoneProves lib tr now i cwd pending sc ?s)" using assms by simp
    then obtain t digest where c: "(i, cwd, t, digest) \<in> claims ?s"
      "composerDigestMatches lib digest pending \<or> composerMatchesText sc t False"
      by (rule tombstoneProves_claim)
    then have "(i, cwd, t, digest) \<in> placed steps" using sub by blast
    with p c(2) show ?thesis by metis
  qed
qed

section \<open>Nothing placed is forgotten by a restart\<close>

definition drafts_wf :: "draft_memory \<Rightarrow> bool" where
  "drafts_wf d = (gm_wf (dm_stranded d) \<and> gm_wf (dm_tombstones d))"

definition is_grave :: "timestamp \<Rightarrow> stranded_record \<Rightarrow> stranded_tombstone \<Rightarrow> bool" where
  "is_grave now r t = (tb_text t = sd_text r \<and> tb_cwd t = sd_cwd r \<and> tb_composer_digest t = sd_composer_digest r \<and>
     tb_at t = now \<and> \<not> tb_provisional t)"

abbreviation tombs :: "draft_memory \<Rightarrow> string \<Rightarrow> stranded_tombstone list" where
  "tombs d i \<equiv> the_default [] (map_of (dm_tombstones d) i)"

lemma last_in_newest: "0 < n \<Longrightarrow> t \<in> set (newest n (xs @ [t]))"
proof -
  assume "0 < n"
  then have "newest n (xs @ [t]) = drop (Suc (length xs) - n) xs @ [t]" by (cases n) (auto simp: newest_def)
  then show ?thesis by simp
qed

lemma bury_tombs: "\<exists>t \<in> set (tombs (buryLocked now i r d) i). is_grave now r t"
proof -
  obtain t where t: "is_grave now r t"
    "dm_tombstones (buryLocked now i r d) = gm_put i (newest tombstonesPerSession (tombs d i @ [t])) (dm_tombstones d)"
    by (simp add: buryLocked_def is_grave_def) (metis stranded_tombstone.select_convs(1-5))
  have "t \<in> set (newest tombstonesPerSession (tombs d i @ [t]))"
    by (rule last_in_newest) (simp add: tombstonesPerSession_def)
  then show ?thesis using t by auto
qed

lemma bury_tombs_other: "j \<noteq> i \<Longrightarrow> tombs (buryLocked now j r d) i = tombs d i"
  by (simp add: buryLocked_def)

lemma bury_fold_other:
  "i \<notin> fst ` set rs \<Longrightarrow> tombs (fold (\<lambda>(i, r). buryLocked now i r) rs d) i = tombs d i"
  by (induction rs arbitrary: d) (auto simp: bury_tombs_other)

lemma bury_fold_tombs:
  "gm_wf rs \<Longrightarrow> (i, r) \<in> set rs \<Longrightarrow>
     \<exists>t \<in> set (tombs (fold (\<lambda>(i, r). buryLocked now i r) rs d) i). is_grave now r t"
proof (induction rs arbitrary: d)
  case (Cons x rs)
  obtain j q where x: "x = (j, q)" by (cases x)
  show ?case
  proof (cases "(i, r) = (j, q)")
    case True
    then have "i \<notin> fst ` set rs" using Cons.prems x by auto
    then have "tombs (fold (\<lambda>(i, r). buryLocked now i r) rs g) i = tombs g i" for g by (rule bury_fold_other)
    then show ?thesis using bury_tombs [of now i r d] x True by simp
  next
    case False
    then have "gm_wf rs" "(i, r) \<in> set rs" using Cons.prems x by auto
    from Cons.IH [OF this, of "buryLocked now j q d"] x show ?thesis by simp
  qed
qed simp

lemma tombs_swept:
  assumes "gm_wf (dm_tombstones d)" and "t \<in> set (tombs d i)" and "time_sub now (tb_at t) \<le> tombstoneRetention"
  shows "t \<in> set (tombs (sweepTombstonesLocked now d) i)"
proof -
  let ?P = "\<lambda>t. time_sub now (tb_at t) \<le> tombstoneRetention"
  obtain l where l: "map_of (dm_tombstones d) i = Some l" "t \<in> set l" using assms(2) by (cases "map_of (dm_tombstones d) i") auto
  have t: "t \<in> set (filter ?P l)" using l(2) assms(3) by simp
  let ?m = "map (\<lambda>(i, l). (i, filter ?P l)) (dm_tombstones d)"
  have m: "gm_wf ?m" "map_of ?m i = Some (filter ?P l)"
    using assms(1) l(1) by (simp_all add: gm_wf_map [where f = "\<lambda>i l. filter ?P l"] map_of_map_values [where f = "\<lambda>i l. filter ?P l"])
  have "filter ?P l \<noteq> []" using t by (metis empty_iff list.set(1))
  then have "map_of (filter (\<lambda>(i, l). l \<noteq> []) ?m) i = Some (filter ?P l)"
    by (simp only: map_of_filter_key [OF m(1)] m(2)) simp
  with t show ?thesis by (simp add: sweepTombstonesLocked_def kept_list_def)
qed

lemma gm_wf_bury: "gm_wf (dm_tombstones d) \<Longrightarrow> gm_wf (dm_tombstones (buryLocked now i r d))"
  by (simp add: buryLocked_def)

lemma gm_wf_bury_fold:
  "gm_wf (dm_tombstones d) \<Longrightarrow> gm_wf (dm_tombstones (fold (\<lambda>(i, r). buryLocked now i r) rs d))"
proof (induction rs arbitrary: d)
  case (Cons x rs)
  then show ?case by (cases x) (simp add: gm_wf_bury)
qed simp

lemma gm_wf_sweep_tombs: "gm_wf (dm_tombstones d) \<Longrightarrow> gm_wf (dm_tombstones (sweepTombstonesLocked now d))"
  unfolding sweepTombstonesLocked_def kept_list_def draft_memory.simps
  by (auto intro!: gm_wf_filter simp: gm_wf_map)

lemma sweepStranded_tombs: "dm_tombstones (sweepStrandedLocked now d) =
    dm_tombstones (fold (\<lambda>(i, r). buryLocked now i r) (filter (\<lambda>(i, r). stranded_lapsed now r) (dm_stranded d)) d)"
  by (simp add: sweepStrandedLocked_def)

lemma sweepStranded_again: "\<not> (\<exists>p \<in> set (dm_stranded d). stranded_lapsed now (snd p)) \<Longrightarrow> sweepStrandedLocked now d = d"
proof -
  assume no: "\<not> (\<exists>p \<in> set (dm_stranded d). stranded_lapsed now (snd p))"
  have "filter (\<lambda>(i, r). stranded_lapsed now r) (dm_stranded d) = []" using no by (auto simp: filter_empty_conv)
  moreover have "filter (\<lambda>(i, r). \<not> stranded_lapsed now r) (dm_stranded d) = dm_stranded d"
    using no by (auto simp: filter_id_conv)
  ultimately show ?thesis by (simp add: sweepStrandedLocked_def)
qed

text \<open>What the driver believes just after it has loaded a document that holds a record.\<close>

lemma loaded_record_proves:
  assumes wf: "drafts_wf d" and rec: "map_of (dm_stranded d) i = Some rec" "sd_cwd rec = cwd" "recordProves lib rec pending sc"
    and sc: "composerText sc = Holds pending" "pending \<noteq> []"
  shows "fst (ownDeliveryLocked lib tr now i cwd (Some sc) (sweepStrandedLocked now d))"
proof -
  let ?d = "sweepStrandedLocked now d"
  have again: "sweepStrandedLocked now ?d = ?d"
    by (rule sweepStranded_again) auto
  have S: "map_of (dm_stranded ?d) i = (if stranded_lapsed now rec then None else Some rec)"
    using wf rec(1) by (simp add: drafts_wf_def map_of_filter_key)
  show ?thesis
  proof (cases "stranded_lapsed now rec")
    case False
    then show ?thesis using S rec sc again
      by (simp only: ownDeliveryLocked_def Let_def option.case composer_reading.case if_False if_True) simp
  next
    case True
    have "ownDeliveryLocked lib tr now i cwd (Some sc) ?d = tombstoneProves lib tr now i cwd pending sc ?d"
    proof -
      have "ownDeliveryLocked lib tr now i cwd (Some sc) ?d = tombstoneProves lib tr now i cwd pending sc (sweepStrandedLocked now ?d)"
        by (rule ownDelivery_tombs [OF sc]) (use S True again in auto)
      then show ?thesis unfolding again .
    qed
    moreover have "fst (tombstoneProves lib tr now i cwd pending sc ?d)"
    proof -
      have "(i, rec) \<in> set (filter (\<lambda>(i, r). stranded_lapsed now r) (dm_stranded d))"
        using rec(1) True by (auto dest: map_of_SomeD)
      moreover have "gm_wf (filter (\<lambda>(i, r). stranded_lapsed now r) (dm_stranded d))"
        using wf by (simp add: drafts_wf_def gm_wf_filter)
      ultimately obtain t where t: "t \<in> set (tombs ?d i)" "is_grave now rec t"
        using bury_fold_tombs unfolding sweepStranded_tombs by blast
      have "gm_wf (dm_tombstones ?d)" unfolding sweepStranded_tombs using wf by (simp add: drafts_wf_def gm_wf_bury_fold)
      then have "t \<in> set (tombs (sweepTombstonesLocked now ?d) i)"
        using t by (intro tombs_swept) (simp_all add: is_grave_def tombstoneRetention_def hour_def minute_def second_def)
      moreover have "tombstone_proves lib tr cwd pending sc t"
        using t(2) rec by (auto simp: tombstone_proves_def is_grave_def recordProves_def)
      ultimately have "find (tombstone_proves lib tr cwd pending sc) (tombs (sweepTombstonesLocked now ?d) i) \<noteq> None"
        by (auto simp: find_None_iff)
      then show ?thesis by (auto simp: tombstoneProves_def tombstoneProvesKind_def Let_def)
    qed
    ultimately show ?thesis by simp
  qed
qed

text \<open>And for as long after as the tombstone of a lapsed record is kept.\<close>

lemma own_sweeps:
  assumes "composerText sc = Holds pending" and "pending \<noteq> []"
  shows "ownDeliveryLocked lib tr now i cwd (Some sc) (sweepStrandedLocked now d) = ownDeliveryLocked lib tr now i cwd (Some sc) d"
proof -
  have again: "sweepStrandedLocked now (sweepStrandedLocked now d) = sweepStrandedLocked now d"
    by (rule sweepStranded_again) auto
  from assms show ?thesis by (simp only: ownDeliveryLocked_def Let_def option.case composer_reading.case again if_False)
qed

lemma drafts_wf_sweep: "drafts_wf d \<Longrightarrow> drafts_wf (sweepStrandedLocked now d)"
  unfolding drafts_wf_def sweepStranded_tombs by (simp add: gm_wf_bury_fold gm_wf_filter)

lemma swept_record_proves:
  assumes wf: "drafts_wf d" and rec: "map_of (dm_stranded d) i = Some rec" "sd_cwd rec = cwd" "recordProves lib rec pending sc"
    and sc: "composerText sc = Holds pending" "pending \<noteq> []" and soon: "time_sub later now \<le> tombstoneRetention"
  shows "fst (ownDeliveryLocked lib tr later i cwd (Some sc) (sweepStrandedLocked now d))"
proof -
  let ?d = "sweepStrandedLocked now d" and ?e = "sweepStrandedLocked later (sweepStrandedLocked now d)"
  have S: "map_of (dm_stranded ?d) i = (if stranded_lapsed now rec then None else Some rec)"
    using wf rec(1) by (simp add: drafts_wf_def map_of_filter_key)
  show ?thesis
  proof (cases "stranded_lapsed now rec")
    case False
    then have "map_of (dm_stranded ?d) i = Some rec" using S by simp
    from loaded_record_proves [OF drafts_wf_sweep [OF wf] this rec(2,3) sc] show ?thesis by (simp add: own_sweeps [OF sc])
  next
    case True
    then have none: "map_of (dm_stranded ?d) i = None" using S by simp
    then have out: "i \<notin> fst ` set (dm_stranded ?d)" by (simp add: map_of_eq_None_iff del: sweepStranded_sel)
    have "(i, rec) \<in> set (filter (\<lambda>(i, r). stranded_lapsed now r) (dm_stranded d))"
      using rec(1) True by (auto dest: map_of_SomeD)
    moreover have "gm_wf (filter (\<lambda>(i, r). stranded_lapsed now r) (dm_stranded d))"
      using wf by (simp add: drafts_wf_def gm_wf_filter)
    ultimately obtain t where t: "t \<in> set (tombs ?d i)" "is_grave now rec t"
      using bury_fold_tombs unfolding sweepStranded_tombs by blast
    have "tombs ?e i = tombs ?d i"
      unfolding sweepStranded_tombs [of later] by (rule bury_fold_other) (use out in auto)
    then have "t \<in> set (tombs (sweepTombstonesLocked later ?e) i)"
      using t soon drafts_wf_sweep [OF drafts_wf_sweep [OF wf]]
      by (intro tombs_swept) (auto simp: is_grave_def drafts_wf_def)
    moreover have "tombstone_proves lib tr cwd pending sc t"
      using t(2) rec by (auto simp: tombstone_proves_def is_grave_def recordProves_def)
    ultimately have "find (tombstone_proves lib tr cwd pending sc) (tombs (sweepTombstonesLocked later ?e) i) \<noteq> None"
      by (auto simp: find_None_iff)
    moreover have "map_of (dm_stranded ?e) i = None"
      using out by (auto simp: map_of_eq_None_iff)
    then have "ownDeliveryLocked lib tr later i cwd (Some sc) ?d = tombstoneProves lib tr later i cwd pending sc ?e"
      by (intro ownDelivery_tombs [OF sc]) simp
    ultimately show ?thesis by (auto simp: tombstoneProves_def tombstoneProvesKind_def Let_def)
  qed
qed
lemma bury_fold_cong:
  "dm_tombstones e = dm_tombstones d \<Longrightarrow>
     dm_tombstones (fold (\<lambda>(i, r). buryLocked now i r) rs e) = dm_tombstones (fold (\<lambda>(i, r). buryLocked now i r) rs d)"
proof (induction rs arbitrary: e d)
  case (Cons x rs)
  obtain i r where x: "x = (i, r)" by (cases x)
  have "dm_tombstones (buryLocked now i r e) = dm_tombstones (buryLocked now i r d)"
    using Cons.prems by (simp add: buryLocked_def)
  from Cons.IH [OF this] x show ?case by simp
qed simp

lemma sweepStranded_cong:
  assumes "dm_stranded e = dm_stranded d" and "dm_tombstones e = dm_tombstones d"
  shows "dm_tombstones (sweepStrandedLocked now e) = dm_tombstones (sweepStrandedLocked now d)"
  unfolding sweepStranded_tombs assms(1) by (rule bury_fold_cong) (rule assms(2))

lemma tombstoneProves_cong:
  "dm_tombstones e = dm_tombstones d \<Longrightarrow>
     fst (tombstoneProves lib tr now i cwd p sc e) = fst (tombstoneProves lib tr now i cwd p sc d)"
  by (simp add: tombstoneProves_def tombstoneProvesKind_def Let_def sweepTombstonesLocked_def split: option.split)

lemma own_frame:
  assumes "dm_stranded e = dm_stranded d" and "dm_tombstones e = dm_tombstones d"
  shows "fst (ownDeliveryLocked lib tr now i cwd (Some sc) e) = fst (ownDeliveryLocked lib tr now i cwd (Some sc) d)"
proof (cases "composerText sc")
  case (Holds p)
  note tomb = tombstoneProves_cong [OF sweepStranded_cong [OF assms]]
  have S: "dm_stranded (sweepStrandedLocked now e) = dm_stranded (sweepStrandedLocked now d)" by (simp add: assms(1))
  show ?thesis
  proof (cases "map_of (dm_stranded (sweepStrandedLocked now d)) i")
    case None
    then show ?thesis using Holds tomb S by (simp add: ownDeliveryLocked_def Let_def del: sweepStranded_sel)
  next
    case (Some rec)
    then show ?thesis using Holds tomb S by (simp add: ownDeliveryLocked_def Let_def del: sweepStranded_sel)
  qed
qed (simp_all add: ownDeliveryLocked_def)

lemma saveStranded_sel [simp]:
  "dm_stranded (saveStrandedLocked d) = dm_stranded d" "dm_tombstones (saveStrandedLocked d) = dm_tombstones d"
  by (simp_all add: saveStrandedLocked_def)

lemma load_tables:
  assumes "dm_store d" and "dm_stranded_doc d = Some f" and "sf_records f \<noteq> []"
    and "dm_stranded g = sf_records f" and "dm_tombstones g = sf_tombstones f"
  shows "dm_stranded (restart_drafts now d) = dm_stranded (sweepStrandedLocked now (sweepTombstonesLocked now g))"
    and "dm_tombstones (restart_drafts now d) = dm_tombstones (sweepStrandedLocked now (sweepTombstonesLocked now g))"
proof -
  define b where "b = (fresh_memory (dm_store d))\<lparr>dm_disk := dm_disk d, dm_stranded_doc := dm_stranded_doc d,
    dm_delivery_doc := dm_delivery_doc d\<rparr>"
  define h where "h = sweepTombstonesLocked now (b\<lparr>dm_stranded := sf_records f, dm_tombstones := sf_tombstones f, dm_unconfirmed := sf_unconfirmed f\<rparr>)"
  have l: "dm_stranded (loadDelivery now x) = dm_stranded x" "dm_tombstones (loadDelivery now x) = dm_tombstones x" for x
    by (simp_all add: loadDelivery_def saveDeliveryLocked_def sweepDeliveryLocked_def split: option.split)
  have b: "dm_store b" "dm_stranded_doc b = Some f" using assms by (simp_all add: b_def fresh_memory_def)
  have r: "restart_drafts now d = loadDelivery now (loadStranded now b)" by (simp add: restart_drafts_def b_def)
  have ld: "loadStranded now b = saveStrandedLocked (sweepUnconfirmedLocked now (sweepStrandedLocked now h))"
    using b assms(3) by (simp add: loadStranded_def h_def)
  have h: "dm_stranded h = dm_stranded (sweepTombstonesLocked now g)" "dm_tombstones h = dm_tombstones (sweepTombstonesLocked now g)"
    using assms(4,5) by (simp_all add: h_def sweepTombstonesLocked_def)
  show "dm_stranded (restart_drafts now d) = dm_stranded (sweepStrandedLocked now (sweepTombstonesLocked now g))"
    unfolding r l ld saveStranded_sel by (simp add: sweepUnconfirmedLocked_def h(1))
  show "dm_tombstones (restart_drafts now d) = dm_tombstones (sweepStrandedLocked now (sweepTombstonesLocked now g))"
    unfolding r l ld saveStranded_sel using sweepStranded_cong [OF h] by (simp add: sweepUnconfirmedLocked_def)
qed

lemma noteStranded_doc:
  assumes "dm_store d" and "dm_disk d"
  obtains f rec where "dm_stranded_doc (noteStrandedLanding now i cwd text digest src l nr d) = Some f"
    "map_of (sf_records f) i = Some rec" "sd_cwd rec = cwd" "sd_text rec = text" "sd_composer_digest rec = digest"
    "drafts_wf d \<Longrightarrow> gm_wf (sf_records f) \<and> gm_wf (sf_tombstones f)"
    "dm_store (noteStrandedLanding now i cwd text digest src l nr d)"
proof -
  let ?d = "case map_of (dm_stranded d) i of
      Some prior \<Rightarrow> if sd_text prior \<noteq> text \<or> sd_cwd prior \<noteq> cwd then buryLocked now i prior d else d | None \<Rightarrow> d"
  have d: "dm_stranded ?d = dm_stranded d" "dm_store ?d = dm_store d" "dm_disk ?d = dm_disk d"
    "drafts_wf d \<Longrightarrow> gm_wf (dm_tombstones ?d)"
    by (auto simp: drafts_wf_def gm_wf_bury split: option.split)
  obtain rec where rec: "sd_cwd rec = cwd" "sd_text rec = text" "sd_composer_digest rec = digest"
    and eq: "noteStrandedLanding now i cwd text digest src l nr d = saveStrandedLocked (?d\<lparr>dm_stranded := gm_put i rec (dm_stranded ?d)\<rparr>)"
    by (simp add: noteStrandedLanding_def Let_def) (metis stranded_record.select_convs(1,2,4))
  show thesis
    by (rule that [of "\<lparr>sf_records = gm_put i rec (dm_stranded d), sf_tombstones = dm_tombstones ?d, sf_unconfirmed = dm_unconfirmed ?d\<rparr>" rec])
      (use rec d assms in \<open>auto simp: eq saveStrandedLocked_def drafts_wf_def\<close>)
qed


section \<open>Demonstrations\<close>

definition demo_draft :: screen where
  "demo_draft = newScreen (paint ([demo_rule] @ composer_rows [''hi''] @ [demo_rule]))"

definition no_transcripts :: transcripts where
  "no_transcripts = \<lparr>tr_parse = \<lambda>l. None, tr_tail = \<lambda>p off. None\<rparr>"

lemma demo_draft_read:
  "composerText demo_draft = Holds ''hi''"
  "composerMatchesText demo_draft ''hi'' False"
  by code_simp+


lemma proved_drafts_were_placed_witness:
  "\<exists>text digest. (''t'', ''/w'', text, digest) \<in> placed [Strand 0 ''s'' ''/w'' ''hi'' [] None no_landing False, Rekey ''s'' ''t'', Swept hour] \<and>
     (composerDigestMatches demo_lib digest ''hi'' \<or> composerMatchesText demo_draft text False)"
proof -
  let ?steps = "[Strand 0 ''s'' ''/w'' ''hi'' [] None no_landing False, Rekey ''s'' ''t'', Swept hour]"
  let ?d = "rekeySessionState ''s'' ''t'' (noteStrandedLanding 0 ''s'' ''/w'' ''hi'' [] None no_landing False (fresh_memory True))"
  have d: "drafts_wf ?d" "\<exists>rec. map_of (dm_stranded ?d) ''t'' = Some rec \<and> sd_cwd rec = ''/w'' \<and> sd_text rec = ''hi''"
    by (simp_all add: drafts_wf_def rekeySessionState_def noteStrandedLanding_def saveStrandedLocked_def saveDeliveryLocked_def
        fresh_memory_def move_key_def merge_key_def no_landing_def Let_def)
  then obtain rec where rec: "map_of (dm_stranded ?d) ''t'' = Some rec" "sd_cwd rec = ''/w''" "recordProves demo_lib rec ''hi'' demo_draft"
    using demo_draft_read(2) by (auto simp: recordProves_def)
  have "fst (ownDeliveryLocked demo_lib no_transcripts hour ''t'' ''/w'' (Some demo_draft)
      (run_drafts ?steps (fresh_memory True)))"
    using loaded_record_proves [OF d(1) rec demo_draft_read(1)] by (simp add: run_drafts_def)
  from proved_drafts_were_placed [OF this] demo_draft_read(1) show ?thesis by auto
qed

end
