(* ===== verification/ClearProof.thy ===== *)
theory ClearProof
  imports DeliverProof DraftProof
begin

text \<open>
  What a delivery may clear away, over the records a driver can have (\<open>DraftProof\<close>).
\<close>

section \<open>Keys that clear\<close>

definition clear_event :: "event \<Rightarrow> bool" where
  "clear_event e = (case e of Keys pane ks ok \<Rightarrow> ks \<noteq> submitKeys | _ \<Rightarrow> False)"

text \<open>
  The composer holds a text the driver is known to have placed there, \<open>P\<close>, or the one the caller's digest
  names.
\<close>

definition proven :: "golib \<Rightarrow> draft_claim set \<Rightarrow> string \<Rightarrow> string \<Rightarrow> send_options \<Rightarrow> screen \<Rightarrow> bool" where
  "proven lib P i cwd opts sc \<longleftrightarrow> (so_replace opts \<or> so_resume opts) \<and>
     (\<exists>pending. composerText sc = Holds pending \<and> pending \<noteq> [] \<and>
        (expectProves lib (so_expect opts) pending \<or>
         (\<exists>placed_text digest. (i, cwd, placed_text, digest) \<in> P \<and> (composerDigestMatches lib digest pending \<or> composerMatchesText sc placed_text False))))"

text \<open>What a clear needs: the pane, a screen that was read there, and proof of what it showed.\<close>

record clear_grant =
  cg_lib :: golib
  cg_placed :: "draft_claim set"
  cg_session :: string
  cg_cwd :: string
  cg_opts :: send_options
  cg_pane :: string
  cg_listed :: screen

definition proves :: "clear_grant \<Rightarrow> screen \<Rightarrow> bool" where
  "proves g = proven (cg_lib g) (cg_placed g) (cg_session g) (cg_cwd g) (cg_opts g)"

definition key_event :: "event \<Rightarrow> bool" where
  "key_event e = (case e of Keys pane ks ok \<Rightarrow> True | _ \<Rightarrow> False)"

text \<open>The events before the first key, where the decision is taken.\<close>

definition before_keys :: "events \<Rightarrow> events" where
  "before_keys l = rev (takeWhile (\<lambda>e. \<not> key_event e) (rev l))"

lemma before_keys_keyed [simp]: "list_ex key_event l \<Longrightarrow> before_keys (e # l) = before_keys l"
  by (auto simp: before_keys_def list_ex_iff takeWhile_append)

lemma before_keys_first [simp]: "\<not> list_ex key_event l \<Longrightarrow> before_keys l = l"
  by (auto simp: before_keys_def list_ex_iff takeWhile_eq_all_conv [THEN iffD2])

text \<open>The screen decided on proves what a clear needs.\<close>

definition decided :: "clear_grant \<Rightarrow> events \<Rightarrow> bool" where
  "decided g l \<longleftrightarrow> (\<exists>seen. latest_capture (before_keys l) = Some seen \<and> proves g (the_default (cg_listed g) seen))"

lemma decided_key [simp]: "key_event e \<Longrightarrow> decided g (e # l) = decided g l"
  by (cases "list_ex key_event l") (simp_all add: decided_def, simp add: before_keys_def list_ex_iff takeWhile_append)

lemma decided_clock [simp]: "decided g (Clock t # l) = decided g l"
  by (cases "list_ex key_event l") (simp_all add: decided_def key_event_def)

definition clear_allowed :: "clear_grant \<Rightarrow> event \<Rightarrow> events \<Rightarrow> bool" where
  "clear_allowed g e l \<longleftrightarrow> (\<exists>ks ok. e = Keys (cg_pane g) ks ok) \<and> decided g l"

interpretation clearing: single_event clear_event "clear_allowed g" for g
  by unfold_locales (auto simp: clear_event_def split: event.splits)

text \<open>Once the first key of a proved clear is pressed, every key into the pane is allowed.\<close>

definition clear_begun :: "clear_grant \<Rightarrow> send_state \<Rightarrow> bool" where
  "clear_begun g s \<longleftrightarrow> guarded_by clear_event (clear_allowed g) (ss_log s) \<and> decided g (ss_log s) \<and> list_ex key_event (ss_log s)"

interpretation granted: event_only_invariant "clear_begun g" "\<lambda>e. clear_event e \<and> \<not> (\<exists>ks ok. e = Keys (cg_pane g) ks ok)" for g
  by unfold_locales
    (auto simp: clear_begun_def clear_event_def clear_allowed_def decided_def split: event.splits)

definition grant :: "world \<Rightarrow> string \<Rightarrow> pane_target \<Rightarrow> send_options \<Rightarrow> draft_claim set \<Rightarrow> screen \<Rightarrow> clear_grant" where
  "grant w i t opts P listed =
     \<lparr>cg_lib = w_lib w, cg_placed = P, cg_session = i, cg_cwd = pt_cwd t, cg_opts = opts,
      cg_pane = pt_pane t, cg_listed = listed\<rparr>"

lemma grant_sel [simp]:
  "cg_placed (grant w i t opts P listed) = P" "cg_pane (grant w i t opts P listed) = pt_pane t"
  "cg_listed (grant w i t opts P listed) = listed"
  "proves (grant w i t opts P listed) = proven (w_lib w) P i (pt_cwd t) opts"
  by (simp_all add: grant_def proves_def)

lemma quiet_others: "\<not> clear_event (Keys pane submitKeys ok)" "\<not> clear_event (Pasted pane b ok)"
  by (simp_all add: clear_event_def)

section \<open>What is not proven stays\<close>

text \<open>Nothing was cleared yet, and the driver's records claim only what it placed.\<close>

abbreviation untouched :: "clear_grant \<Rightarrow> send_state \<Rightarrow> bool" where
  "untouched g s \<equiv> happened clear_event (clear_allowed g) 0 s \<and> claims (ss_memory s) \<subseteq> cg_placed g"

lemma untouched_clock [simp]: "times clear_event (Clock t # l) = times clear_event l" "\<not> clear_event (Clock t)"
  by (simp_all add: times_def clear_event_def)

lemma record_of_claim:
  assumes "untouched g s"
  shows "wp (record_of w i t) (\<lambda>r s'. untouched g s' \<and>
    (\<forall>rec. r = Some rec \<longrightarrow> (i, pt_cwd t, sd_text rec, sd_composer_digest rec) \<in> cg_placed g)) s"
proof -
  let ?d = "sweepStrandedLocked (w_now w (ss_log s)) (ss_memory s)"
  have sub: "claims ?d \<subseteq> cg_placed g" using claims_sweep_stranded assms(1) by blast
  have "(i, pt_cwd t, sd_text rec, sd_composer_digest rec) \<in> claims ?d"
    if "map_of (dm_stranded ?d) i = Some rec" "sd_cwd rec = pt_cwd t" for rec
    using map_of_SomeD [OF that(1)] that(2) by (force simp: claims_def claims_of_def)
  with sub assms(1) show ?thesis
    by (auto simp: record_of_def wp_memory strandedRecordFor_def Let_def split: option.splits)
qed

lemma unproven_parts:
  assumes "\<not> proven lib P i cwd opts sc" and "composerText sc = Holds pending" and "pending \<noteq> []"
    and "so_replace opts \<or> so_resume opts"
  shows "\<not> expectProves lib (so_expect opts) pending"
    and "(i, cwd, placed_text, digest) \<in> P \<Longrightarrow> \<not> (composerDigestMatches lib digest pending \<or> composerMatchesText sc placed_text False)"
  using assms unfolding proven_def by blast+

lemma unproven_recorded:
  assumes "untouched (grant w i t opts P listed) s" and "\<not> proven (w_lib w) P i (pt_cwd t) opts sc"
    and "composerText sc = Holds pending" and "pending \<noteq> []"
    and "(i, pt_cwd t, sd_text r, sd_composer_digest r) \<in> P"
  shows "wp (recorded_draft w i t text opts pending sc r)
    (\<lambda>a s'. a \<noteq> None \<and> happened clear_event (clear_allowed (grant w i t opts P listed)) 0 s') s"
  using assms(1) unproven_parts [OF assms(2-4)] assms(5)
  by (cases "so_replace opts") (simp_all add: recorded_draft_def recordProves_def Let_def kept_draft_def wp_rules)

lemma unproven_unrecorded:
  assumes "untouched (grant w i t opts P listed) s" and "\<not> proven (w_lib w) P i (pt_cwd t) opts sc"
    and "composerText sc = Holds pending" and "pending \<noteq> []" and "so_replace opts \<or> so_resume opts"
  shows "wp (unrecorded_draft w i t opts pending sc)
    (\<lambda>a s'. a \<noteq> None \<and> happened clear_event (clear_allowed (grant w i t opts P listed)) 0 s') s"
proof -
  let ?lib = "w_lib w" and ?tr = "w_transcripts w (ss_log s)" and ?now = "w_now w (ss_log s)"
  have "\<not> fst (tombstoneProves ?lib ?tr ?now i (pt_cwd t) pending sc (ss_memory s))"
  proof
    assume "fst (tombstoneProves ?lib ?tr ?now i (pt_cwd t) pending sc (ss_memory s))"
    then obtain placed_text digest where "(i, pt_cwd t, placed_text, digest) \<in> claims (ss_memory s)"
      "composerDigestMatches ?lib digest pending \<or> composerMatchesText sc placed_text False"
      by (rule tombstoneProves_claim)
    then show False using assms(1) unproven_parts(2) [OF assms(2-5)] by auto
  qed
  then show ?thesis
    using assms(1) unproven_parts(1) [OF assms(2-5)]
    by (auto simp: unrecorded_draft_def mayClearUnrecorded_def kept_draft_def wp_rules split: prod.split)
qed

lemma unproven_occupied:
  assumes "untouched (grant w i t opts P listed) s" and "\<not> proven (w_lib w) P i (pt_cwd t) opts sc"
    and "composerText sc = Holds pending" and "pending \<noteq> []"
  shows "wp (occupied_composer w i t text opts pending sc)
    (\<lambda>a s'. happened clear_event (clear_allowed (grant w i t opts P listed)) 0 s') s"
proof -
  let ?C = "clear_allowed (grant w i t opts P listed)"
  have same: "wp (do { a \<leftarrow> resume_same_text w i t text pending sc r; ret (Some a) }) (\<lambda>a. happened clear_event ?C 0) s1"
    if "happened clear_event ?C 0 s1" for s1 r
  proof (rule keepsD [where I = "happened clear_event ?C 0", OF _ that])
    show "keeps (happened clear_event ?C 0) (do { a \<leftarrow> resume_same_text w i t text pending sc r; ret (Some a) })"
      unfolding resume_same_text_def by (intro keep_rules clearing.counted.keeps_submits quiet_others)
  qed
  have none: "wp (do { a \<leftarrow> unexplained_draft w i t pending sc; ret (Some a) }) (\<lambda>a. happened clear_event ?C 0) s1"
    if "happened clear_event ?C 0 s1" for s1
    by (rule keepsD [where I = "happened clear_event ?C 0", OF _ that]) (intro keep_rules)
  have other: "wp (occupied_other w i t text opts pending sc) (\<lambda>a. happened clear_event ?C 0) s1"
    if s1: "untouched (grant w i t opts P listed) s1" for s1
    unfolding occupied_other_def
  proof (rule wp_bindI [OF record_of_claim [OF s1]])
    fix r :: "stranded_record option" and s2 :: send_state
    assume s2: "untouched (grant w i t opts P listed) s2 \<and>
      (\<forall>rec. r = Some rec \<longrightarrow> (i, pt_cwd t, sd_text rec, sd_composer_digest rec) \<in> cg_placed (grant w i t opts P listed))"
    show "wp (case r of None \<Rightarrow> if so_replace opts \<or> so_resume opts then unrecorded_draft w i t opts pending sc
        else do { a \<leftarrow> unexplained_draft w i t pending sc; ret (Some a) }
      | Some r \<Rightarrow> recorded_draft w i t text opts pending sc r) (\<lambda>a. happened clear_event ?C 0) s2"
    proof (cases r)
      case None
      show ?thesis
      proof (cases "so_replace opts \<or> so_resume opts")
        case True
        have "wp (unrecorded_draft w i t opts pending sc) (\<lambda>a. happened clear_event ?C 0) s2"
          by (rule wp_mono [OF unproven_unrecorded [OF _ assms(2-4) True]]) (use s2 in auto)
        then show ?thesis using None True by simp
      next
        case False
        then show ?thesis using None s2 none [of s2] by simp
      qed
    next
      case (Some rec)
      have "wp (recorded_draft w i t text opts pending sc rec) (\<lambda>a. happened clear_event ?C 0) s2"
        by (rule wp_mono [OF unproven_recorded [OF _ assms(2-4)]]) (use s2 Some in auto)
      then show ?thesis using Some by simp
    qed
  qed
  show ?thesis
    unfolding occupied_composer_def
  proof (rule wp_bindI [OF record_of_claim [OF assms(1)]])
    fix r :: "stranded_record option" and s1 :: send_state
    assume "untouched (grant w i t opts P listed) s1 \<and>
      (\<forall>rec. r = Some rec \<longrightarrow> (i, pt_cwd t, sd_text rec, sd_composer_digest rec) \<in> cg_placed (grant w i t opts P listed))"
    then have "wp (occupied_other w i t text opts pending sc) (\<lambda>a. happened clear_event ?C 0) s1"
      "wp (do { a \<leftarrow> resume_same_text w i t text pending sc rec; ret (Some a) }) (\<lambda>a. happened clear_event ?C 0) s1" for rec
      using other [of s1] same [of s1] by blast+
    then show "wp (case (if so_resume opts then r else None) of
        None \<Rightarrow> occupied_other w i t text opts pending sc
      | Some r \<Rightarrow> if sd_text r = text then do { a \<leftarrow> resume_same_text w i t text pending sc r; ret (Some a) }
          else occupied_other w i t text opts pending sc) (\<lambda>a. happened clear_event ?C 0) s1"
      by (simp split: option.split)
  qed
qed

text \<open>Where the screen decided on is proof enough, what is pressed is allowed.\<close>

abbreviation guarded :: "clear_grant \<Rightarrow> send_state \<Rightarrow> bool" where
  "guarded g s \<equiv> guarded_by clear_event (clear_allowed g) (ss_log s)"

lemma guarded_after:
  assumes "\<And>n. keeps (happened clear_event (clear_allowed g) n) m" and "guarded g s"
  shows "wp m (\<lambda>a s'. guarded g s') s"
  by (rule wp_mono [OF keepsD [OF assms(1) [of "times clear_event (ss_log s)"]]]) (use assms(2) in auto)

lemma clear_rounds_guarded:
  assumes "guarded (grant w i t opts P listed) s" and "decided (grant w i t opts P listed) (ss_log s)"
  shows "wp (clear_rounds n w (pt_pane t) i cwd pending c) (\<lambda>r s'. guarded (grant w i t opts P listed) s') s"
proof (cases n)
  case 0
  show ?thesis
    unfolding 0 clear_rounds.simps clear_finish_def by (rule guarded_after [OF _ assms(1)]) (intro keep_rules)
next
  case (Suc m)
  let ?G = "grant w i t opts P listed"
  have finish: "keeps (clear_begun ?G) (clear_finish w i cwd pending c)" for c
    unfolding clear_finish_def by (intro keep_rules)
  have more: "keeps (clear_begun ?G) (clear_rounds m w (pt_pane t) i cwd pending c)" for c
    by (rule granted.keeps_clear_rounds) simp
  have rest: "keeps (clear_begun ?G) (if \<not> ok then ret (Inl KeysFailed)
       else do {
         captured \<leftarrow> captureForClassify w (pt_pane t);
         if map_option composerText captured = Some (Holds []) then
           do { change w (\<lambda>now. forgetFutile i); ret (Inr ([], cs_moved c, True)) }
         else
           (let c = (case captured of None \<Rightarrow> c | Some sc \<Rightarrow> clear_observe sc c) in
            if cs_moved c \<and> stallPresses \<le> cs_stall c then clear_finish w i cwd pending c
            else do {
              stop \<leftarrow> ask (w_cancelled w) Cancelled;
              if stop \<or> m = 0 then clear_finish w i cwd pending c
              else do {
                done \<leftarrow> wait w promptClearInterval;
                if done then ret (Inl ContextEnded) else clear_rounds m w (pt_pane t) i cwd pending c
              }
            })
       })" for ok
    by (intro keep_rules finish more)
  have first: "wp (press w (pt_pane t) (clear_keys c)) (\<lambda>ok. clear_begun ?G) s"
    using assms by (auto simp: press_def wp_rules clear_begun_def key_event_def clear_allowed_def)
  show ?thesis
    unfolding Suc clear_rounds.simps
    by (rule wp_bindI [OF first]) (rule wp_mono [OF keepsD [OF rest]], auto simp: clear_begun_def)
qed

lemma clear_or_refuse_guarded:
  assumes "guarded (grant w i t opts P listed) s" and "decided (grant w i t opts P listed) (ss_log s)"
  shows "wp (clear_or_refuse w i t pending sc why) (\<lambda>r s'. guarded (grant w i t opts P listed) s') s"
proof -
  have "wp (do { r \<leftarrow> clear_rounds n w (pt_pane t) i (pt_cwd t) pending c;
      case r of Inl e \<Rightarrow> ret (Some (Inl e)) | Inr (left, moved, cleared) \<Rightarrow> ret (if cleared then None else Some (refused (why left moved))) })
      (\<lambda>r s'. guarded (grant w i t opts P listed) s') s1"
    if "guarded (grant w i t opts P listed) s1" "decided (grant w i t opts P listed) (ss_log s1)" for n c s1
    by (rule wp_bindI [OF clear_rounds_guarded [OF that]]) (auto simp: wp_ret split: sum.split)
  then show ?thesis
    using assms
    by (auto simp: clear_or_refuse_def clearComposer_def wp_memory wp_ret wp_bind [of "memory _ _"] clear_event_def
        split: prod.split)
qed

lemma try_replace_guarded:
  assumes "guarded (grant w i t opts P listed) s" and "decided (grant w i t opts P listed) (ss_log s)"
  shows "wp (tryReplaceStranded w i t pending sc) (\<lambda>r s'. guarded (grant w i t opts P listed) s') s"
  unfolding tryReplaceStranded_def
  by (rule wp_bindI [OF clear_or_refuse_guarded [OF assms]]) (auto simp: wp_rules clear_event_def split: option.split)

lemma recorded_guarded:
  assumes "guarded (grant w i t opts P listed) s" and "decided (grant w i t opts P listed) (ss_log s)"
  shows "wp (recorded_draft w i t text opts pending sc r) (\<lambda>r s'. guarded (grant w i t opts P listed) s') s"
  using assms by (simp add: recorded_draft_def Let_def kept_draft_def wp_rules try_replace_guarded)

lemma unrecorded_guarded:
  assumes "guarded (grant w i t opts P listed) s" and "decided (grant w i t opts P listed) (ss_log s)"
  shows "wp (unrecorded_draft w i t opts pending sc) (\<lambda>r s'. guarded (grant w i t opts P listed) s') s"
proof -
  have clear: "wp (tryClearUnrecordedComposer w i t pending sc) (\<lambda>r s'. guarded (grant w i t opts P listed) s') s1"
    if "guarded (grant w i t opts P listed) s1" "decided (grant w i t opts P listed) (ss_log s1)" for s1
    unfolding tryClearUnrecordedComposer_def by (rule clear_or_refuse_guarded [OF that])
  show ?thesis
    unfolding unrecorded_draft_def wp_bind wp_observe wp_prod wp_memory
    using assms by (auto simp: wp_rules kept_draft_def clear_event_def intro!: clear split: prod.split)
qed

lemma occupied_guarded:
  assumes "guarded (grant w i t opts P listed) s" and "decided (grant w i t opts P listed) (ss_log s)"
  shows "wp (occupied_composer w i t text opts pending sc) (\<lambda>r s'. guarded (grant w i t opts P listed) s') s"
proof -
  let ?G = "grant w i t opts P listed"
  have rec: "wp (record_of w i t) (\<lambda>r s'. guarded ?G s' \<and> decided ?G (ss_log s')) s1"
    if "guarded ?G s1" "decided ?G (ss_log s1)" for s1
    using that by (simp add: record_of_def wp_memory clear_event_def split: prod.split)
  have same: "wp (do { a \<leftarrow> resume_same_text w i t text pending sc r; ret (Some a) }) (\<lambda>a s'. guarded ?G s') s1"
    if "guarded ?G s1" for s1 r
    unfolding resume_same_text_def
    by (rule guarded_after [OF _ that]) (intro keep_rules clearing.counted.keeps_submits quiet_others)
  have none: "wp (do { a \<leftarrow> unexplained_draft w i t pending sc; ret (Some a) }) (\<lambda>a s'. guarded ?G s') s1"
    if "guarded ?G s1" for s1
    by (rule guarded_after [OF _ that]) (intro keep_rules)
  have other: "wp (occupied_other w i t text opts pending sc) (\<lambda>a s'. guarded ?G s') s1"
    if "guarded ?G s1" "decided ?G (ss_log s1)" for s1
    unfolding occupied_other_def
    by (rule wp_bindI [OF rec [OF that]])
      (auto split: option.split intro!: recorded_guarded unrecorded_guarded none)
  have "wp (if sd_text r = text then do { a \<leftarrow> resume_same_text w i t text pending sc r; ret (Some a) }
      else occupied_other w i t text opts pending sc) (\<lambda>a s'. guarded ?G s') s1"
    if "guarded ?G s1 \<and> decided ?G (ss_log s1)" for r s1
    unfolding wp_if using that same other by simp
  then show ?thesis
    unfolding occupied_composer_def
    by (intro wp_bindI [OF rec [OF assms]]) (simp add: other split: option.split)
qed

lemma before_paste_clears:
  assumes "untouched (grant w i t opts P listed) s" and "\<not> list_ex key_event (ss_log s)"
    and "latest_capture (ss_log s) = Some seen" and "sc = the_default listed seen"
  shows "wp (before_paste w i t text opts sc) (\<lambda>a s'. guarded (grant w i t opts P listed) s') s"
proof -
  let ?C = "clear_allowed (grant w i t opts P listed)"
  have kept: "wp m (\<lambda>a s'. guarded (grant w i t opts P listed) s') s" if "keeps (happened clear_event ?C 0) m" for m :: "answer option op"
    by (rule wp_mono [OF keepsD [OF that]]) (use assms(1) in auto)
  show ?thesis
  proof (cases "composerText sc")
    case (Holds pending)
    have "wp (occupied_composer w i t text opts pending sc) (\<lambda>a s'. guarded (grant w i t opts P listed) s') s" if "pending \<noteq> []"
    proof (cases "proven (w_lib w) P i (pt_cwd t) opts sc")
      case True
      then have "decided (grant w i t opts P listed) (ss_log s)" using assms(2-4) by (simp add: decided_def)
      with assms(1) show ?thesis by (intro occupied_guarded) auto
    next
      case False
      show ?thesis by (rule wp_mono [OF unproven_occupied [OF assms(1) False Holds that]]) simp
    qed
    then show ?thesis using Holds unfolding before_paste_def by (auto intro!: kept keep_rules)
  qed (auto simp: before_paste_def intro!: kept keep_rules)
qed

text \<open>What follows adds no clear.\<close>

lemma paste_quiet: "keeps (happened clear_event (clear_allowed g) n) (paste_and_submit w ignorable i t text opts)"
  by (intro clearing.counted.keeps_paste_and_submit clearing.counted.keeps_submits quiet_others)

lemma deliver_on_clears:
  assumes "untouched (grant w i t opts P listed) s" and "\<not> list_ex key_event (ss_log s)"
    and "latest_capture (ss_log s) = Some seen" and "sc = the_default listed seen"
  shows "wp (deliver_on w ignorable i t text opts sc) (\<lambda>a s'. guarded (grant w i t opts P listed) s') s"
  unfolding deliver_on_def
  by (rule wp_bindI [OF before_paste_clears [OF assms]])
    (auto split: option.split simp: wp_ret intro: guarded_after [OF paste_quiet])

interpretation unkeyed: event_only_invariant "\<lambda>s. \<not> list_ex key_event (ss_log s)" key_event
  by unfold_locales (auto simp: key_event_def split: event.splits)

lemma deliver_to_clears:
  fixes s :: send_state
  assumes "untouched (grant w i t opts P listed) s" and "\<not> list_ex key_event (ss_log s)"
    and "listed = capture_screen (captures (pt_pane t))"
  shows "wp (deliver_to w ignorable i t captures text opts) (\<lambda>a s'. guarded (grant w i t opts P listed) s') s"
proof -
  let ?G = "grant w i t opts P listed"
  have recap: "wp (do { captured \<leftarrow> captureForClassify w (pt_pane t); deliver_on w ignorable i t text opts
        (case captured of Some sc \<Rightarrow> sc | None \<Rightarrow> capture_screen (captures (pt_pane t))) }) (\<lambda>a s'. guarded ?G s') s1"
    if s1: "untouched ?G s1" "\<not> list_ex key_event (ss_log s1)" for s1 :: send_state
    unfolding wp_bind wp_capture
    by (rule deliver_on_clears [where seen = "pane_screen w (pt_pane t) (ss_log s1)"])
      (use s1 assms(3) in \<open>simp_all add: clear_event_def key_event_def times_def the_default_def split: option.split\<close>)
  have refuse: "wp (not_receptive w t blocked) (\<lambda>a s'. guarded ?G s') s1" if s1: "untouched ?G s1" for s1 blocked
    by (rule guarded_after) (use s1 in \<open>auto intro: keep_rules\<close>)
  have "wp (awaitReceptive w (pt_pane t)) (\<lambda>x s'. untouched ?G s' \<and> \<not> list_ex key_event (ss_log s')) s"
    by (rule wp_mono [OF wp_conj [OF keepsD [OF clearing.counted.keeps_waits(1)]
          wp_conj [OF keepsD [OF unchanged.keeps_waits(1)] keepsD [OF unkeyed.keeps_waits(1)]]]])
      (use assms(1,2) in auto)
  then show ?thesis
    unfolding deliver_to_def by (rule wp_bindI) (auto split: prod.split intro!: recap refuse)
qed

text \<open>
  C3: A delivery clears a composer only if the caller asked to replace or resume, and only over proof on
  the very screen it decided on: the latest one read before its first key, or the listed one when
  that read failed. There the composer holds a text that the caller named by its digest, or that the
  driver's records hold as placed in this session and directory before, or whose digest was noted
  when such a text was stranded. That digest is of whatever the composer showed then, so a
  text of a person's that stood there at that moment passes for the driver's own; any other is never
  deleted.
\<close>

theorem clearing_needs_proof:
  assumes "run_state (deliverViaPane w ignorable i text opts) s = (a, s')" and "ss_log s = []"
    and "ss_memory s = run_drafts steps (fresh_memory store)"
    and "ss_log s' = later @ Keys pane ks ok # before" and "ks \<noteq> [''Space'', ''C-m'']"
  shows "\<exists>rows captures t seen sc pending. w_enumerate w [] = Some (rows, captures) \<and>
    find (\<lambda>r. pt_session r = i) rows = Some t \<and> pane = pt_pane t \<and>
    latest_capture (before_keys before) = Some seen \<and> sc = the_default (capture_screen (captures pane)) seen \<and>
    (so_replace opts \<or> so_resume opts) \<and> composerText sc = Holds pending \<and> pending \<noteq> [] \<and>
    (so_expect opts \<noteq> [] \<and> composerDigestMatches (w_lib w) (so_expect opts) pending \<or>
     (\<exists>placed_text digest. (i, pt_cwd t, placed_text, digest) \<in> placed steps \<and>
       (composerMatchesText sc placed_text False \<or> composerDigestMatches (w_lib w) digest pending)))"
proof -
  obtain rows captures t where t: "w_enumerate w [] = Some (rows, captures)" "find (\<lambda>r. pt_session r = i) rows = Some t"
    and run: "run_state (deliver_to w ignorable i t captures text opts) (s\<lparr>ss_log := [Listed True]\<rparr>) = (a, s')"
    by (rule listed_delivery [OF assms(2,1,4)]; simp)
  define listed where "listed = capture_screen (captures (pt_pane t))"
  let ?G = "grant w i t opts (placed steps) listed"
  have "claims (ss_memory s) \<subseteq> placed steps" unfolding assms(3) by (rule claims_placed)
  then have "untouched ?G (s\<lparr>ss_log := [Listed True]\<rparr>)" by (simp add: clear_event_def times_def)
  moreover have "\<not> list_ex key_event (ss_log (s\<lparr>ss_log := [Listed True]\<rparr>))" by (simp add: key_event_def)
  ultimately have "wp (deliver_to w ignorable i t captures text opts) (\<lambda>a s'. guarded ?G s') (s\<lparr>ss_log := [Listed True]\<rparr>)"
    using listed_def by (rule deliver_to_clears)
  from wp_run [OF this run] have "guarded_by clear_event (clear_allowed ?G) (later @ Keys pane ks ok # before)" using assms(4) by simp
  from guarded_split [OF this] assms(5) have "clear_allowed ?G (Keys pane ks ok) before"
    by (simp add: clear_event_def submitKeys_def)
  then show ?thesis using t unfolding clear_allowed_def decided_def listed_def
    by (auto simp: proven_def expectProves_def)
qed

end
