(* ===== verification/QueuedProof.thy ===== *)
theory QueuedProof
  imports ReceiptProof
begin

text \<open>
  What a receipt rests on that reports a delivery queued: the session's transcript, or a screen read after
  the keys that submit.
\<close>

section \<open>Evidence\<close>

text \<open>The latest capture, as long as no key was pressed after it.\<close>

fun since_keys :: "events \<Rightarrow> screen option option" where
  "since_keys [] = None"
| "since_keys (e # l) = (case e of Captured pane x \<Rightarrow> Some x | Keys pane ks ok \<Rightarrow> None | _ \<Rightarrow> since_keys l)"

text \<open>The transcript, read from the given place on, recorded the text.\<close>

definition scanned_at :: "world \<Rightarrow> string \<Rightarrow> string \<times> int \<Rightarrow> events \<Rightarrow> bool" where
  "scanned_at w msg src l \<longleftrightarrow>
     (\<exists>later via err rest. l = later @ Scanned ScanMatched via err # rest \<and>
        transcriptTailScanKind (tr_parse (w_transcripts w rest)) (tr_tail (w_transcripts w rest) (fst src) (snd src)) msg =
          (ScanMatched, via, err))"

text \<open>The composer is empty, or holds fewer copies of the marker the text has landed as.\<close>

definition screen_confirms :: "golib \<Rightarrow> landing \<Rightarrow> events \<Rightarrow> bool" where
  "screen_confirms lib land l \<longleftrightarrow>
     (\<exists>sc. since_keys l = Some (Some sc) \<and> (composerText sc = Holds [] \<or>
        0 < ln_at_count land \<and> count_list (composerMarkers lib sc) (ln_key land) < ln_at_count land))"

definition evident :: "world \<Rightarrow> string \<Rightarrow> landing \<Rightarrow> (string \<times> int) option \<Rightarrow> send_state \<Rightarrow> bool" where
  "evident w msg land source s \<longleftrightarrow>
     (\<exists>src. source = Some src \<and> scanned_at w msg src (ss_log s)) \<or> screen_confirms (w_lib w) land (ss_log s)"

lemma scanned_later: "scanned_at w msg src l \<Longrightarrow> scanned_at w msg src (e # l)"
  unfolding scanned_at_def by (metis append_Cons)

lemma evident_clock: "evident w msg land source s \<Longrightarrow> evident w msg land source (s\<lparr>ss_log := Clock t # ss_log s\<rparr>)"
  by (auto simp: evident_def screen_confirms_def intro: scanned_later)

lemma evident_clocks:
  "evident w msg land source s \<Longrightarrow> evident w msg land source (s\<lparr>ss_log := Clock u # Clock t # ss_log s\<rparr>)"
  using evident_clock [OF evident_clock [of w msg land source s t], of u] by simp

lemma evident_frame [simp]:
  "evident w msg land source (s\<lparr>ss_memory := d\<rparr>) = evident w msg land source s"
  "evident w msg land source (s\<lparr>ss_trace := tr\<rparr>) = evident w msg land source s"
  "evident w msg land source (s\<lparr>ss_log := Clock t # ss_log s, ss_memory := d\<rparr>) =
     evident w msg land source (s\<lparr>ss_log := Clock t # ss_log s\<rparr>)"
  "evident w msg land source (s\<lparr>ss_trace := tr, ss_log := l\<rparr>) = evident w msg land source (s\<lparr>ss_log := l\<rparr>)"
  by (simp_all add: evident_def)

lemma confirm_rounds_evident:
  "accounts (evident w msg land source) (\<lambda>b. b) (confirm_rounds n w pane (ln_key land) (ln_at_count land) deadline)"
proof (induction n)
  case (Suc n)
  let ?E = "evident w msg land source"
  have "wp (do { captured \<leftarrow> captureForClassify w pane;
      if submitted_on (w_lib w) (ln_key land) (ln_at_count land) captured then ret True else m }) (\<lambda>b s'. b \<longrightarrow> ?E s') s"
    if "\<And>s. wp m (\<lambda>b s'. b \<longrightarrow> ?E s') s" for m s
    using that by (auto simp: wp_rules evident_def screen_confirms_def submitted_on_def split: option.splits)
  moreover have "accounts ?E (\<lambda>b. b) (do {
      late \<leftarrow> expired w deadline;
      if late then ret False
      else do {
        done \<leftarrow> wait w submitConfirmInterval;
        if done then ret False else confirm_rounds n w pane (ln_key land) (ln_at_count land) deadline } })"
    by (intro accounts_bind accounts_cases accounts_ret Suc) simp_all
  ultimately show ?case by (simp add: accounts_def)
qed (simp add: accounts_def wp_rules)

lemma confirmSubmitted_evident:
  "accounts (evident w msg land source) (\<lambda>b. b) (confirmSubmitted w pane (ln_key land) (ln_at_count land))"
  unfolding confirmSubmitted_def by (intro accounts_bind confirm_rounds_evident)

lemma scan_rounds_evident:
  "accounts (evident w msg land (Some src)) (\<lambda>r. \<exists>c. r = Some c \<and> cf_confirmed c) (scan_rounds n w pane src msg deadline)"
proof (induction n)
  case (Suc n)
  let ?E = "evident w msg land (Some src)"
  have silent: "accounts ?E (\<lambda>r. \<exists>c. r = Some c \<and> cf_confirmed c) (do {
      late \<leftarrow> expired w deadline;
      if late then ret None
      else do {
        done \<leftarrow> wait w submitConfirmInterval;
        if done then ret (Some (not_confirmed CancelledWaiting)) else scan_rounds n w pane src msg deadline } })"
    by (intro accounts_bind accounts_cases accounts_ret Suc) (simp_all add: not_confirmed_def)
  have matched: "?E (s\<lparr>ss_log := Scanned ScanMatched via err # ss_log s\<rparr>)"
    if "transcriptTailScanKind (tr_parse (w_transcripts w (ss_log s))) (tr_tail (w_transcripts w (ss_log s)) (fst src) (snd src)) msg =
      (ScanMatched, via, err)" for s :: send_state and via err
    using that unfolding evident_def scanned_at_def by (auto intro: exI [of _ "[]"])
  show ?case
    using silent
    by (auto simp: accounts_def scan_transcript_def wp_rules not_confirmed_def intro!: matched
        split: scan_result.split prod.split)
qed (simp add: accounts_def wp_rules)

lemma confirmSource_evident:
  "accounts (evident w msg land source) cf_confirmed
     (confirmSubmittedFromSourceTurn w t msg (ln_key land) (ln_at_count land) source)"
proof -
  have screen: "accounts (evident w msg land source) cf_confirmed (do {
      confirmed \<leftarrow> confirmSubmitted w (pt_pane t) (ln_key land) (ln_at_count land);
      ret (if confirmed then on_screen e else not_confirmed e') })" for e e' source
    unfolding accounts_def wp_bind wp_ret
    by (intro allI wp_mono [OF spec [OF confirmSubmitted_evident [unfolded accounts_def]]])
      (auto simp: not_confirmed_def split: if_splits)
  have seen: "accounts (evident w msg land (Some src)) cf_confirmed (do {
      seen \<leftarrow> scan_rounds n w (pt_pane t) src msg deadline;
      case seen of
        Some c \<Rightarrow> ret c
      | None \<Rightarrow> do { confirmed \<leftarrow> confirmSubmitted w (pt_pane t) (ln_key land) (ln_at_count land);
          ret (if confirmed then on_screen ScreenAfterSilence else not_confirmed SilenceOnBoth) } })" for n src deadline
    unfolding accounts_def
    by (intro allI, rule wp_bindI [OF spec [OF scan_rounds_evident [unfolded accounts_def]]])
      (use screen in \<open>auto simp: accounts_def wp_ret split: option.split\<close>)
  show ?thesis
    unfolding confirmSubmittedFromSourceTurn_def
    by (cases source) (simp_all add: screen accounts_bind [where m = "clock w"] seen)
qed

text \<open>The answers after the keys were sent.\<close>

lemma confirms_evident:
  "accounts (evident w text land source) (says OutcomeQueued) (resume_confirm w i t text land source)"
  "accounts (evident w text land source) (says OutcomeQueued) (confirm_landed w i t text land source)"
proof -
  let ?E = "evident w text land source"
  have *: "accounts ?E (says OutcomeQueued) (do {
      c \<leftarrow> confirmSubmittedFromSourceTurn w t text (ln_key land) (ln_at_count land) source; f c })"
    if "\<And>c s. cf_confirmed c \<Longrightarrow> ?E s \<Longrightarrow> wp (f c) (\<lambda>a s'. says OutcomeQueued a \<longrightarrow> ?E s') s"
      "\<And>c. \<not> cf_confirmed c \<Longrightarrow> yields (\<lambda>a. \<not> says OutcomeQueued a) (f c)" for f
    unfolding accounts_def
  proof
    fix s
    show "wp (do { c \<leftarrow> confirmSubmittedFromSourceTurn w t text (ln_key land) (ln_at_count land) source; f c })
        (\<lambda>a s'. says OutcomeQueued a \<longrightarrow> ?E s') s"
    proof (rule wp_bindI [OF spec [OF confirmSource_evident [unfolded accounts_def]]])
      fix c :: confirmation and s' :: send_state assume e: "cf_confirmed c \<longrightarrow> ?E s'"
      show "wp (f c) (\<lambda>a s'. says OutcomeQueued a \<longrightarrow> ?E s') s'"
      proof (cases "cf_confirmed c")
        case False
        show ?thesis by (rule wp_mono [OF spec [OF that(2) [OF False, unfolded yields_def]]]) simp
      qed (use e that(1) in blast)
    qed
  qed
  show "accounts ?E (says OutcomeQueued) (resume_confirm w i t text land source)"
    unfolding resume_confirm_def
    by (rule *) (auto simp: wp_rules intro!: yields_rules evident_clock evident_clocks)
  show "accounts ?E (says OutcomeQueued) (confirm_landed w i t text land source)"
    unfolding confirm_landed_def
    by (rule *) (auto simp: wp_rules intro!: yields_rules evident_clock evident_clocks)
qed

section \<open>The landing that is submitted\<close>

text \<open>
  The landing was seen on a screen by this delivery's own check; one without a marker counts none.
\<close>

definition own_land :: "world \<Rightarrow> string \<Rightarrow> string \<Rightarrow> pane_target \<Rightarrow> stranded_record set \<Rightarrow> landing \<Rightarrow> send_state \<Rightarrow> bool" where
  "own_land w i msg t R land s \<longleftrightarrow> ln_at_count land = 0 \<or>
     (\<exists>seen c. Captured (pt_pane t) (Some seen) \<in> set (ss_log s) \<and> held_on (w_lib w) seen msg c = Some land \<and>
        own_now w i msg t R c s)"

interpretation landing_kept: event_only_invariant "own_land w i msg t R land" "\<lambda>e. False" for w i msg t R land
  by unfold_locales (auto simp: own_land_def intro: own_check_later)

lemma land_rounds_own:
  "own_now w i msg t R c s \<Longrightarrow>
     wp (land_rounds n w (pt_pane t) msg c deadline) (\<lambda>land s'. ln_ok land \<longrightarrow> own_land w i msg t R land s') s"
proof (induction n arbitrary: s)
  case (Suc n)
  let ?Q = "\<lambda>land s'. ln_ok land \<longrightarrow> own_land w i msg t R land s'" and ?J = "own_now w i msg t R c"
  have next_round: "wp (do {
      late \<leftarrow> expired w deadline;
      if late then ret no_landing
      else do {
        done \<leftarrow> wait w submitConfirmInterval;
        if done then ret no_landing else land_rounds n w (pt_pane t) msg c deadline } }) ?Q s1" if "?J s1" for s1
  proof (rule wp_bindI [OF keepsD [OF owning.keeps_question(2) that]])
    fix late :: bool and s2 :: send_state assume s2: "?J s2"
    have "wp (do { done \<leftarrow> wait w submitConfirmInterval;
        if done then ret no_landing else land_rounds n w (pt_pane t) msg c deadline }) ?Q s2"
      by (rule wp_bindI [OF keepsD [OF owning.keeps_question(3) s2]]) (use Suc.IH in \<open>auto simp: wp_ret no_landing_def\<close>)
    then show "wp (if late then ret no_landing else do { done \<leftarrow> wait w submitConfirmInterval;
        if done then ret no_landing else land_rounds n w (pt_pane t) msg c deadline }) ?Q s2"
      by (simp add: wp_ret no_landing_def)
  qed
  have sight: "wp (do {
      captured \<leftarrow> captureForClassify w (pt_pane t);
      case land_sight (w_lib w) msg c captured of
        Some l \<Rightarrow> ret l
      | None \<Rightarrow> do {
          late \<leftarrow> expired w deadline;
          if late then ret no_landing
          else do {
            done \<leftarrow> wait w submitConfirmInterval;
            if done then ret no_landing else land_rounds n w (pt_pane t) msg c deadline } } }) ?Q s1" if s1: "?J s1" for s1
  proof -
    let ?x = "pane_screen w (pt_pane t) (ss_log s1)" and ?s = "s1\<lparr>ss_log := Captured (pt_pane t) (pane_screen w (pt_pane t) (ss_log s1)) # ss_log s1\<rparr>"
    have J: "?J ?s" using s1 by (simp add: own_check_later)
    have "own_land w i msg t R l ?s" if "land_sight (w_lib w) msg c ?x = Some l" "ln_ok l" for l
    proof -
      from that obtain sc where "?x = Some sc" "held_on (w_lib w) sc msg c = Some l"
        by (cases ?x) (auto simp: land_sight_def no_landing_def split: if_splits)
      then show ?thesis using J unfolding own_land_def by auto
    qed
    then show ?thesis
      unfolding wp_bind wp_capture by (auto simp: wp_ret next_round [OF J] wp_bind [symmetric] split: option.split)
  qed
  show ?case
    unfolding land_rounds.simps
    by (rule wp_bindI [OF keepsD [OF owning.keeps_preempted Suc(2)]]) (auto simp: wp_ret no_landing_def intro: sight)
qed (simp add: wp_rules no_landing_def)

lemma landV2_own:
  assumes "own_now w i msg t R c s"
  shows "wp (landV2 w (pt_pane t) msg c) (\<lambda>land s'. ln_ok land \<longrightarrow> own_land w i msg t R land s') s"
proof (cases "TrimSpace msg = []")
  case True
  then show ?thesis by (simp add: landV2_def wp_ret own_land_def no_landing_def)
next
  case False
  then show ?thesis
    unfolding landV2_def
    by (auto simp: wp_bind wp_clock intro!: land_rounds_own) (use assms own_check_later in auto)
qed

section \<open>The receipt\<close>

interpretation pressing: event_only_invariant "\<lambda>s. Keys pane submitKeys True \<in> set (ss_log s)" "\<lambda>e. False" for pane
  by unfold_locales simp_all

interpretation sourced: event_only_invariant "\<lambda>s. Source source \<in> set (ss_log s)" "\<lambda>e. False" for source
  by unfold_locales simp_all

definition confirmed :: "world \<Rightarrow> string \<Rightarrow> string \<Rightarrow> pane_target \<Rightarrow> stranded_record set \<Rightarrow> send_state \<Rightarrow> bool" where
  "confirmed w i msg t R s \<longleftrightarrow>
     (\<exists>src. scanned_at w msg src (ss_log s) \<and> (Source (Some src) \<in> set (ss_log s) \<or>
        (\<exists>r \<in> R. sd_text r = msg \<and> src = (sd_transcript_path r, sd_transcript_offset r)))) \<or>
     (Keys (pt_pane t) submitKeys True \<in> set (ss_log s) \<and> (\<exists>land. own_land w i msg t R land s \<and> screen_confirms (w_lib w) land (ss_log s)))"

lemma submit_confirmed:
  assumes "\<And>ok. \<not> ok \<Longrightarrow> yields (\<lambda>a. \<not> says OutcomeQueued a) (f (Inr ok))"
    and "\<And>v. yields (\<lambda>a. \<not> says OutcomeQueued a) (f (Inl v))"
    and "accounts (evident w msg land source) (says OutcomeQueued) (f (Inr True))"
    and "\<And>I. event_only_invariant I (\<lambda>e. False) \<Longrightarrow> keeps I (f (Inr True))"
    and "own_land w i msg t R land s" and "Source source \<in> set (ss_log s)"
  shows "wp (do { r \<leftarrow> checked_submit w t msg c; f r }) (\<lambda>a s'. says OutcomeQueued a \<longrightarrow> confirmed w i msg t R s') s"
proof -
  let ?L = "own_land w i msg t R land" and ?S = "\<lambda>s :: send_state. Source source \<in> set (ss_log s)"
    and ?K = "\<lambda>s :: send_state. Keys (pt_pane t) submitKeys True \<in> set (ss_log s)"
  have I: "event_only_invariant ?L (\<lambda>e. False)" "event_only_invariant ?S (\<lambda>e. False)" "event_only_invariant ?K (\<lambda>e. False)"
    by unfold_locales
  have sub: "keeps ?L (checked_submit w t msg c)" "keeps ?S (checked_submit w t msg c)"
    unfolding checked_submit_def by (intro keep_rules landing_kept.keeps_press sourced.keeps_press; simp)+
  have "wp (checked_submit w t msg c) (\<lambda>r s'. r = Inr True \<longrightarrow> ?K s') s"
    unfolding checked_submit_def by (rule wp_bindI [OF wp_any]) (simp add: wp_rules press_def)
  from wp_conj [OF this wp_conj [OF keepsD [OF sub(1) assms(5)] keepsD [OF sub(2) assms(6)]]]
  show ?thesis
  proof (rule wp_bindI)
    fix r :: "pre_submit + bool" and s1 :: send_state
    assume s1: "(r = Inr True \<longrightarrow> ?K s1) \<and> ?L s1 \<and> ?S s1"
    show "wp (f r) (\<lambda>a s'. says OutcomeQueued a \<longrightarrow> confirmed w i msg t R s') s1"
    proof (cases "r = Inr True")
      case True
      have "wp (f r) (\<lambda>a s'. (says OutcomeQueued a \<longrightarrow> evident w msg land source s') \<and> ?K s' \<and> ?L s' \<and> ?S s') s1"
        using s1 assms(3) keepsD [OF assms(4) [OF I(1)]] keepsD [OF assms(4) [OF I(2)]] keepsD [OF assms(4) [OF I(3)]]
        unfolding True accounts_def by (intro wp_conj) auto
      then show ?thesis by (rule wp_mono) (auto simp: confirmed_def evident_def)
    next
      case False
      then have "yields (\<lambda>a. \<not> says OutcomeQueued a) (f r)" using assms(1,2) by (cases r) auto
      then show ?thesis unfolding yields_def by (fastforce elim: wp_mono)
    qed
  qed
qed

text \<open>What keeps every invariant of events, and never reports queued where it is not confirmed.\<close>

abbreviation queues_ok :: "world \<Rightarrow> string \<Rightarrow> string \<Rightarrow> pane_target \<Rightarrow> stranded_record set \<Rightarrow> answer op \<Rightarrow> send_state \<Rightarrow> bool" where
  "queues_ok w i msg t R m s \<equiv> wp m (\<lambda>a s'. says OutcomeQueued a \<longrightarrow> confirmed w i msg t R s') s"

lemma never_queues: "yields (\<lambda>a. \<not> says OutcomeQueued a) m \<Longrightarrow> queues_ok w i msg t R m s"
  unfolding yields_def by (fastforce elim: wp_mono)

lemma resume_held_confirmed:
  assumes "r \<in> R" and "sd_text r = msg"
  shows "queues_ok w i msg t R (resume_held w i t msg r) s"
proof -
  have own: "own_now w i msg t R (resume_check i r) s" using assms by (auto simp: own_check_def)
  have confirms: "keeps I (resume_confirm w i t msg land source)" if "event_only_invariant I (\<lambda>e. False)" for I land source
    using that by (rule event_only_invariant.keeps_confirms(1))
  have submit: "queues_ok w i msg t R (do {
      source \<leftarrow> ask (\<lambda>l. w_source w l i) Source;
      pressed \<leftarrow> checked_submit w t msg (resume_check i r);
      case pressed of
        Inl v \<Rightarrow> ret (unknown (NotSubmitted v True))
      | Inr ok \<Rightarrow> if \<not> ok then ret (Inl KeysFailed) else resume_confirm w i t msg land source }) s1"
    if "own_land w i msg t R land s1" for land s1
    unfolding wp_bind [of "ask _ _"] wp_ask
    by (rule submit_confirmed [where source = "w_source w (ss_log s1) i" and land = land])
      (use that in \<open>auto simp: confirms_evident own_land_def intro: confirms own_check_later intro!: yields_rules\<close>)
  show ?thesis
    unfolding resume_held_def
    by (rule wp_bindI [OF landV2_own [OF own]]) (auto simp: wp_ret submit)
qed

lemma submit_landed_confirmed:
  assumes "own_land w i msg t R land s"
  shows "queues_ok w i msg t R (submit_landed w i t msg c land) s"
proof -
  have confirms: "keeps I (confirm_landed w i t msg land source)" if "event_only_invariant I (\<lambda>e. False)" for I source
    using that by (rule event_only_invariant.keeps_confirms(2))
  show ?thesis
    unfolding submit_landed_def wp_bind [of "ask _ _"] wp_ask
    by (rule submit_confirmed [where source = "w_source w (ss_log s) i" and land = land])
      (use assms in \<open>auto simp: confirms_evident own_land_def intro: confirms own_check_later intro!: yields_rules\<close>)
qed

lemma after_paste_confirmed:
  assumes "so_submit opts" and "own_now w i msg t R (fresh_check i before) s"
  shows "queues_ok w i msg t R (after_paste w ignorable i t msg opts before) s"
proof -
  let ?J = "own_now w i msg t R (fresh_check i before)"
  have unlanded: "queues_ok w i msg t R (strand_unlanded w i t msg land) s1" for land s1
    unfolding strand_unlanded_def by (intro never_queues yields_rules) simp
  have "queues_ok w i msg t R (do {
      land \<leftarrow> landV2 w (pt_pane t) msg (fresh_check i before);
      if \<not> ln_ok land then strand_unlanded w i t msg land else submit_landed w i t msg (fresh_check i before) land }) s1"
    if "?J s1" for s1
    by (rule wp_bindI [OF landV2_own [OF that]]) (simp add: unlanded submit_landed_confirmed)
  moreover have "keeps ?J (if isSessionCommand ignorable msg then ret () else change w (\<lambda>now. noteDelivery now i (pt_cwd t)))"
    by (intro keep_rules)
  ultimately show ?thesis
    unfolding after_paste_def using assms by (auto intro: wp_bindI [OF keepsD])
qed

lemma paste_confirmed:
  assumes "so_submit opts"
  shows "queues_ok w i msg t R (paste_and_submit w ignorable i t msg opts) s"
proof -
  have "queues_ok w i msg t R (paste_now w ignorable i t msg opts) s1" for s1
    unfolding paste_now_def marks_on_def [symmetric] wp_bind [of "captureForClassify _ _"] wp_capture
    by (rule wp_bindI [OF pasted_is_own [where i = i and R = R]])
      (auto simp: wp_ret after_paste_confirmed [OF assms] split: option.split)
  then show ?thesis
    by (simp add: paste_and_submit_def wp_bind wp_foreground wp_ret Let_def split: option.split)
qed

definition queues :: "answer option \<Rightarrow> bool" where
  "queues r = (case r of None \<Rightarrow> False | Some a \<Rightarrow> says OutcomeQueued a)"

lemma queues_simps [simp]: "\<not> queues None" "queues (Some a) = says OutcomeQueued a"
  by (simp_all add: queues_def)

lemma clear_not_queued: "yields (\<lambda>a. \<not> queues a) (clear_or_refuse w i t pending sc why)"
  unfolding clear_or_refuse_def by (intro yields_rules) simp_all

lemma occupied_other_not_queued: "yields (\<lambda>a. \<not> queues a) (occupied_other w i t text opts pending sc)"
proof -
  have replace: "yields (\<lambda>a. \<not> queues a) (tryReplaceStranded w i t pending sc)"
    unfolding tryReplaceStranded_def
    by (rule yields_then [OF clear_not_queued]) (auto intro!: yields_rules split: option.split)
  have none: "yields (\<lambda>a. \<not> says OutcomeQueued a) (unexplained_draft w i t pending sc)"
    unfolding unexplained_draft_def by (intro yields_rules) simp
  have unexplained: "yields (\<lambda>a. \<not> queues a) (do { a \<leftarrow> unexplained_draft w i t pending sc; ret (Some a) })"
    by (rule yields_then [OF none]) (intro yields_ret, simp)
  have rec: "yields (\<lambda>a. \<not> queues a) (recorded_draft w i t text opts pending sc r)" for r
    unfolding recorded_draft_def Let_def using replace by (intro yields_rules) simp_all
  have unrec: "yields (\<lambda>a. \<not> queues a) (unrecorded_draft w i t opts pending sc)"
    unfolding unrecorded_draft_def tryClearUnrecordedComposer_def by (intro yields_rules clear_not_queued) simp_all
  show ?thesis
    unfolding occupied_other_def by (intro yields_bind [where m = "record_of w i t"] yields_cases(1,2) unexplained rec unrec)
qed

text \<open>Before a paste only a record of this text can lead to queued.\<close>

lemma before_paste_confirmed:
  assumes "ss_memory s = d"
  shows "wp (before_paste w i t text opts sc)
    (\<lambda>r s'. queues r \<longrightarrow> confirmed w i text t (resumable opts i t d) s') s"
proof -
  let ?R = "resumable opts i t d"
  let ?Q = "\<lambda>r s'. queues r \<longrightarrow> confirmed w i text t ?R s'"
  have no: "yields (\<lambda>r. \<not> queues r) m \<Longrightarrow> wp m ?Q s1" for m s1
    unfolding yields_def by (fastforce elim: wp_mono)
  have other: "wp (occupied_other w i t text opts pending sc) ?Q s1" for pending s1
    by (rule no [OF occupied_other_not_queued])
  have same: "wp (do { a \<leftarrow> resume_same_text w i t text pending sc r; ret (Some a) }) ?Q s1"
    if "r \<in> ?R" "sd_text r = text" for pending r s1
  proof -
    have "queues_ok w i text t ?R (resume_same_text w i t text pending sc r) s1"
      unfolding resume_same_text_def wp_if
      using resume_held_confirmed [OF that] by (simp add: wp_rules kept_draft_def)
    then show ?thesis by (simp add: wp_bind wp_ret_fun)
  qed
  have occ: "wp (occupied_composer w i t text opts pending sc) ?Q s" for pending
    unfolding occupied_composer_def
  proof (rule wp_bindI [OF record_of_resumable [OF assms, where opts = opts]])
    fix r :: "stranded_record option" and s1 :: send_state
    assume mem: "\<forall>rec. r = Some rec \<longrightarrow> so_resume opts \<longrightarrow> rec \<in> ?R"
    have "wp (if sd_text rec = text then do { a \<leftarrow> resume_same_text w i t text pending sc rec; ret (Some a) }
        else occupied_other w i t text opts pending sc) ?Q s1" if "rec \<in> ?R" for rec
    proof (cases "sd_text rec = text")
      case True
      show ?thesis by (simp only: if_P [OF True]) (rule same [OF that True])
    next
      case False
      show ?thesis by (simp only: if_not_P [OF False]) (rule other)
    qed
    then show "wp (case (if so_resume opts then r else None) of
        None \<Rightarrow> occupied_other w i t text opts pending sc
      | Some r \<Rightarrow> if sd_text r = text then do { a \<leftarrow> resume_same_text w i t text pending sc r; ret (Some a) }
          else occupied_other w i t text opts pending sc) ?Q s1"
      using mem other [of pending s1] by (cases r; cases "so_resume opts"; simp only: if_True if_False option.case)
  qed
  have empty: "wp (resume_empty w i t text) ?Q s" if "so_resume opts"
    unfolding resume_empty_def
  proof (rule wp_bindI [OF record_of_resumable [OF assms, where opts = opts]])
    fix r :: "stranded_record option" and s1 :: send_state
    assume mem: "\<forall>rec. r = Some rec \<longrightarrow> so_resume opts \<longrightarrow> rec \<in> ?R"
    have scan: "wp (do { (result, via, err) \<leftarrow> scan_transcript w (sd_transcript_path rec, sd_transcript_offset rec) text;
        ret (result = ScanMatched) })
        (\<lambda>ok s'. ok \<longrightarrow> scanned_at w text (sd_transcript_path rec, sd_transcript_offset rec) (ss_log s')) s1" for rec
      unfolding scan_transcript_def scanned_at_def
      by (auto simp: wp_rules split: prod.split intro!: exI [of _ "[]"])
    have go: "wp (do {
        accepted \<leftarrow>
          (if sd_transcript_path rec = [] then ret False
           else do { (result, via, err) \<leftarrow> scan_transcript w (sd_transcript_path rec, sd_transcript_offset rec) text;
             ret (result = ScanMatched) });
        if accepted then
          do { change w (\<lambda>now. forgetStranded i); trace (\<lambda>tr. tr\<lparr>tr_resumed := True\<rparr>); ret (Some (queued ConfirmedOnEmptyComposer)) }
        else if sd_never_rendered rec then do { trace (\<lambda>tr. tr\<lparr>tr_resumed := True\<rparr>); ret None }
        else ret (Some (unknown EmptyComposerUnconfirmed)) }) ?Q s1" if rec: "rec \<in> ?R" "sd_text rec = text" for rec
    proof (rule wp_bindI [where P = "\<lambda>ok s'. ok \<longrightarrow> scanned_at w text (sd_transcript_path rec, sd_transcript_offset rec) (ss_log s')"])
      show "wp (if sd_transcript_path rec = [] then ret False
           else do { (result, via, err) \<leftarrow> scan_transcript w (sd_transcript_path rec, sd_transcript_offset rec) text;
             ret (result = ScanMatched) })
          (\<lambda>ok s'. ok \<longrightarrow> scanned_at w text (sd_transcript_path rec, sd_transcript_offset rec) (ss_log s')) s1"
        unfolding wp_if using scan [of rec] by (simp add: wp_ret)
      fix ok :: bool and s2 :: send_state
      assume ok: "ok \<longrightarrow> scanned_at w text (sd_transcript_path rec, sd_transcript_offset rec) (ss_log s2)"
      have "confirmed w i text t ?R s3" if "ss_log s3 = Clock u # ss_log s2" ok for s3 u
        using scanned_later ok that rec unfolding confirmed_def by metis
      then show "wp (if ok then
          do { change w (\<lambda>now. forgetStranded i); trace (\<lambda>tr. tr\<lparr>tr_resumed := True\<rparr>); ret (Some (queued ConfirmedOnEmptyComposer)) }
        else if sd_never_rendered rec then do { trace (\<lambda>tr. tr\<lparr>tr_resumed := True\<rparr>); ret None }
        else ret (Some (unknown EmptyComposerUnconfirmed))) ?Q s2"
        by (simp add: wp_rules)
    qed
    have "wp (if sd_text rec \<noteq> text then ret None else do {
        accepted \<leftarrow>
          (if sd_transcript_path rec = [] then ret False
           else do { (result, via, err) \<leftarrow> scan_transcript w (sd_transcript_path rec, sd_transcript_offset rec) text;
             ret (result = ScanMatched) });
        if accepted then
          do { change w (\<lambda>now. forgetStranded i); trace (\<lambda>tr. tr\<lparr>tr_resumed := True\<rparr>); ret (Some (queued ConfirmedOnEmptyComposer)) }
        else if sd_never_rendered rec then do { trace (\<lambda>tr. tr\<lparr>tr_resumed := True\<rparr>); ret None }
        else ret (Some (unknown EmptyComposerUnconfirmed)) }) ?Q s1" if "rec \<in> ?R" for rec
    proof (cases "sd_text rec = text")
      case True
      show ?thesis by (simp only: True simp_thms if_False) (rule go [OF that True])
    qed (simp add: wp_ret)
    then show "wp (case r of
        None \<Rightarrow> ret None
      | Some r \<Rightarrow> if sd_text r \<noteq> text then ret None else do {
        accepted \<leftarrow>
          (if sd_transcript_path r = [] then ret False
           else do { (result, via, err) \<leftarrow> scan_transcript w (sd_transcript_path r, sd_transcript_offset r) text;
             ret (result = ScanMatched) });
        if accepted then
          do { change w (\<lambda>now. forgetStranded i); trace (\<lambda>tr. tr\<lparr>tr_resumed := True\<rparr>); ret (Some (queued ConfirmedOnEmptyComposer)) }
        else if sd_never_rendered r then do { trace (\<lambda>tr. tr\<lparr>tr_resumed := True\<rparr>); ret None }
        else ret (Some (unknown EmptyComposerUnconfirmed)) }) ?Q s1"
      using mem that by (cases r) (simp_all only: option.case wp_ret queues_simps simp_thms)
  qed
  show ?thesis
    using occ empty unfolding before_paste_def
    by (cases "composerText sc") (auto simp: wp_ret)
qed

lemma confirmed_means:
  assumes "confirmed w i text t (resumable opts i t d) s'"
  shows "(\<exists>later via err rest src. ss_log s' = later @ Scanned ScanMatched via err # rest \<and>
        transcriptTailScanKind (tr_parse (w_transcripts w rest)) (tr_tail (w_transcripts w rest) (fst src) (snd src)) text =
          (ScanMatched, via, err) \<and>
        (Source (Some src) \<in> set (ss_log s') \<or>
         (\<exists>r. so_resume opts \<and> (i, r) \<in> set (dm_stranded d) \<and> sd_cwd r = pt_cwd t \<and> sd_text r = text \<and>
           src = (sd_transcript_path r, sd_transcript_offset r)))) \<or>
    (Keys (pt_pane t) [''Space'', ''C-m''] True \<in> set (ss_log s') \<and>
        (\<exists>sc. since_keys (ss_log s') = Some (Some sc) \<and> (composerText sc = Holds [] \<or>
          (\<exists>land seen c. Captured (pt_pane t) (Some seen) \<in> set (ss_log s') \<and> held_on (w_lib w) seen text c = Some land \<and>
             own_check (w_lib w) i text (pt_pane t) (resumable opts i t d) (ss_log s') c \<and>
             count_list (composerMarkers (w_lib w) sc) (ln_key land) < ln_at_count land))))" (is "?read \<or> ?shown")
proof -
  let ?l = "ss_log s'" and ?R = "resumable opts i t d"
  from assms show ?thesis
    unfolding confirmed_def
  proof (elim disjE)
    assume "\<exists>src. scanned_at w text src ?l \<and> (Source (Some src) \<in> set ?l \<or>
        (\<exists>r \<in> ?R. sd_text r = text \<and> src = (sd_transcript_path r, sd_transcript_offset r)))"
    then obtain src where src: "scanned_at w text src ?l" and from_whom: "Source (Some src) \<in> set ?l \<or>
        (\<exists>r \<in> ?R. sd_text r = text \<and> src = (sd_transcript_path r, sd_transcript_offset r))" by blast
    then obtain later via err rest where scan: "?l = later @ Scanned ScanMatched via err # rest"
        "transcriptTailScanKind (tr_parse (w_transcripts w rest)) (tr_tail (w_transcripts w rest) (fst src) (snd src)) text =
          (ScanMatched, via, err)" unfolding scanned_at_def by blast
    have "Source (Some src) \<in> set ?l \<or> (\<exists>r. so_resume opts \<and> (i, r) \<in> set (dm_stranded d) \<and>
        sd_cwd r = pt_cwd t \<and> sd_text r = text \<and> src = (sd_transcript_path r, sd_transcript_offset r))"
      using from_whom unfolding resumable_def by blast
    with scan have ?read by blast
    then show ?thesis by (rule disjI1)
  next
    assume "Keys (pt_pane t) submitKeys True \<in> set ?l \<and> (\<exists>land. own_land w i text t ?R land s' \<and> screen_confirms (w_lib w) land ?l)"
    then obtain land sc where keys: "Keys (pt_pane t) [''Space'', ''C-m''] True \<in> set ?l" and land: "own_land w i text t ?R land s'"
      and sc: "since_keys ?l = Some (Some sc)" "composerText sc = Holds [] \<or>
        0 < ln_at_count land \<and> count_list (composerMarkers (w_lib w) sc) (ln_key land) < ln_at_count land"
      unfolding screen_confirms_def submitKeys_def by blast
    from sc(2) land have "composerText sc = Holds [] \<or>
          (\<exists>land seen c. Captured (pt_pane t) (Some seen) \<in> set ?l \<and> held_on (w_lib w) seen text c = Some land \<and>
             own_check (w_lib w) i text (pt_pane t) ?R ?l c \<and>
             count_list (composerMarkers (w_lib w) sc) (ln_key land) < ln_at_count land)"
      unfolding own_land_def by (cases "ln_at_count land = 0") (simp, blast)
    with keys sc(1) have ?shown by blast
    then show ?thesis by (rule disjI2)
  qed
qed

text \<open>
  C4: A delivery that was to be submitted is reported queued only when its submit is confirmed. Either the
  session's transcript, read from the place that this call or the resumed record noted before the
  submit, recorded the text (by the matching of C22); or the keys were sent and the latest capture,
  taken after them, shows the composer empty, or fewer copies of the marker this delivery's text has
  landed as than when it landed.
\<close>

theorem queued_is_confirmed:
  assumes "run_state (deliverViaPane w ignorable i text opts) s = (Inr r, s')" and "re_outcome r = OutcomeQueued"
    and "so_submit opts" and "ss_log s = []"
  shows "\<exists>rows captures t. w_enumerate w [] = Some (rows, captures) \<and> find (\<lambda>r. pt_session r = i) rows = Some t \<and>
    ((\<exists>later via err rest src. ss_log s' = later @ Scanned ScanMatched via err # rest \<and>
        transcriptTailScanKind (tr_parse (w_transcripts w rest)) (tr_tail (w_transcripts w rest) (fst src) (snd src)) text =
          (ScanMatched, via, err) \<and>
        (Source (Some src) \<in> set (ss_log s') \<or>
         (\<exists>r. so_resume opts \<and> (i, r) \<in> set (dm_stranded (ss_memory s)) \<and> sd_cwd r = pt_cwd t \<and> sd_text r = text \<and>
           src = (sd_transcript_path r, sd_transcript_offset r)))) \<or>
     (Keys (pt_pane t) [''Space'', ''C-m''] True \<in> set (ss_log s') \<and>
        (\<exists>sc. since_keys (ss_log s') = Some (Some sc) \<and> (composerText sc = Holds [] \<or>
          (\<exists>land seen c. Captured (pt_pane t) (Some seen) \<in> set (ss_log s') \<and> held_on (w_lib w) seen text c = Some land \<and>
             own_check (w_lib w) i text (pt_pane t) (resumable opts i t (ss_memory s)) (ss_log s') c \<and>
             count_list (composerMarkers (w_lib w) sc) (ln_key land) < ln_at_count land)))))"
proof -
  let ?ok = "\<lambda>t s'. confirmed w i text t (resumable opts i t (ss_memory s)) s'"
  have on: "wp (deliver_on w ignorable i t text opts sc) (\<lambda>a s'. says OutcomeQueued a \<longrightarrow> ?ok t s') s1"
    if "ss_memory s1 = ss_memory s" for t sc s1
    unfolding deliver_on_def
    by (rule wp_bindI [OF before_paste_confirmed [OF that]])
      (auto simp: wp_ret paste_confirmed [OF assms(3)] split: option.split)
  have no: "wp (not_receptive w t blocked) (\<lambda>a s'. says OutcomeQueued a \<longrightarrow> ?ok t s') s1" for t blocked s1
    unfolding not_receptive_def by (rule never_queues, intro yields_rules) simp_all
  have deliver: "wp (deliver_to w ignorable i t captures text opts) (\<lambda>a s'. says OutcomeQueued a \<longrightarrow> ?ok t s') s1"
    if "ss_memory s1 = ss_memory s" for t captures s1
  proof -
    have "wp (do { captured \<leftarrow> captureForClassify w (pt_pane t); deliver_on w ignorable i t text opts
        (case captured of Some sc \<Rightarrow> sc | None \<Rightarrow> capture_screen (captures (pt_pane t))) })
        (\<lambda>a s'. says OutcomeQueued a \<longrightarrow> ?ok t s') s2" if "ss_memory s2 = ss_memory s" for s2
      unfolding wp_bind wp_capture by (rule on) (use that in simp)
    then show ?thesis
      unfolding deliver_to_def
      by (intro wp_bindI [OF keepsD [OF unchanged.keeps_waits(1) that]]) (simp add: no split: prod.split)
  qed
  have "wp (deliverViaPane w ignorable i text opts) (\<lambda>a s'. says OutcomeQueued a \<longrightarrow>
      (\<exists>rows captures t. w_enumerate w (ss_log s) = Some (rows, captures) \<and> find (\<lambda>r. pt_session r = i) rows = Some t \<and> ?ok t s')) s"
    unfolding deliverViaPane_def wp_bind wp_ask
    by (auto simp: wp_ret split: option.split intro!: wp_mono [OF deliver])
  from wp_run [OF this assms(1)] assms(2,4) obtain rows captures t
    where t: "w_enumerate w [] = Some (rows, captures)" "find (\<lambda>r. pt_session r = i) rows = Some t" and ok: "?ok t s'"
    by (auto simp: says_def)
  from confirmed_means [OF ok] t show ?thesis by blast
qed

end
