(* ===== verification/DeliverDemo.thy ===== *)
theory DeliverDemo
  imports EndProof ClearProof QueuedProof
begin

text \<open>
  The properties of a delivery at work: a pane whose composer holds what was pasted into it until the
  keys that submit or clear it, and the deliveries it is given.
\<close>

section \<open>A pane\<close>

text \<open>What the composer holds, and a clock that a wait moves.\<close>

fun composer_after :: "string \<Rightarrow> events \<Rightarrow> string" where
  "composer_after c [] = c"
| "composer_after c (e # l) =
     (case e of Pasted _ b _ \<Rightarrow> composer_after c l @ b | Keys _ _ _ \<Rightarrow> [] | _ \<Rightarrow> composer_after c l)"

fun demo_now :: "events \<Rightarrow> timestamp" where
  "demo_now [] = hour"
| "demo_now (Slept d c # l) = demo_now l + max 0 d"
| "demo_now (e # l) = demo_now l"

definition demo_out :: "string \<Rightarrow> string" where
  "demo_out c = paint ([demo_rule] @ composer_rows (if c = [] then [] else [c]) @ [demo_rule]) @ ''nH3''"

definition demo_screen :: "string \<Rightarrow> screen" where
  "demo_screen c = capture_screen (splitHeightTrailer (demo_out c) ''nH'')"

definition demo_pane :: pane_target where
  "demo_pane = \<lparr>pt_session = ''s'', pt_pane = ''%1'', pt_cwd = ''/w'', pt_created = 0, pt_dead = False\<rparr>"

definition demo_fuel :: nat where "demo_fuel = 27"

definition demo_world :: "string \<Rightarrow> world" where
  "demo_world c =
     \<lparr>w_lib = demo_lib, w_fuel = Suc demo_fuel,
      w_enumerate = (\<lambda>l. Some ([demo_pane], \<lambda>p. \<lparr>pc_text = [], pc_height = 0\<rparr>)),
      w_nonce = (\<lambda>l. ''n''), w_capture = (\<lambda>l p mark. Some (demo_out (composer_after c l))),
      w_now = demo_now, w_sleep = (\<lambda>l d. False), w_cancelled = (\<lambda>l. False), w_preempted = (\<lambda>l i. False),
      w_foreground = (\<lambda>l p. Some ''%1|ttys1|claude''), w_ps = (\<lambda>l tty. None),
      w_paste_flag = (\<lambda>l p. Some ''1''), w_stage = (\<lambda>l. True), w_paste = (\<lambda>l p b. True),
      w_keys = (\<lambda>l p ks. True), w_source = (\<lambda>l i. None), w_transcripts = (\<lambda>l. no_transcripts)\<rparr>"

definition demo_start :: send_state where
  "demo_start = \<lparr>ss_log = [], ss_memory = fresh_memory True,
     ss_trace = \<lparr>tr_stranded = False, tr_resumed = False, tr_draft_kept = False, tr_busy = False, tr_confirmed_by = SignalNone\<rparr>,
     ss_spent = False\<rparr>"

definition plain_send :: send_options where
  "plain_send = \<lparr>so_submit = True, so_resume = False, so_replace = False, so_expect = []\<rparr>"

text \<open>What its screens say.\<close>

lemma demo_screens:
  "composerText (demo_screen []) = Holds []" "composerText (demo_screen ''hi'') = Holds ''hi''"
  "awaitingSelection demo_lib (demo_screen []) = False" "awaitingSelection demo_lib (demo_screen ''hi'') = False"
  "selectionPrompt demo_lib (demo_screen []) = None" "selectionPrompt demo_lib (demo_screen ''hi'') = None"
  "composerMarkers demo_lib (demo_screen []) = []" "composerMarkers demo_lib (demo_screen ''hi'') = []"
  by code_simp+

lemma demo_landings:
  "held_on demo_lib (demo_screen []) ''hi'' (fresh_check ''s'' []) = None"
  "map_option ln_ok (held_on demo_lib (demo_screen ''hi'') ''hi'' (fresh_check ''s'' [])) = Some True"
  by code_simp+

lemma demo_doubt: "foreground_doubt_of (Some ''%1|ttys1|claude'') (\<lambda>tty. None) = None"
  by code_simp

lemma demo_text: "sanitizeForBracketedPaste ''hi'' = ''hi''" "TrimSpace ''hi'' = ''hi''" "TrimSpace ''1'' = ''1''"
  by code_simp+

lemma demo_sees: "pane_screen (demo_world c) pane l = Some (demo_screen (composer_after c l))"
  by (simp add: pane_screen_def demo_world_def demo_screen_def)

lemma demo_fields [simp]:
  "w_lib (demo_world c) = demo_lib" "w_fuel (demo_world c) = Suc demo_fuel"
  "w_enumerate (demo_world c) = (\<lambda>l. Some ([demo_pane], \<lambda>p. \<lparr>pc_text = [], pc_height = 0\<rparr>))"
  "w_sleep (demo_world c) = (\<lambda>l d. False)" "w_cancelled (demo_world c) = (\<lambda>l. False)"
  "w_preempted (demo_world c) = (\<lambda>l i. False)" "w_paste_flag (demo_world c) = (\<lambda>l p. Some ''1'')"
  "w_stage (demo_world c) = (\<lambda>l. True)" "w_paste (demo_world c) = (\<lambda>l p b. True)" "w_keys (demo_world c) = (\<lambda>l p ks. True)"
  "w_source (demo_world c) = (\<lambda>l i. None)" "w_now (demo_world c) = demo_now"
  "w_foreground (demo_world c) = (\<lambda>l p. Some ''%1|ttys1|claude'')" "w_ps (demo_world c) = (\<lambda>l tty. None)"
  "w_transcripts (demo_world c) = (\<lambda>l. no_transcripts)"
  by (simp_all add: demo_world_def)

lemma demo_pane_fields [simp]:
  "pt_session demo_pane = ''s''" "pt_pane demo_pane = ''%1''" "pt_cwd demo_pane = ''/w''" "\<not> pt_dead demo_pane"
  by (simp_all add: demo_pane_def)



text \<open>How a delivery is computed here.\<close>

lemmas demo_steps = deliverViaPane_def deliver_to_def awaitReceptive_def receptive_def receptive_on_def deliver_on_def
  before_paste_def loneDigit_def change_def wp_rules demo_sees demo_screens demo_doubt demo_text demo_start_def

lemmas demo_paste_steps = paste_and_submit_def paste_now_def after_paste_def landV2_def pasteBracketed_def
  bracketPasteFlag_def preempted_def land_sight_def

lemmas demo_submit_steps = submit_landed_def checked_submit_def preSubmitCheck_def pre_submit_on_def press_def
  confirm_landed_def confirmSubmittedFromSourceTurn_def confirmSubmitted_def submitted_on_def

section \<open>A delivery that arrives\<close>

lemma demo_checks: "lc_session (fresh_check i before) = i"
  by (simp add: fresh_check_def)

lemma demo_no_command: "\<not> isSessionCommand (\<lambda>r. False) ''hi''"
  by code_simp

definition demo_sight :: "string \<Rightarrow> event" where
  "demo_sight c = Captured ''%1'' (Some (demo_screen c))"

definition log_before_paste :: events where
  "log_before_paste = [Staged True, PasteFlag ''%1'' (Some ''1''), demo_sight [], Foreground ''%1'' True, demo_sight [],
     demo_sight [], Clock hour, Listed True]"

definition log_before_submit :: events where
  "log_before_submit = [demo_sight ''hi'', Foreground ''%1'' True, Preempted False, Source None, demo_sight ''hi'',
     Preempted False, Clock hour, Clock hour]"

definition log_after_submit :: events where
  "log_after_submit = [Clock hour, Clock hour, demo_sight [], Clock hour]"

lemma demo_delivered:
  "wp (deliverViaPane (demo_world []) (\<lambda>r. False) ''s'' ''hi'' plain_send) (\<lambda>a s'.
     a = queued (SubmitRegistered NoTranscript False) \<and>
     ss_log s' = log_after_submit @ Keys ''%1'' submitKeys True # log_before_submit @ Pasted ''%1'' ''hi'' True # log_before_paste)
     demo_start"
proof -
  obtain land where land: "held_on demo_lib (demo_screen ''hi'') ''hi'' (fresh_check ''s'' []) = Some land" "ln_ok land"
    using demo_landings(2) by auto
  show ?thesis
    by (simp add: demo_steps demo_paste_steps demo_submit_steps land demo_no_command demo_checks plain_send_def on_screen_def
        log_before_paste_def log_before_submit_def log_after_submit_def demo_sight_def)
qed

lemma demo_run:
  obtains s' where "run_state (deliverViaPane (demo_world []) (\<lambda>r. False) ''s'' ''hi'' plain_send) demo_start =
      (queued (SubmitRegistered NoTranscript False), s')"
    and "ss_log s' = log_after_submit @ Keys ''%1'' submitKeys True # log_before_submit @ Pasted ''%1'' ''hi'' True # log_before_paste"
  using demo_delivered by (auto simp: wp_def split: prod.splits)

lemma demo_start_fresh: "ss_log demo_start = []" "\<not> ss_spent demo_start"
  by (simp_all add: demo_start_def)

lemma submit_is_guarded_witness:
  "\<exists>rest. log_before_submit @ Pasted ''%1'' ''hi'' True # log_before_paste = demo_sight ''hi'' # Foreground ''%1'' True # rest \<and>
     held_on demo_lib (demo_screen ''hi'') ''hi'' (fresh_check ''s'' []) \<noteq> None"
proof -
  obtain s' where s': "run_state (deliverViaPane (demo_world []) (\<lambda>r. False) ''s'' ''hi'' plain_send) demo_start =
      (queued (SubmitRegistered NoTranscript False), s')"
    and log: "ss_log s' = log_after_submit @ Keys ''%1'' submitKeys True # log_before_submit @ Pasted ''%1'' ''hi'' True # log_before_paste"
    by (rule demo_run)
  have "\<not> so_resume plain_send" by (simp add: plain_send_def)
  with submit_is_guarded [OF s' demo_start_fresh(1) log [unfolded submitKeys_def]] show ?thesis
    by (auto simp: log_before_submit_def log_before_paste_def demo_sight_def demo_screens demo_text Cons_eq_append_conv)
qed

lemma paste_is_over_nothing_witness:
  "\<exists>t shown. t = demo_pane \<and> latest_capture (drop 4 log_before_paste) = Some shown \<and>
     composerText (the_default (capture_screen \<lparr>pc_text = [], pc_height = 0\<rparr>) shown) \<in> {Holds [], HasNone}"
proof -
  obtain s' where s': "run_state (deliverViaPane (demo_world []) (\<lambda>r. False) ''s'' ''hi'' plain_send) demo_start =
      (queued (SubmitRegistered NoTranscript False), s')"
    and log: "ss_log s' = log_after_submit @ Keys ''%1'' submitKeys True # log_before_submit @ Pasted ''%1'' ''hi'' True # log_before_paste"
    by (rule demo_run)
  have "ss_log s' = (log_after_submit @ Keys ''%1'' submitKeys True # log_before_submit) @ Pasted ''%1'' ''hi'' True # log_before_paste"
    using log by simp
  from paste_is_over_nothing [OF s' demo_start_fresh(1) this] show ?thesis
    by (auto simp: log_before_paste_def)
qed

lemma queued_is_confirmed_witness:
  "\<exists>sc. since_keys (log_after_submit @ [Keys ''%1'' submitKeys True]) = Some (Some sc) \<and> composerText sc = Holds []"
proof -
  obtain s' where s': "run_state (deliverViaPane (demo_world []) (\<lambda>r. False) ''s'' ''hi'' plain_send) demo_start =
      (Inr \<lparr>re_outcome = OutcomeQueued, re_reason = SubmitRegistered NoTranscript False\<rparr>, s')"
    and log: "ss_log s' = log_after_submit @ Keys ''%1'' submitKeys True # log_before_submit @ Pasted ''%1'' ''hi'' True # log_before_paste"
    using demo_run unfolding queued_def by blast
  have "so_submit plain_send" by (simp add: plain_send_def)
  from queued_is_confirmed [OF s' _ this demo_start_fresh(1)] have "\<exists>sc. since_keys (ss_log s') = Some (Some sc)"
    by (auto simp: log log_before_paste_def log_before_submit_def log_after_submit_def demo_sight_def Cons_eq_append_conv)
  then show ?thesis
    by (auto simp: log log_after_submit_def demo_sight_def demo_screens)
qed

lemma delivery_ends_witness:
  "\<not> ss_spent (snd (run_state (deliverViaPane (demo_world ''hi'') (\<lambda>r. False) ''s'' ''hi'' plain_send) demo_start))"
proof (rule delivery_ends [where s = demo_start and a = "fst (run_state (deliverViaPane (demo_world ''hi'') (\<lambda>r. False) ''s'' ''hi'' plain_send) demo_start)"])
  show "w_now (demo_world ''hi'') l \<le> w_now (demo_world ''hi'') (e # l)" for l e by (cases e) simp_all
  show "w_now (demo_world ''hi'') l + d \<le> w_now (demo_world ''hi'') (Slept d False # l)" for l d by simp
  show "28 \<le> w_fuel (demo_world ''hi'')" by (simp add: demo_fuel_def)
  show "\<not> ss_spent demo_start" by (rule demo_start_fresh(2))
qed simp

section \<open>A person's draft\<close>

lemma nothing_on_record: "strandedRecordFor now i cwd (fresh_memory True) = (None, fresh_memory True)"
  by (simp add: strandedRecordFor_def sweepStrandedLocked_def fresh_memory_def)

lemma refused_writes_nothing_witness:
  "\<not> (\<exists>pane bytes ok. Pasted pane bytes ok \<in>
     set (ss_log (snd (run_state (deliverViaPane (demo_world ''hi'') (\<lambda>r. False) ''s'' ''ok'' plain_send) demo_start))))"
proof -
  have "wp (deliverViaPane (demo_world ''hi'') (\<lambda>r. False) ''s'' ''ok'' plain_send)
      (\<lambda>a s'. \<exists>r. a = Inr r \<and> re_outcome r = OutcomeRefused) demo_start"
    by (simp add: demo_steps plain_send_def occupied_composer_def occupied_other_def record_of_def
        nothing_on_record unexplained_draft_def kept_draft_def refused_def split: prod.split)
  then obtain r s' where s': "run_state (deliverViaPane (demo_world ''hi'') (\<lambda>r. False) ''s'' ''ok'' plain_send) demo_start = (Inr r, s')"
    and r: "re_outcome r = OutcomeRefused"
    by (auto simp: wp_def split: prod.splits)
  from refused_writes_nothing [OF s' demo_start_fresh(1) r] s' show ?thesis by simp
qed

section \<open>A composer that stays empty\<close>

definition demo_blind :: world where
  "demo_blind = (demo_world [])\<lparr>w_capture := \<lambda>l p mark. Some (demo_out []), w_cancelled := \<lambda>l. True\<rparr>"

lemma blind_sees: "pane_screen demo_blind pane l = Some (demo_screen [])"
  by (simp add: pane_screen_def demo_blind_def demo_world_def demo_screen_def)

lemma blind_fields [simp]:
  "w_lib demo_blind = demo_lib" "w_fuel demo_blind = Suc demo_fuel"
  "w_enumerate demo_blind = (\<lambda>l. Some ([demo_pane], \<lambda>p. \<lparr>pc_text = [], pc_height = 0\<rparr>))"
  "w_cancelled demo_blind = (\<lambda>l. True)"
  "w_preempted demo_blind = (\<lambda>l i. False)" "w_paste_flag demo_blind = (\<lambda>l p. Some ''1'')"
  "w_stage demo_blind = (\<lambda>l. True)" "w_paste demo_blind = (\<lambda>l p b. True)"
  "w_source demo_blind = (\<lambda>l i. None)" "w_now demo_blind = demo_now"
  "w_foreground demo_blind = (\<lambda>l p. Some ''%1|ttys1|claude'')" "w_ps demo_blind = (\<lambda>l tty. None)"
  by (simp_all add: demo_blind_def)

lemma unknown_is_recorded_witness:
  "\<exists>rec. map_of (dm_stranded (ss_memory (snd (run_state
      (deliverViaPane demo_blind (\<lambda>r. False) ''s'' ''hi'' plain_send) demo_start)))) ''s'' = Some rec \<and>
    sd_text rec = ''hi'' \<and> sd_cwd rec = ''/w''"
proof -
  have "wp (deliverViaPane demo_blind (\<lambda>r. False) ''s'' ''hi'' plain_send)
      (\<lambda>a s'. \<exists>r. a = Inr r \<and> re_outcome r = OutcomeUnknown) demo_start"
    by (simp add: demo_steps demo_paste_steps blind_sees demo_landings demo_no_command demo_checks plain_send_def
        expired_def submitConfirmWindow_def second_def strand_unlanded_def currentComposerDigest_def unknown_def no_landing_def)
  then obtain r s' where s': "run_state (deliverViaPane demo_blind (\<lambda>r. False) ''s'' ''hi'' plain_send) demo_start = (Inr r, s')"
    and r: "re_outcome r = OutcomeUnknown"
    by (auto simp: wp_def split: prod.splits)
  from unknown_is_recorded [OF s' r] s' show ?thesis by (auto simp: demo_start_def split: if_splits)
qed

section \<open>A text of the driver's own\<close>

definition demo_steps_taken :: "draft_op list" where
  "demo_steps_taken = [Strand hour ''s'' ''/w'' ''hi'' [] None no_landing False]"

definition own_draft_start :: send_state where
  "own_draft_start = demo_start\<lparr>ss_memory := run_drafts demo_steps_taken (fresh_memory True)\<rparr>"

definition replacing_send :: send_options where
  "replacing_send = \<lparr>so_submit = True, so_resume = False, so_replace = True, so_expect = []\<rparr>"

lemma demo_rows: "row_blank (demo_screen ''hi'') = False" "clear_presses (fst (composerVisualLines (demo_screen ''hi''))) = 6"
  "composerMatchesText (demo_screen ''hi'') ''hi'' False"
  by code_simp+

lemma own_record:
  "\<exists>rec. strandedRecordFor hour ''s'' ''/w'' (ss_memory own_draft_start) = (Some rec, ss_memory own_draft_start) \<and>
     sd_text rec = ''hi''"
  by (simp add: own_draft_start_def demo_steps_taken_def run_drafts_def noteStrandedLanding_def saveStrandedLocked_def
      strandedRecordFor_def sweepStrandedLocked_def stranded_lapsed_def fresh_memory_def no_landing_def strandedRetention_def hour_def minute_def second_def Let_def)

lemma own_draft_cleared:
  "wp (deliverViaPane (demo_world ''hi'') (\<lambda>r. False) ''s'' ''hi'' replacing_send) (\<lambda>a s'.
     Keys ''%1'' [''End'', ''C-u''] True \<in> set (ss_log s')) own_draft_start"
proof -
  obtain land where land: "held_on demo_lib (demo_screen ''hi'') ''hi'' (fresh_check ''s'' []) = Some land" "ln_ok land"
    using demo_landings(2) by auto
  obtain rec where rec: "strandedRecordFor hour ''s'' ''/w'' (ss_memory own_draft_start) = (Some rec, ss_memory own_draft_start)"
    "sd_text rec = ''hi''" using own_record by blast
  then have "recordProves demo_lib rec ''hi'' (demo_screen ''hi'')" by (simp add: recordProves_def demo_rows)
  moreover have "ss_log own_draft_start = []" "futileClearAttempts hour ''s'' ''/w'' d (ss_memory own_draft_start) = (0, ss_memory own_draft_start)" for d
    by (simp_all add: own_draft_start_def demo_start_def demo_steps_taken_def run_drafts_def noteStrandedLanding_def
        saveStrandedLocked_def futileClearAttempts_def sweepFutileLocked_def fresh_memory_def Let_def)
  ultimately show ?thesis
    using rec
    by (simp add: demo_steps demo_paste_steps demo_submit_steps land demo_no_command demo_checks replacing_send_def on_screen_def
       occupied_composer_def occupied_other_def record_of_def recorded_draft_def tryReplaceStranded_def clear_or_refuse_def
       clearComposer_def demo_rows clear_start_def clear_keys_def clear_rounds.simps(2) [of 5, simplified] composerLineEndKey_def)
qed

lemma clearing_needs_proof_witness:
  "\<exists>placed_text digest. (''s'', ''/w'', placed_text, digest) \<in> placed demo_steps_taken"
proof -
  obtain a s' where s': "run_state (deliverViaPane (demo_world ''hi'') (\<lambda>r. False) ''s'' ''hi'' replacing_send) own_draft_start = (a, s')"
    and "Keys ''%1'' [''End'', ''C-u''] True \<in> set (ss_log s')"
    using own_draft_cleared by (auto simp: wp_def split: prod.splits)
  then obtain later before where log: "ss_log s' = later @ Keys ''%1'' [''End'', ''C-u''] True # before"
    by (auto dest: split_list)
  have start: "ss_log own_draft_start = []" "ss_memory own_draft_start = run_drafts demo_steps_taken (fresh_memory True)"
    by (simp_all add: own_draft_start_def demo_start_def)
  have "so_expect replacing_send = []" by (simp add: replacing_send_def)
  with clearing_needs_proof [OF s' start log] show ?thesis by (auto split: if_splits)
qed

section \<open>What these runs show of the code\<close>

text \<open>
  A paste whose command fails, though the text has arrived, leaves no record of it: the next delivery
  finds a composer that holds the driver's own text and refuses it as a person's.
\<close>

definition paste_fails_late :: world where
  "paste_fails_late = (demo_world [])\<lparr>w_paste := \<lambda>l p b. False\<rparr>"

lemma late_sees: "pane_screen paste_fails_late pane l = Some (demo_screen (composer_after [] l))"
  by (simp add: pane_screen_def paste_fails_late_def demo_world_def demo_screen_def)

lemma failed_paste_is_not_recorded:
  "wp (deliverViaPane paste_fails_late (\<lambda>r. False) ''s'' ''hi'' plain_send) (\<lambda>a s'.
     a = Inl (PasteFailed DeliveringFailed) \<and> dm_stranded (ss_memory s') = [] \<and>
     pane_screen paste_fails_late ''%1'' (ss_log s') = Some (demo_screen ''hi'')) demo_start"
proof -
  have [simp]: "w_lib paste_fails_late = demo_lib" "w_fuel paste_fails_late = Suc demo_fuel"
    "w_enumerate paste_fails_late = (\<lambda>l. Some ([demo_pane], \<lambda>p. \<lparr>pc_text = [], pc_height = 0\<rparr>))"
    "w_paste_flag paste_fails_late = (\<lambda>l p. Some ''1'')" "w_stage paste_fails_late = (\<lambda>l. True)"
    "w_paste paste_fails_late = (\<lambda>l p b. False)" "w_now paste_fails_late = demo_now"
    "w_foreground paste_fails_late = (\<lambda>l p. Some ''%1|ttys1|claude'')" "w_ps paste_fails_late = (\<lambda>l tty. None)"
    by (simp_all add: paste_fails_late_def)
  show ?thesis
    by (simp add: demo_steps demo_paste_steps late_sees plain_send_def fresh_memory_def)
qed

text \<open>
  One press and a caller that has gone: the residue is noted as one that does not move, and a later
  delivery that would clear it is refused for half an hour.
\<close>

definition gone_caller :: world where
  "gone_caller = (demo_world ''hi'')\<lparr>w_capture := \<lambda>l p mark. Some (demo_out ''hi''), w_cancelled := \<lambda>l. True\<rparr>"

lemma gone_sees: "pane_screen gone_caller pane l = Some (demo_screen ''hi'')"
  by (simp add: pane_screen_def gone_caller_def demo_world_def demo_screen_def)

lemma one_press_is_noted_futile:
  "wp (clearComposer gone_caller ''%1'' ''s'' ''/w'' ''hi'' 1 (demo_screen ''hi'')) (\<lambda>a s'.
     ss_log s' = [Clock hour, Cancelled True, demo_sight ''hi'', Keys ''%1'' [''End'', ''C-u''] True] \<and>
     fst (futileClearAttempts hour ''s'' ''/w'' (composerTextDigest demo_lib ''hi'') (ss_memory s')) = 1) demo_start"
proof -
  have [simp]: "w_lib gone_caller = demo_lib" "w_cancelled gone_caller = (\<lambda>l. True)" "w_now gone_caller = demo_now"
    "w_keys gone_caller = (\<lambda>l p ks. True)"
    by (simp_all add: gone_caller_def)
  show ?thesis
    by (simp add: clearComposer_def clear_presses_def clearPressMargin_def maxClearPresses_def
        clear_rounds.simps(2) [of 5, simplified] press_def wp_rules gone_sees demo_screens demo_start_def demo_sight_def
        clear_keys_def clear_start_def demo_rows composerLineEndKey_def clear_observe_def reading_def clear_finish_def change_def
        noteFutile_def futileClearAttempts_def sweepFutileLocked_def fresh_memory_def futileClearRetention_def
        hour_def minute_def second_def Let_def)
qed

text \<open>
  A person types while the driver asks for the process in the foreground. The screen that is read for the
  paste markers, right before the paste, shows the typed text, but only its markers are looked at: the text
  is pasted over it. It does not land, so it is recorded with the digest of what the composer shows,
  the person's text; a later delivery that may replace takes that text for the driver's own.
\<close>

definition typed_meanwhile :: world where
  "typed_meanwhile = (demo_world [])\<lparr>w_capture := \<lambda>l p mark.
     Some (demo_out (if Foreground ''%1'' True \<in> set l then ''hi'' else [])), w_cancelled := \<lambda>l. True\<rparr>"

lemma meanwhile_sees:
  "pane_screen typed_meanwhile pane l = Some (demo_screen (if Foreground ''%1'' True \<in> set l then ''hi'' else []))"
  by (simp add: pane_screen_def typed_meanwhile_def demo_world_def demo_screen_def)

lemma other_text:
  "held_on demo_lib (demo_screen ''hi'') ''yo'' (fresh_check ''s'' []) = None"
  "sanitizeForBracketedPaste ''yo'' = ''yo''" "TrimSpace ''yo'' = ''yo''" "\<not> isSessionCommand (\<lambda>r. False) ''yo''"
  "composerTextDigest demo_lib ''hi'' \<noteq> []"
  by code_simp+

lemma noted_own:
  "\<exists>rec. map_of (dm_stranded (noteStrandedLanding now i cwd msg (composerTextDigest lib pending) src l nr d)) i = Some rec \<and>
     sd_text rec = msg \<and> (composerTextDigest lib pending \<noteq> [] \<longrightarrow> recordProves lib rec pending sc)"
  by (simp add: noteStrandedLanding_def saveStrandedLocked_def Let_def recordProves_def composerDigestMatches_def)

lemma typed_meanwhile_is_taken_for_own:
  "wp (deliverViaPane typed_meanwhile (\<lambda>r. False) ''s'' ''yo'' plain_send) (\<lambda>a s'.
     (\<exists>later before. ss_log s' = later @ Pasted ''%1'' ''yo'' True # Staged True # PasteFlag ''%1'' (Some ''1'') # demo_sight ''hi'' # before) \<and>
     (\<exists>rec. map_of (dm_stranded (ss_memory s')) ''s'' = Some rec \<and> sd_text rec = ''yo'' \<and>
        recordProves demo_lib rec ''hi'' (demo_screen ''hi''))) demo_start"
proof -
  have [simp]: "w_lib typed_meanwhile = demo_lib" "w_fuel typed_meanwhile = Suc demo_fuel"
    "w_enumerate typed_meanwhile = (\<lambda>l. Some ([demo_pane], \<lambda>p. \<lparr>pc_text = [], pc_height = 0\<rparr>))"
    "w_cancelled typed_meanwhile = (\<lambda>l. True)" "w_preempted typed_meanwhile = (\<lambda>l i. False)"
    "w_paste_flag typed_meanwhile = (\<lambda>l p. Some ''1'')" "w_stage typed_meanwhile = (\<lambda>l. True)"
    "w_paste typed_meanwhile = (\<lambda>l p b. True)" "w_source typed_meanwhile = (\<lambda>l i. None)" "w_now typed_meanwhile = demo_now"
    "w_foreground typed_meanwhile = (\<lambda>l p. Some ''%1|ttys1|claude'')" "w_ps typed_meanwhile = (\<lambda>l tty. None)"
    by (simp_all add: typed_meanwhile_def)
  let ?noted = "noteStrandedLanding hour ''s'' ''/w'' ''yo'' (composerTextDigest demo_lib ''hi'') None no_landing False
    (noteDelivery hour ''s'' ''/w'' (fresh_memory True))"
  have "wp (deliverViaPane typed_meanwhile (\<lambda>r. False) ''s'' ''yo'' plain_send) (\<lambda>a s'.
      ss_log s' = [Clock hour, demo_sight ''hi'', Source None, Cancelled True, Clock hour, demo_sight ''hi'', Preempted False,
        Clock hour, Clock hour] @ Pasted ''%1'' ''yo'' True # Staged True # PasteFlag ''%1'' (Some ''1'') # demo_sight ''hi'' #
        [Foreground ''%1'' True, demo_sight [], demo_sight [], Clock hour, Listed True] \<and> ss_memory s' = ?noted) demo_start"
    by (simp add: demo_steps demo_paste_steps meanwhile_sees demo_checks plain_send_def other_text demo_sight_def
        expired_def submitConfirmWindow_def second_def strand_unlanded_def currentComposerDigest_def unknown_def no_landing_def)
  moreover have "\<exists>rec. map_of (dm_stranded ?noted) ''s'' = Some rec \<and> sd_text rec = ''yo'' \<and>
      recordProves demo_lib rec ''hi'' (demo_screen ''hi'')"
    using noted_own [of hour "''s''" "''/w''" "''yo''" demo_lib "''hi''" None no_landing False _ "demo_screen ''hi''"] other_text(5)
    by blast
  ultimately show ?thesis
    by (elim wp_mono) (simp only: , blast)
qed

end
