(* ===== verification/Spec2Isabelle.thy ===== *)
theory Spec2Isabelle
  imports Listing Authorization Pump PeerStream PeerDown Create DeliverDemo
begin

text \<open>
  A verification development for \<open>muster\<close>, a service that owns coding-agent sessions on one
  machine, answers for them over an HTTP API and federates with the same service on other machines.
  Callers talk to the service (\<open>internal/service\<close>); the service asks drivers: the tmux driver
  (\<open>internal/drivers/tmux\<close>) reads and types into terminal panes, the remote driver
  (\<open>internal/drivers/remote\<close>) asks a peer service. Documents survive restarts through
  \<open>internal/state\<close>. The root package of the module holds the vocabulary they exchange.

  \<^bold>\<open>Shared vocabulary and library.\<close> \<open>Prelude\<close>: Go maps as association lists (the locale
  \<open>keyed_table\<close>, interpreted on their operations), instants and durations as integers with
  \<open>time.Time.Sub\<close>'s saturation, string predicates. \<open>Fleet\<close>: sessions, states, prompts, events
  (\<open>session.go\<close>, \<open>state.go\<close>, \<open>prompt.go\<close>, \<open>events.go\<close> and others). \<open>Backoff\<close>: the locale
  \<open>retry_delay\<close>, the contract of every retry loop's delay, interpreted on the pump's, the peer
  stream's and the down probe's own step functions. \<open>GoText\<close>: what the screen readers use of Go's
  \<open>strings\<close>, \<open>utf8\<close> and \<open>unicode\<close>; the tables of \<open>unicode\<close>, the hash and the printed form of
  durations are the parameter \<open>golib\<close>.

  \<^bold>\<open>The event feed.\<close> \<open>EventHub\<close> is \<open>service/events.go\<close>: the ring, the subscribers' channels, the
  persisted cursor, the life of the driver stream. \<open>RenamePlane\<close> is \<open>rename_corroboration.go\<close>.
  \<open>EventFeed\<close> states the abstract feed that forgets nothing and the relation of the hub to it;
  \<open>HubRun\<close> runs all operations in any order and proves that no subscriber loses an event silently,
  that resumption from a cursor of this process replays exactly, when a resync is announced, and that
  cursors stay fresh over a restart. \<open>Pump\<close> is the loop that carries a driver's stream into the hub, \<open>PeerStream\<close> the stream
  of a peer over its interruptions (\<open>remote/subscribe.go\<close>): one unbroken piece of its feed from the first
  event on. \<open>PeerDown\<close> is what is remembered of a peer that does not answer (\<open>remote/down.go\<close>, and how a
  failed call is judged in \<open>remote.go\<close>).

  \<^bold>\<open>Listings and what they leave behind.\<close> \<open>Listing\<close>: which driver answers for a session and the
  fleet listing. \<open>History\<close>: seen and closed sessions (\<open>history.go\<close>); every session a listing knew
  is accounted for until the retention is over, every tombstone has a reason. \<open>LabelStore\<close>: labels
  (\<open>labels.go\<close>) of a run with another known start are never handed out. \<open>SessionRecords\<close>: the driver's own records, identity
  assertions and the repair of drifted names (\<open>reconcile.go\<close>); within one process a rename war ends.

  \<^bold>\<open>Requests.\<close> \<open>Authorization\<close>: principals, grants, the middleware of all routes, the audit trail
  (\<open>auth.go\<close>, \<open>audit.go\<close>, \<open>http.go\<close>). \<open>Limits\<close>: deadlines, waits and cursors that come from a
  caller; the deadline is a 64-bit product, exact up to its range and then
  wrapping.

  \<^bold>\<open>Creating a session.\<close> \<open>Naming\<close> (\<open>naming.go\<close>), \<open>CreateChecks\<close> (\<open>sessionenv.go\<close>,
  \<open>environment.go\<close>, \<open>settings.go\<close> and the checks of \<open>Driver.Create\<close>), \<open>Create\<close> (idempotency keys
  and the handler, with kills between any two of its steps and restarts; creates do not overlap, and the
  premises under which a key has one agent are stated with it). The staged environment is read back by
  the wrapper's shell loop, whose own variable is one of those a caller may name. \<open>DocStore\<close>: \<open>Save\<close> and \<open>Load\<close>
  over a directory whose contents reach the disk only at a sync, as a refinement of a map from names
  to documents.

  \<^bold>\<open>Reading a screen.\<close> \<open>Screen\<close>: a capture as rows without escape sequences, the composer between
  its rules (\<open>classify.go\<close> to line 735). \<open>NfcLite\<close>: composing letters with their marks
  (\<open>nfclite.go\<close>), which undoes their decomposition. \<open>PreviewPane\<close>, \<open>FeedbackCard\<close>, \<open>PromptMenu\<close>: the dialogs a pane may show
  (\<open>previewpane.go\<close>, \<open>feedbackcard.go\<close>, the menus of \<open>classify.go\<close>). \<open>Classify\<close>: what the session is
  doing, from one capture and the memory of the last; the classifier says \<open>idle\<close>, the word on which
  callers deliver input, only when it is confirmed (what a listing makes of a limit notice afterwards
  is not modelled).

  \<^bold>\<open>Texts of the driver's own.\<close> \<open>DraftText\<close>: what is pasted, and when a composer shows it
  (\<open>composertext.go\<close>, \<open>terminalpath2.go\<close>). \<open>Transcript\<close>: the runtime's transcript as evidence of a
  delivery (\<open>terminalpath2_transcript.go\<close>, \<open>inbox_confirm.go\<close>). \<open>DraftRecords\<close>: what the driver
  remembers of texts it put into composers (\<open>tmux.go\<close>, \<open>draftrule.go\<close>, \<open>route.go\<close>), over renames,
  failed saves and restarts; its expiring tables are instances of the locale \<open>retained\<close> of
  \<open>Retention\<close>. \<open>DraftProof\<close>: the records prove only texts noted as placed, or content whose
  digest was noted with such a text, and they survive a restart.

  \<^bold>\<open>Sending a text.\<close> \<open>PaneWorld\<close>: the world a delivery acts in, a record of functions that answer
  every question from the events so far, so that the pane may change between any two looks; operations
  are state monads over the log of events, the draft records and the trace, and a calculus of weakest
  preconditions computes them. \<open>Deliver\<close> is \<open>deliverViaPane\<close> of \<open>tmux.go\<close> with all it calls: waiting
  for a composer, proving and clearing what it holds, pasting, checking that the text landed, the check
  before the submit, the confirmation (\<open>terminalpath2.go\<close>, \<open>terminalpath2_transcript.go\<close>,
  \<open>foreground.go\<close>). \<open>DeliverProof\<close>: the submit keys are pressed at most once, and right after a
  capture that shows the text this call pasted, or the one on record that it resumes; the paste
  happens at most once, over a screen that was decided on as empty; \<open>ClearProof\<close>: nothing is cleared
  without proof on the very screen that was decided on; \<open>ReceiptProof\<close> and \<open>QueuedProof\<close>: refused,
  unknown and queued mean what they say; \<open>EndProof\<close>: no polling loop outlasts 28 rounds, which is the fuel
  (27 waits of 150 ms outlast the window of four seconds). \<open>DeliverDemo\<close> runs deliveries on a pane and
  applies the theorems there; it also shows a text typed at the moment of the paste being pasted over
  and then taken for the driver's own. A new operation on a pane is a state monad over the same events, and its
  safety is an instance of the locale \<open>single_event\<close> or \<open>event_invariant\<close>.

  \<^bold>\<open>Conventions.\<close> State is passed explicitly in records; an operation that takes a lock is one step;
  runs are folds over lists of steps in any order. Errors are values of a sum, an option or a datatype
  of the component; a slice out of range, a run-time panic of Go, is \<open>None\<close>. The operating system,
  the multiplexer, the clock and peers answer through arguments, so every statement holds for every
  answer of theirs unless a hypothesis says otherwise. Bytes are characters, runes integers; strings
  are byte strings as in Go. Recursions over text end because the text shrinks; retry loops are bounded
  by the constants of the code (64 names, 10000 temporary names), written out as list lengths.

  \<^bold>\<open>Not modelled.\<close> The command line of \<open>cmd/muster\<close>, the doctor and its configuration files; the
  opencode driver; the inbox client and the delivery modules (\<open>modclient\<close>, \<open>modulelane\<close>), which
  speak protocols of programs outside this repository; the compatibility packs; trust seeding; JSON
  forms and the parsing of HTTP requests; in the tmux driver the choice between the pane, the inbox and a
  delivery module, the answering of prompts and the discarding of drafts, and how the transcript and the
  process of a session are found.
\<close>

end
